(* ===== verification/CXL_Prelude.thy ===== *)
theory CXL_Prelude
  imports Main "HOL-Library.Word" "HOL-Library.Multiset"
begin

text \<open>
  Shared vocabulary of the development.

  The simulator stops the process when one of its assertions fails
  (\<^verbatim>\<open>CXL_ASSERT\<close> of \<^verbatim>\<open>include/utils.h\<close>, \<^verbatim>\<open>CXLAssert\<close> of
  \<^verbatim>\<open>src/utils.cpp\<close>, \<^verbatim>\<open>assert\<close> in the DRAM model).  Every operation of the
  model that can reach such an assertion returns a value of the sum type
  \<open>cxl_error + 'a\<close>: \<open>Inl\<close> carries the text of the assertion that fired, \<open>Inr\<close> the
  result.  \<open>bind_r\<close> sequences two operations, \<open>cxl_assert\<close> is the assertion itself.

  The theory also fixes the widths of the machine integers that the code lets wrap
  around (64-bit ids, addresses and counters) and collects the list and multiset facts
  that several components use.
\<close>

section \<open>Collections of rewrite rules\<close>

named_theorems cxl_simps \<open>unfoldings of the small operations of the simulator\<close>
named_theorems cxl_frame \<open>which fields an operation leaves alone\<close>

section \<open>Results\<close>

datatype cxl_error =
    CXL_ASSERT string  \<comment> \<open>an assertion of the CXL layer failed: the process aborts\<close>
  | RAM_ASSERT string  \<comment> \<open>an assertion of the DRAM model failed\<close>
  | NULL_DEREF string  \<comment> \<open>a null pointer was dereferenced\<close>
  | BAD_PARSE string   \<comment> \<open>\<^verbatim>\<open>stoul\<close> threw\<close>

type_synonym 'a result = "cxl_error + 'a"

definition bind_r :: "'a result \<Rightarrow> ('a \<Rightarrow> 'b result) \<Rightarrow> 'b result" where
  "bind_r m f = (case m of Inl e \<Rightarrow> Inl e | Inr x \<Rightarrow> f x)"

definition cxl_assert :: "bool \<Rightarrow> string \<Rightarrow> 'a result \<Rightarrow> 'a result" where
  "cxl_assert c msg k = (if c then k else Inl (CXL_ASSERT msg))"

lemma bind_r_simps [simp]:
  "bind_r (Inl e) f = Inl e"
  "bind_r (Inr x) f = f x"
  by (simp_all add: bind_r_def)

lemma bind_r_eq_Inr [simp]: "bind_r m f = Inr y \<longleftrightarrow> (\<exists>x. m = Inr x \<and> f x = Inr y)"
  by (cases m) auto

lemma bind_r_eq_Inl: "bind_r m f = Inl e \<longleftrightarrow> m = Inl e \<or> (\<exists>x. m = Inr x \<and> f x = Inl e)"
  by (cases m) auto

lemma bind_r_returns: "bind_r m f = Inr y \<Longrightarrow> (\<And>x. m = Inr x \<Longrightarrow> f x = Inr y \<Longrightarrow> P) \<Longrightarrow> P"
  by (cases m) auto

lemma bind_r_assoc: "bind_r (bind_r m f) g = bind_r m (\<lambda>x. bind_r (f x) g)"
  by (cases m) auto

lemma bind_r_cong [fundef_cong]:
  "m = m' \<Longrightarrow> (\<And>x. m' = Inr x \<Longrightarrow> f x = f' x) \<Longrightarrow> bind_r m f = bind_r m' f'"
  by (cases m') auto

lemma cxl_assert_True [simp]: "c \<Longrightarrow> cxl_assert c msg k = k"
  by (simp add: cxl_assert_def)

lemma cxl_assert_False [simp]: "\<not> c \<Longrightarrow> cxl_assert c msg k = Inl (CXL_ASSERT msg)"
  by (simp add: cxl_assert_def)

lemma cxl_assert_eq_Inr [simp]: "cxl_assert c msg k = Inr y \<longleftrightarrow> c \<and> k = Inr y"
  by (simp add: cxl_assert_def)

lemma cxl_assert_eq_Inl:
  "cxl_assert c msg k = Inl e \<longleftrightarrow> (c \<and> k = Inl e) \<or> (\<not> c \<and> e = CXL_ASSERT msg)"
  by (auto simp: cxl_assert_def)

lemma cxl_assert_cong [fundef_cong]:
  "c = c' \<Longrightarrow> (c' \<Longrightarrow> k = k') \<Longrightarrow> cxl_assert c msg k = cxl_assert c' msg k'"
  by (simp add: cxl_assert_def)

definition returns :: "'a result \<Rightarrow> bool" where
  "returns m \<longleftrightarrow> (\<exists>x. m = Inr x)"

lemma returns_simps [simp]: "returns (Inr x)" "\<not> returns (Inl e)"
  by (simp_all add: returns_def)

lemma returns_code [code]: "returns m \<longleftrightarrow> \<not> isl m"
  by (cases m) simp_all

section \<open>Loops that can abort\<close>

fun fold_r :: "('a \<Rightarrow> 's \<Rightarrow> 's result) \<Rightarrow> 'a list \<Rightarrow> 's \<Rightarrow> 's result" where
  "fold_r f [] s = Inr s"
| "fold_r f (x # xs) s = bind_r (f x s) (fold_r f xs)"

lemma fold_r_inv:
  assumes "fold_r f xs s = Inr s'" "P s" "\<And>x s s'. x \<in> set xs \<Longrightarrow> P s \<Longrightarrow> f x s = Inr s' \<Longrightarrow> P s'"
  shows "P s'"
  using assms by (induction xs arbitrary: s) auto

lemma fold_r_append: "fold_r f (xs @ ys) s = bind_r (fold_r f xs s) (fold_r f ys)"
proof (induction xs arbitrary: s)
  case (Cons x xs)
  then have "fold_r f (xs @ ys) = (\<lambda>s. bind_r (fold_r f xs s) (fold_r f ys))" by (rule ext)
  then show ?case by (simp add: bind_r_assoc)
qed simp

section \<open>Machine integers\<close>

type_synonym u64 = "64 word"

text \<open>
  Ticks and credits are signed (\<^verbatim>\<open>int64_t\<close>, \<^verbatim>\<open>int\<close>); their overflow is undefined in
  C++, so they are unbounded \<open>int\<close>s here.  An \<^verbatim>\<open>int\<close> that is compared with a
  \<^verbatim>\<open>size_t\<close> is converted to 64 bits first, which \<open>to_size_t\<close> writes out.
\<close>

definition to_size_t :: "int \<Rightarrow> nat" where
  "to_size_t n = nat (n mod 2 ^ 64)"

lemma to_size_t_nonneg [simp]: "0 \<le> n \<Longrightarrow> n < 2 ^ 64 \<Longrightarrow> to_size_t n = nat n"
  by (simp add: to_size_t_def)

section \<open>Lists and multisets\<close>

lemma length_4_conv: "length xs = 4 \<longleftrightarrow> (\<exists>a b c d. xs = [a, b, c, d])"
proof
  assume "length xs = 4"
  then obtain a b c d where "xs = [a, b, c, d]"
    by (auto simp: numeral_eq_Suc length_Suc_conv)
  then show "\<exists>a b c d. xs = [a, b, c, d]" by blast
qed auto

lemma ex_less_4: "(\<exists>i < (4::nat). P i) \<longleftrightarrow> P 0 \<or> P 1 \<or> P 2 \<or> P 3"
  by (auto simp: numeral_eq_Suc less_Suc_eq)

lemma all_less_4: "(\<forall>i < (4::nat). P i) \<longleftrightarrow> P 0 \<and> P 1 \<and> P 2 \<and> P 3"
  by (auto simp: numeral_eq_Suc less_Suc_eq)

lemma concat_mset_update:
  assumes "i < length xs"
  shows "mset (concat (map f (xs[i := x]))) + mset (f (xs ! i))
       = mset (concat (map f xs)) + mset (f x)"
  using assms
proof (induction xs arbitrary: i)
  case Nil
  then show ?case by simp
next
  case (Cons y ys)
  show ?case
  proof (cases i)
    case 0
    then show ?thesis by simp
  next
    case (Suc j)
    with Cons.IH [of j] Cons.prems show ?thesis by simp
  qed
qed

end
