(* ===== verification/CXL_Buf.thy ===== *)
theory CXL_Buf
  imports CXL_Prelude
begin

text \<open>
  The bounded queue \<^verbatim>\<open>CXLBuf<T>\<close> of \<^verbatim>\<open>include/CXLBuf.h\<close>: every buffer and virtual
  channel of the simulator is one.  The locale \<open>bounded_fifo\<close> is the contract its clients
  rely on: a queue that delivers in order, never holds more than its capacity, and aborts
  on overflow and underflow.  It is interpreted on \<^verbatim>\<open>CXLBuf\<close> here, on the request buffer
  in front of the DRAM model in \<open>CXL_If\<close> and on the bus in \<open>CXL_Bus\<close>.
\<close>

section \<open>The contract of a bounded queue\<close>

locale bounded_fifo =
  fixes contents :: "'q \<Rightarrow> 'a list"
    and cap :: "'q \<Rightarrow> nat"
    and full :: "'q \<Rightarrow> bool"
    and empty :: "'q \<Rightarrow> bool"
    and enq :: "'q \<Rightarrow> 'a \<Rightarrow> 'q result"
    and deq :: "'q \<Rightarrow> 'q result"
    and ok :: "'q \<Rightarrow> bool"
  assumes bounded: "ok q \<Longrightarrow> length (contents q) \<le> cap q"
    and full_iff: "ok q \<Longrightarrow> full q \<longleftrightarrow> length (contents q) = cap q"
    and empty_iff: "empty q \<longleftrightarrow> contents q = []"
    and enq_full: "full q \<Longrightarrow> \<not> returns (enq q x)"
    and enq_returns: "\<not> full q \<Longrightarrow> returns (enq q x)"
    and enq_contents: "enq q x = Inr q' \<Longrightarrow> contents q' = contents q @ [x]"
    and enq_cap: "enq q x = Inr q' \<Longrightarrow> cap q' = cap q"
    and enq_ok: "ok q \<Longrightarrow> enq q x = Inr q' \<Longrightarrow> ok q'"
    and deq_empty: "empty q \<Longrightarrow> \<not> returns (deq q)"
    and deq_returns: "\<not> empty q \<Longrightarrow> returns (deq q)"
    and deq_contents: "deq q = Inr q' \<Longrightarrow> contents q' = tl (contents q)"
    and deq_cap: "deq q = Inr q' \<Longrightarrow> cap q' = cap q"
    and deq_ok: "ok q \<Longrightarrow> deq q = Inr q' \<Longrightarrow> ok q'"
begin

fun enq_all :: "'q \<Rightarrow> 'a list \<Rightarrow> 'q result" where
  "enq_all q [] = Inr q"
| "enq_all q (x # xs) = bind_r (enq q x) (\<lambda>q'. enq_all q' xs)"

text \<open>A client that alternates producing and consuming: \<open>Some x\<close> enqueues, \<open>None\<close>
  dequeues; the second component collects what came out.\<close>

fun run :: "'q \<Rightarrow> 'a option list \<Rightarrow> ('q \<times> 'a list) result" where
  "run q [] = Inr (q, [])"
| "run q (Some x # ops) = bind_r (enq q x) (\<lambda>q'. run q' ops)"
| "run q (None # ops) =
     bind_r (deq q) (\<lambda>q'. bind_r (run q' ops) (\<lambda>(q'', out). Inr (q'', hd (contents q) # out)))"

lemma enq_all_returns:
  "ok q \<Longrightarrow> length (contents q) + length xs \<le> cap q \<Longrightarrow>
     \<exists>q'. enq_all q xs = Inr q' \<and> ok q' \<and> contents q' = contents q @ xs"
proof (induction xs arbitrary: q)
  case Nil
  then show ?case by simp
next
  case (Cons x xs)
  then have "\<not> full q" by (simp add: full_iff)
  then obtain q1 where q1: "enq q x = Inr q1"
    using enq_returns by (auto simp: returns_def)
  have "ok q1" "contents q1 = contents q @ [x]" "cap q1 = cap q"
    using q1 Cons.prems(1) by (auto intro: enq_ok enq_contents enq_cap)
  with Cons.IH [of q1] Cons.prems(2) q1 show ?case by auto
qed

lemma run_fifo:
  "run q ops = Inr (q', out) \<Longrightarrow> out @ contents q' = contents q @ [x. Some x \<leftarrow> ops]"
proof (induction q ops arbitrary: q' out rule: run.induct)
  case (1 q)
  then show ?case by simp
next
  case (2 q x ops)
  then show ?case by (auto dest: enq_contents)
next
  case (3 q ops)
  then obtain q1 out1 where *: "deq q = Inr q1" "run q1 ops = Inr (q', out1)"
    "out = hd (contents q) # out1" by auto
  then have "\<not> empty q" using deq_empty [of q] by (auto simp: returns_def)
  then have "contents q \<noteq> []" by (simp add: empty_iff)
  with * "3.IH" [OF *(1,2)] deq_contents [OF *(1)] show ?case by (cases "contents q") auto
qed

lemma run_bounded: "ok q \<Longrightarrow> run q ops = Inr (q', out) \<Longrightarrow> ok q' \<and> cap q' = cap q"
proof (induction q ops arbitrary: q' out rule: run.induct)
  case (1 q)
  then show ?case by simp
next
  case (2 q x ops)
  then show ?case by (fastforce dest: enq_ok enq_cap)
next
  case (3 q ops)
  then show ?case by (fastforce dest: deq_ok deq_cap)
qed

end

section \<open>CXLBuf\<close>

record 'a CXLBuf =
  buf_size :: int
  buf_q :: "'a list"

definition CXLBuf_new :: "int \<Rightarrow> 'a CXLBuf" where
  "CXLBuf_new sz = \<lparr>buf_size = sz, buf_q = []\<rparr>"

definition is_buf_full :: "'a CXLBuf \<Rightarrow> bool" where
  "is_buf_full b \<longleftrightarrow> length (buf_q b) = to_size_t (buf_size b)"

definition is_buf_empty :: "'a CXLBuf \<Rightarrow> bool" where
  "is_buf_empty b \<longleftrightarrow> buf_q b = []"

definition buf_occupancy :: "'a CXLBuf \<Rightarrow> int" where
  "buf_occupancy b = int (length (buf_q b))"

definition dequeue :: "'a CXLBuf \<Rightarrow> 'a CXLBuf result" where
  "dequeue b =
     cxl_assert (\<not> is_buf_empty b) ''Dequeing from already empty buffer!''
       (Inr (b\<lparr>buf_q := tl (buf_q b)\<rparr>))"

definition enqueue :: "'a CXLBuf \<Rightarrow> 'a \<Rightarrow> 'a CXLBuf result" where
  "enqueue b f =
     cxl_assert (\<not> is_buf_full b) ''Adding to already full buffer!''
       (Inr (b\<lparr>buf_q := buf_q b @ [f]\<rparr>))"

definition get_head :: "'a CXLBuf \<Rightarrow> 'a result" where
  "get_head b =
     cxl_assert (\<not> is_buf_empty b) ''Fetching from empty buffer!'' (Inr (hd (buf_q b)))"

text \<open>Well-formed: the size fits the comparison with \<^verbatim>\<open>size_t\<close>, and the queue does not
  exceed it.\<close>

definition buf_ok :: "'a CXLBuf \<Rightarrow> bool" where
  "buf_ok b \<longleftrightarrow> 0 \<le> buf_size b \<and> buf_size b < 2 ^ 31 \<and> int (length (buf_q b)) \<le> buf_size b"

lemma CXLBuf_new_ok: "0 \<le> sz \<Longrightarrow> sz < 2 ^ 31 \<Longrightarrow> buf_ok (CXLBuf_new sz)"
  by (simp add: buf_ok_def CXLBuf_new_def)

lemma is_buf_full_iff: "buf_ok b \<Longrightarrow> is_buf_full b \<longleftrightarrow> int (length (buf_q b)) = buf_size b"
  unfolding buf_ok_def is_buf_full_def by simp linarith

lemma enqueue_eq_Inr [simp]:
  "enqueue b f = Inr b' \<longleftrightarrow> \<not> is_buf_full b \<and> b' = b\<lparr>buf_q := buf_q b @ [f]\<rparr>"
  by (auto simp: enqueue_def)

lemma dequeue_eq_Inr [simp]:
  "dequeue b = Inr b' \<longleftrightarrow> \<not> is_buf_empty b \<and> b' = b\<lparr>buf_q := tl (buf_q b)\<rparr>"
  by (auto simp: dequeue_def)

lemma get_head_eq_Inr [simp]:
  "get_head b = Inr f \<longleftrightarrow> \<not> is_buf_empty b \<and> f = hd (buf_q b)"
  by (auto simp: get_head_def)

lemma enqueue_returns [simp]: "\<not> is_buf_full b \<Longrightarrow> enqueue b f = Inr (b\<lparr>buf_q := buf_q b @ [f]\<rparr>)"
  by simp

lemma dequeue_returns [simp]: "\<not> is_buf_empty b \<Longrightarrow> dequeue b = Inr (b\<lparr>buf_q := tl (buf_q b)\<rparr>)"
  by simp

lemma get_head_returns [simp]: "\<not> is_buf_empty b \<Longrightarrow> get_head b = Inr (hd (buf_q b))"
  by simp

lemma buf_ok_enqueue: "buf_ok b \<Longrightarrow> \<not> is_buf_full b \<Longrightarrow> buf_ok (b\<lparr>buf_q := buf_q b @ [f]\<rparr>)"
  by (auto simp: buf_ok_def is_buf_full_def)

lemma buf_ok_dequeue: "buf_ok b \<Longrightarrow> buf_ok (b\<lparr>buf_q := tl (buf_q b)\<rparr>)"
  by (auto simp: buf_ok_def)

lemma not_full_iff: "buf_ok b \<Longrightarrow> \<not> is_buf_full b \<longleftrightarrow> int (length (buf_q b)) < buf_size b"
  by (auto simp: is_buf_full_iff buf_ok_def)

interpretation cxlbuf: bounded_fifo buf_q "\<lambda>b. nat (buf_size b)" is_buf_full is_buf_empty
  enqueue dequeue buf_ok
proof unfold_locales
  fix q q' :: "'a CXLBuf" and x
  assume "buf_ok q" and "enqueue q x = Inr q'"
  then show "buf_ok q'" by (auto intro: buf_ok_enqueue)
next
  fix q q' :: "'a CXLBuf"
  assume "buf_ok q" and "dequeue q = Inr q'"
  then show "buf_ok q'" by (auto intro: buf_ok_dequeue)
next
  fix q :: "'a CXLBuf"
  assume "buf_ok q"
  then show "is_buf_full q = (length (buf_q q) = nat (buf_size q))"
    unfolding is_buf_full_iff [OF \<open>buf_ok q\<close>] buf_ok_def by linarith
qed (auto simp: buf_ok_def is_buf_empty_def enqueue_def dequeue_def)

end
