(* ===== verification/Std_Map.thy ===== *)
theory Std_Map
  imports CXL_Prelude
begin

text \<open>
  \<^verbatim>\<open>std::map\<close> as the simulator uses it: a finite map that is iterated in the order of
  its keys (\<^verbatim>\<open>destination_device\<close> takes the first interval that matches), whose
  \<^verbatim>\<open>insert\<close> keeps an existing entry and whose \<^verbatim>\<open>operator[]\<close> creates a
  value-initialised one.  The representation is the list of entries in key order.

  The locale \<open>finite_map\<close> states what the clients rely on; it is interpreted on the
  list representation at the end.
\<close>

section \<open>The interface\<close>

locale finite_map =
  fixes find :: "'m \<Rightarrow> 'k \<Rightarrow> 'v option"
    and put :: "'k \<Rightarrow> 'v \<Rightarrow> 'm \<Rightarrow> 'm"
    and erase :: "'k \<Rightarrow> 'm \<Rightarrow> 'm"
    and count :: "'m \<Rightarrow> nat"
    and ok :: "'m \<Rightarrow> bool"
  assumes find_put: "ok m \<Longrightarrow> find (put k v m) = (find m)(k \<mapsto> v)"
    and find_erase: "ok m \<Longrightarrow> find (erase k m) = (find m)(k := None)"
    and count_find: "ok m \<Longrightarrow> count m = card (dom (find m))"
    and finite_find: "ok m \<Longrightarrow> finite (dom (find m))"
    and ok_put: "ok m \<Longrightarrow> ok (put k v m)"
    and ok_erase: "ok m \<Longrightarrow> ok (erase k m)"
begin

lemma count_put: "ok m \<Longrightarrow> count (put k v m) = (if find m k = None then Suc (count m) else count m)"
  by (auto simp: count_find ok_put find_put finite_find card_insert_if domIff insert_absorb)

lemma count_erase: "ok m \<Longrightarrow> count (erase k m) = (if find m k = None then count m else count m - 1)"
  by (auto simp: count_find ok_erase find_erase finite_find domIff card_Diff_singleton_if)

lemma find_erase_put: "ok m \<Longrightarrow> find m k = None \<Longrightarrow> find (erase k (put k v m)) = find m"
  by (auto simp: find_erase find_put ok_put)

lemma count_zero_iff: "ok m \<Longrightarrow> count m = 0 \<longleftrightarrow> (\<forall>k. find m k = None)"
proof -
  assume "ok m"
  then have "count m = 0 \<longleftrightarrow> dom (find m) = {}"
    by (simp add: count_find finite_find)
  then show ?thesis by auto
qed

end

section \<open>Entries in key order\<close>

type_synonym ('k, 'v) smap = "('k \<times> 'v) list"

definition sm_find :: "('k, 'v) smap \<Rightarrow> 'k \<Rightarrow> 'v option" where
  "sm_find m k = map_of m k"

fun sm_put :: "'k::linorder \<Rightarrow> 'v \<Rightarrow> ('k, 'v) smap \<Rightarrow> ('k, 'v) smap" where
  "sm_put k v [] = [(k, v)]"
| "sm_put k v ((k', v') # m) =
     (if k < k' then (k, v) # (k', v') # m
      else if k = k' then (k, v) # m
      else (k', v') # sm_put k v m)"

definition sm_insert :: "'k::linorder \<Rightarrow> 'v \<Rightarrow> ('k, 'v) smap \<Rightarrow> ('k, 'v) smap" where
  "sm_insert k v m = (if sm_find m k = None then sm_put k v m else m)"

definition sm_erase :: "'k \<Rightarrow> ('k, 'v) smap \<Rightarrow> ('k, 'v) smap" where
  "sm_erase k m = filter (\<lambda>e. fst e \<noteq> k) m"

text \<open>\<open>sm_get\<close> is the value \<^verbatim>\<open>operator[]\<close> reads; a missing key reads the
  value-initialised default.  Writing through the reference is \<open>sm_put\<close>.\<close>

definition sm_get :: "'v \<Rightarrow> ('k, 'v) smap \<Rightarrow> 'k \<Rightarrow> 'v" where
  "sm_get d m k = (case sm_find m k of None \<Rightarrow> d | Some v \<Rightarrow> v)"

definition sm_ok :: "('k::linorder, 'v) smap \<Rightarrow> bool" where
  "sm_ok m \<longleftrightarrow> sorted_wrt (<) (map fst m)"

lemma sm_ok_simps [simp]:
  "sm_ok []"
  "sm_ok ((k, v) # m) \<longleftrightarrow> (\<forall>k' \<in> fst ` set m. k < k') \<and> sm_ok m"
  by (auto simp: sm_ok_def)

lemma sm_find_put [simp]: "sm_find (sm_put k v m) = (sm_find m)(k \<mapsto> v)"
  by (induction k v m rule: sm_put.induct) (auto simp: sm_find_def fun_eq_iff)

lemma fst_set_sm_put: "fst ` set (sm_put k v m) = insert k (fst ` set m)"
  by (induction k v m rule: sm_put.induct) auto

lemma sm_ok_put [simp]: "sm_ok m \<Longrightarrow> sm_ok (sm_put k v m)"
proof (induction k v m rule: sm_put.induct)
  case (2 k v k' v' m)
  have "k' < x" if "\<not> k < k'" "k \<noteq> k'" "x \<in> fst ` set (sm_put k v m)" for x
    using that "2.prems" by (auto simp: fst_set_sm_put)
  moreover have "k < x" if "k < k'" "x \<in> fst ` set m" for x
    using that "2.prems" by (auto dest: less_trans)
  ultimately show ?case using 2 by auto
qed simp

lemma sm_ok_distinct: "sm_ok m \<Longrightarrow> distinct (map fst m)"
  by (simp add: sm_ok_def strict_sorted_iff)

lemma sm_find_erase [simp]: "sm_find (sm_erase k m) = (sm_find m)(k := None)"
  by (induction m) (auto simp: sm_find_def sm_erase_def fun_eq_iff)

lemma sm_ok_erase [simp]: "sm_ok m \<Longrightarrow> sm_ok (sm_erase k m)"
  by (induction m) (auto simp: sm_erase_def)

lemma set_sm_put: "set (sm_put k v m) \<subseteq> insert (k, v) (set m)"
  by (induction k v m rule: sm_put.induct) auto

lemma map_fst_sm_put: "sm_find m k \<noteq> None \<Longrightarrow> sm_ok m \<Longrightarrow> map fst (sm_put k v m) = map fst m"
  by (induction k v m rule: sm_put.induct) (fastforce simp: sm_find_def dest: map_of_SomeD split: if_splits)+

lemma sm_find_iff: "sm_find m k \<noteq> None \<longleftrightarrow> k \<in> fst ` set m"
  by (simp add: sm_find_def map_of_eq_None_iff)

lemma set_sm_put_new: "sm_find m k = None \<Longrightarrow> set (sm_put k v m) = insert (k, v) (set m)"
  by (induction k v m rule: sm_put.induct) (auto simp: sm_find_def split: if_splits)

lemma find_put_mono:
  "find P m \<noteq> None \<Longrightarrow> sm_find m k = None \<Longrightarrow> find P (sm_put k v m) \<noteq> None"
  unfolding find_None_iff by (auto simp: set_sm_put_new)

text \<open>The first entry with a property, if only one has it.\<close>

lemma find_unique:
  "sm_ok m \<Longrightarrow> (k, v) \<in> set m \<Longrightarrow> P (k, v) \<Longrightarrow> (\<And>e. e \<in> set m \<Longrightarrow> P e \<Longrightarrow> e = (k, v)) \<Longrightarrow> find P m = Some (k, v)"
proof (induction m)
  case (Cons e m)
  show ?case
  proof (cases "P e")
    case True
    then show ?thesis using Cons.prems(4) [of e] by simp
  next
    case False
    then have "(k, v) \<in> set m" using Cons.prems(2,3) by auto
    then have "find P m = Some (k, v)"
      using Cons.prems by (intro Cons.IH) (cases e, auto)
    with False show ?thesis by simp
  qed
qed simp

lemma sm_get_insert [simp]: "sm_get d (sm_insert k d m) x = sm_get d m x"
  by (auto simp: sm_get_def sm_insert_def split: option.splits)

lemma sm_get_fold_insert: "sm_get d (fold (\<lambda>i. sm_insert i d) is m) x = sm_get d m x"
  by (induction "is" arbitrary: m) simp_all

lemma sm_get_put: "sm_get d (sm_put k v m) x = (if x = k then v else sm_get d m x)"
  by (simp add: sm_get_def)

interpretation smap: finite_map sm_find sm_put sm_erase length sm_ok
proof unfold_locales
  fix m :: "('a, 'b) smap"
  assume "sm_ok m"
  then have d: "distinct (map fst m)" by (rule sm_ok_distinct)
  have "dom (sm_find m) = set (map fst m)"
    by (auto simp: sm_find_def [abs_def] dom_map_of_conv_image_fst)
  then have "card (dom (sm_find m)) = card (set (map fst m))" by simp
  also have "\<dots> = length m" using distinct_card [OF d] by simp
  finally show "length m = card (dom (sm_find m))" by simp
next
  fix m :: "('a, 'b) smap"
  show "finite (dom (sm_find m))"
    by (simp add: sm_find_def [abs_def] finite_dom_map_of)
qed simp_all

lemma length_sm_put: "sm_ok m \<Longrightarrow> sm_find m k = None \<Longrightarrow> length (sm_put k v m) = Suc (length m)"
  using smap.count_put [of m k v] by simp

end
