(* ===== verification/CXL_Flit.thy ===== *)
theory CXL_Flit
  imports CXL_Buf Std_Map
begin

text \<open>
  Messages, slots and flits: the data model of \<^verbatim>\<open>include/message.h\<close> and
  \<^verbatim>\<open>include/flit.h\<close> with the operations of \<^verbatim>\<open>src/Misc.cpp\<close>, and the global counters
  of \<^verbatim>\<open>src/Main.cpp\<close>.

  Fields that a C++ constructor leaves uninitialised are read from an explicit
  \<open>uninit\<close> record, an argument of the constructors: nothing is assumed about them.
\<close>

section \<open>Globals\<close>

record globals =
  curr_tick :: int
  msg_count :: u64
  flit_counter :: u64
  num_reqs_completed :: u64
  num_dam_reqs :: u64

section \<open>Messages\<close>

record msg_timing =
  read_write :: bool
  tick_created :: int
  tick_packed :: int
  tick_transmitted :: int
  tick_switch_ds_rx :: int
  tick_switch_ds_tx :: int
  tick_received :: int
  tick_unpacked :: int
  tick_at_ramulator :: int
  tick_ramulator_complete :: int
  tick_repacked :: int
  tick_retransmitted :: int
  tick_switch_us_rx :: int
  tick_switch_us_tx :: int
  tick_resp_received :: int
  tick_resp_unpacked :: int
  tick_req_complete :: int
  ramulator_clk_start :: int
  ramulator_clk_end :: int

datatype opcode = Req | RwD | NDR | DRS

record message =
  m_valid :: bool
  opCode :: opcode
  meta_field :: int
  meta_value :: int
  snoop_type :: int
  tag :: int
  address :: u64
  ld_id :: int
  sp_id :: int
  dp_id :: int
  traffic_class :: int
  poison :: bool
  byte_enable_present :: bool
  dev_load :: int
  msg_id :: u64
  m_time :: msg_timing

definition message_copy :: "message \<Rightarrow> message \<Rightarrow> message" where
  "message_copy this m = this
     \<lparr>m_valid := m_valid m, opCode := opCode m, meta_field := meta_field m,
      meta_value := meta_value m, snoop_type := snoop_type m, tag := tag m,
      address := address m, ld_id := ld_id m, sp_id := sp_id m, dp_id := dp_id m,
      traffic_class := traffic_class m, m_time := m_time m, poison := poison m,
      byte_enable_present := byte_enable_present m, dev_load := dev_load m,
      msg_id := msg_id m\<rparr>"

lemma message_copy_eq [simp]: "message_copy this m = m"
  by (simp add: message_copy_def)

section \<open>Slots and flits\<close>

record credits =
  req_credit :: int
  rsp_credit :: int
  data_credit :: int

datatype slot_type = m2s_req | m2s_rwd_hdr | s2m_ndr | s2m_drs_hdr | data | empty

record slot =
  sl_type :: slot_type
  sl_msgs :: "message list"
  sl_msg :: message

record flit_lifetime =
  time_of_creation :: int
  time_of_transmission :: int
  time_of_receipt :: int

datatype flit_type = control | protocol

record flit_header =
  fh_type :: flit_type
  fh_ack :: bool
  fh_byte_enable :: bool
  fh_size :: bool
  fh_credit :: credits
  fh_slots :: "slot_type list"

datatype flit_size = B68 | B256 | PBR

record flit =
  fl_valid :: bool
  fl_time :: flit_lifetime
  fl_size :: flit_size
  fl_header :: flit_header
  fl_slots :: "slot list"
  flit_id :: u64

record uninit =
  u_msg :: message
  u_lifetime :: flit_lifetime
  u_header :: flit_header

section \<open>Constructors\<close>

definition init_time :: "globals \<Rightarrow> message \<Rightarrow> message" where
  "init_time g m = m\<lparr>m_time := (m_time m)
     \<lparr>read_write := False, tick_unpacked := 0, tick_created := 0, tick_packed := 0,
      tick_transmitted := 0, tick_received := 0, tick_at_ramulator := 0,
      tick_ramulator_complete := 0, tick_repacked := 0, tick_retransmitted := 0,
      tick_resp_received := 0, tick_resp_unpacked := 0, tick_req_complete := 0,
      ramulator_clk_start := 0, ramulator_clk_end := 0\<rparr>\<rparr>"

definition message_new :: "uninit \<Rightarrow> globals \<Rightarrow> opcode \<Rightarrow> u64 \<Rightarrow> message \<times> globals" where
  "message_new u g oc addr =
     (let m = init_time g ((u_msg u)\<lparr>opCode := oc, address := addr\<rparr>)
      in (m\<lparr>msg_id := msg_count g\<rparr>, g\<lparr>msg_count := msg_count g + 1\<rparr>))"

definition message_new_ids ::
  "uninit \<Rightarrow> globals \<Rightarrow> opcode \<Rightarrow> u64 \<Rightarrow> int \<Rightarrow> int \<Rightarrow> message \<times> globals" where
  "message_new_ids u g oc addr dp sp =
     (let m = init_time g ((u_msg u)\<lparr>opCode := oc, address := addr, dp_id := dp, sp_id := sp\<rparr>);
          m = m\<lparr>msg_id := msg_count g\<rparr>
      in (m\<lparr>m_time := (m_time m)\<lparr>tick_created := curr_tick g\<rparr>\<rparr>,
          g\<lparr>msg_count := msg_count g + 1\<rparr>))"

text \<open>\<^verbatim>\<open>slots.resize(4)\<close> value-initialises the four entries, and the enumerator with
  value 0 is \<open>m2s_req\<close>.\<close>

definition flit_header_new :: "uninit \<Rightarrow> flit_header" where
  "flit_header_new u = (u_header u)\<lparr>fh_slots := replicate 4 m2s_req\<rparr>"

definition flit_new :: "uninit \<Rightarrow> flit" where
  "flit_new u =
     \<lparr>fl_valid = False, fl_time = u_lifetime u, fl_size = B68, fl_header = flit_header_new u,
      fl_slots = replicate 4 \<lparr>sl_type = empty, sl_msgs = [], sl_msg = u_msg u\<rparr>, flit_id = 0\<rparr>"

definition flit_copy :: "flit \<Rightarrow> flit \<Rightarrow> flit" where
  "flit_copy this f = this
     \<lparr>fl_valid := fl_valid f, fl_time := fl_time f, fl_size := fl_size f,
      fl_header := fl_header f, fl_slots := fl_slots f, flit_id := flit_id f\<rparr>"

lemma flit_copy_eq [simp]: "flit_copy this f = f"
  by (simp add: flit_copy_def)

section \<open>Queries and updates\<close>

definition get_first_address :: "flit \<Rightarrow> u64" where
  "get_first_address f =
     (case find (\<lambda>s. sl_type s \<noteq> empty) (fl_slots f) of
        None \<Rightarrow> 0
      | Some s \<Rightarrow> address (sl_msg s))"

definition is_flit_empty :: "flit \<Rightarrow> bool" where
  "is_flit_empty f \<longleftrightarrow> list_all (\<lambda>s. sl_type s = empty) (fl_slots f)"

definition is_flit_full :: "flit \<Rightarrow> bool" where
  "is_flit_full f \<longleftrightarrow> list_all (\<lambda>s. sl_type s \<noteq> empty) (fl_slots f)"

definition slot_count_in_flit :: "flit \<Rightarrow> slot_type \<Rightarrow> nat" where
  "slot_count_in_flit f t = length (filter (\<lambda>s. sl_type s = t) (fl_slots f))"

text \<open>The loop of \<^verbatim>\<open>are_all_slots_after_this_empty\<close> runs over the positions
  \<open>pos + 1, \<dots>, 2\<close>: its bound is 3, so the last slot is never looked at.\<close>

definition are_all_slots_after_this_empty :: "flit \<Rightarrow> nat \<Rightarrow> bool" where
  "are_all_slots_after_this_empty f pos \<longleftrightarrow>
     list_all (\<lambda>i. sl_type (fl_slots f ! i) = empty) [pos + 1 ..< 3]"

text \<open>A pointer to a member of \<^verbatim>\<open>msg_timing\<close> is modelled by the update function of
  that field.\<close>

definition set_time :: "((int \<Rightarrow> int) \<Rightarrow> msg_timing \<Rightarrow> msg_timing) \<Rightarrow> int \<Rightarrow> flit \<Rightarrow> flit" where
  "set_time member v f = f\<lparr>fl_slots :=
     map (\<lambda>s. if sl_type s = empty then s
              else s\<lparr>sl_msg := (sl_msg s)\<lparr>m_time := member (\<lambda>_. v) (m_time (sl_msg s))\<rparr>\<rparr>)
         (fl_slots f)\<rparr>"

definition latency_check :: "globals \<Rightarrow> message CXLBuf \<Rightarrow> int \<Rightarrow> bool result" where
  "latency_check g b delay =
     bind_r (get_head b) (\<lambda>m. Inr (curr_tick g - tick_created (m_time m) \<ge> delay))"

definition latency_check_flit :: "globals \<Rightarrow> flit CXLBuf \<Rightarrow> int \<Rightarrow> bool result" where
  "latency_check_flit g b delay =
     bind_r (get_head b) (\<lambda>f. Inr (curr_tick g - time_of_receipt (fl_time f) \<ge> delay))"

section \<open>Views used by the proofs\<close>

text \<open>The slot types of a flit, and a message without its time stamps: the stamps are the
  only part of a message that changes on its way through the system.\<close>

definition types :: "flit \<Rightarrow> slot_type list" where
  "types f = map sl_type (fl_slots f)"

definition untimed :: "message \<Rightarrow> u64 \<times> u64 \<times> opcode" where
  "untimed m = (msg_id m, address m, opCode m)"

definition carries_message :: "slot_type \<Rightarrow> bool" where
  "carries_message t \<longleftrightarrow> t \<noteq> data \<and> t \<noteq> empty"

definition flit_msgs :: "flit \<Rightarrow> (u64 \<times> u64 \<times> opcode) list" where
  "flit_msgs f = map (untimed \<circ> sl_msg) (filter (carries_message \<circ> sl_type) (fl_slots f))"

lemma carries_message_simps [simp]:
  "carries_message m2s_req" "carries_message m2s_rwd_hdr" "carries_message s2m_ndr"
  "carries_message s2m_drs_hdr" "\<not> carries_message data" "\<not> carries_message empty"
  by (simp_all add: carries_message_def)

lemma untimed_time [simp]: "untimed (m\<lparr>m_time := t\<rparr>) = untimed m"
  by (simp add: untimed_def)

lemma types_set_time [simp]: "types (set_time member v f) = types f"
  by (auto simp: types_def set_time_def)

lemma flit_msgs_set_time [simp]: "flit_msgs (set_time member v f) = flit_msgs f"
proof -
  have "map (untimed \<circ> sl_msg) (filter (carries_message \<circ> sl_type)
          (map (\<lambda>s. if sl_type s = empty then s
              else s\<lparr>sl_msg := (sl_msg s)\<lparr>m_time := member (\<lambda>_. v) (m_time (sl_msg s))\<rparr>\<rparr>) xs))
      = map (untimed \<circ> sl_msg) (filter (carries_message \<circ> sl_type) xs)" for xs
    by (induction xs) auto
  then show ?thesis by (simp add: flit_msgs_def set_time_def)
qed

lemma set_time_frame [simp]:
  "fl_header (set_time member v f) = fl_header f"
  "fl_time (set_time member v f) = fl_time f"
  "flit_id (set_time member v f) = flit_id f"
  by (simp_all add: set_time_def)

lemma length_types: "length (types f) = length (fl_slots f)"
  by (simp add: types_def)

lemma is_flit_empty_types: "is_flit_empty f \<longleftrightarrow> list_all (\<lambda>t. t = empty) (types f)"
  by (simp add: is_flit_empty_def types_def list_all_length)

lemma is_flit_full_types: "is_flit_full f \<longleftrightarrow> list_all (\<lambda>t. t \<noteq> empty) (types f)"
  by (simp add: is_flit_full_def types_def list_all_length)

lemma slot_count_types: "slot_count_in_flit f t = count_list (types f) t"
proof -
  have "length (filter (\<lambda>s. sl_type s = t) xs) = count_list (map sl_type xs) t" for xs
    by (induction xs) auto
  then show ?thesis by (simp add: slot_count_in_flit_def types_def)
qed

lemma types_flit_new [simp]: "types (flit_new u) = [empty, empty, empty, empty]"
  by (simp add: types_def flit_new_def numeral_eq_Suc)

lemma flit_new_empty [simp]: "is_flit_empty (flit_new u)"
  by (simp add: is_flit_empty_types)

lemma flit_msgs_flit_new [simp]: "flit_msgs (flit_new u) = []"
  by (simp add: flit_msgs_def flit_new_def numeral_eq_Suc)

text \<open>Filling a slot that carries no message yet adds at most the new one.\<close>

lemma flit_msgs_concat:
  "flit_msgs f = concat (map (\<lambda>s. if carries_message (sl_type s) then [untimed (sl_msg s)] else [])
     (fl_slots f))"
proof -
  have "map (untimed \<circ> sl_msg) (filter (carries_message \<circ> sl_type) xs) =
     concat (map (\<lambda>s. if carries_message (sl_type s) then [untimed (sl_msg s)] else []) xs)" for xs
    by (induction xs) auto
  then show ?thesis by (simp add: flit_msgs_def)
qed

lemma flit_msgs_update:
  assumes "i < length (fl_slots f)" "\<not> carries_message (sl_type (fl_slots f ! i))"
  shows "mset (flit_msgs (f\<lparr>fl_slots := (fl_slots f)[i := s]\<rparr>)) =
    mset (flit_msgs f) + (if carries_message (sl_type s) then {#untimed (sl_msg s)#} else {#})"
  using assms(2) concat_mset_update [OF assms(1),
      of "\<lambda>s. if carries_message (sl_type s) then [untimed (sl_msg s)] else []" s]
  by (simp add: flit_msgs_concat)

lemma flit_views_frame [simp]:
  "types (f\<lparr>fl_header := h\<rparr>) = types f" "flit_msgs (f\<lparr>fl_header := h\<rparr>) = flit_msgs f"
  "types (f\<lparr>fl_time := t\<rparr>) = types f" "flit_msgs (f\<lparr>fl_time := t\<rparr>) = flit_msgs f"
  "types (f\<lparr>flit_id := n\<rparr>) = types f" "flit_msgs (f\<lparr>flit_id := n\<rparr>) = flit_msgs f"
  by (simp_all add: types_def flit_msgs_def)

lemma empty_flit_msgs: "is_flit_empty f \<Longrightarrow> flit_msgs f = []"
  by (simp add: is_flit_empty_def flit_msgs_def list_all_iff filter_empty_conv)

section \<open>Concrete values\<close>

text \<open>Inputs for the concrete runs that accompany the properties.\<close>

definition zero_timing :: msg_timing where
  "zero_timing =
     \<lparr>read_write = False, tick_created = 0, tick_packed = 0, tick_transmitted = 0,
      tick_switch_ds_rx = 0, tick_switch_ds_tx = 0, tick_received = 0, tick_unpacked = 0,
      tick_at_ramulator = 0, tick_ramulator_complete = 0, tick_repacked = 0,
      tick_retransmitted = 0, tick_switch_us_rx = 0, tick_switch_us_tx = 0,
      tick_resp_received = 0, tick_resp_unpacked = 0, tick_req_complete = 0,
      ramulator_clk_start = 0, ramulator_clk_end = 0\<rparr>"

definition sample_msg :: "opcode \<Rightarrow> u64 \<Rightarrow> u64 \<Rightarrow> message" where
  "sample_msg oc a i =
     \<lparr>m_valid = True, opCode = oc, meta_field = 0, meta_value = 0, snoop_type = 0, tag = 0,
      address = a, ld_id = 0, sp_id = 0, dp_id = 0, traffic_class = 0, poison = False,
      byte_enable_present = False, dev_load = 0, msg_id = i, m_time = zero_timing\<rparr>"

definition sample_uninit :: uninit where
  "sample_uninit =
     \<lparr>u_msg = sample_msg Req 0 0,
      u_lifetime = \<lparr>time_of_creation = 0, time_of_transmission = 0, time_of_receipt = 0\<rparr>,
      u_header = \<lparr>fh_type = protocol, fh_ack = False, fh_byte_enable = False, fh_size = False,
        fh_credit = \<lparr>req_credit = 0, rsp_credit = 0, data_credit = 0\<rparr>, fh_slots = []\<rparr>\<rparr>"

definition sample_globals :: "int \<Rightarrow> globals" where
  "sample_globals t =
     \<lparr>curr_tick = t, msg_count = 0, flit_counter = 0, num_reqs_completed = 0, num_dam_reqs = 0\<rparr>"

definition sample_flit :: "(slot_type \<times> message) list \<Rightarrow> flit" where
  "sample_flit xs = (flit_new sample_uninit)
     \<lparr>fl_slots := map (\<lambda>(t, m). \<lparr>sl_type = t, sl_msgs = [], sl_msg = m\<rparr>) xs\<rparr>"

end
