(* ===== verification/CXL_Params.thy ===== *)
theory CXL_Params
  imports CXL_Prelude
begin

text \<open>
  \<^verbatim>\<open>include/CXLParams.h\<close> and \<^verbatim>\<open>CXLParams::recalculate\<close>, \<^verbatim>\<open>src/Misc.cpp\<close>: the delays
  of the configuration in nanoseconds and the tick counts derived from them, and the
  configuration \<^verbatim>\<open>src/Main.cpp\<close> sets up.

  Some of the derived values are computed in floating point and truncated.  A
  non-negative floating-point number is represented by a fraction of integers, and
  \<open>fround p\<close> is IEEE rounding to a significand of \<open>p\<close> bits, to nearest, ties to even:
  \<open>p = 24\<close> is \<^verbatim>\<open>float\<close>, \<open>p = 53\<close> is \<^verbatim>\<open>double\<close>.  The magnitudes here are far from the
  overflow and subnormal ranges, which \<open>fround\<close> does not model.
\<close>

section \<open>Floating point\<close>

type_synonym frac = "int \<times> int"

function ilog2 :: "int \<Rightarrow> nat" where
  "ilog2 n = (if n \<le> 1 then 0 else Suc (ilog2 (n div 2)))"
  by pat_completeness auto
termination
  by (relation "measure nat") auto

declare ilog2.simps [simp del]

text \<open>\<open>fexp (n, d)\<close> is \<open>\<lfloor>log\<^sub>2 (n / d)\<rfloor>\<close> for positive \<open>n\<close> and \<open>d\<close>.\<close>

fun fexp :: "frac \<Rightarrow> int" where
  "fexp (n, d) = (if d \<le> n then int (ilog2 (n div d)) else - int (ilog2 ((d - 1) div n)) - 1)"

definition div_even :: "int \<Rightarrow> int \<Rightarrow> int" where
  "div_even a b = (let q = a div b; r = a mod b
                   in if 2 * r < b then q else if b < 2 * r then q + 1
                      else if even q then q else q + 1)"

fun fround :: "nat \<Rightarrow> frac \<Rightarrow> frac" where
  "fround p (n, d) =
     (if n = 0 then (0, 1)
      else let k = fexp (n, d) - int p + 1
           in if 0 \<le> k then (div_even n (d * 2 ^ nat k) * 2 ^ nat k, 1)
              else (div_even (n * 2 ^ nat (- k)) d, 2 ^ nat (- k)))"

abbreviation float32 :: "frac \<Rightarrow> frac" where "float32 \<equiv> fround 24"
abbreviation float64 :: "frac \<Rightarrow> frac" where "float64 \<equiv> fround 53"

fun fmul :: "frac \<Rightarrow> frac \<Rightarrow> frac" where
  "fmul (n, d) (n', d') = (n * n', d * d')"

fun fdiv :: "frac \<Rightarrow> frac \<Rightarrow> frac" where
  "fdiv (n, d) (n', d') = (n * d', d * n')"

fun trunc :: "frac \<Rightarrow> int" where
  "trunc (n, d) = n div d"

definition trunc_div :: "int \<Rightarrow> int \<Rightarrow> int" where
  "trunc_div a b = sgn a * sgn b * (\<bar>a\<bar> div \<bar>b\<bar>)"

section \<open>Parameters\<close>

record CXLParams =
  spec_bandwidth :: int
  bytes_per_slot :: int
  slots_per_flit :: int
  bytes_per_flit :: int
  ticks_per_ns :: int
  ticks_per_ins :: int
  link_width :: int
  cxl_bus_total_latency_ns :: int
  delay_tx_buf_to_bus_ns :: int
  delay_rx_buf_to_unpack_ns :: int
  delay_vc_to_pack_ns :: int
  delay_vc_to_ramulator_ns :: int
  delay_vc_to_retire_ns :: int
  delay_cxl_noc_switch_ns :: int
  delay_cxl_port_switch_ns :: int
  ramulator_update_delay_ns :: frac
  bus_size :: int
  cxl_bus_total_latency :: int
  link_bandwidth_s :: int
  link_bandwidth :: int
  delay_tx_buf_to_bus :: int
  delay_rx_buf_to_unpack :: int
  delay_vc_to_pack :: int
  delay_ramulator_update :: int
  delay_vc_to_ramulator :: int
  delay_vc_to_retire :: int
  delay_cxl_port_switch :: int
  delay_cxl_noc_switch :: int
  cxl_bus_ticks_per_dequeue :: int

text \<open>\<^verbatim>\<open>(float)link_bandwidth_s / bytes_per_flit * 1e-9\<close>: a float quotient, then a
  double product with the double nearest to \<open>10\<^sup>-\<^sup>9\<close>.\<close>

definition flits_per_ns :: "int \<Rightarrow> int \<Rightarrow> frac" where
  "flits_per_ns bw bytes =
     float64 (fmul (float32 (fdiv (float32 (bw, 1)) (float32 (bytes, 1))))
                   (float64 (1, 1000000000)))"

definition recalculate :: "CXLParams \<Rightarrow> CXLParams" where
  "recalculate p =
     (let bw = spec_bandwidth p * link_width p; fpn = flits_per_ns bw (bytes_per_flit p)
      in p\<lparr>link_bandwidth_s := bw,
           link_bandwidth := trunc_div (bw * ticks_per_ns p) 1000000000,
           bus_size := trunc (float64 (fmul fpn (float64 (cxl_bus_total_latency_ns p, 1)))),
           cxl_bus_ticks_per_dequeue :=
             trunc (float64 (fdiv (1, 1) (float64 (fdiv fpn (float64 (ticks_per_ns p, 1)))))),
           delay_tx_buf_to_bus := delay_tx_buf_to_bus_ns p * ticks_per_ns p,
           delay_rx_buf_to_unpack := delay_rx_buf_to_unpack_ns p * ticks_per_ns p,
           delay_vc_to_pack := delay_vc_to_pack_ns p * ticks_per_ns p,
           delay_vc_to_ramulator := delay_vc_to_ramulator_ns p * ticks_per_ns p,
           cxl_bus_total_latency := cxl_bus_total_latency_ns p * ticks_per_ns p,
           delay_ramulator_update :=
             trunc (float32 (fmul (ramulator_update_delay_ns p) (float32 (ticks_per_ns p, 1)))),
           delay_vc_to_retire := delay_vc_to_retire_ns p * ticks_per_ns p,
           delay_cxl_noc_switch := delay_cxl_noc_switch_ns p * ticks_per_ns p,
           delay_cxl_port_switch := delay_cxl_port_switch_ns p * ticks_per_ns p\<rparr>)"

text \<open>The assignments of \<^verbatim>\<open>main\<close>, on top of whatever the global object holds before.
  \<^verbatim>\<open>0.625\<close> is exactly representable.\<close>

definition main_config :: "CXLParams \<Rightarrow> CXLParams" where
  "main_config p0 = p0
     \<lparr>spec_bandwidth := 4 * 2 ^ 30, bytes_per_slot := 16, bytes_per_flit := 68,
      slots_per_flit := 4, ticks_per_ns := 10, link_width := 16,
      cxl_bus_total_latency_ns := 15, delay_tx_buf_to_bus_ns := 11,
      delay_rx_buf_to_unpack_ns := 11, delay_vc_to_pack_ns := 2,
      ramulator_update_delay_ns := (5, 8), delay_vc_to_ramulator_ns := 2,
      delay_vc_to_retire_ns := 2, delay_cxl_noc_switch_ns := 10,
      delay_cxl_port_switch_ns := 13, ticks_per_ins := 10\<rparr>"

definition main_params :: "CXLParams \<Rightarrow> CXLParams" where
  "main_params p0 = recalculate (main_config p0)"

lemma main_ticks_per_dequeue [simp]: "cxl_bus_ticks_per_dequeue (main_params p0) = 9"
proof -
  have "trunc (float64 (fdiv (1, 1) (float64 (fdiv (flits_per_ns 68719476736 68) (float64 (10, 1)))))) = 9"
    by code_simp
  then show ?thesis by (simp add: main_params_def recalculate_def main_config_def Let_def)
qed

lemma main_ramulator_update [simp]: "delay_ramulator_update (main_params p0) = 6"
proof -
  have "trunc (float32 (fmul (5, 8) (float32 (10, 1)))) = 6" by code_simp
  then show ?thesis by (simp add: main_params_def recalculate_def main_config_def Let_def)
qed

lemma main_delays [simp]:
  "cxl_bus_total_latency (main_params p0) = 150"
  "delay_tx_buf_to_bus (main_params p0) = 110"
  "delay_rx_buf_to_unpack (main_params p0) = 110"
  "delay_vc_to_pack (main_params p0) = 20"
  "delay_vc_to_ramulator (main_params p0) = 20"
  "delay_vc_to_retire (main_params p0) = 20"
  "delay_cxl_noc_switch (main_params p0) = 100"
  "delay_cxl_port_switch (main_params p0) = 130"
  "ticks_per_ns (main_params p0) = 10"
  "ticks_per_ins (main_params p0) = 10"
  by (simp_all add: main_params_def recalculate_def main_config_def Let_def)

text \<open>A concrete configuration: the one of \<^verbatim>\<open>main\<close> on a zero-initialised object.\<close>

definition sample_params :: CXLParams where
  "sample_params = main_params
     \<lparr>spec_bandwidth = 0, bytes_per_slot = 0, slots_per_flit = 0, bytes_per_flit = 0,
      ticks_per_ns = 0, ticks_per_ins = 0, link_width = 0, cxl_bus_total_latency_ns = 0,
      delay_tx_buf_to_bus_ns = 0, delay_rx_buf_to_unpack_ns = 0, delay_vc_to_pack_ns = 0,
      delay_vc_to_ramulator_ns = 0, delay_vc_to_retire_ns = 0, delay_cxl_noc_switch_ns = 0,
      delay_cxl_port_switch_ns = 0, ramulator_update_delay_ns = (0, 1), bus_size = 0,
      cxl_bus_total_latency = 0, link_bandwidth_s = 0, link_bandwidth = 0, delay_tx_buf_to_bus
      = 0, delay_rx_buf_to_unpack = 0, delay_vc_to_pack = 0, delay_ramulator_update = 0,
      delay_vc_to_ramulator = 0, delay_vc_to_retire = 0, delay_cxl_port_switch = 0,
      delay_cxl_noc_switch = 0, cxl_bus_ticks_per_dequeue = 0\<rparr>"

end
