(* ===== verification/CXL_Bus.thy ===== *)
theory CXL_Bus
  imports CXL_Flit CXL_Params
begin

text \<open>
  The link \<^verbatim>\<open>CXLBus\<close> of \<^verbatim>\<open>include/CXLBus.h\<close> and \<^verbatim>\<open>src/CXLBus.cpp\<close>: a bounded queue
  of flits that delivers its head to the receive buffer at its far end, no earlier than
  the link latency after transmission and no faster than one flit per
  \<^verbatim>\<open>cxl_bus_ticks_per_dequeue\<close> ticks.  The buffer behind the pointer \<^verbatim>\<open>to_buf\<close> is passed to
  the operations that write to it and returned with the new state.
\<close>

section \<open>State\<close>

datatype direction = UpStream | DwStream

datatype bus_terminals =
  host_device | device_host | host_switch | switch_host | device_switch | switch_device

record CXLBus =
  bus_sz :: int
  ticks_per_dequeue :: int
  bus_latency :: int
  flit_slots :: "flit list"
  from_node_id :: int
  to_node_id :: int
  bus_dir :: direction
  time_of_last_dequeue :: int
  bus_type :: bus_terminals
  bus_node_id :: int

definition CXLBus_new :: "CXLParams \<Rightarrow> CXLBus \<Rightarrow> int \<Rightarrow> int \<Rightarrow> direction \<Rightarrow> CXLBus" where
  "CXLBus_new p junk sz nid d = junk
     \<lparr>bus_sz := sz, ticks_per_dequeue := cxl_bus_ticks_per_dequeue p,
      bus_latency := cxl_bus_total_latency p, flit_slots := [],
      bus_node_id := nid, time_of_last_dequeue := 0, bus_dir := d\<rparr>"

definition set_from_to_node_id :: "int \<Rightarrow> int \<Rightarrow> CXLBus \<Rightarrow> CXLBus" where
  "set_from_to_node_id frm to b = b\<lparr>from_node_id := frm, to_node_id := to\<rparr>"

section \<open>Operations\<close>

definition bus_is_full :: "CXLBus \<Rightarrow> bool" where
  "bus_is_full b \<longleftrightarrow> length (flit_slots b) = to_size_t (bus_sz b)"

definition bus_is_empty :: "CXLBus \<Rightarrow> bool" where
  "bus_is_empty b \<longleftrightarrow> length (flit_slots b) = 0"

definition bus_occupancy :: "CXLBus \<Rightarrow> int" where
  "bus_occupancy b = int (length (flit_slots b))"

definition is_flit_stagnant :: "globals \<Rightarrow> CXLBus \<Rightarrow> bool" where
  "is_flit_stagnant g b \<longleftrightarrow>
     \<not> bus_is_empty b \<and>
     curr_tick g - time_of_transmission (fl_time (hd (flit_slots b))) > bus_latency b"

definition add_to_bus :: "globals \<Rightarrow> flit \<Rightarrow> CXLBus \<Rightarrow> CXLBus result" where
  "add_to_bus g f b =
     cxl_assert (\<not> bus_is_full b) ''Addding to bus when it is full''
       (let b = (if bus_is_empty b then b\<lparr>time_of_last_dequeue := curr_tick g\<rparr> else b)
        in Inr (if \<not> bus_is_full b then b\<lparr>flit_slots := flit_slots b @ [f]\<rparr> else b))"

text \<open>The switch over \<^verbatim>\<open>bus_type\<close>: which time stamp marks the arrival.\<close>

fun stamp_arrival :: "bus_terminals \<Rightarrow> int \<Rightarrow> flit \<Rightarrow> flit" where
  "stamp_arrival host_switch t f = set_time tick_switch_ds_rx_update t f"
| "stamp_arrival switch_device t f = set_time tick_received_update t f"
| "stamp_arrival device_switch t f = set_time tick_switch_us_rx_update t f"
| "stamp_arrival switch_host t f = set_time tick_resp_received_update t f"
| "stamp_arrival host_device t f = set_time tick_received_update t f"
| "stamp_arrival device_host t f = set_time tick_resp_received_update t f"

definition send_to_node ::
  "CXLParams \<Rightarrow> uninit \<Rightarrow> globals \<Rightarrow> CXLBus \<Rightarrow> flit CXLBuf \<Rightarrow> (CXLBus \<times> flit CXLBuf) result" where
  "send_to_node p u g b to_buf =
     (if \<not> bus_is_empty b \<and>
         curr_tick g - time_of_transmission (fl_time (hd (flit_slots b))) \<ge> cxl_bus_total_latency p
      then
        let f = flit_copy (flit_new u) (hd (flit_slots b));
            f = f\<lparr>fl_time := (fl_time f)\<lparr>time_of_receipt := curr_tick g\<rparr>\<rparr>;
            f = stamp_arrival (bus_type b) (curr_tick g) f
        in bind_r (enqueue to_buf f) (\<lambda>to_buf'.
             Inr (b\<lparr>flit_slots := tl (flit_slots b), time_of_last_dequeue := curr_tick g\<rparr>, to_buf'))
      else Inr (b, to_buf))"

definition CXLBus_update ::
  "CXLParams \<Rightarrow> uninit \<Rightarrow> globals \<Rightarrow> CXLBus \<Rightarrow> flit CXLBuf \<Rightarrow> (CXLBus \<times> flit CXLBuf) result" where
  "CXLBus_update p u g b to_buf =
     cxl_assert (length (flit_slots b) \<le> to_size_t (bus_sz b)) ''Bus size exceeded''
    (cxl_assert (\<not> is_flit_stagnant g b) ''Stagnant flit in bus''
       (if curr_tick g - time_of_last_dequeue b \<ge> cxl_bus_ticks_per_dequeue p \<and> \<not> bus_is_empty b
        then send_to_node p u g b to_buf
        else Inr (b, to_buf)))"

text \<open>\<^verbatim>\<open>flits.size() < max_size() - bus_occupancy()\<close> compares a \<^verbatim>\<open>size_t\<close> with an
  \<^verbatim>\<open>int\<close>.\<close>

fun add_all_to_bus :: "globals \<Rightarrow> flit list \<Rightarrow> CXLBus \<Rightarrow> CXLBus result" where
  "add_all_to_bus g [] b = Inr b"
| "add_all_to_bus g (f # fs) b = bind_r (add_to_bus g f b) (add_all_to_bus g fs)"

definition fill_bus :: "globals \<Rightarrow> flit list \<Rightarrow> CXLBus \<Rightarrow> CXLBus result" where
  "fill_bus g fs b =
     cxl_assert (length fs < to_size_t (bus_sz b - bus_occupancy b)) ''Bus overflow''
       (add_all_to_bus g fs b)"

section \<open>The bus is a bounded queue\<close>

definition bus_pop :: "CXLBus \<Rightarrow> CXLBus result" where
  "bus_pop b = (if bus_is_empty b then Inl (NULL_DEREF ''front'')
                else Inr (b\<lparr>flit_slots := tl (flit_slots b)\<rparr>))"

definition bus_ok :: "CXLBus \<Rightarrow> bool" where
  "bus_ok b \<longleftrightarrow> 0 \<le> bus_sz b \<and> bus_sz b < 2 ^ 31 \<and> int (length (flit_slots b)) \<le> bus_sz b"

lemma bus_is_full_iff: "bus_ok b \<Longrightarrow> bus_is_full b \<longleftrightarrow> int (length (flit_slots b)) = bus_sz b"
  unfolding bus_ok_def bus_is_full_def by simp linarith

lemma add_to_bus_eq_Inr:
  "add_to_bus g f b = Inr b' \<longleftrightarrow> \<not> bus_is_full b \<and>
     b' = b\<lparr>time_of_last_dequeue := (if bus_is_empty b then curr_tick g else time_of_last_dequeue b),
            flit_slots := flit_slots b @ [f]\<rparr>"
  by (auto simp: add_to_bus_def Let_def bus_is_full_def)

lemma bus_ok_add: "bus_ok b \<Longrightarrow> add_to_bus g f b = Inr b' \<Longrightarrow> bus_ok b'"
  by (auto simp: add_to_bus_eq_Inr bus_is_full_iff) (simp_all add: bus_ok_def)

interpretation busq: bounded_fifo flit_slots "\<lambda>b. nat (bus_sz b)" bus_is_full bus_is_empty
  "\<lambda>b f. add_to_bus g f b" bus_pop bus_ok for g
proof unfold_locales
  fix q :: CXLBus
  assume ok: "bus_ok q"
  show "bus_is_full q = (length (flit_slots q) = nat (bus_sz q))"
    unfolding bus_is_full_iff [OF ok] using ok unfolding bus_ok_def by linarith
next
  fix q q' :: CXLBus and x
  assume "bus_ok q" "add_to_bus g x q = Inr q'"
  then show "bus_ok q'" by (rule bus_ok_add)
next
  fix q :: CXLBus and x
  assume "\<not> bus_is_full q"
  then show "returns (add_to_bus g x q)" by (auto simp: returns_def add_to_bus_eq_Inr)
next
  fix q :: CXLBus and x
  assume "bus_is_full q"
  then show "\<not> returns (add_to_bus g x q)" by (auto simp: returns_def add_to_bus_eq_Inr)
qed (auto simp: bus_ok_def bus_is_empty_def bus_pop_def add_to_bus_eq_Inr split: if_splits)

lemma types_stamp_arrival [simp]: "types (stamp_arrival t v f) = types f"
  by (cases t) simp_all

lemma flit_msgs_stamp_arrival [simp]: "flit_msgs (stamp_arrival t v f) = flit_msgs f"
  by (cases t) simp_all

lemma header_stamp_arrival [simp]: "fl_header (stamp_arrival t v f) = fl_header f"
  by (cases t) simp_all

end
