(* ===== verification/CXL_Wire.thy ===== *)
theory CXL_Wire
  imports CXL_Prelude
begin

text \<open>
  The wire protocol of the simulator, independent of direction, and the slot-filling
  discipline that both packers follow.

  A header announces a message that is followed by four data slots; data that does not fit
  into the header's flit rolls over into the next ones.  The \<^emph>\<open>rollover\<close> (0 to 4) is the
  number of data slots still owed.  A flit that starts with rollover \<open>k\<close> carries that data
  first: in slots \<open>1, \<dots>, k\<close> for \<open>k \<le> 3\<close>, in all four slots for \<open>k = 4\<close>.  \<open>wire_flit k\<close>
  is the reference semantics: \<open>Some k'\<close> if a flit that arrives at rollover \<open>k\<close> is legal
  and leaves rollover \<open>k'\<close>.

  Requests and responses without data are \<open>KSmall\<close>, headers \<open>KHdr\<close>; the device sends NDR
  and DRS headers, the host Req and RwD headers.
\<close>

datatype kind = KSmall | KHdr | KData | KEmpty | KBad

section \<open>Legal flits\<close>

fun wire_tok :: "int \<Rightarrow> kind \<Rightarrow> int option" where
  "wire_tok k KSmall = Some k"
| "wire_tok k KEmpty = Some k"
| "wire_tok k KHdr = (if k = 0 then Some 4 else None)"
| "wire_tok k KData = (if k > 0 then Some (k - 1) else None)"
| "wire_tok k KBad = None"

fun wire_run :: "int \<Rightarrow> kind list \<Rightarrow> int option" where
  "wire_run k [] = Some k"
| "wire_run k (x # xs) = (case wire_tok k x of None \<Rightarrow> None | Some k' \<Rightarrow> wire_run k' xs)"

fun blank_data :: "int \<Rightarrow> kind list \<Rightarrow> kind list" where
  "blank_data k [] = []"
| "blank_data k (x # xs) =
     (if k > 0 \<and> x = KData then KEmpty # blank_data (k - 1) xs else x # blank_data k xs)"

lemma count_blank:
  "x = KSmall \<or> x = KHdr \<Longrightarrow> count_list (blank_data k ks) x = count_list ks x"
  "count_list (blank_data k ks) KData \<le> count_list ks KData"
  by (induction k ks rule: blank_data.induct) auto

definition rollover_rule :: "int \<Rightarrow> kind list \<Rightarrow> bool" where
  "rollover_rule k ks \<longleftrightarrow>
     (if k = 0 then True
      else if k = 1 then ks ! 1 = KData
      else if k = 2 then ks ! 1 = KData \<and> ks ! 2 = KData
      else if k = 3 then ks ! 1 = KData \<and> ks ! 2 = KData \<and> ks ! 3 = KData
      else k = 4 \<and> ks ! 0 = KData \<and> ks ! 1 = KData \<and> ks ! 2 = KData \<and> ks ! 3 = KData)"

definition count_rule :: "kind list \<Rightarrow> bool" where
  "count_rule ks \<longleftrightarrow>
     count_list ks KSmall \<le> 2 \<and> count_list ks KHdr \<le> 1 \<and> count_list ks KData \<le> 4"

definition wire_flit :: "int \<Rightarrow> kind list \<Rightarrow> int option" where
  "wire_flit k ks =
     (if length ks = 4 \<and> 0 \<le> k \<and> k \<le> 4 \<and> rollover_rule k ks \<and> count_rule ks
      then wire_run 0 (blank_data k ks) else None)"

fun wire_stream :: "int \<Rightarrow> kind list list \<Rightarrow> int option" where
  "wire_stream k [] = Some k"
| "wire_stream k (f # fs) = (case wire_flit k f of None \<Rightarrow> None | Some k' \<Rightarrow> wire_stream k' fs)"

lemma wire_stream_append:
  "wire_stream k (xs @ ys) =
     (case wire_stream k xs of None \<Rightarrow> None | Some k' \<Rightarrow> wire_stream k' ys)"
  by (induction xs arbitrary: k) (auto split: option.splits)

lemma wire_run_range: "wire_run k ks = Some k' \<Longrightarrow> 0 \<le> k \<Longrightarrow> k \<le> 4 \<Longrightarrow> 0 \<le> k' \<and> k' \<le> 4"
proof (induction ks arbitrary: k)
  case (Cons x xs)
  then show ?case by (cases x) (auto split: if_splits)
qed simp

lemma wire_flit_range: "wire_flit k ks = Some k' \<Longrightarrow> 0 \<le> k' \<and> k' \<le> 4"
  by (auto simp: wire_flit_def split: if_splits dest: wire_run_range)

section \<open>The slot-filling discipline\<close>

datatype round_robin_state = RR_R | RR_r | RR_w | RR_W

text \<open>\<open>pick\<close> is the arbitration between the two groups of virtual channels: \<open>sm\<close> and
  \<open>hb\<close> say whether a small message and a header message can be sent now.\<close>

fun pick :: "round_robin_state \<Rightarrow> bool \<Rightarrow> bool \<Rightarrow> (kind \<times> round_robin_state) option" where
  "pick RR_r sm hb =
     (if sm then Some (KSmall, RR_R) else if hb then Some (KHdr, RR_w) else None)"
| "pick RR_R sm hb =
     (if hb then Some (KHdr, RR_w) else if sm then Some (KSmall, RR_R) else None)"
| "pick RR_w sm hb =
     (if sm then Some (KSmall, RR_r) else if hb then Some (KHdr, RR_w) else None)"
| "pick RR_W sm hb = None"

lemma pick_cases:
  obtains "pick st sm hb = None" | s where "pick st sm hb = Some (KSmall, s)" sm
    | s where "pick st sm hb = Some (KHdr, s)" hb
  by (cases st; cases sm; cases hb) auto

type_synonym pk = "kind list \<times> int \<times> round_robin_state \<times> bool"

text \<open>One iteration of the packing loop at slot \<open>i\<close>: skip a filled slot; owed data goes
  into every slot but the first; otherwise ask the arbiter.  The last component says
  whether the loop goes on.\<close>

fun pack_step :: "bool \<Rightarrow> bool \<Rightarrow> nat \<Rightarrow> pk \<Rightarrow> pk" where
  "pack_step sm hb i (ks, k, s, go) =
     (if \<not> go \<or> ks ! i \<noteq> KEmpty then (ks, k, s, go)
      else if k \<noteq> 0 \<and> i \<noteq> 0 then (ks[i := KData], k - 1, s, True)
      else case pick s sm hb of
             None \<Rightarrow> (ks, k, s, False)
           | Some (x, s') \<Rightarrow>
               if x = KSmall
               then (if count_list ks KSmall \<le> 1 then (ks[i := KSmall], k, s', True)
                     else (ks, k, s', True))
               else (if count_list ks KHdr = 0 \<and>
                        (i = 0 \<or> list_all (\<lambda>j. ks ! j = KEmpty) [i + 1 ..< 3])
                     then (ks[i := KHdr], 4, s', True)
                     else (ks, k, s', True)))"

text \<open>A pass over the four slots, with the availabilities met at each of them.\<close>

definition pack_pass :: "bool \<times> bool \<Rightarrow> bool \<times> bool \<Rightarrow> bool \<times> bool \<Rightarrow> bool \<times> bool \<Rightarrow> pk \<Rightarrow> pk" where
  "pack_pass a0 a1 a2 a3 p =
     pack_step (fst a3) (snd a3) 3 (pack_step (fst a2) (snd a2) 2
       (pack_step (fst a1) (snd a1) 1 (pack_step (fst a0) (snd a0) 0 p)))"

text \<open>The rollover a flit with slots \<open>ks\<close> must have started from, if it leaves \<open>k\<close>.\<close>

definition carry :: "kind list \<Rightarrow> int \<Rightarrow> int" where
  "carry ks k = k + int (count_list ks KData) - 4 * int (count_list ks KHdr)"

text \<open>The layouts a partly filled flit can have: owed data at the front, then small
  messages, no header yet and nothing owed any more.\<close>

definition open_layouts :: "kind list list" where
  "open_layouts =
    [[KEmpty, KEmpty, KEmpty, KEmpty], [KSmall, KEmpty, KEmpty, KEmpty],
     [KSmall, KSmall, KEmpty, KEmpty],
     [KEmpty, KData, KEmpty, KEmpty], [KSmall, KData, KEmpty, KEmpty],
     [KSmall, KData, KSmall, KEmpty],
     [KEmpty, KData, KData, KEmpty], [KSmall, KData, KData, KEmpty],
     [KEmpty, KData, KData, KData]]"

definition layout_ok :: "kind list \<Rightarrow> int \<Rightarrow> round_robin_state \<Rightarrow> bool" where
  "layout_ok ks k s \<longleftrightarrow>
     s \<noteq> RR_W \<and> wire_flit (carry ks k) ks = Some k \<and> (k > 0 \<longrightarrow> carry ks k < k) \<and>
     (KEmpty \<in> set ks \<longrightarrow>
        k = 0 \<and> ks \<in> set open_layouts \<and> (count_list ks KSmall = 1 \<longrightarrow> s \<noteq> RR_w) \<and>
        (count_list ks KSmall = 2 \<longrightarrow> s = RR_R))"

text \<open>
  A whole pass over the four slots, checked for every layout, arbiter state and
  availability.  Small messages may come and go from slot to slot; headers may only become
  unavailable (the host commits a flit to one device with its first message).
\<close>

definition pass_ok ::
  "bool \<times> bool \<Rightarrow> bool \<times> bool \<Rightarrow> bool \<times> bool \<Rightarrow> bool \<times> bool \<Rightarrow> kind list \<Rightarrow> round_robin_state \<Rightarrow> bool" where
  "pass_ok a0 a1 a2 a3 ks s \<longleftrightarrow>
     (case pack_pass a0 a1 a2 a3 (ks, 0, s, True) of
        (ks', k', s', go) \<Rightarrow> layout_ok ks' k' s' \<and> carry ks' k' = carry ks 0)"

definition decreasing :: "bool \<Rightarrow> bool \<Rightarrow> bool \<Rightarrow> bool \<Rightarrow> bool" where
  "decreasing h0 h1 h2 h3 \<longleftrightarrow> (h1 \<longrightarrow> h0) \<and> (h2 \<longrightarrow> h1) \<and> (h3 \<longrightarrow> h2)"

definition availabilities :: "(bool \<times> bool) list" where
  "availabilities = [(True, True), (True, False), (False, True), (False, False)]"

definition all_passes_ok :: bool where
  "all_passes_ok \<longleftrightarrow>
     list_all (\<lambda>ks. list_all (\<lambda>s. \<not> layout_ok ks 0 s \<or>
       list_all (\<lambda>a0. list_all (\<lambda>a1. list_all (\<lambda>a2. list_all (\<lambda>a3.
         \<not> decreasing (snd a0) (snd a1) (snd a2) (snd a3) \<or> pass_ok a0 a1 a2 a3 ks s)
         availabilities) availabilities) availabilities) availabilities)
       [RR_R, RR_r, RR_w]) open_layouts"

lemma all_passes_ok: "all_passes_ok"
  by code_simp

text \<open>The same as a rule about one pass.\<close>

lemma set_availabilities: "a \<in> set availabilities"
  by (cases a; cases "fst a"; cases "snd a") (simp_all add: availabilities_def)

lemma pack_pass_layout:
  assumes "ks \<in> set open_layouts" and "layout_ok ks 0 s"
    and "decreasing (snd a0) (snd a1) (snd a2) (snd a3)"
    and "pack_pass a0 a1 a2 a3 (ks, 0, s, True) = (ks', k', s', go)"
  shows "layout_ok ks' k' s'" and "carry ks' k' = carry ks 0"
proof -
  have "s \<in> set [RR_R, RR_r, RR_w]"
    using assms(2) by (cases s) (auto simp: layout_ok_def)
  with assms(1-3) all_passes_ok have "pass_ok a0 a1 a2 a3 ks s"
    unfolding all_passes_ok_def list_all_iff using set_availabilities by blast
  with assms(4) show "layout_ok ks' k' s'" and "carry ks' k' = carry ks 0"
    by (simp_all add: pass_ok_def)
qed

text \<open>A fresh flit with the owed data already in place is a legal layout.\<close>

definition fresh_layout :: "int \<Rightarrow> kind list" where
  "fresh_layout k =
     (if k = 0 then [KEmpty, KEmpty, KEmpty, KEmpty]
      else if k = 1 then [KEmpty, KData, KEmpty, KEmpty]
      else if k = 2 then [KEmpty, KData, KData, KEmpty]
      else if k = 3 then [KEmpty, KData, KData, KData]
      else [KData, KData, KData, KData])"

lemma fresh_layout_ok:
  assumes "0 \<le> k" "k \<le> 4" "s \<noteq> RR_W"
  shows "layout_ok (fresh_layout k) 0 s" and "carry (fresh_layout k) 0 = k"
    and "k < 4 \<Longrightarrow> fresh_layout k \<in> set open_layouts"
proof -
  from assms have "k = 0 \<or> k = 1 \<or> k = 2 \<or> k = 3 \<or> k = 4" by linarith
  then show "layout_ok (fresh_layout k) 0 s" and "carry (fresh_layout k) 0 = k"
    and "k < 4 \<Longrightarrow> fresh_layout k \<in> set open_layouts"
    using assms(3)
    by (auto simp: fresh_layout_def layout_ok_def carry_def wire_flit_def rollover_rule_def
        count_rule_def open_layouts_def)
qed

lemma layout_ok_sendable: "layout_ok ks k s \<Longrightarrow> wire_flit (carry ks k) ks = Some k"
  by (simp add: layout_ok_def)

lemma count_kinds_le: "count_list ks KHdr + count_list ks KData + count_list ks KSmall \<le> length ks"
  by (induction ks) auto

text \<open>Closed layouts of size four, for the case analyses below.\<close>

lemma layout_ok_open:
  "layout_ok ks k s \<Longrightarrow> KEmpty \<in> set ks \<Longrightarrow> k = 0 \<and> ks \<in> set open_layouts"
  by (simp add: layout_ok_def)

lemma layout_ok_length: "layout_ok ks k s \<Longrightarrow> length ks = 4"
  by (auto simp: layout_ok_def wire_flit_def split: if_splits)

lemma layout_ok_counts: "layout_ok ks k s \<Longrightarrow> count_rule ks"
  by (auto simp: layout_ok_def wire_flit_def split: if_splits)

lemma layout_ok_carry_range: "layout_ok ks k s \<Longrightarrow> 0 \<le> carry ks k \<and> carry ks k \<le> 4"
  by (auto simp: layout_ok_def wire_flit_def split: if_splits)

lemma layout_ok_range: "layout_ok ks k s \<Longrightarrow> 0 \<le> k \<and> k \<le> 4"
  by (auto simp: layout_ok_def dest: wire_flit_range)

section \<open>Packers that follow the discipline\<close>

lemma pack_step_shape:
  assumes "pack_step sm hb i (ks, k, s, go) = (ks', k', s', go')"
  shows "length ks' = length ks" and "s \<noteq> RR_W \<Longrightarrow> s' \<noteq> RR_W"
proof -
  have "s' \<noteq> RR_W" if "pick s sm hb = Some (x, s')" for x
    using that by (cases s) (auto split: if_splits)
  with assms show "length ks' = length ks" and "s \<noteq> RR_W \<Longrightarrow> s' \<noteq> RR_W"
    by (auto split: if_splits option.splits)
qed

text \<open>While data is owed, the arbiter is not asked.\<close>

lemma pack_step_owed:
  "k \<noteq> 0 \<Longrightarrow> i \<noteq> 0 \<Longrightarrow> pack_step sm hb i (ks, k, s, go) = pack_step sm' hb' i (ks, k, s, go)"
  by simp

declare pack_step.simps [simp del]

text \<open>
  A packer is given by its loop body at one slot.  It follows the discipline if the body
  never aborts and acts on the slot kinds, the owed data and the arbiter state as
  \<open>pack_step\<close> does, and if packing something other than a header makes no new header
  available.
\<close>

locale slot_packer =
  fixes step :: "nat \<Rightarrow> 'd \<Rightarrow> (bool \<times> 'd) result"
    and loop :: "nat list \<Rightarrow> 'd \<Rightarrow> 'd result"
    and kinds :: "'d \<Rightarrow> kind list"
    and owed :: "'d \<Rightarrow> int"
    and arb :: "'d \<Rightarrow> round_robin_state"
    and can_small :: "'d \<Rightarrow> bool"
    and can_hdr :: "'d \<Rightarrow> bool"
    and wf :: "'d \<Rightarrow> bool"
  assumes loop_Nil: "loop [] d = Inr d"
    and loop_Cons: "loop (i # is) d = bind_r (step i d) (\<lambda>(go, d). if go then loop is d else Inr d)"
    and wf_length: "wf d \<Longrightarrow> length (kinds d) = 4"
    and step_sim: "wf d \<Longrightarrow> arb d \<noteq> RR_W \<Longrightarrow> i < 4 \<Longrightarrow>
      \<exists>go d'. step i d = Inr (go, d') \<and> wf d' \<and>
        (kinds d', owed d', arb d', go) =
          pack_step (can_small d) (can_hdr d) i (kinds d, owed d, arb d, True) \<and>
        ((can_hdr d' \<longrightarrow> can_hdr d) \<or> owed d' = 4)"
begin

definition view :: "bool \<times> 'd \<Rightarrow> pk" where
  "view x = (kinds (snd x), owed (snd x), arb (snd x), fst x)"

definition step2 :: "nat \<Rightarrow> bool \<times> 'd \<Rightarrow> (bool \<times> 'd) result" where
  "step2 i x = (if fst x then step i (snd x) else Inr x)"

lemma loop4:
  "loop [0, 1, 2, 3] d =
     bind_r (step2 0 (True, d)) (\<lambda>x. bind_r (step2 1 x) (\<lambda>x. bind_r (step2 2 x) (\<lambda>x.
       bind_r (step2 3 x) (\<lambda>x. Inr (snd x)))))"
  by (auto simp: loop_Nil loop_Cons step2_def bind_r_def split: sum.splits prod.splits)

text \<open>\<open>hb\<close> bounds the availability of headers; once a header is packed the arbiter is not
  asked again in this pass, and the bound does not matter any more.\<close>

lemma step2_sim:
  assumes "wf (snd x)" "arb (snd x) \<noteq> RR_W" "i < 4"
    and hb: "(can_hdr (snd x) \<longrightarrow> hb) \<or> (i \<noteq> 0 \<and> owed (snd x) > 3 - int i)"
  obtains x' a where "step2 i x = Inr x'" "wf (snd x')" "arb (snd x') \<noteq> RR_W"
    "view x' = pack_step (fst a) (snd a) i (view x)" "snd a \<longrightarrow> hb"
    "(can_hdr (snd x') \<longrightarrow> snd a) \<or> owed (snd x') > 3 - int (Suc i)"
proof (cases "fst x")
  case False
  then have "step2 i x = Inr x" "view x = pack_step True hb i (view x)"
    by (simp_all add: step2_def view_def pack_step.simps)
  moreover have "(can_hdr (snd x) \<longrightarrow> hb) \<or> owed (snd x) > 3 - int (Suc i)" using hb by auto
  ultimately show ?thesis using that [of x "(True, hb)"] assms(1,2) by simp
next
  case True
  let ?d = "snd x"
  obtain go d' where st: "step i ?d = Inr (go, d')" "wf d'"
    "(kinds d', owed d', arb d', go) =
       pack_step (can_small ?d) (can_hdr ?d) i (kinds ?d, owed ?d, arb ?d, True)"
    "(can_hdr d' \<longrightarrow> can_hdr ?d) \<or> owed d' = 4"
    using step_sim [OF assms(1-3)] by blast
  have arb': "arb d' \<noteq> RR_W" using pack_step_shape(2) [OF st(3) [symmetric]] assms(2) by blast
  have step2: "step2 i x = Inr (go, d')" using st(1) True by (simp add: step2_def)
  show ?thesis
  proof (cases "can_hdr ?d \<longrightarrow> hb")
    case True
    then show ?thesis
      using that [of "(go, d')" "(can_small ?d, can_hdr ?d)"] step2 st(2-4) arb' \<open>fst x\<close> assms(3)
      by (auto simp: view_def)
  next
    case False
    with hb \<open>i < 4\<close> have owed: "i \<noteq> 0" "owed ?d > 3 - int i" "owed ?d \<noteq> 0" by auto
    have "view (go, d') = pack_step (can_small ?d) False i (view x)"
      using st(3) \<open>fst x\<close> owed(1,3)
        pack_step_owed [of "owed ?d" i "can_small ?d" "can_hdr ?d" _ _ _ "can_small ?d" False]
      by (simp add: view_def)
    moreover have "owed d' > 3 - int (Suc i)"
      using st(3) owed \<open>i < 4\<close> by (auto simp: pack_step.simps split: if_splits)
    ultimately show ?thesis
      using that [of "(go, d')" "(can_small ?d, False)"] step2 st(2) arb' by simp
  qed
qed

text \<open>A whole pass of the loop keeps the layout legal.\<close>

lemma loop_layout:
  assumes "wf d" and "layout_ok (kinds d) 0 (arb d)" and "kinds d \<in> set open_layouts"
    and "owed d = 0"
  obtains d' where "loop [0, 1, 2, 3] d = Inr d'" "wf d'"
    "layout_ok (kinds d') (owed d') (arb d')" "carry (kinds d') (owed d') = carry (kinds d) 0"
proof -
  have arb: "arb d \<noteq> RR_W" using assms(2) by (simp add: layout_ok_def)
  obtain x0 a0 where 0: "step2 0 (True, d) = Inr x0" "wf (snd x0)" "arb (snd x0) \<noteq> RR_W"
    "view x0 = pack_step (fst a0) (snd a0) 0 (view (True, d))"
    "(can_hdr (snd x0) \<longrightarrow> snd a0) \<or> owed (snd x0) > 3 - int (Suc 0)"
    by (rule step2_sim [of "(True, d)" 0 "can_hdr d"]) (use assms(1) arb in simp_all)
  obtain x1 a1 where 1: "step2 1 x0 = Inr x1" "wf (snd x1)" "arb (snd x1) \<noteq> RR_W"
    "view x1 = pack_step (fst a1) (snd a1) 1 (view x0)" "snd a1 \<longrightarrow> snd a0"
    "(can_hdr (snd x1) \<longrightarrow> snd a1) \<or> owed (snd x1) > 3 - int (Suc 1)"
    by (rule step2_sim [of x0 1 "snd a0"]) (use 0(2,3,5) in simp_all)
  obtain x2 a2 where 2: "step2 2 x1 = Inr x2" "wf (snd x2)" "arb (snd x2) \<noteq> RR_W"
    "view x2 = pack_step (fst a2) (snd a2) 2 (view x1)" "snd a2 \<longrightarrow> snd a1"
    "(can_hdr (snd x2) \<longrightarrow> snd a2) \<or> owed (snd x2) > 3 - int (Suc 2)"
    by (rule step2_sim [of x1 2 "snd a1"]) (use 1(2,3,6) in simp_all)
  obtain x3 a3 where 3: "step2 3 x2 = Inr x3" "wf (snd x3)"
    "view x3 = pack_step (fst a3) (snd a3) 3 (view x2)" "snd a3 \<longrightarrow> snd a2"
    by (rule step2_sim [of x2 3 "snd a2"]) (use 2(2,3,6) in simp_all)
  have dec: "decreasing (snd a0) (snd a1) (snd a2) (snd a3)"
    using 1(5) 2(5) 3(4) by (simp add: decreasing_def)
  have "pack_pass a0 a1 a2 a3 (kinds d, 0, arb d, True) =
          (kinds (snd x3), owed (snd x3), arb (snd x3), fst x3)"
    using 0(4) 1(4) 2(4) 3(3) assms(4) by (simp add: pack_pass_def view_def)
  note layout = pack_pass_layout [OF assms(3,2) dec this]
  have "loop [0, 1, 2, 3] d = Inr (snd x3)"
    unfolding loop4 by (simp only: 0(1) 1(1) 2(1) 3(1) bind_r_simps)
  then show ?thesis using 3(2) layout by (rule that)
qed

end

end
