(* ===== verification/CXL_Node.thy ===== *)
theory CXL_Node
  imports CXL_Bus CXL_Wire
begin

text \<open>
  What the two kinds of end node share: the number of virtual channels, the typing of an
  array of channels, the round-robin window over the channels, and the abstraction from
  slot types to the kinds of the wire protocol.
\<close>

section \<open>Channel arrays\<close>

definition NUM_VC :: nat where
  "NUM_VC = 4"

definition zero_credits :: credits where
  "zero_credits = \<lparr>req_credit = 0, rsp_credit = 0, data_credit = 0\<rparr>"

text \<open>All messages of the channels have one opcode.\<close>

definition vcs_carry :: "opcode \<Rightarrow> message CXLBuf list \<Rightarrow> bool" where
  "vcs_carry oc vcs \<longleftrightarrow> length vcs = 4 \<and> (\<forall>vc \<in> set vcs. \<forall>m \<in> set (buf_q vc). opCode m = oc)"

definition vc_pop :: "message CXLBuf list \<Rightarrow> nat \<Rightarrow> message CXLBuf list" where
  "vc_pop vcs i = vcs[i := (vcs ! i)\<lparr>buf_q := tl (buf_q (vcs ! i))\<rparr>]"

definition vcs_msgs :: "message CXLBuf list \<Rightarrow> (u64 \<times> u64 \<times> opcode) multiset" where
  "vcs_msgs vcs = mset (concat (map (map untimed \<circ> buf_q) vcs))"

lemma vcs_carry_length: "vcs_carry oc vcs \<Longrightarrow> length vcs = 4"
  by (simp add: vcs_carry_def)

lemma vcs_carry_hd:
  assumes "vcs_carry oc vcs" "i < 4" "\<not> is_buf_empty (vcs ! i)"
  shows "opCode (hd (buf_q (vcs ! i))) = oc"
proof -
  have "vcs ! i \<in> set vcs" using assms(1,2) by (simp add: vcs_carry_def)
  moreover have "hd (buf_q (vcs ! i)) \<in> set (buf_q (vcs ! i))"
    using assms(3) by (simp add: is_buf_empty_def)
  ultimately show ?thesis using assms(1) by (auto simp: vcs_carry_def)
qed

lemma vcs_carry_update:
  assumes "vcs_carry oc vcs" "\<And>m. m \<in> set (buf_q b) \<Longrightarrow> opCode m = oc"
  shows "vcs_carry oc (vcs[i := b])"
  using assms set_update_subset_insert [of vcs i b] by (fastforce simp: vcs_carry_def)

lemma vcs_carry_pop:
  assumes "vcs_carry oc vcs" "i < 4"
  shows "vcs_carry oc (vc_pop vcs i)"
proof -
  have "vcs ! i \<in> set vcs" using assms by (simp add: vcs_carry_def)
  with assms(1) have "opCode m = oc" if "m \<in> set (tl (buf_q (vcs ! i)))" for m
    using that by (cases "buf_q (vcs ! i)") (auto simp: vcs_carry_def)
  then show ?thesis using assms(1) by (auto simp: vc_pop_def intro: vcs_carry_update)
qed

lemma vcs_msgs_pop:
  assumes "i < length vcs" "\<not> is_buf_empty (vcs ! i)"
  shows "vcs_msgs vcs = add_mset (untimed (hd (buf_q (vcs ! i)))) (vcs_msgs (vc_pop vcs i))"
proof (cases "buf_q (vcs ! i)")
  case Nil
  with assms(2) show ?thesis by (simp add: is_buf_empty_def)
next
  case (Cons m ms)
  then show ?thesis
    using concat_mset_update [OF assms(1), of "map untimed \<circ> buf_q" "(vcs ! i)\<lparr>buf_q := ms\<rparr>"]
    by (simp add: vcs_msgs_def vc_pop_def)
qed

lemma vcs_msgs_push:
  assumes "i < length vcs"
  shows "vcs_msgs (vcs[i := (vcs ! i)\<lparr>buf_q := buf_q (vcs ! i) @ [m]\<rparr>]) = add_mset (untimed m) (vcs_msgs vcs)"
  using concat_mset_update [OF assms, of "map untimed \<circ> buf_q" "(vcs ! i)\<lparr>buf_q := buf_q (vcs ! i) @ [m]\<rparr>"]
  by (simp add: vcs_msgs_def)

lemma vcs_msgs_opcode: "vcs_carry oc vcs \<Longrightarrow> (i, a, oc') \<in># vcs_msgs vcs \<Longrightarrow> oc' = oc"
  by (auto simp: vcs_msgs_def vcs_carry_def untimed_def)

section \<open>The round-robin window\<close>

lemma mod_window:
  fixes c :: nat
  shows "(\<exists>i. c \<le> i \<and> i < 4 + c \<and> P (i mod 4)) \<longleftrightarrow> (\<exists>i < 4. P i)"
proof
  assume "\<exists>i < 4. P i"
  then obtain i where i: "i < 4" "P i" by blast
  have "\<exists>j. c \<le> j \<and> j < 4 + c \<and> j mod 4 = i" using i(1) by presburger
  then show "\<exists>i. c \<le> i \<and> i < 4 + c \<and> P (i mod 4)" using i(2) by blast
next
  assume "\<exists>i. c \<le> i \<and> i < 4 + c \<and> P (i mod 4)"
  then show "\<exists>i < 4. P i" by (metis mod_less_divisor zero_less_numeral)
qed

lemma find_window:
  fixes vcs :: "'a list"
  assumes "length vcs = 4"
  obtains "find (\<lambda>i. P (vcs ! (i mod 4))) [c ..< 4 + c] = None" "\<not> (\<exists>vc \<in> set vcs. P vc)"
  | i where "find (\<lambda>i. P (vcs ! (i mod 4))) [c ..< 4 + c] = Some i" "P (vcs ! (i mod 4))"
      "\<exists>vc \<in> set vcs. P vc"
proof -
  have ex: "(\<exists>vc \<in> set vcs. P vc) \<longleftrightarrow> (\<exists>i < 4. P (vcs ! i))"
    using assms by (metis in_set_conv_nth)
  show thesis
  proof (cases "find (\<lambda>i. P (vcs ! (i mod 4))) [c ..< 4 + c]")
    case None
    then have "\<not> (\<exists>i. c \<le> i \<and> i < 4 + c \<and> P (vcs ! (i mod 4)))"
      by (auto simp: find_None_iff)
    then show ?thesis using None that(1) ex mod_window [of c "\<lambda>i. P (vcs ! i)"] by blast
  next
    case (Some i)
    then have "P (vcs ! (i mod 4))" by (auto simp: find_Some_iff)
    moreover have "i mod 4 < 4" by simp
    ultimately show ?thesis using that(2) Some ex by blast
  qed
qed

section \<open>Filling a slot\<close>

text \<open>The assignments that put one owed data chunk into slot \<open>i\<close> (its id and address are
  those of the header it belongs to), and those that put a message there.  The device also
  records the type in the flit's header.\<close>

definition put_data :: "nat \<Rightarrow> message \<Rightarrow> flit \<Rightarrow> flit" where
  "put_data i h f = f\<lparr>fl_slots := (fl_slots f)[i := (fl_slots f ! i)
     \<lparr>sl_type := data,
      sl_msg := (sl_msg (fl_slots f ! i))\<lparr>msg_id := msg_id h, address := address h\<rparr>\<rparr>]\<rparr>"

definition put_message :: "nat \<Rightarrow> slot_type \<Rightarrow> message \<Rightarrow> flit \<Rightarrow> flit" where
  "put_message i t m f = f\<lparr>fl_slots := (fl_slots f)[i := (fl_slots f ! i)
     \<lparr>sl_type := t, sl_msg := message_copy (sl_msg (fl_slots f ! i)) m\<rparr>]\<rparr>"

definition mark_header :: "nat \<Rightarrow> slot_type \<Rightarrow> flit \<Rightarrow> flit" where
  "mark_header i t f =
     f\<lparr>fl_header := (fl_header f)\<lparr>fh_slots := (fh_slots (fl_header f))[i := t]\<rparr>\<rparr>"

lemma mark_header_views [simp]:
  "types (mark_header i t f) = types f" "flit_msgs (mark_header i t f) = flit_msgs f"
  by (simp_all add: mark_header_def)

lemma types_put [simp]:
  "types (put_data i h f) = (types f)[i := data]"
  "types (put_message i t m f) = (types f)[i := t]"
  by (simp_all add: put_data_def put_message_def types_def map_update)

lemma msgs_put_data:
  "i < length (types f) \<Longrightarrow> types f ! i = empty \<Longrightarrow> mset (flit_msgs (put_data i h f)) = mset (flit_msgs f)"
  by (simp add: put_data_def types_def flit_msgs_update)

lemma msgs_put_message:
  "i < length (types f) \<Longrightarrow> types f ! i = empty \<Longrightarrow> carries_message t \<Longrightarrow>
     mset (flit_msgs (put_message i t m f)) = add_mset (untimed m) (mset (flit_msgs f))"
  by (simp add: put_message_def types_def flit_msgs_update)

section \<open>From slot types to kinds\<close>

definition kinds_of :: "(slot_type \<Rightarrow> kind) \<Rightarrow> flit \<Rightarrow> kind list" where
  "kinds_of kd f = map kd (types f)"

text \<open>Each direction has one type of small message and one type of header; the locale is
  what the packer and unpacker proofs use of them.\<close>

locale kind_map =
  fixes kd :: "slot_type \<Rightarrow> kind" and small :: slot_type and hdr :: slot_type
  assumes kd_small: "kd t = KSmall \<longleftrightarrow> t = small"
    and kd_hdr: "kd t = KHdr \<longleftrightarrow> t = hdr"
    and kd_data: "kd t = KData \<longleftrightarrow> t = data"
    and kd_empty: "kd t = KEmpty \<longleftrightarrow> t = empty"
begin

lemma kd_values [simp]: "kd data = KData" "kd empty = KEmpty" "kd small = KSmall" "kd hdr = KHdr"
  by (simp_all add: kd_data kd_empty kd_small kd_hdr)

lemma kinds_length: "length (kinds_of kd f) = length (types f)"
  by (simp add: kinds_of_def)

lemma kinds_counts:
  "count_list (kinds_of kd f) KSmall = slot_count_in_flit f small"
  "count_list (kinds_of kd f) KHdr = slot_count_in_flit f hdr"
  "count_list (kinds_of kd f) KData = slot_count_in_flit f data"
proof -
  have "count_list (map kd ts) KSmall = count_list ts small"
    "count_list (map kd ts) KHdr = count_list ts hdr"
    "count_list (map kd ts) KData = count_list ts data" for ts
    by (induction ts) (auto simp: kd_small kd_hdr kd_data)
  then show "count_list (kinds_of kd f) KSmall = slot_count_in_flit f small"
    "count_list (kinds_of kd f) KHdr = slot_count_in_flit f hdr"
    "count_list (kinds_of kd f) KData = slot_count_in_flit f data"
    by (simp_all add: kinds_of_def slot_count_types)
qed

lemma kinds_empty: "i < length (types f) \<Longrightarrow> kinds_of kd f ! i = KEmpty \<longleftrightarrow> types f ! i = empty"
  by (simp add: kinds_of_def kd_empty)

lemma kinds_full: "is_flit_full f \<longleftrightarrow> KEmpty \<notin> set (kinds_of kd f)"
  by (simp add: is_flit_full_types kinds_of_def list_all_iff image_iff eq_commute [of KEmpty] kd_empty)
     blast

lemma kinds_after:
  assumes "length (types f) = 4"
  shows "are_all_slots_after_this_empty f i \<longleftrightarrow> list_all (\<lambda>j. kinds_of kd f ! j = KEmpty) [i + 1 ..< 3]"
  using assms by (auto simp: are_all_slots_after_this_empty_def list_all_iff kinds_empty types_def)

lemma kinds_put [simp]:
  "kinds_of kd (put_data i h f) = (kinds_of kd f)[i := KData]"
  "kinds_of kd (put_message i t m f) = (kinds_of kd f)[i := kd t]"
  "kinds_of kd (mark_header i t f) = kinds_of kd f"
  by (simp_all add: kinds_of_def map_update)

lemma kinds_flit_new [simp]: "kinds_of kd (flit_new u) = fresh_layout 0"
  by (simp add: kinds_of_def fresh_layout_def)

lemma empty_flit_kinds: "is_flit_empty f \<Longrightarrow> length (types f) = 4 \<Longrightarrow> kinds_of kd f = fresh_layout 0"
  by (auto simp: is_flit_empty_types length_4_conv kinds_of_def fresh_layout_def)

end

text \<open>Flits from a device to the host, and from the host to a device:\<close>

fun kind_dev :: "slot_type \<Rightarrow> kind" where
  "kind_dev s2m_ndr = KSmall"
| "kind_dev s2m_drs_hdr = KHdr"
| "kind_dev data = KData"
| "kind_dev empty = KEmpty"
| "kind_dev m2s_req = KBad"
| "kind_dev m2s_rwd_hdr = KBad"

interpretation dvk: kind_map kind_dev s2m_ndr s2m_drs_hdr
proof unfold_locales
  fix t
  show "kind_dev t = KSmall \<longleftrightarrow> t = s2m_ndr" "kind_dev t = KHdr \<longleftrightarrow> t = s2m_drs_hdr"
    "kind_dev t = KData \<longleftrightarrow> t = data" "kind_dev t = KEmpty \<longleftrightarrow> t = empty"
    by (cases t; simp)+
qed

fun kind_host :: "slot_type \<Rightarrow> kind" where
  "kind_host m2s_req = KSmall"
| "kind_host m2s_rwd_hdr = KHdr"
| "kind_host data = KData"
| "kind_host empty = KEmpty"
| "kind_host s2m_ndr = KBad"
| "kind_host s2m_drs_hdr = KBad"

interpretation hok: kind_map kind_host m2s_req m2s_rwd_hdr
proof unfold_locales
  fix t
  show "kind_host t = KSmall \<longleftrightarrow> t = m2s_req" "kind_host t = KHdr \<longleftrightarrow> t = m2s_rwd_hdr"
    "kind_host t = KData \<longleftrightarrow> t = data" "kind_host t = KEmpty \<longleftrightarrow> t = empty"
    by (cases t; simp)+
qed

end
