(* ===== verification/CXL_Recv.thy ===== *)
theory CXL_Recv
  imports CXL_Node
begin

text \<open>
  The receiving side of the wire protocol: what unpacking a flit must deliver, and the
  locale \<open>slot_unpacker\<close> that both unpackers (\<^verbatim>\<open>CXLDevice::FLIT_unpacker\<close> and
  \<^verbatim>\<open>CXLHost::FLIT_unpacker\<close>) are instances of.
\<close>

type_synonym umsg = "u64 \<times> u64 \<times> opcode"

section \<open>The abstract receiver\<close>

record rx_view =
  rx_roll :: int
  rx_hdr :: umsg
  rx_small :: "umsg list"
  rx_big :: "umsg list"
  rx_cap_small :: int
  rx_cap_big :: int

fun rx_tok :: "kind \<Rightarrow> umsg \<Rightarrow> rx_view \<Rightarrow> rx_view" where
  "rx_tok KSmall m v = v\<lparr>rx_small := rx_small v @ [m]\<rparr>"
| "rx_tok KHdr m v = v\<lparr>rx_roll := 4, rx_hdr := m\<rparr>"
| "rx_tok KData m v = v\<lparr>rx_roll := rx_roll v - 1,
     rx_big := (if rx_roll v = 1 then rx_big v @ [rx_hdr v] else rx_big v)\<rparr>"
| "rx_tok KEmpty m v = v"
| "rx_tok KBad m v = v"

definition rx_slot :: "(slot_type \<Rightarrow> kind) \<Rightarrow> slot \<Rightarrow> rx_view \<Rightarrow> rx_view" where
  "rx_slot kd s v = rx_tok (kd (sl_type s)) (untimed (sl_msg s)) v"

text \<open>The owed data comes first, then the slots in order, without that data.\<close>

fun blank_slots :: "int \<Rightarrow> slot list \<Rightarrow> slot list" where
  "blank_slots k [] = []"
| "blank_slots k (s # ss) =
     (if k > 0 \<and> sl_type s = data then s\<lparr>sl_type := empty\<rparr> # blank_slots (k - 1) ss
      else s # blank_slots k ss)"

definition rx_owed :: "rx_view \<Rightarrow> rx_view" where
  "rx_owed v = (if rx_roll v > 0 then v\<lparr>rx_roll := 0, rx_big := rx_big v @ [rx_hdr v]\<rparr> else v)"

definition rx_flit :: "(slot_type \<Rightarrow> kind) \<Rightarrow> flit \<Rightarrow> rx_view \<Rightarrow> rx_view" where
  "rx_flit kd f v = fold (rx_slot kd) (blank_slots (rx_roll v) (fl_slots f)) (rx_owed v)"

definition rx_fits :: "rx_view \<Rightarrow> bool" where
  "rx_fits v \<longleftrightarrow> int (length (rx_small v)) \<le> rx_cap_small v \<and> int (length (rx_big v)) \<le> rx_cap_big v"

lemma rx_slot_mono:
  "rx_fits (rx_slot kd s v) \<Longrightarrow> rx_fits v"
  by (cases "kd (sl_type s)") (auto simp: rx_slot_def rx_fits_def split: if_splits)

lemma rx_fold_mono: "rx_fits (fold (rx_slot kd) ss v) \<Longrightarrow> rx_fits v"
  by (induction ss arbitrary: v) (auto dest: rx_slot_mono)

lemma rx_roll_run:
  "wire_run (rx_roll v) (map (\<lambda>s. kd (sl_type s)) ss) = Some k \<Longrightarrow> rx_roll (fold (rx_slot kd) ss v) = k"
proof (induction ss arbitrary: v)
  case (Cons s ss)
  then show ?case by (cases "kd (sl_type s)") (auto simp: rx_slot_def split: if_splits)
qed simp

text \<open>The messages a flit carries, by kind.\<close>

definition msgs_of_kind :: "(slot_type \<Rightarrow> kind) \<Rightarrow> kind \<Rightarrow> slot list \<Rightarrow> umsg list" where
  "msgs_of_kind kd k ss = map (untimed \<circ> sl_msg) (filter (\<lambda>s. kd (sl_type s) = k) ss)"

definition rx_pending :: "rx_view \<Rightarrow> umsg list" where
  "rx_pending v = (if rx_roll v > 0 then [rx_hdr v] else [])"

lemma rx_slot_roll:
  "wire_tok (rx_roll v) (kd (sl_type s)) = Some k \<Longrightarrow> rx_roll (rx_slot kd s v) = k"
  by (cases "kd (sl_type s)") (auto simp: rx_slot_def split: if_splits)

lemma rx_slot_delivers:
  assumes "wire_tok (rx_roll v) (kd (sl_type s)) = Some k" and "0 \<le> rx_roll v"
  shows "rx_roll (rx_slot kd s v) = k" and "0 \<le> k"
    and "rx_small (rx_slot kd s v) = rx_small v @ msgs_of_kind kd KSmall [s]"
    and "rx_big (rx_slot kd s v) @ rx_pending (rx_slot kd s v) = rx_big v @ rx_pending v @ msgs_of_kind kd KHdr [s]"
  using assms
  by (cases "kd (sl_type s)"; auto simp: rx_slot_def msgs_of_kind_def rx_pending_def split: if_splits)+

lemma msgs_of_kind_Cons: "msgs_of_kind kd k (s # ss) = msgs_of_kind kd k [s] @ msgs_of_kind kd k ss"
  by (simp add: msgs_of_kind_def)

lemma rx_fold_delivers:
  assumes "wire_run (rx_roll v) (map (\<lambda>s. kd (sl_type s)) ss) = Some k" and "0 \<le> rx_roll v"
  shows "rx_small (fold (rx_slot kd) ss v) = rx_small v @ msgs_of_kind kd KSmall ss \<and>
     rx_big (fold (rx_slot kd) ss v) @ rx_pending (fold (rx_slot kd) ss v)
       = rx_big v @ rx_pending v @ msgs_of_kind kd KHdr ss"
  using assms
proof (induction ss arbitrary: v)
  case Nil
  then show ?case by (simp add: msgs_of_kind_def)
next
  case (Cons s ss)
  then obtain k1 where k1: "wire_tok (rx_roll v) (kd (sl_type s)) = Some k1"
    "wire_run k1 (map (\<lambda>s. kd (sl_type s)) ss) = Some k" by (auto split: option.splits)
  note st = rx_slot_delivers [where kd = kd and s = s, OF k1(1) Cons.prems(2)]
  from Cons.IH [of "rx_slot kd s v"] k1(2) st(1,2) have
    "rx_small (fold (rx_slot kd) ss (rx_slot kd s v)) = rx_small (rx_slot kd s v) @ msgs_of_kind kd KSmall ss"
    "rx_big (fold (rx_slot kd) ss (rx_slot kd s v)) @ rx_pending (fold (rx_slot kd) ss (rx_slot kd s v))
       = (rx_big (rx_slot kd s v) @ rx_pending (rx_slot kd s v)) @ msgs_of_kind kd KHdr ss" by simp_all
  then show ?case by (simp only: fold.simps comp_apply st(3,4) msgs_of_kind_Cons [of kd _ s ss] append_assoc)
qed

context kind_map
begin

lemma blank_kinds: "map (\<lambda>s. kd (sl_type s)) (blank_slots k ss) = blank_data k (map (\<lambda>s. kd (sl_type s)) ss)"
  by (induction k ss rule: blank_slots.induct) (auto simp: kd_data)

lemma blank_msgs:
  "x = KSmall \<or> x = KHdr \<Longrightarrow> msgs_of_kind kd x (blank_slots k ss) = msgs_of_kind kd x ss"
  by (induction k ss rule: blank_slots.induct) (auto simp: msgs_of_kind_def)

lemma kinds_slots: "kinds_of kd f = map (\<lambda>s. kd (sl_type s)) (fl_slots f)"
  by (simp add: kinds_of_def types_def)

text \<open>A legal flit delivers its small messages in order; its header joins the one under
  way, which is delivered when its data is complete.\<close>

lemma rx_flit_delivers:
  assumes "wire_flit (rx_roll v) (kinds_of kd f) = Some k"
  shows "rx_roll (rx_flit kd f v) = k"
    and "rx_small (rx_flit kd f v) = rx_small v @ msgs_of_kind kd KSmall (fl_slots f)"
    and "rx_big (rx_flit kd f v) @ rx_pending (rx_flit kd f v)
       = rx_big v @ rx_pending v @ msgs_of_kind kd KHdr (fl_slots f)"
proof -
  have run: "wire_run (rx_roll (rx_owed v)) (map (\<lambda>s. kd (sl_type s)) (blank_slots (rx_roll v) (fl_slots f))) = Some k"
    and pos: "0 \<le> rx_roll v"
    using assms by (auto simp: wire_flit_def blank_kinds kinds_slots rx_owed_def split: if_splits)
  have pos': "0 \<le> rx_roll (rx_owed v)" using pos by (simp add: rx_owed_def)
  show "rx_roll (rx_flit kd f v) = k"
    unfolding rx_flit_def by (rule rx_roll_run [OF run])
  show "rx_small (rx_flit kd f v) = rx_small v @ msgs_of_kind kd KSmall (fl_slots f)"
    using rx_fold_delivers [OF run pos'] by (simp add: rx_flit_def blank_msgs rx_owed_def)
  show "rx_big (rx_flit kd f v) @ rx_pending (rx_flit kd f v)
       = rx_big v @ rx_pending v @ msgs_of_kind kd KHdr (fl_slots f)"
    using rx_fold_delivers [OF run pos'] pos
    by (simp add: rx_flit_def blank_msgs rx_owed_def rx_pending_def)
qed

end

section \<open>Loops that implement the receiver\<close>

text \<open>\<open>rv\<close> abstracts the state of a node to a receiver.  The loop over the owed data:\<close>

lemma blank_slots_0 [simp]: "blank_slots 0 ss = ss"
  by (induction ss) auto

definition data_slots :: "slot list \<Rightarrow> int" where
  "data_slots ss = int (length (filter (\<lambda>s. sl_type s = data) ss))"

locale owed_loop =
  fixes loop :: "nat list \<Rightarrow> flit \<Rightarrow> 'd \<Rightarrow> (flit \<times> 'd) result"
    and dec :: "'d \<Rightarrow> 'd"
    and finish :: "'d \<Rightarrow> 'd result"
    and rv :: "'d \<Rightarrow> rx_view"
    and frame :: "'d \<Rightarrow> 'f"
    and ok :: "'d \<Rightarrow> bool"
  assumes loop_Nil: "loop [] f d = Inr (f, d)"
    and loop_Cons: "loop (i # is) f d =
      (if sl_type (fl_slots f ! i) \<noteq> data then loop is f d
       else if rx_roll (rv (dec d)) = 0
       then bind_r (finish (dec d)) (\<lambda>d.
              Inr (f\<lparr>fl_slots := (fl_slots f)[i := (fl_slots f ! i)\<lparr>sl_type := empty\<rparr>]\<rparr>, d))
       else loop is (f\<lparr>fl_slots := (fl_slots f)[i := (fl_slots f ! i)\<lparr>sl_type := empty\<rparr>]\<rparr>) (dec d))"
    and dec_ok: "ok d \<Longrightarrow> ok (dec d)"
    and dec_view: "rv (dec d) = (rv d)\<lparr>rx_roll := rx_roll (rv d) - 1\<rparr>"
    and finish_returns: "ok d \<Longrightarrow> int (length (rx_big (rv d))) < rx_cap_big (rv d) \<Longrightarrow>
      \<exists>d'. finish d = Inr d' \<and> ok d'"
    and finish_view: "finish d = Inr d' \<Longrightarrow> rv d' = (rv d)\<lparr>rx_big := rx_big (rv d) @ [rx_hdr (rv d)]\<rparr>"
    and dec_frame: "frame (dec d) = frame d"
    and finish_frame: "finish d = Inr d' \<Longrightarrow> frame d' = frame d"
begin

lemma loop_suffix:
  assumes "ok d" and "0 < rx_roll (rv d)" and "rx_roll (rv d) \<le> data_slots ss"
    and "rx_fits (rx_owed (rv d))" and "fl_slots f = pre @ ss" and "length pre + length ss = n"
  shows "\<exists>d'. loop [length pre ..< n] f d =
      Inr (f\<lparr>fl_slots := pre @ blank_slots (rx_roll (rv d)) ss\<rparr>, d') \<and> ok d' \<and> rv d' = rx_owed (rv d)"
  using assms
proof (induction ss arbitrary: d f pre)
  case Nil
  then show ?case by (simp add: data_slots_def)
next
  case (Cons s ss)
  let ?k = "rx_roll (rv d)"
  have upt: "[length pre ..< n] = length pre # [Suc (length pre) ..< n]"
    by (rule upt_conv_Cons) (use Cons.prems(6) in simp)
  have nth: "fl_slots f ! length pre = s" using Cons.prems(5) by simp
  show ?case
  proof (cases "sl_type s = data")
    case False
    then show ?thesis
      using Cons.IH [of d f "pre @ [s]"] Cons.prems by (simp add: upt loop_Cons nth data_slots_def)
  next
    case True
    let ?e = "s\<lparr>sl_type := empty\<rparr>"
    let ?f = "f\<lparr>fl_slots := (fl_slots f)[length pre := ?e]\<rparr>"
    have f': "fl_slots ?f = (pre @ [?e]) @ ss" using Cons.prems(5) by simp
    note dv = dec_ok [OF Cons.prems(1)] dec_view [of d]
    show ?thesis
    proof (cases "?k = 1")
      case one: True
      have "int (length (rx_big (rv (dec d)))) < rx_cap_big (rv (dec d))"
        using Cons.prems(4) dv one by (simp add: rx_fits_def rx_owed_def)
      then obtain d' where "finish (dec d) = Inr d'" "ok d'"
        "rv d' = (rv (dec d))\<lparr>rx_big := rx_big (rv (dec d)) @ [rx_hdr (rv (dec d))]\<rparr>"
        using finish_returns [OF dv(1)] finish_view by metis
      then show ?thesis
        using True one dv Cons.prems(5) by (simp add: upt loop_Cons nth rx_owed_def)
    next
      case more: False
      have "rx_owed (rv (dec d)) = rx_owed (rv d)"
        using dv more Cons.prems(2) by (simp add: rx_owed_def)
      then have "\<exists>d'. loop [length (pre @ [?e]) ..< n] ?f (dec d) =
          Inr (?f\<lparr>fl_slots := (pre @ [?e]) @ blank_slots (rx_roll (rv (dec d))) ss\<rparr>, d') \<and> ok d' \<and>
          rv d' = rx_owed (rv d)"
        using Cons.IH [OF _ _ _ _ f', of "dec d"] dv more Cons.prems(2-4,6) True by (simp add: data_slots_def)
      then show ?thesis
        using True more dv Cons.prems(2) by (simp add: upt loop_Cons nth)
    qed
  qed
qed

lemma loop_owed:
  assumes "ok d" and "0 < rx_roll (rv d)" and "rx_roll (rv d) \<le> data_slots (fl_slots f)"
    and "rx_fits (rx_owed (rv d))" and "length (fl_slots f) = 4"
  obtains d' where "loop [0, 1, 2, 3] f d = Inr (f\<lparr>fl_slots := blank_slots (rx_roll (rv d)) (fl_slots f)\<rparr>, d')"
    "ok d'" "rv d' = rx_owed (rv d)"
proof -
  have "[0..<4] = [0, 1, 2, 3::nat]" by (simp add: upt_rec)
  then show thesis using loop_suffix [OF assms(1-4), of f "[]" 4] assms(5) that by auto
qed

text \<open>Whatever the capacities, a loop that returns has taken the owed data out.\<close>

lemma loop_suffix_returns:
  assumes "loop [length pre ..< n] f d = Inr (f', d')" and "0 < rx_roll (rv d)"
    and "rx_roll (rv d) \<le> data_slots ss" and "fl_slots f = pre @ ss" and "length pre + length ss = n"
  shows "f' = f\<lparr>fl_slots := pre @ blank_slots (rx_roll (rv d)) ss\<rparr> \<and> rv d' = rx_owed (rv d) \<and>
    frame d' = frame d"
  using assms
proof (induction ss arbitrary: d f pre)
  case Nil
  then show ?case by (simp add: data_slots_def)
next
  case (Cons s ss)
  have upt: "[length pre ..< n] = length pre # [Suc (length pre) ..< n]"
    by (rule upt_conv_Cons) (use Cons.prems(5) in simp)
  have nth: "fl_slots f ! length pre = s" using Cons.prems(4) by simp
  show ?case
  proof (cases "sl_type s = data")
    case False
    then show ?thesis
      using Cons.IH [of "pre @ [s]" f d] Cons.prems by (simp add: upt loop_Cons nth data_slots_def)
  next
    case True
    let ?e = "s\<lparr>sl_type := empty\<rparr>"
    let ?f = "f\<lparr>fl_slots := (fl_slots f)[length pre := ?e]\<rparr>"
    have f': "fl_slots ?f = (pre @ [?e]) @ ss" using Cons.prems(4) by simp
    show ?thesis
    proof (cases "rx_roll (rv d) = 1")
      case one: True
      then show ?thesis
        using Cons.prems(1,4) True finish_view finish_frame
        by (auto simp: upt loop_Cons nth dec_view dec_frame rx_owed_def)
    next
      case more: False
      have "loop [length (pre @ [?e]) ..< n] ?f (dec d) = Inr (f', d')"
        using Cons.prems(1) True more by (simp add: upt loop_Cons nth dec_view)
      moreover have "rx_owed (rv (dec d)) = rx_owed (rv d)"
        using more Cons.prems(2) by (simp add: rx_owed_def dec_view)
      ultimately show ?thesis
        using Cons.IH [OF _ _ _ f', of "dec d"] Cons.prems(2,3,5) True more
        by (simp add: data_slots_def dec_view dec_frame)
    qed
  qed
qed

lemma loop_owed_returns:
  assumes "loop [0, 1, 2, 3] f d = Inr (f', d')" and "0 < rx_roll (rv d)"
    and "rx_roll (rv d) \<le> data_slots (fl_slots f)" and "length (fl_slots f) = 4"
  shows "f' = f\<lparr>fl_slots := blank_slots (rx_roll (rv d)) (fl_slots f)\<rparr>" and "rv d' = rx_owed (rv d)"
    and "frame d' = frame d"
proof -
  have "[0..<4] = [0, 1, 2, 3::nat]" by (simp add: upt_rec)
  then show "f' = f\<lparr>fl_slots := blank_slots (rx_roll (rv d)) (fl_slots f)\<rparr>" and "rv d' = rx_owed (rv d)"
    and "frame d' = frame d"
    using loop_suffix_returns [of "[]" 4 f d f' d' "fl_slots f"] assms by auto
qed

end

text \<open>The loop over the slots:\<close>

locale slot_loop =
  fixes kd :: "slot_type \<Rightarrow> kind"
    and loop :: "slot list \<Rightarrow> 'd \<Rightarrow> 'd result"
    and step :: "slot \<Rightarrow> 'd \<Rightarrow> 'd result"
    and rv :: "'d \<Rightarrow> rx_view"
    and frame :: "'d \<Rightarrow> 'f"
    and ok :: "'d \<Rightarrow> bool"
  assumes loop_Nil: "loop [] d = Inr d"
    and loop_Cons: "loop (s # ss) d = bind_r (step s d) (loop ss)"
    and step_view: "ok d \<Longrightarrow> wire_tok (rx_roll (rv d)) (kd (sl_type s)) \<noteq> None \<Longrightarrow>
      rx_fits (rx_slot kd s (rv d)) \<Longrightarrow>
      \<exists>d'. step s d = Inr d' \<and> ok d'"
    and step_returns: "step s d = Inr d' \<Longrightarrow> rv d' = rx_slot kd s (rv d) \<and> frame d' = frame d \<and>
      wire_tok (rx_roll (rv d)) (kd (sl_type s)) \<noteq> None"
begin

lemma loop_delivers:
  "ok d \<Longrightarrow> wire_run (rx_roll (rv d)) (map (\<lambda>s. kd (sl_type s)) ss) \<noteq> None \<Longrightarrow>
   rx_fits (fold (rx_slot kd) ss (rv d)) \<Longrightarrow>
   \<exists>d'. loop ss d = Inr d' \<and> ok d' \<and> rv d' = fold (rx_slot kd) ss (rv d)"
proof (induction ss arbitrary: d)
  case Nil
  then show ?case by (simp add: loop_Nil)
next
  case (Cons s ss)
  let ?v = "rx_slot kd s (rv d)"
  have fits: "rx_fits ?v" using Cons.prems(3) by (auto dest: rx_fold_mono)
  obtain k where k: "wire_tok (rx_roll (rv d)) (kd (sl_type s)) = Some k"
    "wire_run k (map (\<lambda>s. kd (sl_type s)) ss) \<noteq> None"
    using Cons.prems(2) by (auto split: option.splits)
  then obtain d1 where d1: "step s d = Inr d1" "ok d1" "rv d1 = ?v"
    using step_view [OF Cons.prems(1) _ fits] step_returns by (metis option.distinct(1))
  have "rx_roll ?v = k" using k(1) by (rule rx_slot_roll)
  then show ?case using Cons.IH [OF d1(2)] d1 k(2) Cons.prems(3) by (simp add: loop_Cons)
qed

lemma loop_returns:
  "loop ss d = Inr d' \<Longrightarrow> rv d' = fold (rx_slot kd) ss (rv d) \<and> frame d' = frame d \<and>
     wire_run (rx_roll (rv d)) (map (\<lambda>s. kd (sl_type s)) ss) = Some (rx_roll (rv d'))"
proof (induction ss arbitrary: d)
  case Nil
  then show ?case by (simp add: loop_Nil)
next
  case (Cons s ss)
  then obtain d1 where d1: "step s d = Inr d1" "loop ss d1 = Inr d'" by (auto simp: loop_Cons)
  note st = step_returns [OF d1(1)]
  then obtain k where k: "wire_tok (rx_roll (rv d)) (kd (sl_type s)) = Some k" by auto
  then have "rx_roll (rv d1) = k" using st rx_slot_roll by metis
  then show ?case using Cons.IH [OF d1(2)] st k by simp
qed

end

text \<open>What the rollover rule gives the first loop.\<close>

context kind_map
begin

lemma rollover_rule_data:
  assumes "length (fl_slots f) = 4" "rollover_rule k (kinds_of kd f)" "0 \<le> k" "k \<le> 4"
  shows "k \<le> data_slots (fl_slots f)"
proof -
  obtain a b c d where "fl_slots f = [a, b, c, d]" using assms(1) by (auto simp: length_4_conv)
  moreover have "k = 0 \<or> k = 1 \<or> k = 2 \<or> k = 3 \<or> k = 4" using assms(3,4) by linarith
  ultimately show ?thesis
    using assms(2) by (auto simp: rollover_rule_def kinds_of_def types_def data_slots_def kd_data)
qed

end

section \<open>Unpacking a whole flit\<close>

text \<open>Both loops one after the other; \<open>start\<close> is the state in which the second begins.\<close>

locale flit_receiver =
  kind_map kd small hdr +
  ow: owed_loop oloop dec finish rv frame ok +
  sl: slot_loop kd sloop step rv2 frame2 ok2
  for kd :: "slot_type \<Rightarrow> kind" and small :: slot_type and hdr :: slot_type
    and oloop :: "nat list \<Rightarrow> flit \<Rightarrow> 'd \<Rightarrow> (flit \<times> 'd) result" and dec :: "'d \<Rightarrow> 'd"
    and finish :: "'d \<Rightarrow> 'd result" and rv :: "'d \<Rightarrow> rx_view" and frame :: "'d \<Rightarrow> 'f" and ok :: "'d \<Rightarrow> bool"
    and sloop :: "slot list \<Rightarrow> 'e \<Rightarrow> 'e result" and step :: "slot \<Rightarrow> 'e \<Rightarrow> 'e result"
    and rv2 :: "'e \<Rightarrow> rx_view" and frame2 :: "'e \<Rightarrow> 'f" and ok2 :: "'e \<Rightarrow> bool" +
  fixes start :: "'d \<Rightarrow> 'e"
  assumes start_view: "rv2 (start d) = rv d" "frame2 (start d) = frame d" "ok2 (start d) = ok d"
begin

lemma unpack_loops:
  assumes "wire_flit (rx_roll (rv d)) (kinds_of kd f) = Some k" "rx_fits (rx_flit kd f (rv d))" "ok d"
  obtains d1 e where
    "(if rx_roll (rv d) \<noteq> 0 then oloop [0, 1, 2, 3] f d else Inr (f, d)) =
       Inr (f\<lparr>fl_slots := blank_slots (rx_roll (rv d)) (fl_slots f)\<rparr>, d1)"
    "sloop (blank_slots (rx_roll (rv d)) (fl_slots f)) (start d1) = Inr e"
    "ok2 e" "rv2 e = rx_flit kd f (rv d)"
proof -
  let ?k = "rx_roll (rv d)" and ?ss = "blank_slots (rx_roll (rv d)) (fl_slots f)"
  have w: "length (fl_slots f) = 4" "0 \<le> ?k" "?k \<le> 4" "rollover_rule ?k (kinds_of kd f)"
    using assms(1) by (auto simp: wire_flit_def kinds_of_def types_def split: if_splits)
  have run: "wire_run 0 (map (\<lambda>s. kd (sl_type s)) ?ss) = Some k"
    using assms(1) by (auto simp: wire_flit_def kinds_slots blank_kinds split: if_splits)
  have fits0: "rx_fits (rx_owed (rv d))" using assms(2) by (auto simp: rx_flit_def dest: rx_fold_mono)
  obtain d1 where d1: "ok d1" "rv d1 = rx_owed (rv d)"
    "(if ?k \<noteq> 0 then oloop [0, 1, 2, 3] f d else Inr (f, d)) = Inr (f\<lparr>fl_slots := ?ss\<rparr>, d1)"
  proof (cases "?k = 0")
    case True
    then show ?thesis using that [of d] assms(3) by (simp add: rx_owed_def)
  next
    case False
    with w(2) have pos: "0 < ?k" by simp
    show ?thesis
      by (rule ow.loop_owed [OF assms(3) pos rollover_rule_data [OF w(1,4,2,3)] fits0 w(1)])
         (use that False in simp)
  qed
  have "rx_roll (rv d1) = 0" using d1(2) w(2) by (simp add: rx_owed_def)
  with run assms(2) d1 sl.loop_delivers [of "start d1" ?ss]
  have "\<exists>e. sloop ?ss (start d1) = Inr e \<and> ok2 e \<and> rv2 e = rx_flit kd f (rv d)"
    by (simp add: rx_flit_def start_view)
  with that d1(3) show thesis by blast
qed

lemma unpack_loops_legal:
  assumes len: "length (fl_slots f) = 4" and k: "0 \<le> rx_roll (rv d)" "rx_roll (rv d) \<le> 4"
    and rule: "rollover_rule (rx_roll (rv d)) (kinds_of kd f)"
    and owed: "(if rx_roll (rv d) \<noteq> 0 then oloop [0, 1, 2, 3] f d else Inr (f, d)) = Inr (f1, d1)"
    and slots: "sloop (fl_slots f1) (start d1) = Inr e"
  shows "f1 = f\<lparr>fl_slots := blank_slots (rx_roll (rv d)) (fl_slots f)\<rparr>"
    and "rv2 e = rx_flit kd f (rv d)" and "frame2 e = frame d"
    and "wire_run 0 (blank_data (rx_roll (rv d)) (kinds_of kd f)) = Some (rx_roll (rv2 e))"
proof -
  let ?k = "rx_roll (rv d)"
  have f1: "f1 = f\<lparr>fl_slots := blank_slots ?k (fl_slots f)\<rparr> \<and> rv d1 = rx_owed (rv d) \<and> frame d1 = frame d"
  proof (cases "?k = 0")
    case True
    then show ?thesis using owed by (simp add: rx_owed_def)
  next
    case False
    with k(1) have "0 < ?k" by simp
    with ow.loop_owed_returns [of f d f1 d1] owed False rollover_rule_data [OF len rule k] len
    show ?thesis by simp
  qed
  have "rx_roll (rx_owed (rv d)) = 0" using k(1) by (auto simp: rx_owed_def)
  with f1 sl.loop_returns [OF slots] show "f1 = f\<lparr>fl_slots := blank_slots ?k (fl_slots f)\<rparr>"
    "rv2 e = rx_flit kd f (rv d)" "frame2 e = frame d"
    "wire_run 0 (blank_data ?k (kinds_of kd f)) = Some (rx_roll (rv2 e))"
    by (simp_all add: start_view rx_flit_def blank_kinds kinds_slots)
qed

text \<open>The counts of the small messages and headers decide the count rule.\<close>

lemma count_rule_iff:
  "length (fl_slots f) = 4 \<Longrightarrow> count_rule (kinds_of kd f) \<longleftrightarrow>
     count_list (kinds_of kd f) KSmall \<le> 2 \<and> count_list (kinds_of kd f) KHdr \<le> 1"
  using count_kinds_le [of "kinds_of kd f"] by (auto simp: count_rule_def kinds_slots)

end

end
