(* ===== verification/CXL_If.thy ===== *)
theory CXL_If
  imports CXL_Flit
begin

text \<open>
  The boundary between the CXL layer and the DRAM model: the request type of
  \<^verbatim>\<open>ramulator/src/Request.h\<close>, the request buffer of
  \<^verbatim>\<open>ramulator/src/CXLInterface.{h,cpp}\<close>, and the conversion of a message into a request,
  \<^verbatim>\<open>message2ramulator_req\<close> of \<^verbatim>\<open>src/utils.cpp\<close>.
\<close>

section \<open>Requests\<close>

datatype Request_Type = READ | WRITE | REFRESH | POWERDOWN | SELFREFRESH | EXTENSION

record dam_time =
  dam_start :: int
  dam_end :: int
  dam_ram_start :: int
  dam_ram_end :: int

text \<open>\<^verbatim>\<open>long addr\<close> is kept as its 64 bits.  The callback and the two owner pointers are
  the same for every request of one memory, so they are not fields here: a memory returns
  the requests whose callback it runs, and its owner handles them.\<close>

record Request =
  is_first_command :: bool
  rq_addr :: u64
  addr_vec :: "int list"
  coreid :: int
  req_id :: u64
  rq_type :: Request_Type
  arrive :: int
  depart :: int

definition Request_new :: "u64 \<Rightarrow> Request_Type \<Rightarrow> u64 \<Rightarrow> Request" where
  "Request_new addr t i =
     \<lparr>is_first_command = True, rq_addr = addr, addr_vec = [], coreid = 0, req_id = i,
      rq_type = t, arrive = -1, depart = -1\<rparr>"

section \<open>The request buffer\<close>

datatype status_type = VALID | EMPTY | END

record ramulator_req =
  rr_req_id :: u64
  rr_status :: status_type
  rr_addr :: u64
  rr_type :: Request_Type

definition build_req :: "u64 \<Rightarrow> u64 \<Rightarrow> Request_Type \<Rightarrow> status_type \<Rightarrow> ramulator_req" where
  "build_req i a t st = \<lparr>rr_req_id = i, rr_status = st, rr_addr = a, rr_type = t\<rparr>"

record CXL_if_buf =
  ib_buf :: "ramulator_req list"
  ib_size :: int

definition CXL_if_buf_new :: CXL_if_buf where
  "CXL_if_buf_new = \<lparr>ib_buf = [], ib_size = 32\<rparr>"

definition isEmpty :: "CXL_if_buf \<Rightarrow> bool" where
  "isEmpty b \<longleftrightarrow> length (ib_buf b) = 0"

definition isFull :: "CXL_if_buf \<Rightarrow> bool" where
  "isFull b \<longleftrightarrow> length (ib_buf b) \<ge> to_size_t (ib_size b)"

definition buf_add :: "CXL_if_buf \<Rightarrow> ramulator_req \<Rightarrow> CXL_if_buf result" where
  "buf_add b r =
     cxl_assert (\<not> isFull b) ''Overflow CXLDevice->Ramulator buffer''
       (Inr (b\<lparr>ib_buf := ib_buf b @ [r]\<rparr>))"

text \<open>\<^verbatim>\<open>get_dramtrace_request\<close> writes through three references; the model takes their
  values and returns the new ones.  An \<^verbatim>\<open>END\<close> entry stays in the buffer.\<close>

definition get_dramtrace_request ::
  "CXL_if_buf \<Rightarrow> u64 \<Rightarrow> Request_Type \<Rightarrow> u64
     \<Rightarrow> status_type \<times> CXL_if_buf \<times> u64 \<times> Request_Type \<times> u64" where
  "get_dramtrace_request b addr t i =
     (if isEmpty b then (EMPTY, b, 0, REFRESH, i)
      else let r = hd (ib_buf b)
           in if rr_status r = END then (END, b, addr, t, i)
              else (VALID, b\<lparr>ib_buf := tl (ib_buf b)\<rparr>, rr_addr r, rr_type r, rr_req_id r))"

definition message2ramulator_req :: "message \<Rightarrow> ramulator_req result" where
  "message2ramulator_req m =
     cxl_assert (opCode m = Req \<or> opCode m = RwD) ''Illegal message type''
       (Inr \<lparr>rr_req_id = msg_id m, rr_status = VALID, rr_addr = address m,
             rr_type = (if opCode m = Req then READ else WRITE)\<rparr>)"

section \<open>The buffer is a bounded queue\<close>

definition ifbuf_pop :: "CXL_if_buf \<Rightarrow> CXL_if_buf result" where
  "ifbuf_pop b = (if isEmpty b then Inl (NULL_DEREF ''front'')
                  else Inr (b\<lparr>ib_buf := tl (ib_buf b)\<rparr>))"

definition ifbuf_ok :: "CXL_if_buf \<Rightarrow> bool" where
  "ifbuf_ok b \<longleftrightarrow> 0 \<le> ib_size b \<and> ib_size b < 2 ^ 31 \<and> int (length (ib_buf b)) \<le> ib_size b"

lemma isFull_iff: "ifbuf_ok b \<Longrightarrow> isFull b \<longleftrightarrow> int (length (ib_buf b)) = ib_size b"
  unfolding ifbuf_ok_def isFull_def by simp linarith

lemma buf_add_eq_Inr [simp]:
  "buf_add b r = Inr b' \<longleftrightarrow> \<not> isFull b \<and> b' = b\<lparr>ib_buf := ib_buf b @ [r]\<rparr>"
  by (auto simp: buf_add_def)

lemma buf_add_returns [simp]: "\<not> isFull b \<Longrightarrow> buf_add b r = Inr (b\<lparr>ib_buf := ib_buf b @ [r]\<rparr>)"
  by simp

lemma ifbuf_new_ok [simp]: "ifbuf_ok CXL_if_buf_new"
  by (simp add: ifbuf_ok_def CXL_if_buf_new_def)

interpretation ifbuf: bounded_fifo ib_buf "\<lambda>b. nat (ib_size b)" isFull isEmpty
  buf_add ifbuf_pop ifbuf_ok
proof unfold_locales
  fix q :: CXL_if_buf
  assume "ifbuf_ok q"
  then show "isFull q = (length (ib_buf q) = nat (ib_size q))"
    unfolding isFull_iff [OF \<open>ifbuf_ok q\<close>] ifbuf_ok_def by linarith
next
  fix q q' :: CXL_if_buf and x
  assume "ifbuf_ok q" "buf_add q x = Inr q'"
  then show "ifbuf_ok q'" by (auto simp: isFull_iff) (simp add: ifbuf_ok_def)
qed (auto simp: ifbuf_ok_def isEmpty_def buf_add_def ifbuf_pop_def split: if_splits)

text \<open>What \<^verbatim>\<open>get_dramtrace_request\<close> takes out is what the locale calls a dequeue.\<close>

lemma get_dramtrace_request_pop:
  "get_dramtrace_request b addr t i = (VALID, b', a', t', i') \<Longrightarrow>
     ifbuf_pop b = Inr b' \<and> rr_req_id (hd (ib_buf b)) = i' \<and> rr_addr (hd (ib_buf b)) = a'"
  by (auto simp: get_dramtrace_request_def ifbuf_pop_def Let_def split: if_splits)

section \<open>The memory behind the buffer\<close>

text \<open>
  \<^verbatim>\<open>ramulator/src/RamDevice.h\<close>: the memory of a CXL device and the direct-attached memory
  of the host have the same front end, a request buffer and a small state that feeds
  \<^verbatim>\<open>Memory<DDR4, Controller>\<close>.  The operations the front end calls on the memory are a
  record of functions, an argument of the definitions that use them; \<open>mem_tick\<close> returns
  the requests whose completion callback ran, in order.
\<close>

record 'm mem_ops =
  mem_send :: "'m \<Rightarrow> Request \<Rightarrow> ('m \<times> bool) result"
  mem_tick :: "'m \<Rightarrow> ('m \<times> Request list) result"
  mem_pending_requests :: "'m \<Rightarrow> int"
  mem_drain_writes :: "'m \<Rightarrow> 'm"  \<comment> \<open>\<^verbatim>\<open>set_high_writeq_watermark(0.0f)\<close>\<close>

record dramtrace_state =
  ds_stall :: bool
  ds_end :: bool
  ds_idle :: bool
  ds_reads :: int
  ds_writes :: int
  ds_clks :: int
  ds_status :: status_type
  ds_is_sim_finished :: bool

record 'm RamDevice =
  rd_memory :: 'm
  rd_addr :: u64
  rd_type :: Request_Type
  rd_req_id :: u64
  rd_state :: dramtrace_state
  rd_inp_buf :: CXL_if_buf

definition initialize_state :: dramtrace_state where
  "initialize_state =
     \<lparr>ds_stall = False, ds_end = False, ds_idle = False, ds_reads = 0, ds_writes = 0,
      ds_clks = 0, ds_status = VALID, ds_is_sim_finished = False\<rparr>"

definition initialize_buffer :: "CXL_if_buf \<Rightarrow> CXL_if_buf result" where
  "initialize_buffer b =
     bind_r (buf_add b (build_req 1 0x12345680 READ VALID)) (\<lambda>b.
     bind_r (buf_add b (build_req 2 0x4cbd56c0 WRITE VALID)) (\<lambda>b.
     bind_r (buf_add b (build_req 3 0x35d46f00 READ VALID)) (\<lambda>b.
     bind_r (buf_add b (build_req 4 0x696fed40 WRITE VALID)) (\<lambda>b.
     bind_r (buf_add b (build_req 5 0x7876af80 READ VALID)) (\<lambda>b.
     buf_add b (build_req 6 0x7876af80 READ END))))))"

text \<open>\<^verbatim>\<open>ramulator_init\<close>: the memory is handed in already configured; \<^verbatim>\<open>req_id\<close> stays
  uninitialised.\<close>

definition ramulator_init :: "'m \<Rightarrow> u64 \<Rightarrow> 'm RamDevice" where
  "ramulator_init mem junk =
     \<lparr>rd_memory = mem, rd_addr = 0, rd_type = READ, rd_req_id = junk,
      rd_state = initialize_state, rd_inp_buf = CXL_if_buf_new\<rparr>"

text \<open>A front end whose memory has no state, for the concrete runs.\<close>

definition sample_ram :: "unit RamDevice" where
  "sample_ram = ramulator_init () 0"

text \<open>A memory that completes one request per tick in order, for the concrete runs.\<close>

definition fifo_mem_ops :: "Request list mem_ops" where
  "fifo_mem_ops =
     \<lparr>mem_send = (\<lambda>m r. Inr (if length m < 32 then (m @ [r], True) else (m, False))),
      mem_tick = (\<lambda>m. Inr (tl m, take 1 m)),
      mem_pending_requests = (\<lambda>m. int (length m)),
      mem_drain_writes = (\<lambda>m. m)\<rparr>"

end
