(* ===== verification/CXL_Device.thy ===== *)
theory CXL_Device
  imports CXL_Recv CXL_If
begin

text \<open>
  The CXL memory device, \<^verbatim>\<open>CXLDevice\<close> of \<^verbatim>\<open>include/CXLNode.h\<close> and
  \<^verbatim>\<open>src/CXLDevice.cpp\<close>: the packer that turns responses into flits, the unpacker that
  turns flits into requests, the feeding of the DRAM model and its completion callback,
  the transmitter, the credit accounting and the skip checks.

  The record is the class without the members no operation reads.  The transmit bus,
  a pointer in the class, is passed to the operations that use it.
\<close>

section \<open>State\<close>

record 'm CXLDevice =
  dv_tx_buffer :: "flit CXLBuf"
  dv_rx_buffer :: "flit CXLBuf"
  dv_node_id :: int
  dv_ext_creds :: "(int, credits) smap"
  dv_int_cred :: credits
  dv_packer_cur_vc :: nat
  dv_M2S_Req :: "message CXLBuf"
  dv_M2S_RWD :: "message CXLBuf"
  dv_S2M_NDR :: "message CXLBuf list"
  dv_cur_NDR_vc :: nat
  dv_S2M_DRS :: "message CXLBuf list"
  dv_cur_DRS_vc :: nat
  dv_dram :: "'m RamDevice"
  dv_ramulator_inp_state :: round_robin_state
  dv_unpacker_rollover :: int
  dv_packer_rollover :: int
  dv_last_ramulator_update :: int
  dv_last_rwd_hdr :: message
  dv_last_drs_hdr :: message
  dv_last_transmitted_at :: int
  dv_packer_seq_length :: int
  dv_seq_threshold :: int
  dv_is_packer_waiting :: bool
  dv_started_packing_at :: int
  dv_packer_wait_time :: int
  dv_flit_to_pack :: flit
  dv_pkr2_state :: round_robin_state
  dv_connected_hosts :: "u64 list"
  dv_messages_in_ramulator :: "(u64, message) smap"
  dv_empty_cycle_packer :: u64
  dv_empty_cycle_unpacker :: u64
  dv_empty_cycle_sent_to_ram :: u64
  dv_empty_cycle_transmit :: u64
  dv_skippable_cycle :: u64
  dv_num_reqs :: u64

text \<open>\<^verbatim>\<open>ext_creds[0]\<close>, the credits the host has granted.\<close>

definition dv_cred :: "'m CXLDevice \<Rightarrow> credits" where
  "dv_cred d = sm_get zero_credits (dv_ext_creds d) 0"

definition dv_set_cred :: "credits \<Rightarrow> 'm CXLDevice \<Rightarrow> 'm CXLDevice" where
  "dv_set_cred c d = d\<lparr>dv_ext_creds := sm_put 0 c (dv_ext_creds d)\<rparr>"

lemma dv_cred_set [simp]: "dv_cred (dv_set_cred c d) = c"
  by (simp add: dv_cred_def dv_set_cred_def sm_get_def)

section \<open>Construction\<close>

text \<open>\<^verbatim>\<open>(int64_t)(0.1 * (float)params.ticks_per_ns)\<close>\<close>

definition tenth_ns :: "CXLParams \<Rightarrow> int" where
  "tenth_ns p = trunc (float64 (fmul (float64 (1, 10)) (float32 (ticks_per_ns p, 1))))"

definition CXLDevice_new ::
  "CXLParams \<Rightarrow> uninit \<Rightarrow> 'm RamDevice \<Rightarrow> int \<Rightarrow> int \<Rightarrow> int \<Rightarrow> 'm CXLDevice" where
  "CXLDevice_new p u ram vc_size sz nid =
     \<lparr>dv_tx_buffer = CXLBuf_new sz, dv_rx_buffer = CXLBuf_new sz, dv_node_id = nid,
      dv_ext_creds = [(0, zero_credits)],
      dv_int_cred = \<lparr>req_credit = vc_size - 0 - 1, rsp_credit = 0, data_credit = vc_size - 0 - 1\<rparr>,
      dv_packer_cur_vc = 0,
      dv_M2S_Req = CXLBuf_new vc_size, dv_M2S_RWD = CXLBuf_new vc_size,
      dv_S2M_NDR = replicate NUM_VC (CXLBuf_new (trunc_div vc_size (int NUM_VC))),
      dv_cur_NDR_vc = 0,
      dv_S2M_DRS = replicate NUM_VC (CXLBuf_new (trunc_div vc_size (int NUM_VC))),
      dv_cur_DRS_vc = 0,
      dv_dram = ram, dv_ramulator_inp_state = RR_R,
      dv_unpacker_rollover = 0, dv_packer_rollover = 0,
      dv_last_ramulator_update = delay_ramulator_update p,
      dv_last_rwd_hdr = u_msg u, dv_last_drs_hdr = u_msg u,
      dv_last_transmitted_at = 0, dv_packer_seq_length = 0, dv_seq_threshold = 5,
      dv_is_packer_waiting = False, dv_started_packing_at = 0,
      dv_packer_wait_time = tenth_ns p, dv_flit_to_pack = flit_new u,
      dv_pkr2_state = RR_R, dv_connected_hosts = [0], dv_messages_in_ramulator = [],
      dv_empty_cycle_packer = 0, dv_empty_cycle_unpacker = 0, dv_empty_cycle_sent_to_ram = 0,
      dv_empty_cycle_transmit = 0, dv_skippable_cycle = 0, dv_num_reqs = 0\<rparr>"

section \<open>Choosing the next response to pack\<close>

datatype dv_vc = VC_NDR nat | VC_DRS nat

fun dv_vc_buf :: "dv_vc \<Rightarrow> 'm CXLDevice \<Rightarrow> message CXLBuf" where
  "dv_vc_buf (VC_NDR i) d = dv_S2M_NDR d ! i"
| "dv_vc_buf (VC_DRS i) d = dv_S2M_DRS d ! i"

fun dv_vc_dequeue :: "dv_vc \<Rightarrow> 'm CXLDevice \<Rightarrow> 'm CXLDevice result" where
  "dv_vc_dequeue (VC_NDR i) d =
     bind_r (dequeue (dv_S2M_NDR d ! i)) (\<lambda>b. Inr (d\<lparr>dv_S2M_NDR := (dv_S2M_NDR d)[i := b]\<rparr>))"
| "dv_vc_dequeue (VC_DRS i) d =
     bind_r (dequeue (dv_S2M_DRS d ! i)) (\<lambda>b. Inr (d\<lparr>dv_S2M_DRS := (dv_S2M_DRS d)[i := b]\<rparr>))"

text \<open>The loop of \<^verbatim>\<open>check_vcs_for_packing\<close> over the channel indices still to look at.\<close>

fun dv_scan_vcs ::
  "CXLParams \<Rightarrow> globals \<Rightarrow> 'm CXLDevice \<Rightarrow> message CXLBuf list \<Rightarrow> nat list \<Rightarrow> nat option result" where
  "dv_scan_vcs p g d vcs [] = Inr None"
| "dv_scan_vcs p g d vcs (i # is) =
     (let vc = vcs ! (i mod NUM_VC)
      in if \<not> is_buf_empty vc \<and>
            curr_tick g - tick_ramulator_complete (m_time (hd (buf_q vc))) \<ge> delay_vc_to_pack p
         then (case opCode (hd (buf_q vc)) of
                 NDR \<Rightarrow> if rsp_credit (dv_cred d) \<noteq> 0 then Inr (Some i)
                        else dv_scan_vcs p g d vcs is
               | DRS \<Rightarrow> if data_credit (dv_cred d) \<noteq> 0 \<and>
                           dv_packer_seq_length d < dv_seq_threshold d
                        then Inr (Some i) else dv_scan_vcs p g d vcs is
               | _ \<Rightarrow> Inl (CXL_ASSERT ''Illegal message type''))
         else dv_scan_vcs p g d vcs is)"

definition dv_check_vcs_for_packing ::
  "CXLParams \<Rightarrow> globals \<Rightarrow> message CXLBuf list \<Rightarrow> 'm CXLDevice
     \<Rightarrow> (nat option \<times> 'm CXLDevice) result" where
  "dv_check_vcs_for_packing p g vcs d =
     bind_r (dv_scan_vcs p g d vcs [dv_packer_cur_vc d ..< NUM_VC + dv_packer_cur_vc d])
       (\<lambda>r. case r of
              None \<Rightarrow> Inr (None, d)
            | Some i \<Rightarrow> Inr (Some (i mod NUM_VC),
                d\<lparr>dv_packer_cur_vc :=
                    (if dv_packer_cur_vc d = NUM_VC - 1 then 0 else i mod NUM_VC + 1)\<rparr>))"

definition dv_try_NDR ::
  "CXLParams \<Rightarrow> globals \<Rightarrow> round_robin_state \<Rightarrow> 'm CXLDevice
     \<Rightarrow> (dv_vc option \<times> 'm CXLDevice) result" where
  "dv_try_NDR p g next d =
     bind_r (dv_check_vcs_for_packing p g (dv_S2M_NDR d) d) (\<lambda>(r, d).
       case r of None \<Rightarrow> Inr (None, d)
       | Some i \<Rightarrow> Inr (Some (VC_NDR i), d\<lparr>dv_pkr2_state := next\<rparr>))"

definition dv_try_DRS ::
  "CXLParams \<Rightarrow> globals \<Rightarrow> round_robin_state \<Rightarrow> 'm CXLDevice
     \<Rightarrow> (dv_vc option \<times> 'm CXLDevice) result" where
  "dv_try_DRS p g next d =
     bind_r (dv_check_vcs_for_packing p g (dv_S2M_DRS d) d) (\<lambda>(r, d).
       case r of None \<Rightarrow> Inr (None, d)
       | Some i \<Rightarrow> Inr (Some (VC_DRS i), d\<lparr>dv_pkr2_state := next\<rparr>))"

definition dv_get_msg_from_vcs ::
  "CXLParams \<Rightarrow> globals \<Rightarrow> 'm CXLDevice \<Rightarrow> (dv_vc option \<times> 'm CXLDevice) result" where
  "dv_get_msg_from_vcs p g d =
     (case dv_pkr2_state d of
        RR_r \<Rightarrow> bind_r (dv_try_NDR p g RR_R d) (\<lambda>(r, d).
                 case r of Some v \<Rightarrow> Inr (Some v, d) | None \<Rightarrow> dv_try_DRS p g RR_w d)
      | RR_R \<Rightarrow> bind_r (dv_try_DRS p g RR_w d) (\<lambda>(r, d).
                 case r of Some v \<Rightarrow> Inr (Some v, d) | None \<Rightarrow> dv_try_NDR p g RR_R d)
      | RR_w \<Rightarrow> bind_r (dv_try_NDR p g RR_r d) (\<lambda>(r, d).
                 case r of Some v \<Rightarrow> Inr (Some v, d) | None \<Rightarrow> dv_try_DRS p g RR_w d)
      | RR_W \<Rightarrow> Inl (CXL_ASSERT ''Illegal state in round robin''))"

section \<open>Credits and the hand-over to the transmit buffer\<close>

definition dv_credit_sanity_check :: "'m CXLDevice \<Rightarrow> 'a result \<Rightarrow> 'a result" where
  "dv_credit_sanity_check d k =
     cxl_assert (rsp_credit (dv_int_cred d) = 0) ''Rsp cred of device should be 0''
    (cxl_assert (0 \<le> req_credit (dv_int_cred d) \<and> req_credit (dv_int_cred d) \<le> buf_size (dv_M2S_Req d))
       ''Req cred of host out of range''
    (cxl_assert (0 \<le> data_credit (dv_int_cred d) \<and> data_credit (dv_int_cred d) \<le> buf_size (dv_M2S_RWD d))
       ''Data cred of host out of range'' k))"

definition grant :: "int \<Rightarrow> int \<Rightarrow> int" where
  "grant n c = (if c = 1 then 1 else if c > 1 then c div n else 0)"

definition get_device_credits :: "'m CXLDevice \<Rightarrow> (credits \<times> 'm CXLDevice) result" where
  "get_device_credits d =
     dv_credit_sanity_check d
       (let ic = dv_int_cred d; n = int (length (dv_connected_hosts d));
            rq = grant n (req_credit ic); da = grant n (data_credit ic)
        in Inr (\<lparr>req_credit = rq, rsp_credit = 0, data_credit = da\<rparr>,
                d\<lparr>dv_int_cred := ic\<lparr>req_credit := req_credit ic - rq,
                                      data_credit := data_credit ic - da\<rparr>\<rparr>))"

definition dv_add_flit_to_buf ::
  "globals \<Rightarrow> 'm CXLDevice \<Rightarrow> (globals \<times> 'm CXLDevice) result" where
  "dv_add_flit_to_buf g d =
     bind_r (get_device_credits d) (\<lambda>(crds, d).
       let f = dv_flit_to_pack d;
           f = f\<lparr>fl_time := (fl_time f)\<lparr>time_of_creation := curr_tick g\<rparr>,
                 fl_header := (fl_header f)\<lparr>fh_credit := crds\<rparr>\<rparr>;
           f = set_time tick_repacked_update (curr_tick g) f;
           f = f\<lparr>flit_id := flit_counter g\<rparr>
       in bind_r (enqueue (dv_tx_buffer d) f) (\<lambda>tx.
          let d = d\<lparr>dv_flit_to_pack := f, dv_tx_buffer := tx,
                    dv_packer_seq_length :=
                      (if dv_packer_rollover d > 0 then dv_packer_seq_length d + 1 else 0)\<rparr>
          in cxl_assert (\<not> (dv_packer_seq_length d = dv_seq_threshold d \<and> dv_packer_rollover d > 0))
               ''Device pakcer sequence threshold violated''
               (Inr (g\<lparr>flit_counter := flit_counter g + 1\<rparr>, d))))"

section \<open>The packer\<close>

definition dv_put_data :: "nat \<Rightarrow> 'm CXLDevice \<Rightarrow> 'm CXLDevice" where
  "dv_put_data i d =
     d\<lparr>dv_flit_to_pack := put_data i (dv_last_drs_hdr d) (mark_header i data (dv_flit_to_pack d))\<rparr>"

definition dv_put_message :: "nat \<Rightarrow> slot_type \<Rightarrow> message \<Rightarrow> 'm CXLDevice \<Rightarrow> 'm CXLDevice" where
  "dv_put_message i t m d =
     d\<lparr>dv_flit_to_pack := put_message i t m (mark_header i t (dv_flit_to_pack d))\<rparr>"

text \<open>The switch over \<^verbatim>\<open>packer_rollover\<close> for a brand-new flit (cases 1 to 3; case 4 is
  completed in the packer itself).\<close>

definition dv_place_rollover :: "'m CXLDevice \<Rightarrow> 'm CXLDevice result" where
  "dv_place_rollover d =
     (if dv_packer_rollover d = 1
      then Inr ((dv_put_data 1 d)\<lparr>dv_packer_rollover := dv_packer_rollover d - 1\<rparr>)
      else if dv_packer_rollover d = 2
      then Inr ((dv_put_data 2 (dv_put_data 1 d))\<lparr>dv_packer_rollover := dv_packer_rollover d - 2\<rparr>)
      else if dv_packer_rollover d = 3
      then Inr ((dv_put_data 3 (dv_put_data 2 (dv_put_data 1 d)))
                  \<lparr>dv_packer_rollover := dv_packer_rollover d - 3\<rparr>)
      else if dv_packer_rollover d = 4
      then Inr ((dv_put_data 3 (dv_put_data 2 (dv_put_data 1 (dv_put_data 0 d))))
                  \<lparr>dv_packer_rollover := dv_packer_rollover d - 4\<rparr>)
      else Inl (CXL_ASSERT ''Illegal rollover count''))"

text \<open>One iteration of the packing loop at slot \<open>i\<close>; the flag says whether the loop goes
  on.  A message that does not fit stays in its channel: the \<^verbatim>\<open>break\<close> leaves the inner
  switch only.\<close>

definition dv_pack_slot ::
  "CXLParams \<Rightarrow> globals \<Rightarrow> nat \<Rightarrow> 'm CXLDevice \<Rightarrow> (bool \<times> 'm CXLDevice) result" where
  "dv_pack_slot p g i d =
     (if sl_type (fl_slots (dv_flit_to_pack d) ! i) \<noteq> empty then Inr (True, d)
      else if dv_packer_rollover d \<noteq> 0 \<and> i \<noteq> 0
      then Inr (True, (dv_put_data i d)\<lparr>dv_packer_rollover := dv_packer_rollover d - 1\<rparr>)
      else bind_r (dv_get_msg_from_vcs p g d) (\<lambda>(r, d).
        case r of
          None \<Rightarrow> Inr (False, d)
        | Some vc \<Rightarrow>
            bind_r (get_head (dv_vc_buf vc d)) (\<lambda>m.
              case opCode m of
                NDR \<Rightarrow>
                  if slot_count_in_flit (dv_flit_to_pack d) s2m_ndr \<le> 1
                  then let d = dv_put_message i s2m_ndr m d;
                           d = d\<lparr>dv_int_cred := (dv_int_cred d)
                                    \<lparr>data_credit := data_credit (dv_int_cred d) + 1\<rparr>\<rparr>;
                           d = dv_set_cred ((dv_cred d)\<lparr>rsp_credit := rsp_credit (dv_cred d) - 1\<rparr>) d
                       in bind_r (dv_vc_dequeue vc d) (\<lambda>d. Inr (True, d))
                  else Inr (True, d)
              | DRS \<Rightarrow>
                  if (slot_count_in_flit (dv_flit_to_pack d) s2m_drs_hdr = 0 \<and> i = 0) \<or>
                     (slot_count_in_flit (dv_flit_to_pack d) s2m_drs_hdr = 0 \<and>
                      are_all_slots_after_this_empty (dv_flit_to_pack d) i)
                  then let d = dv_put_message i s2m_drs_hdr m d;
                           d = d\<lparr>dv_last_drs_hdr := message_copy (dv_last_drs_hdr d) m,
                                 dv_packer_rollover := 4\<rparr>;
                           d = dv_set_cred ((dv_cred d)\<lparr>data_credit := data_credit (dv_cred d) - 1\<rparr>) d
                       in bind_r (dv_vc_dequeue vc d) (\<lambda>d. Inr (True, d))
                  else Inr (True, d)
              | _ \<Rightarrow> Inl (CXL_ASSERT ''Illegal message type''))))"

fun dv_pack_loop ::
  "CXLParams \<Rightarrow> globals \<Rightarrow> nat list \<Rightarrow> 'm CXLDevice \<Rightarrow> 'm CXLDevice result" where
  "dv_pack_loop p g [] d = Inr d"
| "dv_pack_loop p g (i # is) d =
     bind_r (dv_pack_slot p g i d) (\<lambda>(go, d). if go then dv_pack_loop p g is d else Inr d)"

definition dv_packing_rule_violated :: "'m CXLDevice \<Rightarrow> bool" where
  "dv_packing_rule_violated d \<longleftrightarrow>
     (let f = dv_flit_to_pack d;
          drs_count = slot_count_in_flit f s2m_drs_hdr;
          ndr_count = slot_count_in_flit f s2m_ndr;
          data_count = slot_count_in_flit f data
      in ndr_count > 2 \<or> data_count > 4 \<or> drs_count > 1 \<or> drs_count + data_count + ndr_count > 4)"

text \<open>The part of the packer after the two early returns that send a waiting flit.\<close>

definition dv_pack_more ::
  "CXLParams \<Rightarrow> globals \<Rightarrow> 'm CXLDevice \<Rightarrow> (bool \<times> globals \<times> 'm CXLDevice) result" where
  "dv_pack_more p g d =
     bind_r (dv_pack_loop p g [0, 1, 2, 3] d) (\<lambda>d.
       let active = \<not> is_flit_empty (dv_flit_to_pack d);
           d = (if active then d\<lparr>dv_is_packer_waiting := True\<rparr> else d)
       in cxl_assert (\<not> dv_packing_rule_violated d) ''Packing rule violated on packer side''
            (Inr (active, g, d)))"

definition dv_send_waiting ::
  "globals \<Rightarrow> 'm CXLDevice \<Rightarrow> (bool \<times> globals \<times> 'm CXLDevice) result" where
  "dv_send_waiting g d =
     (if is_buf_full (dv_tx_buffer d) then Inr (True, g, d)
      else bind_r (dv_add_flit_to_buf g d) (\<lambda>(g, d).
             Inr (True, g, d\<lparr>dv_is_packer_waiting := False\<rparr>)))"

definition dv_FLIT_packer ::
  "CXLParams \<Rightarrow> uninit \<Rightarrow> globals \<Rightarrow> 'm CXLDevice \<Rightarrow> (bool \<times> globals \<times> 'm CXLDevice) result" where
  "dv_FLIT_packer p u g d =
     (let d = (if \<not> dv_is_packer_waiting d
               then d\<lparr>dv_flit_to_pack := flit_new u, dv_started_packing_at := curr_tick g\<rparr> else d)
      in if dv_is_packer_waiting d \<and> is_flit_full (dv_flit_to_pack d) then dv_send_waiting g d
         else if dv_is_packer_waiting d \<and>
                 curr_tick g - dv_started_packing_at d > dv_packer_wait_time d \<and>
                 \<not> is_flit_empty (dv_flit_to_pack d)
         then dv_send_waiting g d
         else cxl_assert (0 \<le> dv_packer_rollover d \<and> dv_packer_rollover d \<le> 4)
                ''Packer rollover illegal value''
           (if dv_packer_rollover d \<noteq> 0 \<and> \<not> dv_is_packer_waiting d
            then bind_r (dv_place_rollover d) (\<lambda>d'.
                   if dv_packer_rollover d = 4
                   then (if is_buf_full (dv_tx_buffer d')
                         then Inr (True, g, d'\<lparr>dv_is_packer_waiting := True\<rparr>)
                         else bind_r (dv_add_flit_to_buf g d') (\<lambda>(g, d').
                                Inr (True, g, d'\<lparr>dv_is_packer_waiting := False\<rparr>)))
                   else dv_pack_more p g d')
            else dv_pack_more p g d))"

section \<open>The unpacker\<close>

text \<open>The switch over \<^verbatim>\<open>unpacker_rollover\<close>: the slots that must hold the owed data.\<close>

definition dv_rollover_rule :: "int \<Rightarrow> flit \<Rightarrow> bool" where
  "dv_rollover_rule k f \<longleftrightarrow>
     (let is_data = (\<lambda>i. sl_type (fl_slots f ! i) = data)
      in if k = 0 then True
         else if k = 1 then is_data 1
         else if k = 2 then is_data 1 \<and> is_data 2
         else if k = 3 then is_data 1 \<and> is_data 2 \<and> is_data 3
         else is_data 0 \<and> is_data 1 \<and> is_data 2 \<and> is_data 3)"

text \<open>The header whose data is complete joins the write channel.\<close>

definition dv_finish_rwd :: "globals \<Rightarrow> 'm CXLDevice \<Rightarrow> 'm CXLDevice result" where
  "dv_finish_rwd g d =
     (let h = dv_last_rwd_hdr d; h = h\<lparr>m_time := (m_time h)\<lparr>tick_unpacked := curr_tick g\<rparr>\<rparr>
      in bind_r (enqueue (dv_M2S_RWD d) h) (\<lambda>q.
           Inr (d\<lparr>dv_last_rwd_hdr := h, dv_M2S_RWD := q\<rparr>)))"

text \<open>The loop that takes the owed data out of the flit.\<close>

fun dv_unpack_rollover ::
  "globals \<Rightarrow> nat list \<Rightarrow> flit \<Rightarrow> 'm CXLDevice \<Rightarrow> (flit \<times> 'm CXLDevice) result" where
  "dv_unpack_rollover g [] f d = Inr (f, d)"
| "dv_unpack_rollover g (i # is) f d =
     (if sl_type (fl_slots f ! i) \<noteq> data then dv_unpack_rollover g is f d
      else let d = d\<lparr>dv_unpacker_rollover := dv_unpacker_rollover d - 1\<rparr>;
               f = f\<lparr>fl_slots := (fl_slots f)[i := (fl_slots f ! i)\<lparr>sl_type := empty\<rparr>]\<rparr>
           in if dv_unpacker_rollover d = 0
              then bind_r (dv_finish_rwd g d) (\<lambda>d. Inr (f, d))
              else dv_unpack_rollover g is f d)"

record unpack_ctrs =
  uc_small :: nat
  uc_hdr :: nat
  uc_data :: nat

definition dv_unpack_slot ::
  "globals \<Rightarrow> slot \<Rightarrow> unpack_ctrs \<times> 'm CXLDevice \<Rightarrow> (unpack_ctrs \<times> 'm CXLDevice) result" where
  "dv_unpack_slot g s = (\<lambda>(c, d).
     case sl_type s of
       m2s_req \<Rightarrow>
         let m = (sl_msg s)\<lparr>m_time := (m_time (sl_msg s))\<lparr>tick_unpacked := curr_tick g\<rparr>\<rparr>
         in bind_r (enqueue (dv_M2S_Req d) m) (\<lambda>q.
              Inr (c\<lparr>uc_small := uc_small c + 1\<rparr>, d\<lparr>dv_M2S_Req := q\<rparr>))
     | m2s_rwd_hdr \<Rightarrow>
         cxl_assert (dv_unpacker_rollover d = 0)
           ''Received RwD header without getting previous data first!''
           (Inr (c\<lparr>uc_hdr := uc_hdr c + 1\<rparr>,
                 d\<lparr>dv_unpacker_rollover := 4,
                   dv_last_rwd_hdr := message_copy (dv_last_rwd_hdr d) (sl_msg s)\<rparr>))
     | data \<Rightarrow>
         cxl_assert (dv_unpacker_rollover d > 0) ''Data received when not expected!''
           (let d = d\<lparr>dv_unpacker_rollover := dv_unpacker_rollover d - 1\<rparr>
            in bind_r (if dv_unpacker_rollover d = 0 then dv_finish_rwd g d else Inr d) (\<lambda>d.
                 Inr (c\<lparr>uc_data := uc_data c + 1\<rparr>, d)))
     | empty \<Rightarrow> Inr (c, d)
     | _ \<Rightarrow> Inl (CXL_ASSERT ''Illegal message type on rx buffer''))"

fun dv_unpack_slots ::
  "globals \<Rightarrow> slot list \<Rightarrow> unpack_ctrs \<times> 'm CXLDevice \<Rightarrow> (unpack_ctrs \<times> 'm CXLDevice) result" where
  "dv_unpack_slots g [] x = Inr x"
| "dv_unpack_slots g (s # ss) x = bind_r (dv_unpack_slot g s x) (dv_unpack_slots g ss)"

definition zero_ctrs :: unpack_ctrs where
  "zero_ctrs = \<lparr>uc_small = 0, uc_hdr = 0, uc_data = 0\<rparr>"

definition dv_unpack_flit :: "globals \<Rightarrow> flit \<Rightarrow> 'm CXLDevice \<Rightarrow> 'm CXLDevice result" where
  "dv_unpack_flit g f d =
     cxl_assert (dv_unpacker_rollover d \<le> 4 \<and> dv_unpacker_rollover d \<ge> 0) ''Rollover data out of range''
    (cxl_assert (dv_rollover_rule (dv_unpacker_rollover d) f) ''Data rollover rule violated''
    (bind_r (if dv_unpacker_rollover d \<noteq> 0 then dv_unpack_rollover g [0, 1, 2, 3] f d else Inr (f, d))
       (\<lambda>(f, d). bind_r (dv_unpack_slots g (fl_slots f) (zero_ctrs, d)) (\<lambda>(c, d).
          cxl_assert (uc_small c \<le> 2 \<and> uc_hdr c \<le> 1 \<and> uc_data c \<le> 4) ''Packing rule violated''
         (bind_r (dequeue (dv_rx_buffer d)) (\<lambda>rx.
            let d = d\<lparr>dv_rx_buffer := rx\<rparr>; cr = fh_credit (fl_header f)
            in Inr (dv_set_cred ((dv_cred d)\<lparr>rsp_credit := rsp_credit (dv_cred d) + rsp_credit cr,
                                            data_credit := data_credit (dv_cred d) + data_credit cr\<rparr>) d)))))))"

definition dv_FLIT_unpacker ::
  "CXLParams \<Rightarrow> globals \<Rightarrow> 'm CXLDevice \<Rightarrow> (bool \<times> 'm CXLDevice) result" where
  "dv_FLIT_unpacker p g d =
     cxl_assert (\<not> (is_buf_full (dv_rx_buffer d) \<and> is_buf_full (dv_M2S_Req d) \<and> is_buf_full (dv_M2S_RWD d)))
       ''Rx side stall!''
    (if is_buf_empty (dv_rx_buffer d) then Inr (False, d)
     else bind_r (get_head (dv_rx_buffer d)) (\<lambda>f.
       if curr_tick g - time_of_receipt (fl_time f) < delay_rx_buf_to_unpack p then Inr (False, d)
       else bind_r (dv_unpack_flit g f d) (\<lambda>d. Inr (True, d))))"

section \<open>The memory side\<close>

datatype dv_rx_vc = RX_Req | RX_RWD

fun dv_rx_buf :: "dv_rx_vc \<Rightarrow> 'm CXLDevice \<Rightarrow> message CXLBuf" where
  "dv_rx_buf RX_Req d = dv_M2S_Req d"
| "dv_rx_buf RX_RWD d = dv_M2S_RWD d"

fun dv_set_rx_buf :: "dv_rx_vc \<Rightarrow> message CXLBuf \<Rightarrow> 'm CXLDevice \<Rightarrow> 'm CXLDevice" where
  "dv_set_rx_buf RX_Req q d = d\<lparr>dv_M2S_Req := q\<rparr>"
| "dv_set_rx_buf RX_RWD q d = d\<lparr>dv_M2S_RWD := q\<rparr>"

definition dv_check_rx_vc ::
  "CXLParams \<Rightarrow> globals \<Rightarrow> dv_rx_vc \<Rightarrow> 'm CXLDevice \<Rightarrow> (bool \<times> 'm CXLDevice) result" where
  "dv_check_rx_vc p g v d =
     (let vc = dv_rx_buf v d
      in if is_buf_empty vc then Inr (False, d)
         else bind_r (get_head vc) (\<lambda>m.
           if curr_tick g - tick_unpacked (m_time m) < delay_vc_to_ramulator p then Inr (False, d)
           else if isFull (rd_inp_buf (dv_dram d)) then Inr (False, d)
           else bind_r (message2ramulator_req m) (\<lambda>req.
                bind_r (buf_add (rd_inp_buf (dv_dram d)) req) (\<lambda>ib.
                let d = d\<lparr>dv_dram := (dv_dram d)\<lparr>rd_inp_buf := ib\<rparr>,
                          dv_messages_in_ramulator := sm_insert (msg_id m) m (dv_messages_in_ramulator d)\<rparr>
                in bind_r (case opCode m of
                             Req \<Rightarrow> Inr (d\<lparr>dv_int_cred := (dv_int_cred d)
                                        \<lparr>req_credit := req_credit (dv_int_cred d) + 1\<rparr>\<rparr>)
                           | RwD \<Rightarrow> Inr d
                           | _ \<Rightarrow> Inl (CXL_ASSERT ''Illegal message type'')) (\<lambda>d.
                   bind_r (dequeue (dv_rx_buf v d)) (\<lambda>q. Inr (True, dv_set_rx_buf v q d)))))))"

definition dv_first_of ::
  "CXLParams \<Rightarrow> globals \<Rightarrow> dv_rx_vc \<times> round_robin_state \<Rightarrow> dv_rx_vc \<times> round_robin_state
     \<Rightarrow> 'm CXLDevice \<Rightarrow> (bool \<times> 'm CXLDevice) result" where
  "dv_first_of p g = (\<lambda>(v1, s1) (v2, s2) d.
     bind_r (dv_check_rx_vc p g v1 d) (\<lambda>(b, d).
       if b then Inr (True, d\<lparr>dv_ramulator_inp_state := s1\<rparr>)
       else bind_r (dv_check_rx_vc p g v2 d) (\<lambda>(b, d).
              if b then Inr (True, d\<lparr>dv_ramulator_inp_state := s2\<rparr>) else Inr (False, d))))"

definition send_to_ramulator ::
  "CXLParams \<Rightarrow> globals \<Rightarrow> 'm CXLDevice \<Rightarrow> (bool \<times> 'm CXLDevice) result" where
  "send_to_ramulator p g d =
     cxl_assert (\<not> (is_buf_full (dv_M2S_Req d) \<and> is_buf_full (dv_M2S_RWD d) \<and>
                     isEmpty (rd_inp_buf (dv_dram d)))) ''Ramulator side stall''
       (case dv_ramulator_inp_state d of
          RR_R \<Rightarrow> dv_first_of p g (RX_RWD, RR_w) (RX_Req, RR_r) d
        | RR_r \<Rightarrow> dv_first_of p g (RX_Req, RR_R) (RX_RWD, RR_w) d
        | RR_w \<Rightarrow> dv_first_of p g (RX_Req, RR_R) (RX_RWD, RR_w) d
        | RR_W \<Rightarrow> Inl (CXL_ASSERT ''Unknown state in round robin''))"

definition ramulator_req_notification ::
  "globals \<Rightarrow> Request \<Rightarrow> 'm CXLDevice \<Rightarrow> 'm CXLDevice result" where
  "ramulator_req_notification g r d =
     (case sm_find (dv_messages_in_ramulator d) (req_id r) of
        None \<Rightarrow> Inl (CXL_ASSERT ''Ramulator callback is for an unknown request'')
      | Some m \<Rightarrow>
          let m = m\<lparr>m_time := (m_time m)\<lparr>ramulator_clk_end := ds_clks (rd_state (dv_dram d)),
                                       tick_ramulator_complete := curr_tick g\<rparr>\<rparr>;
              next = (\<lambda>v. if v = NUM_VC - 1 then 0 else v + 1)
          in bind_r (case opCode m of
               Req \<Rightarrow>
                 bind_r (enqueue (dv_S2M_DRS d ! dv_cur_DRS_vc d) (m\<lparr>opCode := DRS\<rparr>)) (\<lambda>q.
                   Inr (d\<lparr>dv_S2M_DRS := (dv_S2M_DRS d)[dv_cur_DRS_vc d := q],
                           dv_cur_DRS_vc := next (dv_cur_DRS_vc d)\<rparr>))
             | RwD \<Rightarrow>
                 bind_r (enqueue (dv_S2M_NDR d ! dv_cur_NDR_vc d) (m\<lparr>opCode := NDR\<rparr>)) (\<lambda>q.
                   Inr (d\<lparr>dv_S2M_NDR := (dv_S2M_NDR d)[dv_cur_NDR_vc d := q],
                           dv_cur_NDR_vc := next (dv_cur_NDR_vc d)\<rparr>))
             | _ \<Rightarrow> Inl (CXL_ASSERT ''Unknown input message'')) (\<lambda>d.
               Inr (d\<lparr>dv_messages_in_ramulator := sm_erase (req_id r) (dv_messages_in_ramulator d)\<rparr>)))"

fun dv_notify_all :: "globals \<Rightarrow> Request list \<Rightarrow> 'm CXLDevice \<Rightarrow> 'm CXLDevice result" where
  "dv_notify_all g [] d = Inr d"
| "dv_notify_all g (r # rs) d = bind_r (ramulator_req_notification g r d) (dv_notify_all g rs)"

text \<open>The memory has accepted the request: stamp the message it belongs to.\<close>

definition dv_ram_accepted :: "globals \<Rightarrow> 'm CXLDevice \<Rightarrow> 'm CXLDevice result" where
  "dv_ram_accepted g d =
     (let ram = dv_dram d; st = rd_state ram; i = rd_req_id ram
      in case sm_find (dv_messages_in_ramulator d) i of
           None \<Rightarrow> Inl (CXL_ASSERT ''Trying to send req to ramulator for message that does not exist'')
         | Some m \<Rightarrow>
             let m = m\<lparr>m_time := (m_time m)\<lparr>tick_at_ramulator := curr_tick g,
                                          ramulator_clk_start := ds_clks st\<rparr>\<rparr>;
                 st = (case rd_type ram of READ \<Rightarrow> st\<lparr>ds_reads := ds_reads st + 1\<rparr>
                       | WRITE \<Rightarrow> st\<lparr>ds_writes := ds_writes st + 1\<rparr> | _ \<Rightarrow> st)
             in Inr (d\<lparr>dv_messages_in_ramulator := sm_put i m (dv_messages_in_ramulator d),
                       dv_dram := ram\<lparr>rd_state := st\<rparr>\<rparr>))"

text \<open>\<^verbatim>\<open>RamDevice::update\<close>; the callbacks that \<^verbatim>\<open>memory->tick()\<close> runs are those of
  \<open>ramulator_req_notification\<close>, in order.\<close>

definition RamDevice_update ::
  "'m mem_ops \<Rightarrow> globals \<Rightarrow> 'm CXLDevice \<Rightarrow> (bool \<times> 'm CXLDevice) result" where
  "RamDevice_update ops g d =
     (let ram = dv_dram d; st = rd_state ram
      in if ds_status st \<noteq> END \<or> mem_pending_requests ops (rd_memory ram) \<noteq> 0
         then
           let ram = (if ds_status st \<noteq> END \<and> \<not> ds_stall st
                      then case get_dramtrace_request (rd_inp_buf ram) (rd_addr ram) (rd_type ram) (rd_req_id ram)
                           of (s, ib, a, t, i) \<Rightarrow>
                             ram\<lparr>rd_inp_buf := ib, rd_addr := a, rd_type := t, rd_req_id := i,
                                 rd_state := st\<lparr>ds_status := s\<rparr>\<rparr>
                      else ram);
               st = rd_state ram; d = d\<lparr>dv_dram := ram\<rparr>
           in bind_r
               (if ds_status st \<noteq> END
                then if ds_status st \<noteq> EMPTY
                     then bind_r (mem_send ops (rd_memory ram) (Request_new (rd_addr ram) (rd_type ram) (rd_req_id ram)))
                           (\<lambda>(mem, ok).
                              let d = d\<lparr>dv_dram := ram\<lparr>rd_memory := mem, rd_state := st\<lparr>ds_stall := \<not> ok\<rparr>\<rparr>\<rparr>
                              in if ok then dv_ram_accepted g d else Inr d)
                     else Inr d
                else Inr (d\<lparr>dv_dram := ram\<lparr>rd_memory := mem_drain_writes ops (rd_memory ram)\<rparr>\<rparr>))
               (\<lambda>d. bind_r (mem_tick ops (rd_memory (dv_dram d))) (\<lambda>(mem, done).
                 bind_r (dv_notify_all g done (d\<lparr>dv_dram := (dv_dram d)\<lparr>rd_memory := mem\<rparr>\<rparr>)) (\<lambda>d.
                   let ram = dv_dram d; st = rd_state ram
                   in Inr (False, d\<lparr>dv_dram := ram\<lparr>rd_state := st\<lparr>ds_clks := ds_clks st + 1\<rparr>\<rparr>\<rparr>))))
         else Inr (True, d))"

section \<open>The transmitter\<close>

definition dv_transmit ::
  "CXLParams \<Rightarrow> uninit \<Rightarrow> globals \<Rightarrow> 'm CXLDevice \<Rightarrow> CXLBus \<Rightarrow> (bool \<times> 'm CXLDevice \<times> CXLBus) result" where
  "dv_transmit p u g d b =
     (if is_buf_empty (dv_tx_buffer d) then Inr (False, d, b)
      else if bus_is_full b then Inr (False, d, b)
      else bind_r (get_head (dv_tx_buffer d)) (\<lambda>h.
        if curr_tick g - time_of_creation (fl_time h) < delay_tx_buf_to_bus p then Inr (False, d, b)
        else if curr_tick g - dv_last_transmitted_at d < cxl_bus_ticks_per_dequeue p then Inr (False, d, b)
        else let f = flit_copy (flit_new u) h;
                 f = f\<lparr>fl_time := (fl_time f)\<lparr>time_of_transmission := curr_tick g\<rparr>\<rparr>;
                 f = set_time tick_retransmitted_update (curr_tick g) f
             in bind_r (add_to_bus g f b) (\<lambda>b.
                bind_r (dequeue (dv_tx_buffer d)) (\<lambda>tx.
                  Inr (True, d\<lparr>dv_last_transmitted_at := curr_tick g, dv_tx_buffer := tx\<rparr>, b)))))"

section \<open>The skip checks\<close>

definition dv_skip_packer_check :: "CXLParams \<Rightarrow> globals \<Rightarrow> 'm CXLDevice \<Rightarrow> bool" where
  "dv_skip_packer_check p g d \<longleftrightarrow>
     (if dv_packer_rollover d \<noteq> 0 \<or> dv_is_packer_waiting d then False
      else if list_all (\<lambda>i. is_buf_empty (dv_S2M_DRS d ! i) \<and> is_buf_empty (dv_S2M_NDR d ! i)) [0..<NUM_VC]
      then True
      else let due = (\<lambda>vc. \<not> is_buf_empty vc \<and>
                        curr_tick g - tick_created (m_time (hd (buf_q vc))) \<ge> delay_vc_to_pack p)
           in list_all (\<lambda>i. \<not> due (dv_S2M_DRS d ! i) \<and> \<not> due (dv_S2M_NDR d ! i)) [0..<NUM_VC])"

definition dv_skip_unpacker_check :: "CXLParams \<Rightarrow> globals \<Rightarrow> 'm CXLDevice \<Rightarrow> bool" where
  "dv_skip_unpacker_check p g d \<longleftrightarrow>
     is_buf_empty (dv_rx_buffer d) \<or>
     (\<not> is_buf_empty (dv_rx_buffer d) \<and>
      curr_tick g - time_of_receipt (fl_time (hd (buf_q (dv_rx_buffer d)))) < delay_rx_buf_to_unpack p)"

definition dv_skip_send_to_ram_check :: "CXLParams \<Rightarrow> globals \<Rightarrow> 'm CXLDevice \<Rightarrow> bool" where
  "dv_skip_send_to_ram_check p g d \<longleftrightarrow>
     (let due = (\<lambda>vc. \<not> is_buf_empty vc \<and>
                   curr_tick g - tick_unpacked (m_time (hd (buf_q vc))) \<ge> delay_vc_to_ramulator p)
      in if isFull (rd_inp_buf (dv_dram d)) then False
         else if is_buf_empty (dv_M2S_Req d) \<and> is_buf_empty (dv_M2S_RWD d) then True
         else if due (dv_M2S_Req d) then False
         else if due (dv_M2S_RWD d) then False
         else True)"

definition dv_skip_transmit_check :: "CXLParams \<Rightarrow> globals \<Rightarrow> 'm CXLDevice \<Rightarrow> CXLBus \<Rightarrow> bool" where
  "dv_skip_transmit_check p g d b \<longleftrightarrow>
     (is_buf_empty (dv_tx_buffer d) \<or> bus_is_full b) \<or>
     (\<not> is_buf_empty (dv_tx_buffer d) \<and>
      (curr_tick g - time_of_creation (fl_time (hd (buf_q (dv_tx_buffer d)))) < delay_tx_buf_to_bus p \<or>
       curr_tick g - dv_last_transmitted_at d < cxl_bus_ticks_per_dequeue p))"

section \<open>One tick of the device\<close>

text \<open>
  \<^verbatim>\<open>CXLDevice::update\<close>.  The flag \<open>skip\<close> is the build option \<^verbatim>\<open>SKIP_CYCLE\<close>: with it, a
  part whose skip check says so is not called; without it (the default) every part runs.
\<close>

definition count_if_skipped :: "bool \<Rightarrow> bool \<Rightarrow> u64 \<Rightarrow> u64" where
  "count_if_skipped skip runs c = (if skip \<and> \<not> runs then c + 1 else c)"

definition dv_stage_pack where
  "dv_stage_pack p u skip g d =
     (let runs = \<not> dv_skip_packer_check p g d
      in bind_r (if \<not> skip \<or> runs then dv_FLIT_packer p u g d else Inr (False, g, d)) (\<lambda>(a, g, d).
           Inr (runs, a, g, d\<lparr>dv_empty_cycle_packer := count_if_skipped skip runs (dv_empty_cycle_packer d)\<rparr>)))"

definition dv_stage_unpack where
  "dv_stage_unpack p skip g d =
     (let runs = \<not> dv_skip_unpacker_check p g d
      in bind_r (if \<not> skip \<or> runs then dv_FLIT_unpacker p g d else Inr (False, d)) (\<lambda>(a, d).
           Inr (runs, a, d\<lparr>dv_empty_cycle_unpacker := count_if_skipped skip runs (dv_empty_cycle_unpacker d)\<rparr>)))"

definition dv_stage_ram where
  "dv_stage_ram p skip g d =
     (let runs = \<not> dv_skip_send_to_ram_check p g d
      in bind_r (if \<not> skip \<or> runs then send_to_ramulator p g d else Inr (False, d)) (\<lambda>(a, d).
           let d = d\<lparr>dv_empty_cycle_sent_to_ram := count_if_skipped skip runs (dv_empty_cycle_sent_to_ram d)\<rparr>
           in Inr (runs, a, if a then d\<lparr>dv_num_reqs := dv_num_reqs d + 1\<rparr> else d)))"

definition dv_stage_transmit where
  "dv_stage_transmit p u skip g d b =
     (let runs = \<not> dv_skip_transmit_check p g d b
      in bind_r (if \<not> skip \<or> runs then dv_transmit p u g d b else Inr (False, d, b)) (\<lambda>(a, d, b).
           Inr (runs, a, d\<lparr>dv_empty_cycle_transmit := count_if_skipped skip runs (dv_empty_cycle_transmit d)\<rparr>, b)))"

text \<open>The end of the tick: the counter of skippable ticks and, with \<open>skip\<close>, the checks that
  no part was active (\<open>a\<close>) that the skip checks would not have run (\<open>r\<close>).\<close>

definition dv_end_tick ::
  "bool \<Rightarrow> bool \<times> bool \<Rightarrow> bool \<times> bool \<Rightarrow> bool \<times> bool \<Rightarrow> bool \<times> bool \<Rightarrow> 'm CXLDevice \<Rightarrow> 'm CXLDevice result" where
  "dv_end_tick skip pk un rm tx d =
     (let d = d\<lparr>dv_last_ramulator_update := dv_last_ramulator_update d - 1\<rparr>;
          d = d\<lparr>dv_skippable_cycle := dv_skippable_cycle d +
                 (if \<not> fst pk \<and> \<not> fst un \<and> \<not> fst rm \<and> \<not> fst tx then 1 else 0)\<rparr>;
          bad = (\<lambda>(r, a). skip \<and> \<not> r \<and> a)
      in cxl_assert (\<not> bad pk) ''Packer Flag Error''
        (cxl_assert (\<not> bad un) ''Unpacker Flag Error''
        (cxl_assert (\<not> bad rm) ''Send to ramualtor Flag Error''
        (cxl_assert (\<not> bad tx) ''Transmit Flag Error'' (Inr d)))))"

definition CXLDevice_update ::
  "CXLParams \<Rightarrow> uninit \<Rightarrow> 'm mem_ops \<Rightarrow> bool \<Rightarrow> globals \<Rightarrow> 'm CXLDevice \<Rightarrow> CXLBus
     \<Rightarrow> (globals \<times> 'm CXLDevice \<times> CXLBus) result" where
  "CXLDevice_update p u ops skip g d b =
     bind_r (dv_stage_pack p u skip g d) (\<lambda>(r1, a1, g, d).
     bind_r (dv_stage_unpack p skip g d) (\<lambda>(r2, a2, d).
     bind_r (dv_stage_ram p skip g d) (\<lambda>(r3, a3, d).
     bind_r (dv_stage_transmit p u skip g d b) (\<lambda>(r4, a4, d, b).
     bind_r (if curr_tick g mod delay_ramulator_update p = 0
             then bind_r (RamDevice_update ops g d) (\<lambda>(_, d). Inr d) else Inr d) (\<lambda>d.
     bind_r (dv_end_tick skip (r1, a1) (r2, a2) (r3, a3) (r4, a4) d) (\<lambda>d. Inr (g, d, b)))))))"

lemma dv_end_tick_eq:
  "dv_end_tick skip pk un rm tx d = Inr d' \<Longrightarrow>
     \<exists>n k. d' = d\<lparr>dv_last_ramulator_update := k, dv_skippable_cycle := n\<rparr>"
  by (auto simp: dv_end_tick_def Let_def)

end
