(* ===== verification/CXL_Device_Pack.thy ===== *)
theory CXL_Device_Pack
  imports CXL_Device
begin

text \<open>
  The packer of the device (\<^verbatim>\<open>CXLDevice::FLIT_packer\<close>) follows the slot-filling
  discipline of \<open>CXL_Wire\<close>: it is an instance of the locale \<open>slot_packer\<close>.  The invariant
  \<open>dv_packer_ok\<close> is kept by every call, no assertion of the packer fires, every flit put
  into the transmit buffer is legal at the rollover the previous one left, and no response
  is lost or duplicated.
\<close>

section \<open>Views\<close>

abbreviation dv_kinds :: "'m CXLDevice \<Rightarrow> kind list" where
  "dv_kinds d \<equiv> kinds_of kind_dev (dv_flit_to_pack d)"

definition dv_ready :: "CXLParams \<Rightarrow> globals \<Rightarrow> message CXLBuf \<Rightarrow> bool" where
  "dv_ready p g vc \<longleftrightarrow> \<not> is_buf_empty vc \<and>
     curr_tick g - tick_ramulator_complete (m_time (hd (buf_q vc))) \<ge> delay_vc_to_pack p"

definition dv_can_NDR :: "CXLParams \<Rightarrow> globals \<Rightarrow> 'm CXLDevice \<Rightarrow> bool" where
  "dv_can_NDR p g d \<longleftrightarrow> rsp_credit (dv_cred d) \<noteq> 0 \<and> (\<exists>vc \<in> set (dv_S2M_NDR d). dv_ready p g vc)"

definition dv_can_DRS :: "CXLParams \<Rightarrow> globals \<Rightarrow> 'm CXLDevice \<Rightarrow> bool" where
  "dv_can_DRS p g d \<longleftrightarrow> data_credit (dv_cred d) \<noteq> 0 \<and>
     dv_packer_seq_length d < dv_seq_threshold d \<and> (\<exists>vc \<in> set (dv_S2M_DRS d). dv_ready p g vc)"

section \<open>Arbitration\<close>

definition dv_typed :: "'m CXLDevice \<Rightarrow> bool" where
  "dv_typed d \<longleftrightarrow> vcs_carry NDR (dv_S2M_NDR d) \<and> vcs_carry DRS (dv_S2M_DRS d) \<and>
     length (types (dv_flit_to_pack d)) = 4"

lemma scan_NDR:
  assumes "vcs_carry NDR vcs"
  shows "dv_scan_vcs p g d vcs is =
     Inr (if rsp_credit (dv_cred d) = 0 then None else find (\<lambda>i. dv_ready p g (vcs ! (i mod 4))) is)"
  by (induction "is") (auto simp: Let_def NUM_VC_def dv_ready_def vcs_carry_hd [OF assms])

lemma scan_DRS:
  assumes "vcs_carry DRS vcs"
  shows "dv_scan_vcs p g d vcs is =
     Inr (if data_credit (dv_cred d) = 0 \<or> \<not> dv_packer_seq_length d < dv_seq_threshold d then None
          else find (\<lambda>i. dv_ready p g (vcs ! (i mod 4))) is)"
  by (induction "is") (auto simp: Let_def NUM_VC_def dv_ready_def vcs_carry_hd [OF assms])

lemma try_NDR_none: "dv_typed d \<Longrightarrow> \<not> dv_can_NDR p g d \<Longrightarrow> dv_try_NDR p g s d = Inr (None, d)"
  by (rule find_window [of "dv_S2M_NDR d" "dv_ready p g" "dv_packer_cur_vc d"])
     (auto simp: dv_typed_def vcs_carry_length dv_try_NDR_def dv_check_vcs_for_packing_def scan_NDR
        dv_can_NDR_def NUM_VC_def)

lemma try_DRS_none: "dv_typed d \<Longrightarrow> \<not> dv_can_DRS p g d \<Longrightarrow> dv_try_DRS p g s d = Inr (None, d)"
  by (rule find_window [of "dv_S2M_DRS d" "dv_ready p g" "dv_packer_cur_vc d"])
     (auto simp: dv_typed_def vcs_carry_length dv_try_DRS_def dv_check_vcs_for_packing_def scan_DRS
        dv_can_DRS_def NUM_VC_def)

lemma try_NDR_some:
  assumes "dv_typed d" "dv_can_NDR p g d"
  obtains i c where "i < 4" "\<not> is_buf_empty (dv_S2M_NDR d ! i)"
    "dv_try_NDR p g s d = Inr (Some (VC_NDR i), d\<lparr>dv_packer_cur_vc := c, dv_pkr2_state := s\<rparr>)"
proof -
  have v: "vcs_carry NDR (dv_S2M_NDR d)" using assms by (simp add: dv_typed_def)
  obtain i where i: "find (\<lambda>i. dv_ready p g (dv_S2M_NDR d ! (i mod 4)))
      [dv_packer_cur_vc d ..< 4 + dv_packer_cur_vc d] = Some i" "dv_ready p g (dv_S2M_NDR d ! (i mod 4))"
    by (rule find_window [OF vcs_carry_length [OF v], of "dv_ready p g" "dv_packer_cur_vc d"])
       (use assms(2) in \<open>auto simp: dv_can_NDR_def\<close>)
  show thesis
    by (rule that [of "i mod 4"])
       (use i assms(2) in \<open>simp_all add: dv_try_NDR_def dv_check_vcs_for_packing_def scan_NDR [OF v]
          dv_can_NDR_def NUM_VC_def dv_ready_def\<close>)
qed

lemma try_DRS_some:
  assumes "dv_typed d" "dv_can_DRS p g d"
  obtains i c where "i < 4" "\<not> is_buf_empty (dv_S2M_DRS d ! i)"
    "dv_try_DRS p g s d = Inr (Some (VC_DRS i), d\<lparr>dv_packer_cur_vc := c, dv_pkr2_state := s\<rparr>)"
proof -
  have v: "vcs_carry DRS (dv_S2M_DRS d)" using assms by (simp add: dv_typed_def)
  obtain i where i: "find (\<lambda>i. dv_ready p g (dv_S2M_DRS d ! (i mod 4)))
      [dv_packer_cur_vc d ..< 4 + dv_packer_cur_vc d] = Some i" "dv_ready p g (dv_S2M_DRS d ! (i mod 4))"
    by (rule find_window [OF vcs_carry_length [OF v], of "dv_ready p g" "dv_packer_cur_vc d"])
       (use assms(2) in \<open>auto simp: dv_can_DRS_def\<close>)
  show thesis
    by (rule that [of "i mod 4"])
       (use i assms(2) in \<open>simp_all add: dv_try_DRS_def dv_check_vcs_for_packing_def scan_DRS [OF v]
          dv_can_DRS_def NUM_VC_def dv_ready_def\<close>)
qed

text \<open>The arbiter of the device is \<open>pick\<close>.\<close>

lemma get_msg_pick:
  assumes "dv_typed d" "dv_pkr2_state d \<noteq> RR_W"
  shows "dv_get_msg_from_vcs p g d =
    (case pick (dv_pkr2_state d) (dv_can_NDR p g d) (dv_can_DRS p g d) of
       None \<Rightarrow> Inr (None, d)
     | Some (k, s) \<Rightarrow> if k = KSmall then dv_try_NDR p g s d else dv_try_DRS p g s d)"
proof -
  note none = try_NDR_none [OF assms(1)] try_DRS_none [OF assms(1)]
  have "\<exists>v e. dv_can_NDR p g d \<longrightarrow> dv_try_NDR p g s d = Inr (Some v, e)" for s
    by (cases "dv_can_NDR p g d") (auto elim: try_NDR_some [OF assms(1), of p g s])
  then obtain v e where N: "\<And>s. dv_can_NDR p g d \<Longrightarrow> dv_try_NDR p g s d = Inr (Some (v s), e s)"
    by metis
  have "\<exists>v e. dv_can_DRS p g d \<longrightarrow> dv_try_DRS p g s d = Inr (Some v, e)" for s
    by (cases "dv_can_DRS p g d") (auto elim: try_DRS_some [OF assms(1), of p g s])
  then obtain v' e' where D: "\<And>s. dv_can_DRS p g d \<Longrightarrow> dv_try_DRS p g s d = Inr (Some (v' s), e' s)"
    by metis
  show ?thesis
    using assms(2)
    by (cases "dv_pkr2_state d"; cases "dv_can_NDR p g d"; cases "dv_can_DRS p g d")
       (simp_all add: dv_get_msg_from_vcs_def none N D)
qed

section \<open>What one iteration does\<close>

definition dv_pending :: "'m CXLDevice \<Rightarrow> (u64 \<times> u64 \<times> opcode) multiset" where
  "dv_pending d = vcs_msgs (dv_S2M_NDR d) + vcs_msgs (dv_S2M_DRS d) + mset (flit_msgs (dv_flit_to_pack d))"

definition dv_NDRs :: "'m CXLDevice \<Rightarrow> int" where
  "dv_NDRs d = int (size (vcs_msgs (dv_S2M_NDR d)))"

definition dv_DRSs :: "'m CXLDevice \<Rightarrow> int" where
  "dv_DRSs d = int (size (vcs_msgs (dv_S2M_DRS d)))"

text \<open>The fields that the packing loop neither reads for its decisions nor writes.\<close>

definition dv_rest where
  "dv_rest d = (dv_tx_buffer d, dv_rx_buffer d, dv_M2S_Req d, dv_M2S_RWD d, dv_cur_NDR_vc d, dv_cur_DRS_vc d,
     dv_dram d, dv_ramulator_inp_state d, dv_unpacker_rollover d, dv_last_rwd_hdr d,
     dv_last_transmitted_at d, dv_packer_seq_length d, dv_seq_threshold d, dv_is_packer_waiting d,
     dv_started_packing_at d, dv_packer_wait_time d, dv_connected_hosts d, dv_messages_in_ramulator d)"

lemma dv_rest_simps [simp]:
  "dv_rest (d\<lparr>dv_S2M_NDR := x1\<rparr>) = dv_rest d" "dv_rest (d\<lparr>dv_S2M_DRS := x1\<rparr>) = dv_rest d"
  "dv_rest (d\<lparr>dv_ext_creds := x2\<rparr>) = dv_rest d" "dv_rest (d\<lparr>dv_int_cred := x3\<rparr>) = dv_rest d"
  "dv_rest (d\<lparr>dv_packer_cur_vc := x4\<rparr>) = dv_rest d" "dv_rest (d\<lparr>dv_flit_to_pack := x5\<rparr>) = dv_rest d"
  "dv_rest (d\<lparr>dv_pkr2_state := x6\<rparr>) = dv_rest d" "dv_rest (d\<lparr>dv_packer_rollover := x7\<rparr>) = dv_rest d"
  "dv_rest (d\<lparr>dv_last_drs_hdr := x8\<rparr>) = dv_rest d" "dv_rest (dv_set_cred c d) = dv_rest d"
  by (simp_all add: dv_rest_def dv_set_cred_def)

definition dv_pack_inv :: "'m CXLDevice \<Rightarrow> 'm CXLDevice \<Rightarrow> bool" where
  "dv_pack_inv d0 d \<longleftrightarrow> dv_typed d \<and> dv_rest d = dv_rest d0 \<and>
     0 \<le> rsp_credit (dv_cred d) \<and> 0 \<le> data_credit (dv_cred d) \<and>
     rsp_credit (dv_cred d) - dv_NDRs d = rsp_credit (dv_cred d0) - dv_NDRs d0 \<and>
     data_credit (dv_cred d) - dv_DRSs d = data_credit (dv_cred d0) - dv_DRSs d0 \<and>
     req_credit (dv_int_cred d) = req_credit (dv_int_cred d0) \<and>
     rsp_credit (dv_int_cred d) = rsp_credit (dv_int_cred d0) \<and>
     data_credit (dv_int_cred d) + dv_NDRs d = data_credit (dv_int_cred d0) + dv_NDRs d0 \<and>
     dv_NDRs d \<le> dv_NDRs d0 \<and>
     dv_pending d = dv_pending d0"

lemma dv_pack_inv_refl:
  "dv_typed d \<Longrightarrow> 0 \<le> rsp_credit (dv_cred d) \<Longrightarrow> 0 \<le> data_credit (dv_cred d) \<Longrightarrow> dv_pack_inv d d"
  by (simp add: dv_pack_inv_def)

lemmas dv_view_defs = dv_typed_def dv_pending_def dv_NDRs_def dv_DRSs_def

lemma dv_cred_simps [simp]:
  "dv_cred (d\<lparr>dv_S2M_NDR := x1\<rparr>) = dv_cred d" "dv_cred (d\<lparr>dv_S2M_DRS := x1\<rparr>) = dv_cred d"
  "dv_cred (d\<lparr>dv_int_cred := x3\<rparr>) = dv_cred d"
  "dv_cred (d\<lparr>dv_packer_cur_vc := x4\<rparr>) = dv_cred d" "dv_cred (d\<lparr>dv_flit_to_pack := x5\<rparr>) = dv_cred d"
  "dv_cred (d\<lparr>dv_pkr2_state := x6\<rparr>) = dv_cred d" "dv_cred (d\<lparr>dv_packer_rollover := x7\<rparr>) = dv_cred d"
  "dv_cred (d\<lparr>dv_last_drs_hdr := x8\<rparr>) = dv_cred d"
  by (simp_all add: dv_cred_def)

lemma dv_set_cred_fields [simp]:
  "dv_S2M_NDR (dv_set_cred c d) = dv_S2M_NDR d" "dv_S2M_DRS (dv_set_cred c d) = dv_S2M_DRS d"
  "dv_int_cred (dv_set_cred c d) = dv_int_cred d" "dv_flit_to_pack (dv_set_cred c d) = dv_flit_to_pack d"
  "dv_packer_rollover (dv_set_cred c d) = dv_packer_rollover d" "dv_pkr2_state (dv_set_cred c d) = dv_pkr2_state d"
  "dv_packer_seq_length (dv_set_cred c d) = dv_packer_seq_length d"
  "dv_seq_threshold (dv_set_cred c d) = dv_seq_threshold d"
  by (simp_all add: dv_set_cred_def)

text \<open>Owed data fills the slot.\<close>

lemma pack_inv_data:
  assumes "dv_pack_inv d0 d" "i < 4" "types (dv_flit_to_pack d) ! i = empty"
  shows "dv_pack_inv d0 ((dv_put_data i d)\<lparr>dv_packer_rollover := r\<rparr>)"
  using assms
  by (simp add: dv_pack_inv_def dv_put_data_def dv_view_defs msgs_put_data)

text \<open>A message leaves its channel for the slot.\<close>

definition dv_pack_NDR :: "nat \<Rightarrow> nat \<Rightarrow> 'm CXLDevice \<Rightarrow> 'm CXLDevice" where
  "dv_pack_NDR i v d =
     (let d = dv_put_message i s2m_ndr (hd (buf_q (dv_S2M_NDR d ! v))) d;
          d = d\<lparr>dv_int_cred := (dv_int_cred d)\<lparr>data_credit := data_credit (dv_int_cred d) + 1\<rparr>\<rparr>;
          d = dv_set_cred ((dv_cred d)\<lparr>rsp_credit := rsp_credit (dv_cred d) - 1\<rparr>) d
      in d\<lparr>dv_S2M_NDR := vc_pop (dv_S2M_NDR d) v\<rparr>)"

definition dv_pack_DRS :: "nat \<Rightarrow> nat \<Rightarrow> 'm CXLDevice \<Rightarrow> 'm CXLDevice" where
  "dv_pack_DRS i v d =
     (let m = hd (buf_q (dv_S2M_DRS d ! v));
          d = dv_put_message i s2m_drs_hdr m d;
          d = d\<lparr>dv_last_drs_hdr := m, dv_packer_rollover := 4\<rparr>;
          d = dv_set_cred ((dv_cred d)\<lparr>data_credit := data_credit (dv_cred d) - 1\<rparr>) d
      in d\<lparr>dv_S2M_DRS := vc_pop (dv_S2M_DRS d) v\<rparr>)"

lemma pack_inv_NDR:
  assumes inv: "dv_pack_inv d0 d" and i: "i < 4" "types (dv_flit_to_pack d) ! i = empty"
    and v: "v < 4" "\<not> is_buf_empty (dv_S2M_NDR d ! v)" and c: "rsp_credit (dv_cred d) \<noteq> 0"
  shows "dv_pack_inv d0 (dv_pack_NDR i v d)"
proof -
  have len: "length (dv_S2M_NDR d) = 4" "length (types (dv_flit_to_pack d)) = 4"
    using inv by (simp_all add: dv_pack_inv_def dv_typed_def vcs_carry_def)
  note pop = vcs_msgs_pop [of v "dv_S2M_NDR d"]
  have "vcs_carry NDR (vc_pop (dv_S2M_NDR d) v)"
    using inv v by (simp add: dv_pack_inv_def dv_typed_def vcs_carry_pop)
  then show ?thesis
    using inv i v c len pop
    by (simp add: dv_pack_inv_def dv_pack_NDR_def dv_put_message_def Let_def dv_view_defs msgs_put_message)
qed

lemma pack_inv_DRS:
  assumes inv: "dv_pack_inv d0 d" and i: "i < 4" "types (dv_flit_to_pack d) ! i = empty"
    and v: "v < 4" "\<not> is_buf_empty (dv_S2M_DRS d ! v)" and c: "data_credit (dv_cred d) \<noteq> 0"
  shows "dv_pack_inv d0 (dv_pack_DRS i v d)"
proof -
  have len: "length (dv_S2M_DRS d) = 4" "length (types (dv_flit_to_pack d)) = 4"
    using inv by (simp_all add: dv_pack_inv_def dv_typed_def vcs_carry_def)
  note pop = vcs_msgs_pop [of v "dv_S2M_DRS d"]
  have "vcs_carry DRS (vc_pop (dv_S2M_DRS d) v)"
    using inv v by (simp add: dv_pack_inv_def dv_typed_def vcs_carry_pop)
  then show ?thesis
    using inv i v c len pop
    by (simp add: dv_pack_inv_def dv_pack_DRS_def dv_put_message_def Let_def dv_view_defs msgs_put_message)
qed

lemma pack_inv_arb:
  "dv_pack_inv d0 d \<Longrightarrow> dv_pack_inv d0 (d\<lparr>dv_packer_cur_vc := c, dv_pkr2_state := s\<rparr>)"
  by (simp add: dv_pack_inv_def dv_view_defs)

lemma can_DRS_arb [simp]:
  "dv_can_DRS p g (d\<lparr>dv_packer_cur_vc := c, dv_pkr2_state := s\<rparr>) = dv_can_DRS p g d"
  by (simp add: dv_can_DRS_def)

lemma can_DRS_pack_NDR [simp]: "dv_can_DRS p g (dv_pack_NDR i v d) = dv_can_DRS p g d"
  by (simp add: dv_can_DRS_def dv_pack_NDR_def dv_put_message_def Let_def)

lemma can_DRS_data [simp]: "dv_can_DRS p g ((dv_put_data i d)\<lparr>dv_packer_rollover := r\<rparr>) = dv_can_DRS p g d"
  by (simp add: dv_can_DRS_def dv_put_data_def)

lemma pack_slot_small:
  assumes typed: "dv_typed d" and i: "types (dv_flit_to_pack d) ! i = empty" "i < 4"
      "\<not> (dv_packer_rollover d \<noteq> 0 \<and> i \<noteq> 0)"
    and get: "dv_get_msg_from_vcs p g d = Inr (Some (VC_NDR v), d\<lparr>dv_packer_cur_vc := c, dv_pkr2_state := s\<rparr>)"
    and v: "v < 4" "\<not> is_buf_empty (dv_S2M_NDR d ! v)"
  shows "dv_pack_slot p g i d =
    (let d' = d\<lparr>dv_packer_cur_vc := c, dv_pkr2_state := s\<rparr>
     in if slot_count_in_flit (dv_flit_to_pack d) s2m_ndr \<le> 1 then Inr (True, dv_pack_NDR i v d')
        else Inr (True, d'))"
proof -
  have "opCode (hd (buf_q (dv_S2M_NDR d ! v))) = NDR"
    using typed v by (simp add: dv_typed_def vcs_carry_hd)
  moreover have "sl_type (fl_slots (dv_flit_to_pack d) ! i) = empty"
    using typed i(1,2) by (simp add: dv_typed_def types_def)
  ultimately show ?thesis
    using i(3) get v
    by (auto simp: dv_pack_slot_def dv_pack_NDR_def Let_def dv_put_message_def vc_pop_def)
qed

lemma pack_slot_hdr:
  assumes typed: "dv_typed d" and i: "types (dv_flit_to_pack d) ! i = empty" "i < 4"
      "\<not> (dv_packer_rollover d \<noteq> 0 \<and> i \<noteq> 0)"
    and get: "dv_get_msg_from_vcs p g d = Inr (Some (VC_DRS v), d\<lparr>dv_packer_cur_vc := c, dv_pkr2_state := s\<rparr>)"
    and v: "v < 4" "\<not> is_buf_empty (dv_S2M_DRS d ! v)"
  shows "dv_pack_slot p g i d =
    (let d' = d\<lparr>dv_packer_cur_vc := c, dv_pkr2_state := s\<rparr>; f = dv_flit_to_pack d
     in if slot_count_in_flit f s2m_drs_hdr = 0 \<and> (i = 0 \<or> are_all_slots_after_this_empty f i)
        then Inr (True, dv_pack_DRS i v d') else Inr (True, d'))"
proof -
  have "opCode (hd (buf_q (dv_S2M_DRS d ! v))) = DRS"
    using typed v by (simp add: dv_typed_def vcs_carry_hd)
  moreover have "sl_type (fl_slots (dv_flit_to_pack d) ! i) = empty"
    using typed i(1,2) by (simp add: dv_typed_def types_def)
  ultimately show ?thesis
    using i(3) get v
    by (auto simp: dv_pack_slot_def dv_pack_DRS_def Let_def dv_put_message_def vc_pop_def)
qed

lemma pack_views:
  "dv_kinds (dv_pack_NDR i v d) = (dv_kinds d)[i := KSmall]"
  "dv_packer_rollover (dv_pack_NDR i v d) = dv_packer_rollover d"
  "dv_pkr2_state (dv_pack_NDR i v d) = dv_pkr2_state d"
  "dv_kinds (dv_pack_DRS i v d) = (dv_kinds d)[i := KHdr]"
  "dv_packer_rollover (dv_pack_DRS i v d) = 4"
  "dv_pkr2_state (dv_pack_DRS i v d) = dv_pkr2_state d"
  by (simp_all add: dv_pack_NDR_def dv_pack_DRS_def dv_put_message_def Let_def)

lemma pack_slot_sim:
  assumes inv: "dv_pack_inv d0 d" and arb: "dv_pkr2_state d \<noteq> RR_W" and i: "i < 4"
  shows "\<exists>go d'. dv_pack_slot p g i d = Inr (go, d') \<and> dv_pack_inv d0 d' \<and>
    (dv_kinds d', dv_packer_rollover d', dv_pkr2_state d', go) =
      pack_step (dv_can_NDR p g d) (dv_can_DRS p g d) i
        (dv_kinds d, dv_packer_rollover d, dv_pkr2_state d, True) \<and>
    ((dv_can_DRS p g d' \<longrightarrow> dv_can_DRS p g d) \<or> dv_packer_rollover d' = 4)"
proof -
  let ?f = "dv_flit_to_pack d"
  have typed: "dv_typed d" and len: "length (types ?f) = 4"
    using inv by (simp_all add: dv_pack_inv_def dv_typed_def)
  have slot: "sl_type (fl_slots ?f ! i) = types ?f ! i"
    using len i by (simp add: types_def)
  note kinds = dvk.kinds_empty dvk.kinds_counts dvk.kinds_after [OF len] len i pack_step.simps
  show ?thesis
  proof (cases "types ?f ! i = empty")
    case False
    then show ?thesis using inv by (auto simp: dv_pack_slot_def slot kinds)
  next
    case empty: True
    show ?thesis
    proof (cases "dv_packer_rollover d \<noteq> 0 \<and> i \<noteq> 0")
      case True
      then show ?thesis
        using pack_inv_data [OF inv i empty] empty
        by (simp add: dv_pack_slot_def slot kinds) (auto simp: dv_put_data_def)
    next
      case ask: False
      let ?pick = "pick (dv_pkr2_state d) (dv_can_NDR p g d) (dv_can_DRS p g d)"
      note get = get_msg_pick [OF typed arb, of p g]
      consider "?pick = None" | (S) s where "?pick = Some (KSmall, s)" "dv_can_NDR p g d"
        | (H) s where "?pick = Some (KHdr, s)" "dv_can_DRS p g d"
        by (rule pick_cases)
      then show ?thesis
      proof cases
        case 1
        then show ?thesis using inv ask empty get by (auto simp: dv_pack_slot_def slot kinds)
      next
        case S
        obtain v c where v: "v < 4" "\<not> is_buf_empty (dv_S2M_NDR d ! v)"
          "dv_try_NDR p g s d = Inr (Some (VC_NDR v), d\<lparr>dv_packer_cur_vc := c, dv_pkr2_state := s\<rparr>)"
          by (rule try_NDR_some [OF typed S(2)])
        let ?d = "d\<lparr>dv_packer_cur_vc := c, dv_pkr2_state := s\<rparr>"
        have "dv_pack_inv d0 (dv_pack_NDR i v ?d)"
          using pack_inv_NDR [OF pack_inv_arb [OF inv] i] empty v(1,2) S(2) by (simp add: dv_can_NDR_def)
        then show ?thesis
          using pack_slot_small [OF typed empty i ask _ v(1,2), where p = p and g = g and c = c and s = s] get S(1) v(3) ask empty
            pack_inv_arb [OF inv, where c = c and s = s]
          by (auto simp: kinds Let_def pack_views)
      next
        case H
        obtain v c where v: "v < 4" "\<not> is_buf_empty (dv_S2M_DRS d ! v)"
          "dv_try_DRS p g s d = Inr (Some (VC_DRS v), d\<lparr>dv_packer_cur_vc := c, dv_pkr2_state := s\<rparr>)"
          by (rule try_DRS_some [OF typed H(2)])
        let ?d = "d\<lparr>dv_packer_cur_vc := c, dv_pkr2_state := s\<rparr>"
        have "dv_pack_inv d0 (dv_pack_DRS i v ?d)"
          using pack_inv_DRS [OF pack_inv_arb [OF inv] i] empty v(1,2) H(2) by (simp add: dv_can_DRS_def)
        then show ?thesis
          using pack_slot_hdr [OF typed empty i ask _ v(1,2), where p = p and g = g and c = c and s = s] get H(1) v(3) ask empty
            pack_inv_arb [OF inv, where c = c and s = s]
          by (auto simp: kinds Let_def pack_views)
      qed
    qed
  qed
qed

interpretation dvp: slot_packer "dv_pack_slot p g" "dv_pack_loop p g" dv_kinds dv_packer_rollover
  dv_pkr2_state "dv_can_NDR p g" "dv_can_DRS p g" "dv_pack_inv d0" for p g d0
proof unfold_locales
  fix d assume "dv_pack_inv d0 d"
  then show "length (dv_kinds d) = 4" by (simp add: dv_pack_inv_def dv_typed_def dvk.kinds_length)
qed (use pack_slot_sim in auto)

section \<open>The invariant of the packer\<close>

definition dv_credit_ok :: "'m CXLDevice \<Rightarrow> bool" where
  "dv_credit_ok d \<longleftrightarrow> rsp_credit (dv_int_cred d) = 0 \<and>
     0 \<le> req_credit (dv_int_cred d) \<and> req_credit (dv_int_cred d) \<le> buf_size (dv_M2S_Req d) \<and>
     0 \<le> data_credit (dv_int_cred d) \<and> data_credit (dv_int_cred d) + dv_NDRs d \<le> buf_size (dv_M2S_RWD d) \<and>
     length (dv_connected_hosts d) = 1 \<and>
     0 \<le> rsp_credit (dv_cred d) \<and> 0 \<le> data_credit (dv_cred d)"

text \<open>The rollover the next flit on the wire starts from: while a flit is under construction,
  the one it started from.\<close>

definition dv_carry :: "'m CXLDevice \<Rightarrow> int" where
  "dv_carry d = (if dv_is_packer_waiting d then carry (dv_kinds d) (dv_packer_rollover d)
                 else dv_packer_rollover d)"

definition dv_packer_ok :: "'m CXLDevice \<Rightarrow> bool" where
  "dv_packer_ok d \<longleftrightarrow> dv_typed d \<and> dv_credit_ok d \<and> buf_ok (dv_tx_buffer d) \<and> dv_pkr2_state d \<noteq> RR_W \<and>
     (if dv_is_packer_waiting d then layout_ok (dv_kinds d) (dv_packer_rollover d) (dv_pkr2_state d)
      else 0 \<le> dv_packer_rollover d \<and> dv_packer_rollover d \<le> 4) \<and>
     0 \<le> dv_packer_seq_length d \<and> dv_packer_seq_length d \<le> dv_carry d \<and> dv_seq_threshold d = 5"

text \<open>The responses the device still has to send: in the channels, in the flit under
  construction and in the transmit buffer.\<close>

definition dv_unsent :: "'m CXLDevice \<Rightarrow> (u64 \<times> u64 \<times> opcode) multiset" where
  "dv_unsent d = vcs_msgs (dv_S2M_NDR d) + vcs_msgs (dv_S2M_DRS d) +
     (if dv_is_packer_waiting d then mset (flit_msgs (dv_flit_to_pack d)) else {#}) +
     mset (concat (map flit_msgs (buf_q (dv_tx_buffer d))))"

lemma dv_carry_range: "dv_packer_ok d \<Longrightarrow> 0 \<le> dv_carry d \<and> dv_carry d \<le> 4"
  by (auto simp: dv_packer_ok_def dv_carry_def split: if_splits dest: layout_ok_carry_range)

lemma pack_inv_credit_ok: "dv_pack_inv d0 d \<Longrightarrow> dv_credit_ok d0 \<Longrightarrow> dv_credit_ok d"
  by (simp add: dv_pack_inv_def dv_credit_ok_def dv_rest_def)

section \<open>Handing a flit to the transmit buffer\<close>

lemma get_device_credits_ok:
  assumes "dv_credit_ok d"
  shows "get_device_credits d =
    Inr ((dv_int_cred d)\<lparr>rsp_credit := 0\<rparr>, d\<lparr>dv_int_cred := (dv_int_cred d)\<lparr>req_credit := 0, data_credit := 0\<rparr>\<rparr>)"
proof -
  have "0 \<le> dv_NDRs d" by (simp add: dv_NDRs_def)
  moreover have "grant (int (Suc 0)) x = x" if "0 \<le> x" for x
    using that by (auto simp: grant_def)
  ultimately show ?thesis using assms
    by (simp add: get_device_credits_def dv_credit_sanity_check_def Let_def dv_credit_ok_def)
qed

text \<open>The flit that enters the transmit buffer is the one under construction up to time
  stamps, id and credits; the credit field carries everything the device had to give.\<close>

lemma add_flit_to_buf_ok:
  assumes "dv_credit_ok d" "\<not> is_buf_full (dv_tx_buffer d)"
    and seq: "0 < dv_packer_rollover d \<Longrightarrow> dv_packer_seq_length d + 1 \<noteq> dv_seq_threshold d"
  obtains f g' where "dv_add_flit_to_buf g d = Inr (g', d\<lparr>dv_int_cred := (dv_int_cred d)\<lparr>req_credit := 0, data_credit := 0\<rparr>,
      dv_flit_to_pack := f, dv_tx_buffer := (dv_tx_buffer d)\<lparr>buf_q := buf_q (dv_tx_buffer d) @ [f]\<rparr>,
      dv_packer_seq_length := (if dv_packer_rollover d > 0 then dv_packer_seq_length d + 1 else 0)\<rparr>)"
    "types f = types (dv_flit_to_pack d)" "flit_msgs f = flit_msgs (dv_flit_to_pack d)"
    "fh_credit (fl_header f) = (dv_int_cred d)\<lparr>rsp_credit := 0\<rparr>"
proof -
  let ?f = "(set_time tick_repacked_update (curr_tick g) ((dv_flit_to_pack d)
     \<lparr>fl_time := (fl_time (dv_flit_to_pack d))\<lparr>time_of_creation := curr_tick g\<rparr>,
      fl_header := (fl_header (dv_flit_to_pack d))\<lparr>fh_credit := (dv_int_cred d)\<lparr>rsp_credit := 0\<rparr>\<rparr>\<rparr>))
     \<lparr>flit_id := flit_counter g\<rparr>"
  show thesis
    by (rule that [of "g\<lparr>flit_counter := flit_counter g + 1\<rparr>" ?f])
       (use assms in \<open>auto simp: dv_add_flit_to_buf_def get_device_credits_ok Let_def\<close>)
qed

text \<open>The receiving half of the device, which the packer does not touch.\<close>

definition dv_rx_half where
  "dv_rx_half d = (dv_rx_buffer d, dv_M2S_Req d, dv_M2S_RWD d, dv_cur_NDR_vc d, dv_cur_DRS_vc d, dv_dram d,
     dv_ramulator_inp_state d, dv_unpacker_rollover d, dv_last_rwd_hdr d, dv_messages_in_ramulator d)"

lemma dv_rx_half_simps [simp]:
  "dv_rx_half (d\<lparr>dv_is_packer_waiting := w\<rparr>) = dv_rx_half d"
  "dv_rx_half (d\<lparr>dv_int_cred := c\<rparr>) = dv_rx_half d"
  "dv_rx_half (d\<lparr>dv_flit_to_pack := f\<rparr>) = dv_rx_half d"
  "dv_rx_half (d\<lparr>dv_tx_buffer := q\<rparr>) = dv_rx_half d"
  "dv_rx_half (d\<lparr>dv_packer_seq_length := n\<rparr>) = dv_rx_half d"
  "dv_rx_half (d\<lparr>dv_started_packing_at := n\<rparr>) = dv_rx_half d"
  "dv_rx_half (d\<lparr>dv_packer_rollover := n\<rparr>) = dv_rx_half d"
  by (simp_all add: dv_rx_half_def)

text \<open>What a call of the packer may do to the stream of flits.\<close>

definition dv_pack_post :: "'m CXLDevice \<Rightarrow> 'm CXLDevice \<Rightarrow> bool" where
  "dv_pack_post d d' \<longleftrightarrow> dv_packer_ok d' \<and> dv_unsent d' = dv_unsent d \<and> dv_rx_half d' = dv_rx_half d \<and>
     ((dv_tx_buffer d' = dv_tx_buffer d \<and> dv_carry d' = dv_carry d) \<or>
      (\<exists>f. dv_tx_buffer d' = (dv_tx_buffer d)\<lparr>buf_q := buf_q (dv_tx_buffer d) @ [f]\<rparr> \<and>
         wire_flit (dv_carry d) (kinds_of kind_dev f) = Some (dv_carry d')))"

lemma send_ok:
  assumes "dv_typed d" "dv_credit_ok d" "buf_ok (dv_tx_buffer d)"
    and layout: "layout_ok (dv_kinds d) (dv_packer_rollover d) (dv_pkr2_state d)"
    and seq: "0 \<le> dv_packer_seq_length d" "dv_packer_seq_length d \<le> carry (dv_kinds d) (dv_packer_rollover d)"
      "dv_seq_threshold d = 5"
    and full: "\<not> is_buf_full (dv_tx_buffer d)"
  obtains g' d' where "dv_add_flit_to_buf g d = Inr (g', d')"
    "dv_pack_post (d\<lparr>dv_is_packer_waiting := True\<rparr>) (d'\<lparr>dv_is_packer_waiting := False\<rparr>)"
proof -
  let ?r = "dv_packer_rollover d"
  have k: "?r > 0 \<Longrightarrow> carry (dv_kinds d) ?r < ?r" "0 \<le> ?r" "?r \<le> 4" "dv_pkr2_state d \<noteq> RR_W"
    using layout layout_ok_range [OF layout] by (auto simp: layout_ok_def)
  with seq have "?r > 0 \<Longrightarrow> dv_packer_seq_length d + 1 \<noteq> dv_seq_threshold d" by auto
  from add_flit_to_buf_ok [OF assms(2) full this, of g]
  obtain f g' where f: "dv_add_flit_to_buf g d = Inr (g', d\<lparr>dv_int_cred := (dv_int_cred d)\<lparr>req_credit := 0, data_credit := 0\<rparr>,
      dv_flit_to_pack := f, dv_tx_buffer := (dv_tx_buffer d)\<lparr>buf_q := buf_q (dv_tx_buffer d) @ [f]\<rparr>,
      dv_packer_seq_length := (if ?r > 0 then dv_packer_seq_length d + 1 else 0)\<rparr>)"
    "types f = types (dv_flit_to_pack d)" "flit_msgs f = flit_msgs (dv_flit_to_pack d)" by metis
  have "kinds_of kind_dev f = dv_kinds d" using f(2) by (simp add: kinds_of_def)
  then have "dv_pack_post (d\<lparr>dv_is_packer_waiting := True\<rparr>)
     (d\<lparr>dv_int_cred := (dv_int_cred d)\<lparr>req_credit := 0, data_credit := 0\<rparr>,
      dv_flit_to_pack := f, dv_tx_buffer := (dv_tx_buffer d)\<lparr>buf_q := buf_q (dv_tx_buffer d) @ [f]\<rparr>,
      dv_packer_seq_length := (if ?r > 0 then dv_packer_seq_length d + 1 else 0),
      dv_is_packer_waiting := False\<rparr>)"
    using assms k f(2,3) layout_ok_sendable [OF layout] buf_ok_enqueue [OF assms(3) full, of f]
    unfolding dv_pack_post_def
    by (auto simp: dv_packer_ok_def dv_unsent_def dv_carry_def dv_typed_def dv_credit_ok_def dv_cred_def dv_NDRs_def)
  with f(1) show thesis by (intro that) auto
qed

section \<open>The packer keeps its invariant and sends legal flits\<close>

lemma rest_rx_half: "dv_rest d = dv_rest e \<Longrightarrow> dv_rx_half d = dv_rx_half e"
  by (simp add: dv_rest_def dv_rx_half_def)

lemma rule_holds:
  assumes "dv_typed d" "layout_ok (dv_kinds d) k s"
  shows "\<not> dv_packing_rule_violated d"
  using layout_ok_counts [OF assms(2)] assms(1) count_kinds_le [of "dv_kinds d"]
  by (simp add: dv_packing_rule_violated_def count_rule_def dvk.kinds_counts Let_def dv_typed_def dvk.kinds_length)

lemma pack_more_ok:
  assumes d: "dv_typed d" "dv_credit_ok d" "buf_ok (dv_tx_buffer d)"
    and layout: "layout_ok (dv_kinds d) 0 (dv_pkr2_state d)" "dv_kinds d \<in> set open_layouts"
      "dv_packer_rollover d = 0"
    and seq: "0 \<le> dv_packer_seq_length d" "dv_packer_seq_length d \<le> carry (dv_kinds d) 0"
      "dv_seq_threshold d = 5"
  obtains b d' where "dv_pack_more p g d = Inr (b, g, d')"
    "dv_pack_post (d\<lparr>dv_is_packer_waiting := True\<rparr>) d'" "dv_tx_buffer d' = dv_tx_buffer d"
proof -
  have inv0: "dv_pack_inv d d" using d by (simp add: dv_pack_inv_refl dv_credit_ok_def)
  obtain d1 where d1: "dv_pack_loop p g [0, 1, 2, 3] d = Inr d1" "dv_pack_inv d d1"
    "layout_ok (dv_kinds d1) (dv_packer_rollover d1) (dv_pkr2_state d1)"
    "carry (dv_kinds d1) (dv_packer_rollover d1) = carry (dv_kinds d) 0"
    by (rule dvp.loop_layout [OF inv0 layout])
  let ?active = "\<not> is_flit_empty (dv_flit_to_pack d1)"
  let ?d = "if ?active then d1\<lparr>dv_is_packer_waiting := True\<rparr> else d1"
  have rest: "dv_rest d1 = dv_rest d" and typed: "dv_typed d1" and pend: "dv_pending d1 = dv_pending d"
    using d1(2) by (simp_all add: dv_pack_inv_def)
  have cred: "dv_credit_ok d1" using pack_inv_credit_ok [OF d1(2) d(2)] .
  have "\<not> dv_packing_rule_violated d1" by (rule rule_holds [OF typed d1(3)])
  then have more: "dv_pack_more p g d = Inr (?active, g, ?d)"
    unfolding dv_pack_more_def d1(1) bind_r_simps Let_def by (simp add: dv_packing_rule_violated_def)
  have waiting: "dv_pack_post (d\<lparr>dv_is_packer_waiting := True\<rparr>) (d1\<lparr>dv_is_packer_waiting := True\<rparr>)"
    using d seq layout(3) d1(3,4) typed cred rest pend rest_rx_half [OF rest]
    by (simp add: dv_pack_post_def dv_packer_ok_def dv_carry_def dv_typed_def dv_credit_ok_def dv_cred_def
        dv_NDRs_def dv_unsent_def dv_pending_def dv_rest_def layout_ok_def)
  show thesis
  proof (cases ?active)
    case True
    with that [OF more] waiting rest show ?thesis by (simp add: dv_rest_def)
  next
    case False
    then have "dv_kinds d1 = fresh_layout 0"
      using typed by (simp add: dvk.empty_flit_kinds dv_typed_def)
    then have "dv_packer_rollover d1 = 0" "carry (dv_kinds d1) 0 = 0"
      using layout_ok_open [OF d1(3)] by (simp_all add: fresh_layout_def carry_def)
    then have "dv_pack_post (d\<lparr>dv_is_packer_waiting := True\<rparr>) d1"
      using waiting False
      by (cases "dv_is_packer_waiting d1")
         (auto simp: dv_pack_post_def dv_packer_ok_def dv_carry_def dv_typed_def dv_credit_ok_def dv_cred_def
        dv_NDRs_def dv_unsent_def empty_flit_msgs)
    with that [OF more] False rest show ?thesis by (simp add: dv_rest_def)
  qed
qed

lemma place_rollover_ok:
  assumes "dv_typed d" "dv_kinds d = fresh_layout 0" "0 < dv_packer_rollover d" "dv_packer_rollover d \<le> 4"
    "flit_msgs (dv_flit_to_pack d) = []"
  obtains f where "dv_place_rollover d = Inr (d\<lparr>dv_flit_to_pack := f, dv_packer_rollover := 0\<rparr>)"
    "kinds_of kind_dev f = fresh_layout (dv_packer_rollover d)" "length (types f) = 4" "flit_msgs f = []"
proof -
  let ?f = "dv_flit_to_pack d"
  have e: "types ?f = [empty, empty, empty, empty]"
    using assms(1,2) by (auto simp: dv_typed_def length_4_conv kinds_of_def fresh_layout_def dvk.kd_empty)
  define put where "put i f = put_data i (dv_last_drs_hdr d) (mark_header i data f)" for i f
  have put: "dv_put_data i (d\<lparr>dv_flit_to_pack := f\<rparr>) = d\<lparr>dv_flit_to_pack := put i f\<rparr>"
    "dv_put_data i d = d\<lparr>dv_flit_to_pack := put i ?f\<rparr>"
    "types (put i f) = (types f)[i := data]" 
    "i < length (types f) \<Longrightarrow> types f ! i = empty \<Longrightarrow> mset (flit_msgs (put i f)) = mset (flit_msgs f)" for i f
    by (simp_all add: put_def dv_put_data_def msgs_put_data)
  note simps = dv_place_rollover_def put kinds_of_def fresh_layout_def numeral_eq_Suc e assms(5)
  consider "dv_packer_rollover d = 1" | "dv_packer_rollover d = 2" | "dv_packer_rollover d = 3"
    | "dv_packer_rollover d = 4" using assms(3,4) by linarith
  then show thesis
  proof cases
    case 1
    then show ?thesis
      by (intro that [of "put 1 ?f"]) (simp_all add: simps flip: mset_zero_iff)
  next
    case 2
    then show ?thesis
      by (intro that [of "put 2 (put 1 ?f)"]) (simp_all add: simps flip: mset_zero_iff)
  next
    case 3
    then show ?thesis
      by (intro that [of "put 3 (put 2 (put 1 ?f))"]) (simp_all add: simps flip: mset_zero_iff)
  next
    case 4
    then show ?thesis
      by (intro that [of "put 3 (put 2 (put 1 (put 0 ?f)))"]) (simp_all add: simps flip: mset_zero_iff)
  qed
qed

lemma pack_post_refl: "dv_packer_ok d \<Longrightarrow> dv_pack_post d d"
  by (simp add: dv_pack_post_def)

lemma pack_post_from:
  "dv_pack_post e d' \<Longrightarrow> dv_unsent e = dv_unsent d \<Longrightarrow> dv_tx_buffer e = dv_tx_buffer d \<Longrightarrow>
   dv_carry e = dv_carry d \<Longrightarrow> dv_rx_half e = dv_rx_half d \<Longrightarrow> dv_pack_post d d'"
  by (simp add: dv_pack_post_def)

lemma send_waiting_ok:
  assumes "dv_packer_ok d" "dv_is_packer_waiting d"
  shows "\<exists>g' d'. dv_send_waiting g d = Inr (True, g', d') \<and> dv_pack_post d d'"
proof (cases "is_buf_full (dv_tx_buffer d)")
  case True
  then show ?thesis using assms by (simp add: dv_send_waiting_def pack_post_refl)
next
  case False
  have d: "d\<lparr>dv_is_packer_waiting := True\<rparr> = d" using assms(2) by simp
  obtain g' d' where "dv_add_flit_to_buf g d = Inr (g', d')"
    "dv_pack_post (d\<lparr>dv_is_packer_waiting := True\<rparr>) (d'\<lparr>dv_is_packer_waiting := False\<rparr>)"
    by (rule send_ok [of d g]) (use assms False in \<open>auto simp: dv_packer_ok_def dv_carry_def\<close>)
  then show ?thesis using False by (simp add: dv_send_waiting_def d)
qed

lemma waiting_open:
  assumes "dv_packer_ok d" "dv_is_packer_waiting d" "\<not> is_flit_full (dv_flit_to_pack d)"
  shows "dv_packer_rollover d = 0" "dv_kinds d \<in> set open_layouts"
  using assms layout_ok_open by (auto simp: dv_packer_ok_def dvk.kinds_full)

text \<open>The state of a packer that starts a fresh flit, with the owed data in place.\<close>

lemma fresh_ok:
  fixes d :: "'m CXLDevice" and t :: int and f :: flit
  assumes ok: "dv_packer_ok d" "\<not> dv_is_packer_waiting d"
    and f: "kinds_of kind_dev f = fresh_layout (dv_packer_rollover d)" "length (types f) = 4" "flit_msgs f = []"
  defines "e \<equiv> d\<lparr>dv_flit_to_pack := f, dv_started_packing_at := t, dv_packer_rollover := 0\<rparr>"
  shows "dv_typed e" "dv_credit_ok e" "buf_ok (dv_tx_buffer e)" "layout_ok (dv_kinds e) 0 (dv_pkr2_state e)"
    "dv_packer_rollover e = 0" "0 \<le> dv_packer_seq_length e" "dv_packer_seq_length e \<le> carry (dv_kinds e) 0"
    "dv_seq_threshold e = 5"
    "dv_pack_post (e\<lparr>dv_is_packer_waiting := True\<rparr>) d' \<Longrightarrow> dv_pack_post d d'"
    "dv_packer_ok (e\<lparr>dv_is_packer_waiting := True\<rparr>)"
proof -
  have r: "0 \<le> dv_packer_rollover d" "dv_packer_rollover d \<le> 4" "dv_pkr2_state d \<noteq> RR_W"
    using ok by (simp_all add: dv_packer_ok_def)
  note fresh = fresh_layout_ok [OF r]
  show "dv_typed e" "dv_credit_ok e" "buf_ok (dv_tx_buffer e)" "layout_ok (dv_kinds e) 0 (dv_pkr2_state e)"
    "dv_packer_rollover e = 0" "0 \<le> dv_packer_seq_length e" "dv_packer_seq_length e \<le> carry (dv_kinds e) 0"
    "dv_seq_threshold e = 5"
    using ok f fresh(1,2)
    by (simp_all add: e_def dv_packer_ok_def dv_typed_def dv_credit_ok_def dv_cred_def dv_NDRs_def dv_carry_def)
  then show "dv_packer_ok (e\<lparr>dv_is_packer_waiting := True\<rparr>)"
    using ok f fresh(1,2)
    by (simp add: e_def dv_packer_ok_def dv_typed_def dv_credit_ok_def dv_cred_def dv_NDRs_def dv_carry_def)
  assume post: "dv_pack_post (e\<lparr>dv_is_packer_waiting := True\<rparr>) d'"
  show "dv_pack_post d d'"
    by (rule pack_post_from [OF post]) (use ok f fresh(2) in \<open>auto simp: e_def dv_unsent_def dv_carry_def\<close>)
qed

lemma FLIT_packer_waiting:
  assumes ok: "dv_packer_ok d" and w: "dv_is_packer_waiting d"
  shows "\<exists>b g' d'. dv_FLIT_packer p u g d = Inr (b, g', d') \<and> dv_pack_post d d'"
proof (cases "is_flit_full (dv_flit_to_pack d) \<or> (curr_tick g - dv_started_packing_at d > dv_packer_wait_time d \<and>
                 \<not> is_flit_empty (dv_flit_to_pack d))")
  case True
  then have "dv_FLIT_packer p u g d = dv_send_waiting g d" using w by (auto simp: dv_FLIT_packer_def)
  then show ?thesis using send_waiting_ok [OF ok w] by metis
next
  case False
  then have open_: "dv_packer_rollover d = 0" "dv_kinds d \<in> set open_layouts"
    using waiting_open [OF ok w] by auto
  have "dv_FLIT_packer p u g d = dv_pack_more p g d"
    using False w open_(1) by (auto simp: dv_FLIT_packer_def Let_def)
  moreover obtain b d' where "dv_pack_more p g d = Inr (b, g, d')" "dv_pack_post (d\<lparr>dv_is_packer_waiting := True\<rparr>) d'"
    by (rule pack_more_ok [of d p g])
       (use ok w open_ in \<open>auto simp: dv_packer_ok_def dv_carry_def\<close>)
  moreover have "d\<lparr>dv_is_packer_waiting := True\<rparr> = d" using w by simp
  ultimately show ?thesis by (metis)
qed

lemma FLIT_packer_fresh:
  assumes ok: "dv_packer_ok d" and w: "\<not> dv_is_packer_waiting d"
  shows "\<exists>b g' d'. dv_FLIT_packer p u g d = Inr (b, g', d') \<and> dv_pack_post d d'"
proof -
  let ?r = "dv_packer_rollover d"
  let ?d = "d\<lparr>dv_flit_to_pack := flit_new u, dv_started_packing_at := curr_tick g\<rparr>"
  let ?e = "\<lambda>f. d\<lparr>dv_flit_to_pack := f, dv_started_packing_at := curr_tick g, dv_packer_rollover := 0\<rparr>"
  have r: "0 \<le> ?r" "?r \<le> 4" "dv_pkr2_state d \<noteq> RR_W" using ok w by (simp_all add: dv_packer_ok_def)
  have more: "\<exists>b d'. dv_pack_more p g (?e f) = Inr (b, g, d') \<and> dv_pack_post d d'"
    if "kinds_of kind_dev f = fresh_layout ?r" "length (types f) = 4" "flit_msgs f = []" "?r < 4" for f
  proof -
    note fresh = fresh_ok [OF ok w that(1-3), of "curr_tick g"]
    have "dv_kinds (?e f) \<in> set open_layouts" using fresh_layout_ok(3) [OF r that(4)] that(1) by simp
    with fresh show ?thesis by (metis pack_more_ok [of "?e f" p g])
  qed
  show ?thesis
  proof (cases "?r = 0")
    case True
    then have "?d = ?e (flit_new u)" by simp
    moreover have "dv_FLIT_packer p u g d = dv_pack_more p g ?d"
      using w True by (simp add: dv_FLIT_packer_def)
    moreover have "\<exists>b d'. dv_pack_more p g (?e (flit_new u)) = Inr (b, g, d') \<and> dv_pack_post d d'"
      by (rule more) (use True in simp_all)
    ultimately show ?thesis by metis
  next
    case False
    obtain f where f: "dv_place_rollover ?d = Inr (?d\<lparr>dv_flit_to_pack := f, dv_packer_rollover := 0\<rparr>)"
      "kinds_of kind_dev f = fresh_layout ?r" "length (types f) = 4" "flit_msgs f = []"
      by (rule place_rollover_ok [of ?d]) (use ok False r in \<open>auto simp: dv_packer_ok_def dv_typed_def\<close>)
    have pl: "dv_place_rollover ?d = Inr (?e f)" using f(1) by simp
    note fresh = fresh_ok [OF ok w f(2-4), of "curr_tick g"]
    show ?thesis
    proof (cases "?r = 4")
      case True
      show ?thesis
      proof (cases "is_buf_full (dv_tx_buffer d)")
        case full: True
        then show ?thesis using fresh(9) [OF pack_post_refl [OF fresh(10)]] pl w True
          by (auto simp: dv_FLIT_packer_def)
      next
        case full: False
        obtain g' d' where "dv_add_flit_to_buf g (?e f) = Inr (g', d')"
          "dv_pack_post ((?e f)\<lparr>dv_is_packer_waiting := True\<rparr>) (d'\<lparr>dv_is_packer_waiting := False\<rparr>)"
          by (rule send_ok [of "?e f" g]) (use fresh full in simp_all)
        with fresh(9) full pl w True show ?thesis by (auto simp: dv_FLIT_packer_def)
      qed
    next
      case less: False
      then have "dv_FLIT_packer p u g d = dv_pack_more p g (?e f)"
        using w False pl r by (simp add: dv_FLIT_packer_def)
      with more [OF f(2-4)] less r(2) show ?thesis by auto
    qed
  qed
qed

lemma FLIT_packer_cases:
  "dv_packer_ok d \<Longrightarrow> \<exists>b g' d'. dv_FLIT_packer p u g d = Inr (b, g', d') \<and> dv_pack_post d d'"
  using FLIT_packer_waiting FLIT_packer_fresh by blast

section \<open>A concrete device\<close>

text \<open>A device that holds the responses of two writes and one read and has been granted
  credits for them.\<close>

definition sample_device :: "unit CXLDevice" where
  "sample_device =
     (dv_set_cred \<lparr>req_credit = 0, rsp_credit = 2, data_credit = 1\<rparr>
       (CXLDevice_new sample_params sample_uninit sample_ram 64 64 1))
       \<lparr>dv_S2M_NDR := [\<lparr>buf_size = 16, buf_q = [sample_msg NDR 64 1, sample_msg NDR 128 2]\<rparr>,
          CXLBuf_new 16, CXLBuf_new 16, CXLBuf_new 16],
        dv_S2M_DRS := [CXLBuf_new 16, \<lparr>buf_size = 16, buf_q = [sample_msg DRS 192 3]\<rparr>,
          CXLBuf_new 16, CXLBuf_new 16],
        dv_int_cred := \<lparr>req_credit = 63, rsp_credit = 0, data_credit = 61\<rparr>\<rparr>"

lemma sample_device_ok: "dv_packer_ok sample_device"
  by code_simp

section \<open>Properties\<close>



text \<open>C5.  The packer of the device never aborts and keeps its invariant: none of its
  assertions (rollover range, packing rule, sequence threshold, credit sanity, buffer
  overflow) can fire, whatever the time and the parameters are.\<close>

theorem FLIT_packer_safe:
  assumes "dv_packer_ok d"
  shows "\<exists>b g' d'. dv_FLIT_packer p u g d = Inr (b, g', d') \<and> dv_packer_ok d'"
  using FLIT_packer_cases [OF assms] by (metis dv_pack_post_def)

theorem FLIT_packer_safe_witness:
  "dv_packer_ok sample_device \<and>
   (\<exists>b g' d'. dv_FLIT_packer sample_params sample_uninit (sample_globals 100) sample_device
       = Inr (b, g', d') \<and> dv_packer_ok d')"
  using FLIT_packer_safe [OF sample_device_ok] sample_device_ok by blast

text \<open>C6.  Each call of the packer either leaves the transmit buffer and the rollover of
  the stream alone or appends one flit that is legal on the wire at the rollover the
  stream had and leaves the stream at the rollover of the new state.\<close>

theorem FLIT_packer_wire:
  assumes "dv_packer_ok d" and "dv_FLIT_packer p u g d = Inr (b, g', d')"
  shows "(dv_tx_buffer d' = dv_tx_buffer d \<and> dv_carry d' = dv_carry d) \<or>
    (\<exists>f. buf_q (dv_tx_buffer d') = buf_q (dv_tx_buffer d) @ [f] \<and>
       wire_flit (dv_carry d) (kinds_of kind_dev f) = Some (dv_carry d'))"
  using FLIT_packer_cases [OF assms(1), of p u g] assms(2) by (auto simp: dv_pack_post_def)

text \<open>The flit of the concrete device after one call, sent by the second call.\<close>

definition run_packer :: "int \<Rightarrow> unit CXLDevice \<Rightarrow> bool \<times> globals \<times> unit CXLDevice" where
  "run_packer t d = projr (dv_FLIT_packer sample_params sample_uninit (sample_globals t) d)"

definition sample_waiting :: "unit CXLDevice" where
  "sample_waiting = snd (snd (run_packer 100 sample_device))"

lemma sample_waiting_ok:
  "dv_packer_ok sample_waiting"
  "dv_kinds sample_waiting = [KHdr, KData, KData, KData]"
  "isl (dv_FLIT_packer sample_params sample_uninit (sample_globals 101) sample_waiting) = False"
  by code_simp+

theorem FLIT_packer_wire_witness:
  "let r = run_packer 101 sample_waiting; d' = snd (snd r)
   in dv_tx_buffer d' = dv_tx_buffer sample_waiting \<and> dv_carry d' = dv_carry sample_waiting \<or>
      (\<exists>f. buf_q (dv_tx_buffer d') = buf_q (dv_tx_buffer sample_waiting) @ [f] \<and>
         wire_flit (dv_carry sample_waiting) (kinds_of kind_dev f) = Some (dv_carry d'))"
proof -
  obtain b g' d' where r: "dv_FLIT_packer sample_params sample_uninit (sample_globals 101) sample_waiting
      = Inr (b, g', d')"
    using sample_waiting_ok(3) by (metis isl_def sum.collapse(2) prod_cases3)
  from FLIT_packer_wire [OF sample_waiting_ok(1) r] show ?thesis
    by (simp add: run_packer_def r Let_def)
qed

text \<open>C11.  The packer neither loses nor duplicates a response: the responses in the
  channels, in the flit under construction and in the transmit buffer together stay the
  same.\<close>

theorem FLIT_packer_conserves:
  assumes "dv_packer_ok d" and "dv_FLIT_packer p u g d = Inr (b, g', d')"
  shows "dv_unsent d' = dv_unsent d"
  using FLIT_packer_cases [OF assms(1), of p u g] assms(2) by (auto simp: dv_pack_post_def)

theorem FLIT_packer_conserves_witness:
  "dv_unsent (snd (snd (run_packer 101 sample_waiting))) = dv_unsent sample_waiting"
proof -
  obtain b g' d' where r: "dv_FLIT_packer sample_params sample_uninit (sample_globals 101) sample_waiting
      = Inr (b, g', d')"
    using sample_waiting_ok(3) by (metis isl_def sum.collapse(2) prod_cases3)
  from FLIT_packer_conserves [OF sample_waiting_ok(1) r] show ?thesis
    by (simp add: run_packer_def r)
qed

end
