(* ===== verification/CXL_Device_Unpack.thy ===== *)
theory CXL_Device_Unpack
  imports CXL_Device
begin

text \<open>
  The unpacker of the device (\<^verbatim>\<open>CXLDevice::FLIT_unpacker\<close>) is an instance of the two loops
  of \<open>CXL_Recv\<close>: on a flit that is legal at its rollover and whose messages fit, it does
  not abort, delivers exactly the messages of the flit and adds the credits it carries.
\<close>

section \<open>The device as a receiver\<close>

definition dv_rx :: "'m CXLDevice \<Rightarrow> rx_view" where
  "dv_rx d =
     \<lparr>rx_roll = dv_unpacker_rollover d, rx_hdr = untimed (dv_last_rwd_hdr d),
      rx_small = map untimed (buf_q (dv_M2S_Req d)), rx_big = map untimed (buf_q (dv_M2S_RWD d)),
      rx_cap_small = buf_size (dv_M2S_Req d), rx_cap_big = buf_size (dv_M2S_RWD d)\<rparr>"

text \<open>The fields the unpacking loops leave alone.\<close>

definition dv_unpack_rest where
  "dv_unpack_rest d =
     ((dv_tx_buffer d, dv_rx_buffer d, dv_ext_creds d, dv_int_cred d, dv_packer_cur_vc d,
       dv_S2M_NDR d, dv_cur_NDR_vc d, dv_S2M_DRS d, dv_cur_DRS_vc d, dv_dram d,
       dv_ramulator_inp_state d),
      (dv_packer_rollover d, dv_last_drs_hdr d, dv_last_transmitted_at d, dv_packer_seq_length d,
       dv_seq_threshold d, dv_is_packer_waiting d, dv_started_packing_at d, dv_packer_wait_time d,
       dv_flit_to_pack d, dv_pkr2_state d, dv_connected_hosts d, dv_messages_in_ramulator d))"

definition dv_unpack_inv :: "'m CXLDevice \<Rightarrow> 'm CXLDevice \<Rightarrow> bool" where
  "dv_unpack_inv d0 d \<longleftrightarrow> buf_ok (dv_M2S_Req d) \<and> buf_ok (dv_M2S_RWD d) \<and>
     dv_unpack_rest d = dv_unpack_rest d0"

lemma dv_unpack_rest_simps [simp]:
  "dv_unpack_rest (d\<lparr>dv_unpacker_rollover := k\<rparr>) = dv_unpack_rest d"
  "dv_unpack_rest (d\<lparr>dv_last_rwd_hdr := m\<rparr>) = dv_unpack_rest d"
  "dv_unpack_rest (d\<lparr>dv_M2S_Req := q\<rparr>) = dv_unpack_rest d"
  "dv_unpack_rest (d\<lparr>dv_M2S_RWD := q\<rparr>) = dv_unpack_rest d"
  by (simp_all add: dv_unpack_rest_def)

lemma dv_rx_roll: "rx_roll (dv_rx d) = dv_unpacker_rollover d"
  by (simp add: dv_rx_def)

lemma dv_rx_sel:
  "rx_roll (dv_rx d) = dv_unpacker_rollover d"
  "rx_small (dv_rx d) = map untimed (buf_q (dv_M2S_Req d))"
  "rx_big (dv_rx d) = map untimed (buf_q (dv_M2S_RWD d))"
  by (simp_all add: dv_rx_def)

lemma finish_rwd_view:
  "dv_finish_rwd g d = Inr d' \<Longrightarrow> dv_unpack_rest d' = dv_unpack_rest d \<and>
     dv_rx d' = (dv_rx d)\<lparr>rx_big := rx_big (dv_rx d) @ [rx_hdr (dv_rx d)]\<rparr>"
  by (auto simp: dv_finish_rwd_def Let_def dv_rx_def)

lemma finish_rwd_returns:
  assumes "dv_unpack_inv d0 d" "int (length (rx_big (dv_rx d))) < rx_cap_big (dv_rx d)"
  shows "\<exists>d'. dv_finish_rwd g d = Inr d' \<and> dv_unpack_inv d0 d'"
proof -
  have "\<not> is_buf_full (dv_M2S_RWD d)"
    using assms by (simp add: dv_unpack_inv_def not_full_iff dv_rx_def)
  with assms(1) show ?thesis
    by (simp add: dv_finish_rwd_def Let_def dv_unpack_inv_def buf_ok_enqueue)
qed

interpretation dvo: owed_loop "dv_unpack_rollover g" "\<lambda>d. d\<lparr>dv_unpacker_rollover := dv_unpacker_rollover d - 1\<rparr>"
  "dv_finish_rwd g" dv_rx dv_unpack_rest "dv_unpack_inv d0" for g d0
proof unfold_locales
  fix d assume "dv_unpack_inv d0 d" "int (length (rx_big (dv_rx d))) < rx_cap_big (dv_rx d)"
  then show "\<exists>d'. dv_finish_rwd g d = Inr d' \<and> dv_unpack_inv d0 d'" by (rule finish_rwd_returns)
qed (auto simp: dv_rx_def Let_def dv_unpack_inv_def finish_rwd_view dest: finish_rwd_view)

lemma unpack_slot_view:
  assumes "dv_unpack_slot g s (c, d) = Inr (c', d')"
  shows "dv_rx d' = rx_slot kind_host s (dv_rx d) \<and> dv_unpack_rest d' = dv_unpack_rest d \<and>
    wire_tok (rx_roll (dv_rx d)) (kind_host (sl_type s)) \<noteq> None"
proof (cases "sl_type s")
  case data
  let ?d = "d\<lparr>dv_unpacker_rollover := dv_unpacker_rollover d - 1\<rparr>"
  have pos: "0 < dv_unpacker_rollover d"
    and fin: "(if dv_unpacker_rollover ?d = 0 then dv_finish_rwd g ?d else Inr ?d) = Inr d'"
    using assms data by (auto simp: dv_unpack_slot_def Let_def)
  show ?thesis
  proof (cases "dv_unpacker_rollover d = 1")
    case True
    then have "dv_finish_rwd g ?d = Inr d'" using fin by simp
    from finish_rwd_view [OF this] data pos True show ?thesis by (simp add: rx_slot_def dv_rx_def)
  next
    case False
    then have "d' = ?d" using fin by simp
    with data pos False show ?thesis by (simp add: rx_slot_def dv_rx_def)
  qed
qed (use assms in \<open>auto simp: dv_unpack_slot_def rx_slot_def dv_rx_def Let_def\<close>)

lemma unpack_slot_returns:
  assumes "dv_unpack_inv d0 d" and tok: "wire_tok (rx_roll (dv_rx d)) (kind_host (sl_type s)) \<noteq> None"
    and fits: "rx_fits (rx_slot kind_host s (dv_rx d))"
  shows "\<exists>x'. dv_unpack_slot g s (c, d) = Inr x' \<and> dv_unpack_inv d0 (snd x')"
proof (cases "sl_type s")
  case m2s_req
  then have "\<not> is_buf_full (dv_M2S_Req d)"
    using assms(1) fits by (simp add: dv_unpack_inv_def not_full_iff rx_slot_def rx_fits_def dv_rx_def)
  with m2s_req assms(1) show ?thesis
    by (simp add: dv_unpack_slot_def Let_def dv_unpack_inv_def buf_ok_enqueue)
next
  case data
  let ?d = "d\<lparr>dv_unpacker_rollover := dv_unpacker_rollover d - 1\<rparr>"
  have pos: "0 < dv_unpacker_rollover d" using tok data by (simp add: dv_rx_roll split: if_splits)
  show ?thesis
  proof (cases "dv_unpacker_rollover d = 1")
    case True
    have "int (length (rx_big (dv_rx ?d))) < rx_cap_big (dv_rx ?d)"
      using fits data True by (simp add: rx_slot_def rx_fits_def dv_rx_def)
    with finish_rwd_returns [of d0 ?d g] assms(1) obtain d' where "dv_finish_rwd g ?d = Inr d'"
      "dv_unpack_inv d0 d'" by (auto simp: dv_unpack_inv_def)
    then show ?thesis using data True by (simp add: dv_unpack_slot_def Let_def)
  next
    case False
    then show ?thesis using data pos assms(1)
      by (simp add: dv_unpack_slot_def Let_def dv_unpack_inv_def)
  qed
qed (use assms in \<open>auto simp: dv_unpack_slot_def dv_rx_def dv_unpack_inv_def split: if_splits\<close>)

interpretation dvs: slot_loop kind_host "dv_unpack_slots g" "dv_unpack_slot g" "\<lambda>x. dv_rx (snd x)"
  "\<lambda>x. dv_unpack_rest (snd x)" "\<lambda>x. dv_unpack_inv d0 (snd x)" for g d0
proof unfold_locales
  fix x :: "unpack_ctrs \<times> 'a CXLDevice" and s
  assume "dv_unpack_inv d0 (snd x)" "wire_tok (rx_roll (dv_rx (snd x))) (kind_host (sl_type s)) \<noteq> None"
    "rx_fits (rx_slot kind_host s (dv_rx (snd x)))"
  then show "\<exists>x'. dv_unpack_slot g s x = Inr x' \<and> dv_unpack_inv d0 (snd x')"
    using unpack_slot_returns [of d0 "snd x" s g "fst x"] by simp
next
  fix x x' :: "unpack_ctrs \<times> 'a CXLDevice" and s
  assume "dv_unpack_slot g s x = Inr x'"
  then show "dv_rx (snd x') = rx_slot kind_host s (dv_rx (snd x)) \<and>
    dv_unpack_rest (snd x') = dv_unpack_rest (snd x) \<and>
    wire_tok (rx_roll (dv_rx (snd x))) (kind_host (sl_type s)) \<noteq> None"
    using unpack_slot_view [of g s "fst x" "snd x" "fst x'" "snd x'"] by simp
qed auto

interpretation dvr: flit_receiver kind_host m2s_req m2s_rwd_hdr "dv_unpack_rollover g"
  "\<lambda>d. d\<lparr>dv_unpacker_rollover := dv_unpacker_rollover d - 1\<rparr>" "dv_finish_rwd g" dv_rx dv_unpack_rest
  "dv_unpack_inv d0" "dv_unpack_slots g" "dv_unpack_slot g" "\<lambda>x. dv_rx (snd x)"
  "\<lambda>x. dv_unpack_rest (snd x)" "\<lambda>x. dv_unpack_inv d0 (snd x)" "\<lambda>d. (zero_ctrs, d)" for g d0
  by unfold_locales simp_all

lemma unpack_slots_counts:
  "dv_unpack_slots g ss (c, d) = Inr (c', d') \<Longrightarrow>
     uc_small c' = uc_small c + count_list (map (\<lambda>s. kind_host (sl_type s)) ss) KSmall \<and>
     uc_hdr c' = uc_hdr c + count_list (map (\<lambda>s. kind_host (sl_type s)) ss) KHdr \<and>
     uc_data c' = uc_data c + count_list (map (\<lambda>s. kind_host (sl_type s)) ss) KData"
proof (induction ss arbitrary: c d)
  case (Cons s ss)
  then obtain c1 d1 where st: "dv_unpack_slot g s (c, d) = Inr (c1, d1)" "dv_unpack_slots g ss (c1, d1) = Inr (c', d')"
    by auto
  from st(1) have "uc_small c1 = uc_small c + (if kind_host (sl_type s) = KSmall then 1 else 0) \<and>
     uc_hdr c1 = uc_hdr c + (if kind_host (sl_type s) = KHdr then 1 else 0) \<and>
     uc_data c1 = uc_data c + (if kind_host (sl_type s) = KData then 1 else 0)"
    by (auto simp: dv_unpack_slot_def Let_def split: slot_type.splits)
  with Cons.IH [OF st(2)] show ?case by simp
qed simp

section \<open>Unpacking a legal flit\<close>

lemma rollover_rule_iff:
  assumes "length (fl_slots f) = 4" "0 \<le> k" "k \<le> 4"
  shows "dv_rollover_rule k f \<longleftrightarrow> rollover_rule k (kinds_of kind_host f)"
  using assms by (auto simp: dv_rollover_rule_def rollover_rule_def Let_def kinds_of_def types_def hok.kd_data)

lemma unpack_flit_ok:
  assumes wire: "wire_flit (dv_unpacker_rollover d) (kinds_of kind_host f) = Some k"
    and fits: "rx_fits (rx_flit kind_host f (dv_rx d))"
    and ok: "buf_ok (dv_M2S_Req d)" "buf_ok (dv_M2S_RWD d)" "\<not> is_buf_empty (dv_rx_buffer d)"
  obtains d1 where "dv_unpack_inv d d1" "dv_rx d1 = rx_flit kind_host f (dv_rx d)"
    "dv_unpack_flit g f d = Inr (dv_set_cred
       ((dv_cred d)\<lparr>rsp_credit := rsp_credit (dv_cred d) + rsp_credit (fh_credit (fl_header f)),
                   data_credit := data_credit (dv_cred d) + data_credit (fh_credit (fl_header f))\<rparr>)
       (d1\<lparr>dv_rx_buffer := (dv_rx_buffer d)\<lparr>buf_q := tl (buf_q (dv_rx_buffer d))\<rparr>\<rparr>))"
proof -
  let ?k = "dv_unpacker_rollover d" and ?ss = "blank_slots (dv_unpacker_rollover d) (fl_slots f)"
  have w: "length (fl_slots f) = 4" "0 \<le> ?k" "?k \<le> 4" "rollover_rule ?k (kinds_of kind_host f)"
    "count_rule (kinds_of kind_host f)"
    using wire by (auto simp: wire_flit_def kinds_of_def types_def split: if_splits)
  have inv: "dv_unpack_inv d d" using ok by (simp add: dv_unpack_inv_def)
  obtain d1 e where "(if ?k \<noteq> 0 then dv_unpack_rollover g [0, 1, 2, 3] f d else Inr (f, d)) = Inr (f\<lparr>fl_slots := ?ss\<rparr>, d1)"
    "dv_unpack_slots g ?ss (zero_ctrs, d1) = Inr e" "dv_unpack_inv d (snd e)"
    "dv_rx (snd e) = rx_flit kind_host f (dv_rx d)"
    by (rule dvr.unpack_loops [OF wire [folded dv_rx_roll] fits inv, of g]) (simp only: dv_rx_roll)
  then obtain c d2 where d1: "(if ?k \<noteq> 0 then dv_unpack_rollover g [0, 1, 2, 3] f d else Inr (f, d)) = Inr (f\<lparr>fl_slots := ?ss\<rparr>, d1)"
    and d2: "dv_unpack_slots g ?ss (zero_ctrs, d1) = Inr (c, d2)" "dv_unpack_inv d d2"
    "dv_rx d2 = rx_flit kind_host f (dv_rx d)" by (cases e) auto
  have "uc_small c \<le> 2 \<and> uc_hdr c \<le> 1 \<and> uc_data c \<le> 4"
    using unpack_slots_counts [OF d2(1)] w(5) count_blank(2) [of ?k "kinds_of kind_host f"]
    by (simp add: zero_ctrs_def count_rule_def hok.blank_kinds hok.kinds_slots count_blank(1))
  moreover have "dv_rx_buffer d2 = dv_rx_buffer d" "dv_cred d2 = dv_cred d"
    using d2(2) by (simp_all add: dv_unpack_inv_def dv_unpack_rest_def dv_cred_def)
  ultimately have "dv_unpack_flit g f d = Inr (dv_set_cred
       ((dv_cred d)\<lparr>rsp_credit := rsp_credit (dv_cred d) + rsp_credit (fh_credit (fl_header f)),
                   data_credit := data_credit (dv_cred d) + data_credit (fh_credit (fl_header f))\<rparr>)
       (d2\<lparr>dv_rx_buffer := (dv_rx_buffer d)\<lparr>buf_q := tl (buf_q (dv_rx_buffer d))\<rparr>\<rparr>))"
    using w ok(3) d1 d2(1) rollover_rule_iff [OF w(1-3)]
    by (simp add: dv_unpack_flit_def Let_def dv_cred_def)
  with that d2(2,3) show thesis by blast
qed

text \<open>Conversely, a flit that is unpacked was legal, and has been delivered.\<close>

lemma unpack_flit_legal:
  assumes len: "length (fl_slots f) = 4" and ret: "dv_unpack_flit g f d = Inr d'"
  obtains d2 where "wire_flit (dv_unpacker_rollover d) (kinds_of kind_host f) = Some (dv_unpacker_rollover d')"
    "dv_rx d2 = rx_flit kind_host f (dv_rx d)" "dv_unpack_rest d2 = dv_unpack_rest d"
    "d' = dv_set_cred
       ((dv_cred d)\<lparr>rsp_credit := rsp_credit (dv_cred d) + rsp_credit (fh_credit (fl_header f)),
                   data_credit := data_credit (dv_cred d) + data_credit (fh_credit (fl_header f))\<rparr>)
       (d2\<lparr>dv_rx_buffer := (dv_rx_buffer d)\<lparr>buf_q := tl (buf_q (dv_rx_buffer d))\<rparr>\<rparr>)"
proof -
  let ?k = "dv_unpacker_rollover d" and ?ks = "kinds_of kind_host f"
  let ?owed = "if ?k \<noteq> 0 then dv_unpack_rollover g [0, 1, 2, 3] f d else Inr (f, d)"
  have k: "0 \<le> ?k" "?k \<le> 4" "dv_rollover_rule ?k f" and "returns ?owed"
    using ret by (cases ?owed; simp add: dv_unpack_flit_def)+
  then obtain f1 d1 where ow: "?owed = Inr (f1, d1)" by (auto simp: returns_def)
  then have "returns (dv_unpack_slots g (fl_slots f1) (zero_ctrs, d1))"
    using ret k by (cases "dv_unpack_slots g (fl_slots f1) (zero_ctrs, d1)") (simp_all add: dv_unpack_flit_def)
  then obtain c d2 where sl: "dv_unpack_slots g (fl_slots f1) (zero_ctrs, d1) = Inr (c, d2)"
    by (auto simp: returns_def)
  have rule: "rollover_rule ?k ?ks" using rollover_rule_iff [OF len k(1,2)] k(3) by simp
  note lp = dvr.unpack_loops_legal [OF len k(1,2) [folded dv_rx_roll] rule [folded dv_rx_roll] ow [folded dv_rx_roll] sl,
    simplified, unfolded dv_rx_roll]
  have frame: "dv_rx_buffer d2 = dv_rx_buffer d" "dv_cred d2 = dv_cred d"
    using lp(3) by (simp_all add: dv_unpack_rest_def dv_cred_def)
  have cr: "uc_small c \<le> 2" "uc_hdr c \<le> 1" "uc_data c \<le> 4"
    and d': "d' = dv_set_cred
       ((dv_cred d)\<lparr>rsp_credit := rsp_credit (dv_cred d) + rsp_credit (fh_credit (fl_header f)),
                   data_credit := data_credit (dv_cred d) + data_credit (fh_credit (fl_header f))\<rparr>)
       (d2\<lparr>dv_rx_buffer := (dv_rx_buffer d)\<lparr>buf_q := tl (buf_q (dv_rx_buffer d))\<rparr>\<rparr>)"
    using ret k ow sl lp(1) frame by (auto simp: dv_unpack_flit_def Let_def dv_cred_def)
  have len4: "length ?ks = 4" using len by (simp add: hok.kinds_slots)
  have "count_rule ?ks"
    using unpack_slots_counts [OF sl] cr lp(1) dvr.count_rule_iff [OF len]
    by (simp add: zero_ctrs_def hok.blank_kinds hok.kinds_slots count_blank(1))
  moreover have "dv_unpacker_rollover d' = dv_unpacker_rollover d2" unfolding d' by (simp add: dv_set_cred_def)
  ultimately have "wire_flit ?k ?ks = Some (dv_unpacker_rollover d')"
    using k rule len4 lp(4) by (simp add: wire_flit_def dv_rx_roll)
  then show thesis using d' that lp(2,3) by blast
qed

section \<open>Properties\<close>

definition dv_pending_rwd :: "'m CXLDevice \<Rightarrow> umsg list" where
  "dv_pending_rwd d = rx_pending (dv_rx d)"

text \<open>C7.  Unpacking a flit that is legal at the receiver's rollover and has room: the flit
  leaves the receive buffer, its reads join the request channel in order, the write under
  way joins the write channel once its four data slots have arrived, the rollover is the
  one the wire protocol gives, and the credits of the header are added.\<close>

theorem FLIT_unpacker_delivers:
  assumes "buf_q (dv_rx_buffer d) = f # fs"
    and "curr_tick g - time_of_receipt (fl_time f) \<ge> delay_rx_buf_to_unpack p"
    and "wire_flit (dv_unpacker_rollover d) (kinds_of kind_host f) = Some k"
    and "rx_fits (rx_flit kind_host f (dv_rx d))"
    and "buf_ok (dv_M2S_Req d)" and "buf_ok (dv_M2S_RWD d)"
    and "\<not> (is_buf_full (dv_rx_buffer d) \<and> is_buf_full (dv_M2S_Req d) \<and> is_buf_full (dv_M2S_RWD d))"
  shows "\<exists>d'. dv_FLIT_unpacker p g d = Inr (True, d') \<and> buf_q (dv_rx_buffer d') = fs \<and>
    dv_unpacker_rollover d' = k \<and>
    map untimed (buf_q (dv_M2S_Req d')) =
      map untimed (buf_q (dv_M2S_Req d)) @ msgs_of_kind kind_host KSmall (fl_slots f) \<and>
    map untimed (buf_q (dv_M2S_RWD d')) @ dv_pending_rwd d' =
      map untimed (buf_q (dv_M2S_RWD d)) @ dv_pending_rwd d @ msgs_of_kind kind_host KHdr (fl_slots f) \<and>
    rsp_credit (dv_cred d') = rsp_credit (dv_cred d) + rsp_credit (fh_credit (fl_header f)) \<and>
    data_credit (dv_cred d') = data_credit (dv_cred d) + data_credit (fh_credit (fl_header f))"
proof -
  have ne: "\<not> is_buf_empty (dv_rx_buffer d)" using assms(1) by (simp add: is_buf_empty_def)
  obtain d1 where d1: "dv_unpack_inv d d1" "dv_rx d1 = rx_flit kind_host f (dv_rx d)"
    "dv_unpack_flit g f d = Inr (dv_set_cred
       ((dv_cred d)\<lparr>rsp_credit := rsp_credit (dv_cred d) + rsp_credit (fh_credit (fl_header f)),
                   data_credit := data_credit (dv_cred d) + data_credit (fh_credit (fl_header f))\<rparr>)
       (d1\<lparr>dv_rx_buffer := (dv_rx_buffer d)\<lparr>buf_q := tl (buf_q (dv_rx_buffer d))\<rparr>\<rparr>))"
    by (rule unpack_flit_ok [OF assms(3-6) ne, of g])
  have "wire_flit (rx_roll (dv_rx d)) (kinds_of kind_host f) = Some k" using assms(3) by (simp add: dv_rx_roll)
  note rx = hok.rx_flit_delivers [OF this, folded d1(2)]
  let ?c = "(dv_cred d)\<lparr>rsp_credit := rsp_credit (dv_cred d) + rsp_credit (fh_credit (fl_header f)),
                   data_credit := data_credit (dv_cred d) + data_credit (fh_credit (fl_header f))\<rparr>"
  let ?d = "dv_set_cred ?c (d1\<lparr>dv_rx_buffer := (dv_rx_buffer d)\<lparr>buf_q := tl (buf_q (dv_rx_buffer d))\<rparr>\<rparr>)"
  have "dv_FLIT_unpacker p g d = Inr (True, ?d)"
    using assms(1,2,7) ne d1(3) by (simp add: dv_FLIT_unpacker_def)
  moreover have "dv_rx ?d = dv_rx d1" "buf_q (dv_rx_buffer ?d) = fs"
    using assms(1) by (simp_all add: dv_rx_def dv_set_cred_def)
  moreover have "dv_cred ?d = ?c" by simp
  ultimately show ?thesis
    using rx by (simp add: dv_pending_rwd_def flip: dv_rx_sel)
qed

text \<open>A device whose receive buffer holds the flit of one read and one write.\<close>

definition sample_rx_flit :: flit where
  "sample_rx_flit = sample_flit
     [(m2s_req, sample_msg Req 64 1), (m2s_rwd_hdr, sample_msg RwD 128 2),
      (data, sample_msg Req 128 2), (data, sample_msg Req 128 2)]"

definition sample_rx_device :: "unit CXLDevice" where
  "sample_rx_device =
     (CXLDevice_new sample_params sample_uninit sample_ram 64 64 1)
       \<lparr>dv_rx_buffer := \<lparr>buf_size = 64, buf_q = [sample_rx_flit]\<rparr>\<rparr>"

lemma sample_rx_facts:
  "buf_q (dv_rx_buffer sample_rx_device) = [sample_rx_flit]"
  "curr_tick (sample_globals 200) - time_of_receipt (fl_time sample_rx_flit)
     \<ge> delay_rx_buf_to_unpack sample_params"
  "wire_flit (dv_unpacker_rollover sample_rx_device) (kinds_of kind_host sample_rx_flit) = Some 2"
  "rx_fits (rx_flit kind_host sample_rx_flit (dv_rx sample_rx_device))"
  "buf_ok (dv_M2S_Req sample_rx_device)" "buf_ok (dv_M2S_RWD sample_rx_device)"
  "\<not> (is_buf_full (dv_rx_buffer sample_rx_device) \<and> is_buf_full (dv_M2S_Req sample_rx_device) \<and>
       is_buf_full (dv_M2S_RWD sample_rx_device))"
  "length (fl_slots sample_rx_flit) = 4"
  by code_simp+

theorem FLIT_unpacker_delivers_witness:
  "\<exists>d'. dv_FLIT_unpacker sample_params (sample_globals 200) sample_rx_device = Inr (True, d') \<and>
     dv_unpacker_rollover d' = 2 \<and> map untimed (buf_q (dv_M2S_Req d')) = [(1, 64, Req)]"
proof -
  have "map untimed (buf_q (dv_M2S_Req sample_rx_device)) = []"
    "msgs_of_kind kind_host KSmall (fl_slots sample_rx_flit) = [(1, 64, Req)]" by code_simp+
  then show ?thesis using FLIT_unpacker_delivers [OF sample_rx_facts(1-7)] by auto
qed

text \<open>C9.  The unpacker accepts exactly the flits that are legal on the wire at its
  rollover: on a due flit whose messages fit it returns if and only if the flit is legal,
  and aborts on every other one.\<close>

theorem FLIT_unpacker_accepts_iff_legal:
  assumes "buf_q (dv_rx_buffer d) = f # fs" and "length (fl_slots f) = 4"
    and "curr_tick g - time_of_receipt (fl_time f) \<ge> delay_rx_buf_to_unpack p"
    and "rx_fits (rx_flit kind_host f (dv_rx d))"
    and "buf_ok (dv_M2S_Req d)" and "buf_ok (dv_M2S_RWD d)"
    and "\<not> (is_buf_full (dv_rx_buffer d) \<and> is_buf_full (dv_M2S_Req d) \<and> is_buf_full (dv_M2S_RWD d))"
  shows "returns (dv_FLIT_unpacker p g d) \<longleftrightarrow>
    wire_flit (dv_unpacker_rollover d) (kinds_of kind_host f) \<noteq> None"
proof -
  have ne: "\<not> is_buf_empty (dv_rx_buffer d)" using assms(1) by (simp add: is_buf_empty_def)
  have un: "dv_FLIT_unpacker p g d = bind_r (dv_unpack_flit g f d) (\<lambda>d. Inr (True, d))"
    using assms(1,3,7) ne by (simp add: dv_FLIT_unpacker_def)
  have "returns (dv_FLIT_unpacker p g d) \<longleftrightarrow> returns (dv_unpack_flit g f d)"
    unfolding un by (cases "dv_unpack_flit g f d") simp_all
  moreover have "returns (dv_unpack_flit g f d)"
    if "wire_flit (dv_unpacker_rollover d) (kinds_of kind_host f) = Some k" for k
    by (rule unpack_flit_ok [OF that assms(4-6) ne, of g]) simp
  moreover have "wire_flit (dv_unpacker_rollover d) (kinds_of kind_host f) \<noteq> None"
    if "returns (dv_unpack_flit g f d)"
    using that by (auto simp: returns_def elim!: unpack_flit_legal [OF assms(2)])
  ultimately show ?thesis by auto
qed

theorem FLIT_unpacker_accepts_iff_legal_witness:
  "returns (dv_FLIT_unpacker sample_params (sample_globals 200) sample_rx_device) \<longleftrightarrow>
     wire_flit (dv_unpacker_rollover sample_rx_device) (kinds_of kind_host sample_rx_flit) \<noteq> None"
  by (rule FLIT_unpacker_accepts_iff_legal [OF sample_rx_facts(1,8,2,4-7)])

end
