(* ===== verification/CXL_Device_Flow.thy ===== *)
theory CXL_Device_Flow
  imports CXL_Device_Pack CXL_Device_Unpack
begin

text \<open>
  The way of a message through the device.  The ledger of a device is the multiset of the
  (id, address) pairs of everything it holds: flits received, the write whose data is
  arriving, the two request channels, the requests inside the memory, the response
  channels, the flit under construction and the transmit buffer.  Every part of a tick
  moves entries inside the ledger; only the transmitter moves them out, onto the bus.
\<close>

section \<open>The ledger\<close>

definition key :: "umsg \<Rightarrow> u64 \<times> u64" where
  "key t = (fst t, fst (snd t))"

definition ram_msgs :: "(u64, message) smap \<Rightarrow> umsg list" where
  "ram_msgs m = map (untimed \<circ> snd) m"

definition flits_msgs :: "flit list \<Rightarrow> umsg multiset" where
  "flits_msgs fs = mset (concat (map flit_msgs fs))"

definition dv_ledger :: "'m CXLDevice \<Rightarrow> (u64 \<times> u64) multiset" where
  "dv_ledger d = image_mset key
     (flits_msgs (buf_q (dv_rx_buffer d)) + mset (rx_pending (dv_rx d)) + mset (rx_small (dv_rx d)) +
      mset (rx_big (dv_rx d)) + mset (ram_msgs (dv_messages_in_ramulator d)) + dv_unsent d)"

definition bus_ledger :: "CXLBus \<Rightarrow> (u64 \<times> u64) multiset" where
  "bus_ledger b = image_mset key (flits_msgs (flit_slots b))"

definition ids_distinct :: "(u64 \<times> u64) multiset \<Rightarrow> bool" where
  "ids_distinct M \<longleftrightarrow> (\<forall>i \<in># image_mset fst M. count (image_mset fst M) i \<le> 1)"

lemma ids_distinct_count: "ids_distinct M \<Longrightarrow> count (image_mset fst M) i \<le> 1"
  unfolding ids_distinct_def by (metis le0 not_in_iff)

definition dv_ram_ok :: "'m CXLDevice \<Rightarrow> bool" where
  "dv_ram_ok d \<longleftrightarrow> sm_ok (dv_messages_in_ramulator d) \<and>
     (\<forall>e \<in> set (dv_messages_in_ramulator d). msg_id (snd e) = fst e) \<and>
     dv_cur_NDR_vc d < 4 \<and> dv_cur_DRS_vc d < 4 \<and> length (dv_S2M_NDR d) = 4 \<and> length (dv_S2M_DRS d) = 4"

lemma key_untimed [simp]: "key (untimed m) = (msg_id m, address m)"
  by (simp add: key_def untimed_def)

section \<open>Maps as multisets of messages\<close>

lemma ram_msgs_put_fresh:
  "sm_find m k = None \<Longrightarrow> mset (ram_msgs (sm_put k v m)) = add_mset (untimed v) (mset (ram_msgs m))"
  by (induction k v m rule: sm_put.induct) (auto simp: ram_msgs_def sm_find_def split: if_splits)

lemma sm_find_None_less: "\<forall>k' \<in> fst ` set m. k < (k' :: 'k::linorder) \<Longrightarrow> sm_find m k = None"
  by (auto simp: sm_find_def map_of_eq_None_iff)

lemma ram_msgs_put_same:
  "sm_ok m \<Longrightarrow> sm_find m k = Some v \<Longrightarrow> untimed v' = untimed v \<Longrightarrow>
     mset (ram_msgs (sm_put k v' m)) = mset (ram_msgs m)"
proof (induction k v' m rule: sm_put.induct)
  case (2 k v' k1 v1 m)
  then have "\<not> k < k1"
    using sm_find_None_less [of m k] by (auto simp: sm_find_def split: if_splits dest: less_trans)
  with 2 show ?case by (auto simp: ram_msgs_def sm_find_def)
qed (simp add: sm_find_def)

lemma ram_msgs_erase:
  "sm_ok m \<Longrightarrow> sm_find m k = Some v \<Longrightarrow>
     mset (ram_msgs m) = add_mset (untimed v) (mset (ram_msgs (sm_erase k m)))"
proof (induction m)
  case (Cons e m)
  obtain k1 v1 where e: "e = (k1, v1)" by force
  show ?case
  proof (cases "k1 = k")
    case True
    then have "k \<notin> fst ` set m" using Cons.prems(1) e by auto
    then have "filter (\<lambda>e. fst e \<noteq> k) m = m" by (auto simp: filter_id_conv)
    then show ?thesis using True Cons.prems(2) e by (simp add: ram_msgs_def sm_erase_def sm_find_def)
  next
    case False
    then show ?thesis using Cons e by (auto simp: ram_msgs_def sm_erase_def sm_find_def)
  qed
qed (simp add: sm_find_def)

lemma sm_find_in_set: "sm_find m k = Some v \<Longrightarrow> (k, v) \<in> set m"
  by (simp add: sm_find_def map_of_SomeD)

section \<open>The parts of a tick\<close>

lemma rx_half_ledger:
  "dv_rx_half d' = dv_rx_half d \<Longrightarrow> dv_unsent d' = dv_unsent d \<Longrightarrow>
     dv_ledger d' = dv_ledger d \<and> (dv_ram_ok d' \<longleftrightarrow> sm_ok (dv_messages_in_ramulator d) \<and>
     (\<forall>e \<in> set (dv_messages_in_ramulator d). msg_id (snd e) = fst e) \<and>
     dv_cur_NDR_vc d < 4 \<and> dv_cur_DRS_vc d < 4 \<and> length (dv_S2M_NDR d') = 4 \<and> length (dv_S2M_DRS d') = 4)"
  by (simp add: dv_ledger_def dv_rx_half_def dv_rx_def dv_ram_ok_def)

lemma packer_ledger:
  assumes "dv_packer_ok d" "dv_FLIT_packer p u g d = Inr (a, g', d')"
  shows "dv_ledger d' = dv_ledger d" "dv_ram_ok d \<Longrightarrow> dv_ram_ok d'" "dv_packer_ok d'"
    "dv_rx_half d' = dv_rx_half d"
proof -
  have post: "dv_pack_post d d'" using FLIT_packer_cases [OF assms(1), of p u g] assms(2) by auto
  then show "dv_packer_ok d'" "dv_rx_half d' = dv_rx_half d" by (simp_all add: dv_pack_post_def)
  then have "length (dv_S2M_NDR d') = 4" "length (dv_S2M_DRS d') = 4"
    by (simp_all add: dv_packer_ok_def dv_typed_def vcs_carry_def)
  with post show "dv_ledger d' = dv_ledger d" "dv_ram_ok d \<Longrightarrow> dv_ram_ok d'"
    using rx_half_ledger [of d' d] by (auto simp: dv_pack_post_def dv_ram_ok_def)
qed

text \<open>The messages of a legal flit are its small messages and its headers.\<close>

lemma legal_not_bad: "wire_run k ks \<noteq> None \<Longrightarrow> KBad \<notin> set ks"
  by (induction ks arbitrary: k) (auto split: option.splits)

lemma blank_bad: "KBad \<in> set (blank_data k ks) \<longleftrightarrow> KBad \<in> set ks"
  by (induction k ks rule: blank_data.induct) auto

lemma flit_msgs_kinds:
  assumes "KBad \<notin> set (kinds_of kind_host f)"
  shows "mset (flit_msgs f) =
    mset (msgs_of_kind kind_host KSmall (fl_slots f)) + mset (msgs_of_kind kind_host KHdr (fl_slots f))"
proof -
  have "mset (map (untimed \<circ> sl_msg) (filter (carries_message \<circ> sl_type) ss)) =
     mset (msgs_of_kind kind_host KSmall ss) + mset (msgs_of_kind kind_host KHdr ss)"
    if "KBad \<notin> set (map (\<lambda>s. kind_host (sl_type s)) ss)" for ss
    using that
  proof (induction ss)
    case (Cons s ss)
    then show ?case by (cases "sl_type s") (auto simp: msgs_of_kind_def)
  qed (simp add: msgs_of_kind_def)
  with assms show ?thesis by (simp add: flit_msgs_def hok.kinds_slots)
qed

lemma unsent_cong:
  "dv_S2M_NDR d' = dv_S2M_NDR d \<Longrightarrow> dv_S2M_DRS d' = dv_S2M_DRS d \<Longrightarrow>
   dv_is_packer_waiting d' = dv_is_packer_waiting d \<Longrightarrow> dv_flit_to_pack d' = dv_flit_to_pack d \<Longrightarrow>
   dv_tx_buffer d' = dv_tx_buffer d \<Longrightarrow> dv_unsent d' = dv_unsent d"
  by (simp add: dv_unsent_def)

definition rx_flits_ok :: "'m CXLDevice \<Rightarrow> bool" where
  "rx_flits_ok d \<longleftrightarrow> (\<forall>f \<in> set (buf_q (dv_rx_buffer d)). length (fl_slots f) = 4)"

lemma unpacker_ledger:
  assumes ret: "dv_FLIT_unpacker p g d = Inr (a, d')" and "rx_flits_ok d"
  shows "dv_ledger d' = dv_ledger d" "dv_ram_ok d \<Longrightarrow> dv_ram_ok d'"
proof -
  have "dv_ledger d' = dv_ledger d \<and> (dv_ram_ok d \<longrightarrow> dv_ram_ok d')"
  proof (cases "a")
    case False
    then have "d' = d" using ret by (auto simp: dv_FLIT_unpacker_def split: if_splits)
    then show ?thesis by simp
  next
    case True
    then have ne: "\<not> is_buf_empty (dv_rx_buffer d)"
      and un: "dv_unpack_flit g (hd (buf_q (dv_rx_buffer d))) d = Inr d'"
      using ret by (auto simp: dv_FLIT_unpacker_def split: if_splits)
    then obtain f fs where q: "buf_q (dv_rx_buffer d) = f # fs"
      by (cases "buf_q (dv_rx_buffer d)") (auto simp: is_buf_empty_def)
    with assms(2) have len: "length (fl_slots f) = 4" by (simp add: rx_flits_ok_def)
    have un: "dv_unpack_flit g f d = Inr d'" using un q by simp
    from len un obtain d2 where d2:
      "wire_flit (dv_unpacker_rollover d) (kinds_of kind_host f) = Some (dv_unpacker_rollover d')"
      "dv_rx d2 = rx_flit kind_host f (dv_rx d)" "dv_unpack_rest d2 = dv_unpack_rest d"
      "d' = dv_set_cred
       ((dv_cred d)\<lparr>rsp_credit := rsp_credit (dv_cred d) + rsp_credit (fh_credit (fl_header f)),
                   data_credit := data_credit (dv_cred d) + data_credit (fh_credit (fl_header f))\<rparr>)
       (d2\<lparr>dv_rx_buffer := (dv_rx_buffer d)\<lparr>buf_q := tl (buf_q (dv_rx_buffer d))\<rparr>\<rparr>)"
      by (rule unpack_flit_legal)
    have rx': "dv_rx d' = rx_flit kind_host f (dv_rx d)" "dv_messages_in_ramulator d' = dv_messages_in_ramulator d"
      "dv_unsent d' = dv_unsent d" "buf_q (dv_rx_buffer d') = fs"
      using d2(2,3) q unfolding d2(4)
      by (simp_all add: dv_set_cred_def dv_rx_def dv_unpack_rest_def dv_unsent_def)
    have "KBad \<notin> set (kinds_of kind_host f)"
      using d2(1) legal_not_bad [of 0 "blank_data (dv_unpacker_rollover d) (kinds_of kind_host f)"]
      by (auto simp: wire_flit_def blank_bad split: if_splits)
    note msgs = flit_msgs_kinds [OF this]
    have w: "wire_flit (rx_roll (dv_rx d)) (kinds_of kind_host f) = Some (dv_unpacker_rollover d')"
      using d2(1) by (simp add: dv_rx_roll)
    note del = hok.rx_flit_delivers [OF w]
    have "mset (rx_big (dv_rx d')) + mset (rx_pending (dv_rx d')) =
        mset (rx_big (dv_rx d)) + mset (rx_pending (dv_rx d)) + mset (msgs_of_kind kind_host KHdr (fl_slots f))"
      using arg_cong [OF del(3), of mset] rx'(1) by (simp add: ac_simps)
    moreover have "mset (rx_small (dv_rx d')) =
        mset (rx_small (dv_rx d)) + mset (msgs_of_kind kind_host KSmall (fl_slots f))"
      using del(2) rx'(1) by simp
    ultimately have "flits_msgs (buf_q (dv_rx_buffer d')) + mset (rx_pending (dv_rx d')) +
        mset (rx_small (dv_rx d')) + mset (rx_big (dv_rx d')) =
        flits_msgs (buf_q (dv_rx_buffer d)) + mset (rx_pending (dv_rx d)) + mset (rx_small (dv_rx d)) +
        mset (rx_big (dv_rx d))"
      using msgs q rx'(4) by (simp add: flits_msgs_def ac_simps)
    then have "dv_ledger d' = dv_ledger d" by (simp add: dv_ledger_def rx'(2,3))
    moreover have "dv_ram_ok d \<Longrightarrow> dv_ram_ok d'"
      using d2(3) unfolding d2(4) by (simp add: dv_ram_ok_def dv_set_cred_def dv_unpack_rest_def)
    ultimately show ?thesis by blast
  qed
  then show "dv_ledger d' = dv_ledger d" "dv_ram_ok d \<Longrightarrow> dv_ram_ok d'" by blast+
qed

text \<open>A message id that waits in a request channel is not in the memory yet.\<close>

lemma distinct_fresh:
  assumes "ids_distinct (dv_ledger d)" "dv_ram_ok d" "m \<in> set (buf_q (dv_rx_buf v d))"
  shows "sm_find (dv_messages_in_ramulator d) (msg_id m) = None"
proof (rule ccontr)
  assume "sm_find (dv_messages_in_ramulator d) (msg_id m) \<noteq> None"
  then obtain m' where m': "(msg_id m, m') \<in> set (dv_messages_in_ramulator d)"
    using sm_find_in_set by fastforce
  with assms(2) have id: "msg_id m' = msg_id m" by (auto simp: dv_ram_ok_def)
  let ?A = "image_mset (fst \<circ> key) (mset (rx_small (dv_rx d)) + mset (rx_big (dv_rx d)))"
  let ?B = "image_mset (fst \<circ> key) (mset (ram_msgs (dv_messages_in_ramulator d)))"
  have image: "msg_id x \<in># image_mset (fst \<circ> key) X" if "untimed x \<in># X" for x X
    using imageI [OF that, of "fst \<circ> key"] by simp
  have "untimed m \<in># mset (rx_small (dv_rx d)) + mset (rx_big (dv_rx d))"
    using assms(3) by (cases v) (auto simp: dv_rx_def)
  then have "msg_id m \<in># ?A" by (rule image)
  moreover have "untimed m' \<in># mset (ram_msgs (dv_messages_in_ramulator d))"
    using m' by (force simp: ram_msgs_def)
  then have "msg_id m' \<in># ?B" by (rule image)
  ultimately have "0 < count ?A (msg_id m)" "0 < count ?B (msg_id m)"
    using id by (simp_all only: count_greater_zero_iff)
  moreover have "count ?A (msg_id m) + count ?B (msg_id m) \<le> count (image_mset fst (dv_ledger d)) (msg_id m)"
    by (simp add: dv_ledger_def multiset.map_comp)
  moreover have "count (image_mset fst (dv_ledger d)) (msg_id m) \<le> 1"
    using assms(1) by (rule ids_distinct_count)
  ultimately show False by linarith
qed

lemma check_rx_vc_False: "dv_check_rx_vc p g v d = Inr (False, d') \<Longrightarrow> d' = d"
  by (auto simp: dv_check_rx_vc_def Let_def split: if_splits opcode.splits)

lemma check_rx_vc_True:
  assumes "dv_check_rx_vc p g v d = Inr (True, d')"
  obtains m q ib ic where "buf_q (dv_rx_buf v d) = m # q"
    "d' = dv_set_rx_buf v ((dv_rx_buf v d)\<lparr>buf_q := q\<rparr>) (d\<lparr>dv_dram := (dv_dram d)\<lparr>rd_inp_buf := ib\<rparr>,
       dv_messages_in_ramulator := sm_insert (msg_id m) m (dv_messages_in_ramulator d), dv_int_cred := ic\<rparr>)"
proof -
  let ?m = "hd (buf_q (dv_rx_buf v d))"
  have ne: "\<not> is_buf_empty (dv_rx_buf v d)" using assms by (auto simp: dv_check_rx_vc_def Let_def)
  then obtain m q where mq: "buf_q (dv_rx_buf v d) = m # q"
    by (cases "buf_q (dv_rx_buf v d)") (auto simp: is_buf_empty_def)
  have rx: "dv_rx_buf v (d\<lparr>dv_dram := x, dv_messages_in_ramulator := y\<rparr>) = dv_rx_buf v d"
    "dv_rx_buf v (d\<lparr>dv_dram := x, dv_messages_in_ramulator := y, dv_int_cred := z\<rparr>) = dv_rx_buf v d" for x y z
    by (cases v; simp)+
  show thesis
    using assms ne mq that [OF mq] that [OF mq, where ic = "dv_int_cred d"]
    by (cases "opCode m") (auto simp: dv_check_rx_vc_def Let_def rx split: if_splits)
qed

lemma check_rx_vc_ledger:
  assumes ret: "dv_check_rx_vc p g v d = Inr (b, d')" and "ids_distinct (dv_ledger d)" and ok: "dv_ram_ok d"
  shows "dv_ledger d' = dv_ledger d \<and> dv_ram_ok d'"
proof (cases b)
  case False
  then show ?thesis using ret ok check_rx_vc_False [of p g v d d'] by simp
next
  case True
  then obtain m q ib ic where mq: "buf_q (dv_rx_buf v d) = m # q" and
    d': "d' = dv_set_rx_buf v ((dv_rx_buf v d)\<lparr>buf_q := q\<rparr>) (d\<lparr>dv_dram := (dv_dram d)\<lparr>rd_inp_buf := ib\<rparr>,
       dv_messages_in_ramulator := sm_insert (msg_id m) m (dv_messages_in_ramulator d), dv_int_cred := ic\<rparr>)"
    using ret check_rx_vc_True by metis
  have fresh: "sm_find (dv_messages_in_ramulator d) (msg_id m) = None"
    by (rule distinct_fresh [OF assms(2,3), of m v]) (simp add: mq)
  have put: "sm_insert (msg_id m) m (dv_messages_in_ramulator d) = sm_put (msg_id m) m (dv_messages_in_ramulator d)"
    by (simp add: sm_insert_def fresh)
  note ram = ram_msgs_put_fresh [OF fresh, of m]
  have unsent: "dv_unsent d' = dv_unsent d" unfolding d' by (cases v) (simp_all add: dv_unsent_def)
  have "dv_ledger d' = dv_ledger d"
    using mq ram unsent unfolding d' put
    by (cases v) (simp_all add: dv_ledger_def dv_rx_def rx_pending_def)
  moreover have "dv_ram_ok d'"
    using ok set_sm_put [of "msg_id m" m "dv_messages_in_ramulator d"] unfolding d' put
    by (cases v) (auto simp: dv_ram_ok_def)
  ultimately show ?thesis by simp
qed

lemma send_to_ramulator_ledger:
  assumes ret: "send_to_ramulator p g d = Inr (b, d')" and "ids_distinct (dv_ledger d)" and ok: "dv_ram_ok d"
  shows "dv_ledger d' = dv_ledger d \<and> dv_ram_ok d'"
proof -
  have st: "dv_ledger (e\<lparr>dv_ramulator_inp_state := s\<rparr>) = dv_ledger e \<and>
     (dv_ram_ok (e\<lparr>dv_ramulator_inp_state := s\<rparr>) \<longleftrightarrow> dv_ram_ok e)" for e :: "'a CXLDevice" and s
    by (simp add: dv_ledger_def dv_rx_def dv_unsent_def dv_ram_ok_def)
  have first: "dv_ledger d' = dv_ledger d \<and> dv_ram_ok d'" if "dv_first_of p g (v1, s1) (v2, s2) d = Inr (b, d')"
    for v1 s1 v2 s2
  proof -
    from that obtain b1 d1 where d1: "dv_check_rx_vc p g v1 d = Inr (b1, d1)"
      by (auto simp: dv_first_of_def)
    note l1 = check_rx_vc_ledger [OF d1 assms(2,3)]
    show ?thesis
    proof (cases b1)
      case True
      then show ?thesis using that d1 l1 st by (auto simp: dv_first_of_def)
    next
      case False
      then have second: "bind_r (dv_check_rx_vc p g v2 d1) (\<lambda>(b, d).
          if b then Inr (True, d\<lparr>dv_ramulator_inp_state := s2\<rparr>) else Inr (False, d)) = Inr (b, d')"
        using that d1 by (simp add: dv_first_of_def)
      then obtain b2 d2 where d2: "dv_check_rx_vc p g v2 d1 = Inr (b2, d2)"
        "d' = (if b2 then d2\<lparr>dv_ramulator_inp_state := s2\<rparr> else d2)"
        by (cases "dv_check_rx_vc p g v2 d1") (auto split: if_splits)
      have "ids_distinct (dv_ledger d1)" using l1 assms(2) by simp
      from check_rx_vc_ledger [OF d2(1) this] l1 d2(2) st show ?thesis by auto
    qed
  qed
  show ?thesis
    using ret first by (auto simp: send_to_ramulator_def split: round_robin_state.splits)
qed

lemma ledger_cong:
  "dv_rx_buffer d' = dv_rx_buffer d \<Longrightarrow> dv_rx d' = dv_rx d \<Longrightarrow>
   mset (ram_msgs (dv_messages_in_ramulator d')) = mset (ram_msgs (dv_messages_in_ramulator d)) \<Longrightarrow>
   dv_unsent d' = dv_unsent d \<Longrightarrow> dv_ledger d' = dv_ledger d"
  by (simp add: dv_ledger_def)

text \<open>A completion takes the request out of the memory and puts its response into the
  channel whose turn it is.\<close>

lemma notification_ledger:
  assumes ret: "ramulator_req_notification g r d = Inr d'" and ok: "dv_ram_ok d"
  shows "dv_ledger d' = dv_ledger d \<and> dv_ram_ok d'"
proof -
  obtain m where m: "sm_find (dv_messages_in_ramulator d) (req_id r) = Some m"
    using ret by (auto simp: ramulator_req_notification_def split: option.splits)
  have smok: "sm_ok (dv_messages_in_ramulator d)" using ok by (simp add: dv_ram_ok_def)
  note erase = ram_msgs_erase [OF smok m]
  let ?t = "(m_time m)\<lparr>ramulator_clk_end := ds_clks (rd_state (dv_dram d)), tick_ramulator_complete := curr_tick g\<rparr>"
  have lt: "dv_cur_DRS_vc d < length (dv_S2M_DRS d)" "dv_cur_NDR_vc d < length (dv_S2M_NDR d)"
    using ok by (auto simp: dv_ram_ok_def)
  have ram': "sm_ok (sm_erase (req_id r) (dv_messages_in_ramulator d))"
    "\<forall>e \<in> set (sm_erase (req_id r) (dv_messages_in_ramulator d)). msg_id (snd e) = fst e"
    using smok ok by (simp, auto simp: dv_ram_ok_def sm_erase_def)
  show ?thesis
  proof (cases "opCode m")
    case Req
    then have d': "d' = d\<lparr>dv_S2M_DRS := (dv_S2M_DRS d)[dv_cur_DRS_vc d := (dv_S2M_DRS d ! dv_cur_DRS_vc d)
          \<lparr>buf_q := buf_q (dv_S2M_DRS d ! dv_cur_DRS_vc d) @ [m\<lparr>m_time := ?t, opCode := DRS\<rparr>]\<rparr>],
        dv_cur_DRS_vc := (if dv_cur_DRS_vc d = NUM_VC - 1 then 0 else dv_cur_DRS_vc d + 1),
        dv_messages_in_ramulator := sm_erase (req_id r) (dv_messages_in_ramulator d)\<rparr>"
      using ret m by (auto simp: ramulator_req_notification_def Let_def)
    have "dv_unsent d' = add_mset (untimed (m\<lparr>m_time := ?t, opCode := DRS\<rparr>)) (dv_unsent d)"
      unfolding d' by (simp add: dv_unsent_def vcs_msgs_push [OF lt(1)])
    then have "dv_ledger d' = dv_ledger d"
      using erase unfolding d' by (simp add: dv_ledger_def dv_rx_def rx_pending_def)
    then show ?thesis using ok ram' unfolding d' by (simp add: dv_ram_ok_def NUM_VC_def)
  next
    case RwD
    then have d': "d' = d\<lparr>dv_S2M_NDR := (dv_S2M_NDR d)[dv_cur_NDR_vc d := (dv_S2M_NDR d ! dv_cur_NDR_vc d)
          \<lparr>buf_q := buf_q (dv_S2M_NDR d ! dv_cur_NDR_vc d) @ [m\<lparr>m_time := ?t, opCode := NDR\<rparr>]\<rparr>],
        dv_cur_NDR_vc := (if dv_cur_NDR_vc d = NUM_VC - 1 then 0 else dv_cur_NDR_vc d + 1),
        dv_messages_in_ramulator := sm_erase (req_id r) (dv_messages_in_ramulator d)\<rparr>"
      using ret m by (auto simp: ramulator_req_notification_def Let_def)
    have "dv_unsent d' = add_mset (untimed (m\<lparr>m_time := ?t, opCode := NDR\<rparr>)) (dv_unsent d)"
      unfolding d' by (simp add: dv_unsent_def vcs_msgs_push [OF lt(2)])
    then have "dv_ledger d' = dv_ledger d"
      using erase unfolding d' by (simp add: dv_ledger_def dv_rx_def rx_pending_def)
    then show ?thesis using ok ram' unfolding d' by (simp add: dv_ram_ok_def NUM_VC_def)
  qed (use ret m in \<open>auto simp: ramulator_req_notification_def Let_def\<close>)
qed

lemma notify_all_ledger:
  "dv_notify_all g rs d = Inr d' \<Longrightarrow> dv_ram_ok d \<Longrightarrow> dv_ledger d' = dv_ledger d \<and> dv_ram_ok d'"
proof (induction rs arbitrary: d)
  case (Cons r rs)
  then obtain d1 where d1: "ramulator_req_notification g r d = Inr d1" "dv_notify_all g rs d1 = Inr d'"
    by auto
  note n = notification_ledger [OF d1(1) Cons.prems(2)]
  from Cons.IH [OF d1(2)] n show ?case by simp
qed simp

lemma dram_ledger [simp]:
  "dv_ledger (d\<lparr>dv_dram := ram\<rparr>) = dv_ledger d" "dv_ram_ok (d\<lparr>dv_dram := ram\<rparr>) = dv_ram_ok d"
  by (simp_all add: dv_ledger_def dv_rx_def dv_unsent_def dv_ram_ok_def)

lemma ram_accepted_ledger:
  assumes ret: "dv_ram_accepted g d = Inr d'" and ok: "dv_ram_ok d"
  shows "dv_ledger d' = dv_ledger d \<and> dv_ram_ok d'"
proof -
  let ?i = "rd_req_id (dv_dram d)"
  obtain m ram t where m: "sm_find (dv_messages_in_ramulator d) ?i = Some m" and
    d': "d' = d\<lparr>dv_messages_in_ramulator := sm_put ?i (m\<lparr>m_time := t\<rparr>) (dv_messages_in_ramulator d),
       dv_dram := ram\<rparr>"
    using ret by (auto simp: dv_ram_accepted_def Let_def split: option.splits)
  have smok: "sm_ok (dv_messages_in_ramulator d)" using ok by (simp add: dv_ram_ok_def)
  have "mset (ram_msgs (sm_put ?i (m\<lparr>m_time := t\<rparr>) (dv_messages_in_ramulator d))) =
      mset (ram_msgs (dv_messages_in_ramulator d))"
    by (rule ram_msgs_put_same [OF smok m]) simp
  then have "dv_ledger d' = dv_ledger d" unfolding d'
    by (simp add: dv_ledger_def dv_rx_def dv_unsent_def)
  moreover have "msg_id m = ?i" using ok sm_find_in_set [OF m] by (auto simp: dv_ram_ok_def)
  then have "dv_ram_ok d'"
    using ok set_sm_put [of ?i "m\<lparr>m_time := t\<rparr>" "dv_messages_in_ramulator d"] unfolding d'
    by (auto simp: dv_ram_ok_def)
  ultimately show ?thesis by simp
qed

lemma RamDevice_update_ledger:
  assumes ret: "RamDevice_update ops g d = Inr (b, d')" and ok: "dv_ram_ok d"
  shows "dv_ledger d' = dv_ledger d \<and> dv_ram_ok d'"
proof (cases "ds_status (rd_state (dv_dram d)) \<noteq> END \<or> mem_pending_requests ops (rd_memory (dv_dram d)) \<noteq> 0")
  case False
  then show ?thesis using ret ok by (auto simp: RamDevice_update_def Let_def)
next
  case True
  define tail where "tail d = bind_r (mem_tick ops (rd_memory (dv_dram d))) (\<lambda>(mem, done).
                 bind_r (dv_notify_all g done (d\<lparr>dv_dram := (dv_dram d)\<lparr>rd_memory := mem\<rparr>\<rparr>)) (\<lambda>d.
                   let ram = dv_dram d; st = rd_state ram
                   in Inr (False, d\<lparr>dv_dram := ram\<lparr>rd_state := st\<lparr>ds_clks := ds_clks st + 1\<rparr>\<rparr>\<rparr>)))"
    for d :: "'a CXLDevice"
  have tail: "dv_ledger d' = dv_ledger e \<and> dv_ram_ok d'" if "tail e = Inr (b, d')" "dv_ram_ok e" for e
    using that notify_all_ledger
    by (fastforce simp: tail_def Let_def split: prod.splits elim!: bind_r_returns)
  define pre where "pre ram = (let st = rd_state ram; d = d\<lparr>dv_dram := ram\<rparr> in
                if ds_status st \<noteq> END
                then if ds_status st \<noteq> EMPTY
                     then bind_r (mem_send ops (rd_memory ram) (Request_new (rd_addr ram) (rd_type ram) (rd_req_id ram)))
                           (\<lambda>(mem, ok).
                              let d = d\<lparr>dv_dram := ram\<lparr>rd_memory := mem, rd_state := st\<lparr>ds_stall := \<not> ok\<rparr>\<rparr>\<rparr>
                              in if ok then dv_ram_accepted g d else Inr d)
                     else Inr d
                else Inr (d\<lparr>dv_dram := ram\<lparr>rd_memory := mem_drain_writes ops (rd_memory ram)\<rparr>\<rparr>))" for ram
  have pre: "dv_ledger e = dv_ledger d \<and> dv_ram_ok e" if "pre ram = Inr e" for ram e
    using that ok ram_accepted_ledger
    by (fastforce simp: pre_def Let_def split: if_splits prod.splits elim!: bind_r_returns)
  obtain ram where "bind_r (pre ram) tail = Inr (b, d')"
    using ret True unfolding RamDevice_update_def Let_def pre_def tail_def by (simp split: if_splits)
  then obtain e where e: "pre ram = Inr e" "tail e = Inr (b, d')" by (rule bind_r_returns)
  with pre [OF e(1)] tail [OF e(2)] show ?thesis by simp
qed

lemma transmit_ledger:
  assumes "dv_transmit p u g d b = Inr (a, d', b')"
  shows "dv_ledger d' + bus_ledger b' = dv_ledger d + bus_ledger b" "dv_ram_ok d \<Longrightarrow> dv_ram_ok d'"
proof -
  have "dv_ledger d' + bus_ledger b' = dv_ledger d + bus_ledger b \<and> (dv_ram_ok d \<longrightarrow> dv_ram_ok d')"
  proof (cases a)
    case False
    then have "d' = d \<and> b' = b" using assms by (auto simp: dv_transmit_def Let_def split: if_splits)
    then show ?thesis by simp
  next
    case True
    let ?h = "hd (buf_q (dv_tx_buffer d))"
    let ?f = "set_time tick_retransmitted_update (curr_tick g)
      (?h\<lparr>fl_time := (fl_time ?h)\<lparr>time_of_transmission := curr_tick g\<rparr>\<rparr>)"
    have ne: "\<not> is_buf_empty (dv_tx_buffer d)" and add: "add_to_bus g ?f b = Inr b'"
      and d': "d' = d\<lparr>dv_last_transmitted_at := curr_tick g,
          dv_tx_buffer := (dv_tx_buffer d)\<lparr>buf_q := tl (buf_q (dv_tx_buffer d))\<rparr>\<rparr>"
      using assms True by (auto simp: dv_transmit_def Let_def split: if_splits)
    obtain f fs where q: "buf_q (dv_tx_buffer d) = f # fs"
      using ne by (cases "buf_q (dv_tx_buffer d)") (auto simp: is_buf_empty_def)
    have "flit_slots b' = flit_slots b @ [?f]" using add by (simp add: add_to_bus_eq_Inr)
    then have "bus_ledger b' = bus_ledger b + image_mset key (mset (flit_msgs f))"
      by (simp add: bus_ledger_def flits_msgs_def q)
    moreover have "dv_unsent d = dv_unsent d' + mset (flit_msgs f)"
      unfolding d' by (simp add: dv_unsent_def q)
    then have "dv_ledger d = dv_ledger d' + image_mset key (mset (flit_msgs f))"
      unfolding d' by (simp add: dv_ledger_def dv_rx_def rx_pending_def)
    moreover have "dv_ram_ok d' = dv_ram_ok d" unfolding d' by (simp add: dv_ram_ok_def)
    ultimately show ?thesis by simp
  qed
  then show "dv_ledger d' + bus_ledger b' = dv_ledger d + bus_ledger b" "dv_ram_ok d \<Longrightarrow> dv_ram_ok d'"
    by blast+
qed

section \<open>A tick\<close>

lemma counters_ledger [simp]:
  "dv_ledger (d\<lparr>dv_empty_cycle_packer := n\<rparr>) = dv_ledger d" "dv_ram_ok (d\<lparr>dv_empty_cycle_packer := n\<rparr>) = dv_ram_ok d"
  "dv_ledger (d\<lparr>dv_empty_cycle_unpacker := n\<rparr>) = dv_ledger d" "dv_ram_ok (d\<lparr>dv_empty_cycle_unpacker := n\<rparr>) = dv_ram_ok d"
  "dv_ledger (d\<lparr>dv_empty_cycle_sent_to_ram := n\<rparr>) = dv_ledger d" "dv_ram_ok (d\<lparr>dv_empty_cycle_sent_to_ram := n\<rparr>) = dv_ram_ok d"
  "dv_ledger (d\<lparr>dv_empty_cycle_transmit := n\<rparr>) = dv_ledger d" "dv_ram_ok (d\<lparr>dv_empty_cycle_transmit := n\<rparr>) = dv_ram_ok d"
  "dv_ledger (d\<lparr>dv_skippable_cycle := n\<rparr>) = dv_ledger d" "dv_ram_ok (d\<lparr>dv_skippable_cycle := n\<rparr>) = dv_ram_ok d"
  "dv_ledger (d\<lparr>dv_num_reqs := n\<rparr>) = dv_ledger d" "dv_ram_ok (d\<lparr>dv_num_reqs := n\<rparr>) = dv_ram_ok d"
  "dv_ledger (d\<lparr>dv_last_ramulator_update := k\<rparr>) = dv_ledger d" "dv_ram_ok (d\<lparr>dv_last_ramulator_update := k\<rparr>) = dv_ram_ok d"
  "rx_flits_ok (d\<lparr>dv_empty_cycle_packer := n\<rparr>) = rx_flits_ok d"
  by (simp_all add: dv_ledger_def dv_rx_def dv_unsent_def dv_ram_ok_def rx_flits_ok_def)

lemma stage_pack_ledger:
  assumes "dv_stage_pack p u skip g d = Inr (r, a, g', d')" "dv_packer_ok d" "dv_ram_ok d" "rx_flits_ok d"
  shows "dv_ledger d' = dv_ledger d \<and> dv_ram_ok d' \<and> rx_flits_ok d'"
proof -
  obtain e where e: "(if \<not> skip \<or> \<not> dv_skip_packer_check p g d then dv_FLIT_packer p u g d else Inr (False, g, d))
      = Inr (a, g', e)" "d' = e\<lparr>dv_empty_cycle_packer := count_if_skipped skip (\<not> dv_skip_packer_check p g d) (dv_empty_cycle_packer e)\<rparr>"
    using assms(1) by (auto simp: dv_stage_pack_def Let_def split: prod.splits elim!: bind_r_returns)
  have "dv_ledger e = dv_ledger d \<and> dv_ram_ok e \<and> dv_rx_half e = dv_rx_half d"
    using e(1) assms(3) packer_ledger [OF assms(2), of p u g a g' e] by (auto split: if_splits)
  then show ?thesis using e(2) assms(4) by (simp add: dv_rx_half_def rx_flits_ok_def)
qed

lemma stage_unpack_ledger:
  assumes "dv_stage_unpack p skip g d = Inr (r, a, d')" "dv_ram_ok d" "rx_flits_ok d"
  shows "dv_ledger d' = dv_ledger d \<and> dv_ram_ok d'"
  using assms unpacker_ledger [of p g d]
  by (fastforce simp: dv_stage_unpack_def Let_def split: prod.splits if_splits elim!: bind_r_returns)

lemma stage_ram_ledger:
  assumes "dv_stage_ram p skip g d = Inr (r, a, d')" "dv_ram_ok d" "ids_distinct (dv_ledger d)"
  shows "dv_ledger d' = dv_ledger d \<and> dv_ram_ok d'"
proof -
  let ?go = "\<not> skip \<or> \<not> dv_skip_send_to_ram_check p g d"
  obtain e n where e: "(if ?go then send_to_ramulator p g d else Inr (False, d)) = Inr (a, e)"
    "d' = e\<lparr>dv_empty_cycle_sent_to_ram := n\<rparr> \<or>
     d' = (e\<lparr>dv_empty_cycle_sent_to_ram := n\<rparr>)\<lparr>dv_num_reqs := dv_num_reqs (e\<lparr>dv_empty_cycle_sent_to_ram := n\<rparr>) + 1\<rparr>"
    using assms(1) unfolding dv_stage_ram_def Let_def
    by (elim bind_r_returns) (auto split: prod.splits if_splits)
  have "dv_ledger e = dv_ledger d \<and> dv_ram_ok e"
    using e(1) assms(2,3) send_to_ramulator_ledger [of p g d a e] by (auto split: if_splits)
  then show ?thesis using e(2) by auto
qed

lemma stage_transmit_ledger:
  assumes "dv_stage_transmit p u skip g d b = Inr (r, a, d', b')" "dv_ram_ok d"
  shows "dv_ledger d' + bus_ledger b' = dv_ledger d + bus_ledger b \<and> dv_ram_ok d'"
  using assms transmit_ledger [of p u g d b]
  by (fastforce simp: dv_stage_transmit_def Let_def split: prod.splits if_splits elim!: bind_r_returns)

lemma update_ledger:
  assumes ret: "CXLDevice_update p u ops skip g d b = Inr (g', d', b')"
    and "dv_packer_ok d" "dv_ram_ok d" "rx_flits_ok d" "ids_distinct (dv_ledger d)"
  shows "dv_ledger d' + bus_ledger b' = dv_ledger d + bus_ledger b" and "dv_ram_ok d'"
proof -
  from ret obtain r1 a1 g1 d1 where 1: "dv_stage_pack p u skip g d = Inr (r1, a1, g1, d1)"
    by (auto simp: CXLDevice_update_def)
  with ret obtain r2 a2 d2 where 2: "dv_stage_unpack p skip g1 d1 = Inr (r2, a2, d2)"
    by (auto simp: CXLDevice_update_def)
  with ret 1 obtain r3 a3 d3 where 3: "dv_stage_ram p skip g1 d2 = Inr (r3, a3, d3)"
    by (auto simp: CXLDevice_update_def)
  with ret 1 2 obtain r4 a4 d4 b4 where 4: "dv_stage_transmit p u skip g1 d3 b = Inr (r4, a4, d4, b4)"
    by (auto simp: CXLDevice_update_def)
  let ?ram = "if curr_tick g1 mod delay_ramulator_update p = 0
             then bind_r (RamDevice_update ops g1 d4) (\<lambda>(_, d). Inr d) else Inr d4"
  have "bind_r ?ram (\<lambda>d. bind_r (dv_end_tick skip (r1, a1) (r2, a2) (r3, a3) (r4, a4) d)
      (\<lambda>d. Inr (g1, d, b4))) = Inr (g', d', b')"
    using ret unfolding CXLDevice_update_def 1 2 3 4 bind_r_simps case_prod_conv .
  then obtain d5 where 5: "?ram = Inr d5" and
    "bind_r (dv_end_tick skip (r1, a1) (r2, a2) (r3, a3) (r4, a4) d5) (\<lambda>d. Inr (g1, d, b4)) = Inr (g', d', b')"
    by (rule bind_r_returns)
  then obtain d6 where "dv_end_tick skip (r1, a1) (r2, a2) (r3, a3) (r4, a4) d5 = Inr d6" "d' = d6" "b' = b4"
    by (auto elim: bind_r_returns)
  then have d': "dv_ledger d' = dv_ledger d5 \<and> dv_ram_ok d' = dv_ram_ok d5 \<and> b' = b4"
    by (auto dest: dv_end_tick_eq)
  have "d5 = d4 \<or> (\<exists>x. RamDevice_update ops g1 d4 = Inr (x, d5))"
    using 5 by (auto split: if_splits)
  note 5 = this
  note s1 = stage_pack_ledger [OF 1 assms(2-4)]
  note s2 = stage_unpack_ledger [OF 2]
  note s3 = stage_ram_ledger [OF 3]
  note s4 = stage_transmit_ledger [OF 4]
  have l3: "dv_ledger d3 = dv_ledger d" "dv_ram_ok d3" using s1 s2 s3 assms(5) by auto
  note l4 = s4 [OF l3(2)]
  have "dv_ledger d5 = dv_ledger d4 \<and> dv_ram_ok d5"
    using 5 l4 RamDevice_update_ledger [of ops g1 d4] by blast
  with l4 l3 d' show "dv_ledger d' + bus_ledger b' = dv_ledger d + bus_ledger b" and "dv_ram_ok d'" by simp_all
qed

section \<open>The skip checks\<close>

text \<open>A response is created before the memory completes it.\<close>

definition stamps_ordered :: "'m CXLDevice \<Rightarrow> bool" where
  "stamps_ordered d \<longleftrightarrow>
     (\<forall>vc \<in> set (dv_S2M_NDR d) \<union> set (dv_S2M_DRS d). \<forall>m \<in> set (buf_q vc).
        tick_created (m_time m) \<le> tick_ramulator_complete (m_time m))"

lemma skip_packer_none_ready:
  assumes "dv_skip_packer_check p g d" "dv_typed d" "stamps_ordered d"
  shows "\<not> dv_can_NDR p g d" "\<not> dv_can_DRS p g d" "dv_packer_rollover d = 0" "\<not> dv_is_packer_waiting d"
proof -
  have len: "length (dv_S2M_NDR d) = 4" "length (dv_S2M_DRS d) = 4"
    using assms(2) by (simp_all add: dv_typed_def vcs_carry_def)
  have idle: "is_buf_empty vc \<or> curr_tick g - tick_created (m_time (hd (buf_q vc))) < delay_vc_to_pack p"
    if "vc \<in> set (dv_S2M_NDR d) \<union> set (dv_S2M_DRS d)" for vc
  proof -
    from that obtain i where "i < 4" "vc = dv_S2M_NDR d ! i \<or> vc = dv_S2M_DRS d ! i"
      using len by (auto simp: in_set_conv_nth)
    then show ?thesis
      using assms(1) by (auto simp: dv_skip_packer_check_def Let_def NUM_VC_def list_all_iff split: if_splits)
  qed
  have "\<not> dv_ready p g vc" if "vc \<in> set (dv_S2M_NDR d) \<union> set (dv_S2M_DRS d)" for vc
  proof
    assume r: "dv_ready p g vc"
    then have "hd (buf_q vc) \<in> set (buf_q vc)" by (simp add: dv_ready_def is_buf_empty_def)
    with assms(3) that have "tick_created (m_time (hd (buf_q vc))) \<le> tick_ramulator_complete (m_time (hd (buf_q vc)))"
      by (auto simp: stamps_ordered_def)
    with idle [OF that] r show False by (auto simp: dv_ready_def)
  qed
  then show "\<not> dv_can_NDR p g d" "\<not> dv_can_DRS p g d" by (auto simp: dv_can_NDR_def dv_can_DRS_def)
  show "dv_packer_rollover d = 0" "\<not> dv_is_packer_waiting d"
    using assms(1) by (auto simp: dv_skip_packer_check_def split: if_splits)
qed

lemma skip_packer_sound:
  assumes skip: "dv_skip_packer_check p g d" and ok: "dv_packer_ok d" and "stamps_ordered d"
  shows "dv_FLIT_packer p u g d = Inr (False, g, d\<lparr>dv_flit_to_pack := flit_new u, dv_started_packing_at := curr_tick g\<rparr>)"
proof -
  let ?e = "d\<lparr>dv_flit_to_pack := flit_new u, dv_started_packing_at := curr_tick g\<rparr>"
  have typed: "dv_typed d" using ok by (simp add: dv_packer_ok_def)
  note idle = skip_packer_none_ready [OF skip typed assms(3)]
  have e: "dv_typed ?e" "dv_pkr2_state ?e \<noteq> RR_W" "\<not> dv_can_NDR p g ?e" "\<not> dv_can_DRS p g ?e"
    using ok idle by (auto simp: dv_packer_ok_def dv_typed_def dv_can_NDR_def dv_can_DRS_def dv_cred_def)
  have "dv_get_msg_from_vcs p g ?e = Inr (None, ?e)"
    unfolding get_msg_pick [OF e(1,2)] using e(2-4) by (cases "dv_pkr2_state ?e") simp_all
  then have "dv_pack_slot p g 0 ?e = Inr (False, ?e)"
    using idle(3) by (simp add: dv_pack_slot_def flit_new_def)
  moreover have "\<not> dv_packing_rule_violated ?e"
    by (simp add: dv_packing_rule_violated_def Let_def slot_count_types)
  ultimately have "dv_pack_more p g ?e = Inr (False, g, ?e)"
    by (simp add: dv_pack_more_def)
  then show ?thesis using idle(3,4) by (simp add: dv_FLIT_packer_def)
qed

lemma skip_unpacker_sound:
  "dv_skip_unpacker_check p g d \<Longrightarrow>
   \<not> (is_buf_full (dv_rx_buffer d) \<and> is_buf_full (dv_M2S_Req d) \<and> is_buf_full (dv_M2S_RWD d)) \<Longrightarrow>
   dv_FLIT_unpacker p g d = Inr (False, d)"
  by (auto simp: dv_skip_unpacker_check_def dv_FLIT_unpacker_def)

lemma skip_ram_sound:
  assumes "dv_skip_send_to_ram_check p g d" "dv_ramulator_inp_state d \<noteq> RR_W"
    "\<not> (is_buf_full (dv_M2S_Req d) \<and> is_buf_full (dv_M2S_RWD d) \<and> isEmpty (rd_inp_buf (dv_dram d)))"
  shows "send_to_ramulator p g d = Inr (False, d)"
proof -
  have "dv_check_rx_vc p g v d = Inr (False, d)" for v
    using assms(1) by (cases v) (auto simp: dv_skip_send_to_ram_check_def dv_check_rx_vc_def Let_def split: if_splits)
  then show ?thesis using assms(2,3)
    by (cases "dv_ramulator_inp_state d") (simp_all add: send_to_ramulator_def dv_first_of_def)
qed

lemma skip_transmit_sound: "dv_skip_transmit_check p g d b \<Longrightarrow> dv_transmit p u g d b = Inr (False, d, b)"
  by (auto simp: dv_skip_transmit_check_def dv_transmit_def)

section \<open>Properties\<close>

text \<open>C8.  One tick of the device neither loses nor duplicates a message: whatever memory
  is behind it, the (id, address) pairs held by the device and its outgoing link are the
  same before and after.\<close>

theorem CXLDevice_update_conserves:
  assumes "CXLDevice_update p u ops skip g d b = Inr (g', d', b')"
    and "dv_packer_ok d" and "dv_ram_ok d" and "rx_flits_ok d" and "ids_distinct (dv_ledger d)"
  shows "dv_ledger d' + bus_ledger b' = dv_ledger d + bus_ledger b"
  using assms by (rule update_ledger(1))

text \<open>A device with a flit to unpack, a read to send to the memory, and responses to pack.\<close>

definition busy_device :: "Request list CXLDevice" where
  "busy_device =
     (dv_set_cred \<lparr>req_credit = 0, rsp_credit = 2, data_credit = 1\<rparr>
       (CXLDevice_new sample_params sample_uninit (ramulator_init [] 0) 64 64 1))
       \<lparr>dv_rx_buffer := \<lparr>buf_size = 64, buf_q = [sample_rx_flit]\<rparr>,
        dv_M2S_Req := \<lparr>buf_size = 64, buf_q = [sample_msg Req 192 3]\<rparr>,
        dv_S2M_NDR := [\<lparr>buf_size = 16, buf_q = [sample_msg NDR 256 4, sample_msg NDR 320 5]\<rparr>,
          CXLBuf_new 16, CXLBuf_new 16, CXLBuf_new 16],
        dv_int_cred := \<lparr>req_credit = 62, rsp_credit = 0, data_credit = 60\<rparr>\<rparr>"

definition idle_bus :: CXLBus where
  "idle_bus =
     \<lparr>bus_sz = 14, ticks_per_dequeue = 9, bus_latency = 150, flit_slots = [], from_node_id = 1,
      to_node_id = 0, bus_dir = UpStream, time_of_last_dequeue = 0, bus_type = device_host,
      bus_node_id = 5\<rparr>"

definition busy_tick :: "(globals \<times> Request list CXLDevice \<times> CXLBus) result" where
  "busy_tick = CXLDevice_update sample_params sample_uninit fifo_mem_ops False (sample_globals 204)
     busy_device idle_bus"

lemma busy_facts:
  "returns busy_tick" "dv_packer_ok busy_device" "dv_ram_ok busy_device" "rx_flits_ok busy_device"
  "ids_distinct (dv_ledger busy_device)" "stamps_ordered busy_device"
  by code_simp+

theorem CXLDevice_update_conserves_witness:
  "\<exists>g' d' b'. busy_tick = Inr (g', d', b') \<and>
     dv_ledger d' + bus_ledger b' = dv_ledger busy_device + bus_ledger idle_bus"
proof -
  obtain g' d' b' where r: "busy_tick = Inr (g', d', b')"
    using busy_facts(1) by (auto simp: returns_def)
  from CXLDevice_update_conserves [OF r [unfolded busy_tick_def] busy_facts(2-5)] r show ?thesis
    by blast
qed

text \<open>C13.  The skip checks are sound: when a check says that a part of the tick may be
  skipped, that part reports no activity and changes nothing (the packer only prepares an
  empty flit), so that a build with \<^verbatim>\<open>SKIP_CYCLE\<close> behaves like one without it.\<close>

theorem skip_checks_sound:
  assumes "dv_packer_ok d" and "stamps_ordered d" and "dv_ramulator_inp_state d \<noteq> RR_W"
    and "\<not> (is_buf_full (dv_rx_buffer d) \<and> is_buf_full (dv_M2S_Req d) \<and> is_buf_full (dv_M2S_RWD d))"
    and "\<not> (is_buf_full (dv_M2S_Req d) \<and> is_buf_full (dv_M2S_RWD d) \<and> isEmpty (rd_inp_buf (dv_dram d)))"
  shows "(dv_skip_packer_check p g d \<longrightarrow> dv_FLIT_packer p u g d =
            Inr (False, g, d\<lparr>dv_flit_to_pack := flit_new u, dv_started_packing_at := curr_tick g\<rparr>)) \<and>
         (dv_skip_unpacker_check p g d \<longrightarrow> dv_FLIT_unpacker p g d = Inr (False, d)) \<and>
         (dv_skip_send_to_ram_check p g d \<longrightarrow> send_to_ramulator p g d = Inr (False, d)) \<and>
         (dv_skip_transmit_check p g d b \<longrightarrow> dv_transmit p u g d b = Inr (False, d, b))"
  using skip_packer_sound [OF _ assms(1,2)] skip_unpacker_sound [OF _ assms(4)]
    skip_ram_sound [OF _ assms(3,5)] skip_transmit_sound
  by blast

theorem skip_checks_sound_witness:
  "dv_skip_packer_check sample_params (sample_globals 3) busy_device \<and>
   dv_FLIT_packer sample_params sample_uninit (sample_globals 3) busy_device =
     Inr (False, sample_globals 3, busy_device
       \<lparr>dv_flit_to_pack := flit_new sample_uninit, dv_started_packing_at := curr_tick (sample_globals 3)\<rparr>)"
proof -
  have f: "dv_ramulator_inp_state busy_device \<noteq> RR_W"
    "\<not> (is_buf_full (dv_rx_buffer busy_device) \<and> is_buf_full (dv_M2S_Req busy_device) \<and>
        is_buf_full (dv_M2S_RWD busy_device))"
    "\<not> (is_buf_full (dv_M2S_Req busy_device) \<and> is_buf_full (dv_M2S_RWD busy_device) \<and>
        isEmpty (rd_inp_buf (dv_dram busy_device)))"
    "dv_skip_packer_check sample_params (sample_globals 3) busy_device"
    by code_simp+
  from skip_checks_sound [OF busy_facts(2,6) f(1-3)] f(4) show ?thesis by blast
qed

end
