(* ===== verification/CXL_Bus_Timing.thy ===== *)
theory CXL_Bus_Timing
  imports CXL_Device
begin

text \<open>
  The timing of the link.  A sender that leaves at least \<^verbatim>\<open>cxl_bus_ticks_per_dequeue\<close> ticks
  between two flits meets a link that delivers every flit exactly
  \<^verbatim>\<open>cxl_bus_total_latency\<close> ticks after its transmission, and the assertion against stagnant
  flits never fires.
\<close>

definition sent_at :: "flit \<Rightarrow> int" where
  "sent_at f = time_of_transmission (fl_time f)"

definition spaced :: "int \<Rightarrow> flit list \<Rightarrow> bool" where
  "spaced T fs \<longleftrightarrow> sorted_wrt (\<lambda>a b. sent_at a + T \<le> sent_at b) fs"

text \<open>The state of the link before it is updated at tick \<open>t\<close>, with a sender whose last
  transmission was at \<open>lt\<close>.\<close>

definition bus_timed :: "CXLParams \<Rightarrow> int \<Rightarrow> int \<Rightarrow> CXLBus \<Rightarrow> bool" where
  "bus_timed p lt t b \<longleftrightarrow> bus_ok b \<and> bus_latency b = cxl_bus_total_latency p \<and>
     spaced (cxl_bus_ticks_per_dequeue p) (flit_slots b) \<and>
     (\<forall>f \<in> set (flit_slots b). sent_at f \<le> lt) \<and>
     (flit_slots b \<noteq> [] \<longrightarrow>
        t \<le> sent_at (hd (flit_slots b)) + cxl_bus_total_latency p \<and>
        time_of_last_dequeue b + cxl_bus_ticks_per_dequeue p \<le> sent_at (hd (flit_slots b)) + cxl_bus_total_latency p)"

lemma spaced_Cons: "spaced T (f # fs) \<longleftrightarrow> (\<forall>h \<in> set fs. sent_at f + T \<le> sent_at h) \<and> spaced T fs"
  by (auto simp: spaced_def)

lemma spaced_append: "spaced T (fs @ [f]) \<longleftrightarrow> spaced T fs \<and> (\<forall>h \<in> set fs. sent_at h + T \<le> sent_at f)"
  by (auto simp: spaced_def sorted_wrt_append)

text \<open>The flit that arrives when a flit is delivered.\<close>

definition delivered_as :: "CXLParams \<Rightarrow> flit \<Rightarrow> flit \<Rightarrow> bool" where
  "delivered_as p f f' \<longleftrightarrow> types f' = types f \<and> flit_msgs f' = flit_msgs f \<and>
     fh_credit (fl_header f') = fh_credit (fl_header f) \<and>
     time_of_receipt (fl_time f') = sent_at f + cxl_bus_total_latency p"

text \<open>What an update delivers: the head, exactly when it is due.\<close>

definition due :: "CXLParams \<Rightarrow> int \<Rightarrow> CXLBus \<Rightarrow> bool" where
  "due p t b \<longleftrightarrow> flit_slots b \<noteq> [] \<and> sent_at (hd (flit_slots b)) + cxl_bus_total_latency p = t"

lemma bus_update_timed:
  assumes tm: "bus_timed p lt (curr_tick g) b" and T: "1 \<le> cxl_bus_ticks_per_dequeue p"
    and room: "due p (curr_tick g) b \<Longrightarrow> \<not> is_buf_full buf"
  shows "\<exists>b' buf'. CXLBus_update p u g b buf = Inr (b', buf') \<and> bus_timed p lt (curr_tick g + 1) b' \<and>
    (if due p (curr_tick g) b
     then flit_slots b' = tl (flit_slots b) \<and>
       (\<exists>f. buf' = buf\<lparr>buf_q := buf_q buf @ [f]\<rparr> \<and> delivered_as p (hd (flit_slots b)) f)
     else b' = b \<and> buf' = buf)"
proof -
  let ?t = "curr_tick g" and ?L = "cxl_bus_total_latency p" and ?T = "cxl_bus_ticks_per_dequeue p"
  have len: "length (flit_slots b) \<le> to_size_t (bus_sz b)"
    using tm by (simp add: bus_timed_def bus_ok_def) linarith
  have nst: "\<not> is_flit_stagnant g b"
    using tm by (auto simp: is_flit_stagnant_def bus_is_empty_def bus_timed_def sent_at_def)
  show ?thesis
  proof (cases "due p ?t b")
    case True
    then obtain f fs where q: "flit_slots b = f # fs" by (auto simp: due_def neq_Nil_conv)
    have t: "?t = sent_at f + ?L" using True q by (simp add: due_def)
    let ?f = "stamp_arrival (bus_type b) ?t (f\<lparr>fl_time := (fl_time f)\<lparr>time_of_receipt := ?t\<rparr>\<rparr>)"
    let ?b = "b\<lparr>flit_slots := fs, time_of_last_dequeue := ?t\<rparr>"
    have "time_of_last_dequeue b + ?T \<le> ?t" using tm q t by (simp add: bus_timed_def)
    then have up: "CXLBus_update p u g b buf = Inr (?b, buf\<lparr>buf_q := buf_q buf @ [?f]\<rparr>)"
      using len nst q t room True
      by (simp add: CXLBus_update_def send_to_node_def bus_is_empty_def Let_def sent_at_def)
    have "bus_timed p lt (?t + 1) ?b"
      using tm q t T by (cases fs) (auto simp: bus_timed_def bus_ok_def spaced_Cons)
    moreover have "time_of_receipt (fl_time ?f) = ?t" by (cases "bus_type b") simp_all
    then have "delivered_as p f ?f" using t by (simp add: delivered_as_def)
    ultimately show ?thesis using up True q by auto
  next
    case False
    have "CXLBus_update p u g b buf = Inr (b, buf)"
      using len nst False tm
      by (cases "flit_slots b")
         (auto simp: CXLBus_update_def send_to_node_def bus_is_empty_def due_def bus_timed_def sent_at_def)
    moreover have "bus_timed p lt (?t + 1) b"
      using tm False by (auto simp: bus_timed_def due_def)
    ultimately show ?thesis using False by simp
  qed
qed

text \<open>Adding a flit at tick \<open>t\<close>, before or after the update of the link in that tick.\<close>

lemma add_to_bus_timed:
  assumes tm: "bus_timed p lt t' b" and t': "t' \<le> curr_tick g + 1"
    and add: "add_to_bus g f b = Inr b'" and f: "sent_at f = curr_tick g"
    and sp: "flit_slots b = [] \<or> lt + cxl_bus_ticks_per_dequeue p \<le> curr_tick g"
    and L: "1 \<le> cxl_bus_total_latency p" "cxl_bus_ticks_per_dequeue p \<le> cxl_bus_total_latency p"
    and lt: "lt \<le> curr_tick g"
  shows "bus_timed p (curr_tick g) t' b'"
proof -
  have b': "b' = b\<lparr>time_of_last_dequeue := (if bus_is_empty b then curr_tick g else time_of_last_dequeue b),
            flit_slots := flit_slots b @ [f]\<rparr>" and nf: "\<not> bus_is_full b"
    using add by (simp_all add: add_to_bus_eq_Inr)
  have ok: "bus_ok b'" using bus_ok_add [OF _ add] tm by (simp add: bus_timed_def)
  have le: "\<forall>h \<in> set (flit_slots b). sent_at h \<le> lt" using tm by (simp add: bus_timed_def)
  show ?thesis
    using tm ok f L t' lt le sp unfolding b'
    by (auto simp: bus_timed_def spaced_append bus_is_empty_def)
qed

text \<open>A stretch of \<open>n\<close> ticks of the link alone.\<close>

fun link_ticks ::
  "CXLParams \<Rightarrow> uninit \<Rightarrow> globals \<Rightarrow> nat \<Rightarrow> CXLBus \<Rightarrow> flit CXLBuf \<Rightarrow> (CXLBus \<times> flit CXLBuf) result" where
  "link_ticks p u g 0 b buf = Inr (b, buf)"
| "link_ticks p u g (Suc n) b buf = bind_r (CXLBus_update p u g b buf)
     (\<lambda>(b, buf). link_ticks p u (g\<lparr>curr_tick := curr_tick g + 1\<rparr>) n b buf)"

lemma dropWhile_spaced_hd:
  assumes "bus_timed p lt t b"
  shows "dropWhile (\<lambda>f. sent_at f + cxl_bus_total_latency p < t) (flit_slots b) = flit_slots b"
    and "takeWhile (\<lambda>f. sent_at f + cxl_bus_total_latency p < t) (flit_slots b) = []"
  using assms by (cases "flit_slots b"; simp add: bus_timed_def)+

section \<open>Properties\<close>

text \<open>C10.  A link whose flits are spaced by the dequeue interval delivers on time: after
  \<open>n\<close> ticks, with room in the receive buffer, it has not aborted (no stagnant flit, no
  overflow), exactly the flits whose transmission lies the link latency back have arrived, in
  order and with their contents, and each carries a receipt time of exactly its transmission
  plus the latency.\<close>

theorem link_ticks_deliver:
  assumes "bus_timed p lt (curr_tick g) b" "1 \<le> cxl_bus_ticks_per_dequeue p"
    "buf_ok buf" "buf_occupancy buf + int (length (flit_slots b)) \<le> buf_size buf"
  shows "\<exists>b' buf' fs. link_ticks p u g n b buf = Inr (b', buf') \<and>
     bus_timed p lt (curr_tick g + int n) b' \<and> buf_q buf' = buf_q buf @ fs \<and>
     list_all2 (delivered_as p)
       (takeWhile (\<lambda>f. sent_at f + cxl_bus_total_latency p < curr_tick g + int n) (flit_slots b)) fs \<and>
     flit_slots b' = dropWhile (\<lambda>f. sent_at f + cxl_bus_total_latency p < curr_tick g + int n) (flit_slots b)"
  using assms
proof (induction n arbitrary: g b buf)
  case 0
  then show ?case using dropWhile_spaced_hd [OF 0(1)] by simp
next
  case (Suc n)
  let ?g = "g\<lparr>curr_tick := curr_tick g + 1\<rparr>"
  have "due p (curr_tick g) b \<Longrightarrow> \<not> is_buf_full buf"
    using Suc.prems(3,4) is_buf_full_iff [OF Suc.prems(3)] by (auto simp: due_def buf_occupancy_def neq_Nil_conv)
  from bus_update_timed [where u = u, OF Suc.prems(1,2) this] obtain b1 buf1 where
    up: "CXLBus_update p u g b buf = Inr (b1, buf1)" and tm: "bus_timed p lt (curr_tick ?g) b1" and
    del: "if due p (curr_tick g) b then flit_slots b1 = tl (flit_slots b) \<and>
       (\<exists>f. buf1 = buf\<lparr>buf_q := buf_q buf @ [f]\<rparr> \<and> delivered_as p (hd (flit_slots b)) f)
     else b1 = b \<and> buf1 = buf" by (auto simp del: split_paired_Ex)
  have room: "buf_ok buf1" "buf_occupancy buf1 + int (length (flit_slots b1)) \<le> buf_size buf1"
    using del Suc.prems(3,4)
    by (auto simp: due_def buf_ok_def buf_occupancy_def neq_Nil_conv split: if_splits)
  have t: "curr_tick ?g + int n = curr_tick g + int (Suc n)" by simp
  note IH = Suc.IH [OF tm Suc.prems(2) room, unfolded t]
  show ?case
  proof (cases "due p (curr_tick g) b")
    case True
    then obtain f fs where q: "flit_slots b = f # fs" by (auto simp: due_def neq_Nil_conv)
    with True have "sent_at f + cxl_bus_total_latency p < curr_tick g + int (Suc n)" by (simp add: due_def)
    with IH del True q up show ?thesis by auto
  next
    case False
    with IH del up show ?thesis by simp
  qed
qed

text \<open>A link with two flits sent at the ticks 5 and 25.\<close>

definition two_flit_bus :: CXLBus where
  "two_flit_bus =
     \<lparr>bus_sz = 15, ticks_per_dequeue = cxl_bus_ticks_per_dequeue sample_params,
      bus_latency = cxl_bus_total_latency sample_params,
      flit_slots = map (\<lambda>t. (sample_flit [])\<lparr>fl_time := \<lparr>time_of_creation = 0, time_of_transmission = t, time_of_receipt = 0\<rparr>\<rparr>) [5, 25],
      from_node_id = 0, to_node_id = 1, bus_dir = UpStream, time_of_last_dequeue = 5, bus_type = device_host, bus_node_id = 0\<rparr>"

lemma two_flit_facts:
  "bus_timed sample_params 25 (curr_tick (sample_globals 30)) two_flit_bus"
  "1 \<le> cxl_bus_ticks_per_dequeue sample_params"
  "buf_ok (CXLBuf_new 2 :: flit CXLBuf)"
  "buf_occupancy (CXLBuf_new 2 :: flit CXLBuf) + int (length (flit_slots two_flit_bus)) \<le> buf_size (CXLBuf_new 2 :: flit CXLBuf)"
  by code_simp+

theorem link_ticks_deliver_witness:
  "\<exists>b' buf' f. link_ticks sample_params sample_uninit (sample_globals 30) 130 two_flit_bus (CXLBuf_new 2) = Inr (b', buf') \<and>
     buf_q buf' = [f] \<and> time_of_receipt (fl_time f) = 155 \<and> length (flit_slots b') = 1"
proof -
  have "map sent_at (takeWhile (\<lambda>f. sent_at f + cxl_bus_total_latency sample_params < curr_tick (sample_globals 30) + int 130) (flit_slots two_flit_bus)) = [5]"
   "length (dropWhile (\<lambda>f. sent_at f + cxl_bus_total_latency sample_params < curr_tick (sample_globals 30) + int 130) (flit_slots two_flit_bus)) = 1"
   "buf_q (CXLBuf_new 2 :: flit CXLBuf) = []" "cxl_bus_total_latency sample_params = 150"
    by code_simp+
  with link_ticks_deliver [OF two_flit_facts, where n = 130 and u = sample_uninit] show ?thesis
    by (fastforce simp: list_all2_Cons1 delivered_as_def simp del: CXLBuf_new_def)
qed

text \<open>C12.  A device and the link it feeds, in the order of a system tick (the link first, then
  the transmitter): with room in the receive buffer neither aborts, the flits on the link stay
  spaced and on time, and what the transmitter puts on the link is the head of its transmit
  buffer, stamped with the current tick.\<close>

theorem dv_transmit_on_time:
  assumes "bus_timed p (dv_last_transmitted_at d) (curr_tick g) b" "dv_last_transmitted_at d \<le> curr_tick g"
    "due p (curr_tick g) b \<longrightarrow> \<not> is_buf_full buf"
    "1 \<le> cxl_bus_ticks_per_dequeue p" "cxl_bus_ticks_per_dequeue p \<le> cxl_bus_total_latency p"
  shows "\<exists>b1 buf1 sent d' b'. CXLBus_update p u g b buf = Inr (b1, buf1) \<and>
     dv_transmit p u g d b1 = Inr (sent, d', b') \<and>
     bus_timed p (dv_last_transmitted_at d') (curr_tick g + 1) b' \<and> dv_last_transmitted_at d' \<le> curr_tick g \<and>
     (if sent then \<exists>h hs f. buf_q (dv_tx_buffer d) = h # hs \<and> buf_q (dv_tx_buffer d') = hs \<and>
          flit_slots b' = flit_slots b1 @ [f] \<and> sent_at f = curr_tick g \<and>
          types f = types h \<and> flit_msgs f = flit_msgs h \<and> fh_credit (fl_header f) = fh_credit (fl_header h)
      else d' = d \<and> b' = b1)"
proof -
  have "due p (curr_tick g) b \<Longrightarrow> \<not> is_buf_full buf" using assms(3) by blast
  from bus_update_timed [where u = u, OF assms(1,4) this] obtain b1 buf1 where
    up: "CXLBus_update p u g b buf = Inr (b1, buf1)" and
    tm: "bus_timed p (dv_last_transmitted_at d) (curr_tick g + 1) b1"
    by (auto simp del: split_paired_Ex)
  show ?thesis
  proof (cases "dv_transmit p u g d b1 = Inr (False, d, b1)")
    case True
    with up tm assms(2) show ?thesis by auto
  next
    case False
    then obtain h hs where q: "buf_q (dv_tx_buffer d) = h # hs"
      by (cases "buf_q (dv_tx_buffer d)") (auto simp: dv_transmit_def is_buf_empty_def)
    let ?f = "set_time tick_retransmitted_update (curr_tick g)
      (h\<lparr>fl_time := (fl_time h)\<lparr>time_of_transmission := curr_tick g\<rparr>\<rparr>)"
    from False q have nf: "\<not> bus_is_full b1" and sp: "cxl_bus_ticks_per_dequeue p \<le> curr_tick g - dv_last_transmitted_at d"
      by (auto simp: dv_transmit_def is_buf_empty_def split: if_splits)
    from nf obtain b' where add: "add_to_bus g ?f b1 = Inr b'" by (auto simp: add_to_bus_eq_Inr)
    let ?d = "d\<lparr>dv_last_transmitted_at := curr_tick g, dv_tx_buffer := (dv_tx_buffer d)\<lparr>buf_q := hs\<rparr>\<rparr>"
    have tx: "dv_transmit p u g d b1 = Inr (True, ?d, b')"
      using False q add nf by (auto simp: dv_transmit_def is_buf_empty_def Let_def split: if_splits)
    have f: "sent_at ?f = curr_tick g" by (simp add: sent_at_def)
    have "bus_timed p (curr_tick g) (curr_tick g + 1) b'"
      using add_to_bus_timed [OF tm _ add f] sp assms(2,4,5) by auto
    with up tx q f add show ?thesis by (auto simp: add_to_bus_eq_Inr)
  qed
qed

definition sending_device :: "Request list CXLDevice" where
  "sending_device = (CXLDevice_new sample_params sample_uninit (ramulator_init [] 0) 64 64 1)
     \<lparr>dv_tx_buffer := \<lparr>buf_size = 64, buf_q = [sample_flit [(s2m_ndr, sample_msg NDR 64 7)]]\<rparr>,
      dv_last_transmitted_at := 25\<rparr>"

theorem dv_transmit_on_time_witness:
  "\<exists>b1 buf1 d' b'. CXLBus_update sample_params sample_uninit (sample_globals 155) two_flit_bus (CXLBuf_new 2) = Inr (b1, buf1) \<and>
     dv_transmit sample_params sample_uninit (sample_globals 155) sending_device b1 = Inr (True, d', b') \<and>
     bus_timed sample_params 155 156 b'"
proof -
  let ?g = "sample_globals 155"
  have f: "bus_timed sample_params (dv_last_transmitted_at sending_device) (curr_tick ?g) two_flit_bus"
    "dv_last_transmitted_at sending_device \<le> curr_tick ?g"
    "due sample_params (curr_tick ?g) two_flit_bus \<longrightarrow> \<not> is_buf_full (CXLBuf_new 2 :: flit CXLBuf)"
    "1 \<le> cxl_bus_ticks_per_dequeue sample_params"
    "cxl_bus_ticks_per_dequeue sample_params \<le> cxl_bus_total_latency sample_params"
    by code_simp+
  have r: "(case CXLBus_update sample_params sample_uninit ?g two_flit_bus (CXLBuf_new 2) of Inr (b1, _) \<Rightarrow>
      (case dv_transmit sample_params sample_uninit ?g sending_device b1 of
         Inr (sent, d', _) \<Rightarrow> sent \<and> dv_last_transmitted_at d' = 155 | _ \<Rightarrow> False) | _ \<Rightarrow> False)"
    by code_simp
  have "curr_tick ?g = 155" by code_simp
  with dv_transmit_on_time [where u = sample_uninit, OF f] r show ?thesis by fastforce
qed

end
