(* ===== verification/CXL_Host.thy ===== *)
theory CXL_Host
  imports CXL_Recv CXL_If
begin

text \<open>
  The host, \<^verbatim>\<open>CXLHost\<close> of \<^verbatim>\<open>include/CXLNode.h\<close> and \<^verbatim>\<open>src/CXLHost.cpp\<close>: the packer that
  turns requests into flits for one device at a time, the unpacker that turns flits into
  responses, the transmitter, the retirement of completed requests with their latency
  statistics, the credit accounting and the skip checks.  The trace reader is in
  \<open>CXL_Trace\<close>.

  The record is the class without the members no operation reads.  Node ids are \<^verbatim>\<open>uint64_t\<close>
  when a device is registered and \<^verbatim>\<open>int\<close> or \<^verbatim>\<open>uint\<close> everywhere else; \<open>node_key\<close> is their
  low half, which all the conversions agree on.
\<close>

section \<open>State\<close>

text \<open>Signed doubles for the running averages.\<close>

fun fadd :: "frac \<Rightarrow> frac \<Rightarrow> frac" where
  "fadd (n, d) (n', d') = (n * d' + n' * d, d * d')"

fun fneg :: "frac \<Rightarrow> frac" where
  "fneg (n, d) = (- n, d)"

fun sfloat64 :: "frac \<Rightarrow> frac" where
  "sfloat64 (n, d) = (if n < 0 then fneg (float64 (- n, d)) else float64 (n, d))"

record CXLHost =
  ho_tx_buffer :: "flit CXLBuf"
  ho_rx_buffer :: "flit CXLBuf"
  ho_node_id :: int
  ho_ext_creds :: "(int, credits) smap"
  ho_int_cred :: credits
  ho_packer_cur_vc :: nat
  ho_DAM :: bool  \<comment> \<open>\<^verbatim>\<open>DAM != nullptr\<close>\<close>
  ho_DAM_addr :: "u64 \<times> u64"
  ho_messages_sent_to_device :: "(u64, message) smap"
  ho_reqs_in_dam :: "(u64, int) smap"
  ho_amat_per_table_dam :: "(u64, u64 \<times> frac) smap"
  ho_amat_per_table_cxl :: "(u64, frac \<times> frac \<times> frac) smap"
  ho_address_intervals :: "(u64, u64 \<times> u64) smap"
  ho_connected_devices :: "u64 list"
  ho_M2S_Req :: "message CXLBuf list"
  ho_cur_Req_vc :: nat
  ho_M2S_RWD :: "message CXLBuf list"
  ho_cur_RWD_vc :: nat
  ho_S2M_NDR :: "message CXLBuf"
  ho_S2M_DRS :: "message CXLBuf"
  ho_unpacker_rollover :: int
  ho_packer_rollover :: int
  ho_last_transmitted_at :: int
  ho_trace_in :: "string list"  \<comment> \<open>the lines of the trace file not read yet\<close>
  ho_rcvd_rsp_state :: round_robin_state
  ho_last_drs_hdr :: message
  ho_last_rwd_hdr :: message
  ho_is_trace_finished :: bool
  ho_text_to_trace_buf :: "(u64 \<times> message) CXLBuf"
  ho_is_packer_waiting :: bool
  ho_started_packing_at :: int
  ho_packer_wait_time :: int
  ho_flit_to_pack :: flit
  ho_pkr2_state :: round_robin_state
  ho_device_under_consideration :: int
  ho_last_text_to_trace_buf_dequeue :: int
  ho_empty_cycle_packer :: u64
  ho_empty_cycle_unpacker :: u64
  ho_empty_cycle_transmit :: u64
  ho_empty_cycle_req_completed :: u64
  ho_skippable_cycle :: u64
  ho_total_credit_checks :: u64
  ho_int_credit_reject_ctr :: u64
  ho_ext_credit_reject_ctr :: u64

definition node_key :: "u64 \<Rightarrow> int" where
  "node_key i = uint (ucast i :: 32 word)"

text \<open>No device chosen yet for the flit under construction.\<close>

abbreviation NO_DEVICE :: int where
  "NO_DEVICE \<equiv> 4096"

section \<open>Construction and registration\<close>

text \<open>\<^verbatim>\<open>device_under_consideration\<close> and the two header copies stay uninitialised (\<open>junk\<close>,
  \<open>u_msg\<close>); the lines of the trace are attached by \<^verbatim>\<open>set_trace_file\<close>.\<close>

definition CXLHost_new :: "uninit \<Rightarrow> int \<Rightarrow> int \<Rightarrow> int \<Rightarrow> int \<Rightarrow> CXLHost" where
  "CXLHost_new u junk vc_size sz nid =
     \<lparr>ho_tx_buffer = CXLBuf_new sz, ho_rx_buffer = CXLBuf_new sz, ho_node_id = nid,
      ho_ext_creds = [],
      ho_int_cred = \<lparr>req_credit = 0, rsp_credit = 1024 - 0, data_credit = 1024 - 0\<rparr>,
      ho_packer_cur_vc = 0, ho_DAM = False, ho_DAM_addr = (0, 0),
      ho_messages_sent_to_device = [], ho_reqs_in_dam = [],
      ho_amat_per_table_dam = [], ho_amat_per_table_cxl = [],
      ho_address_intervals = [], ho_connected_devices = [],
      ho_M2S_Req = replicate NUM_VC (CXLBuf_new (trunc_div vc_size (int NUM_VC))), ho_cur_Req_vc = 0,
      ho_M2S_RWD = replicate NUM_VC (CXLBuf_new (trunc_div vc_size (int NUM_VC))), ho_cur_RWD_vc = 0,
      ho_S2M_NDR = CXLBuf_new 1024, ho_S2M_DRS = CXLBuf_new 1024,
      ho_unpacker_rollover = 0, ho_packer_rollover = 0, ho_last_transmitted_at = 0,
      ho_trace_in = [], ho_rcvd_rsp_state = RR_R,
      ho_last_drs_hdr = u_msg u, ho_last_rwd_hdr = u_msg u,
      ho_is_trace_finished = False, ho_text_to_trace_buf = CXLBuf_new 20,
      ho_is_packer_waiting = False, ho_started_packing_at = 0, ho_packer_wait_time = 10,
      ho_flit_to_pack = flit_new u, ho_pkr2_state = RR_R,
      ho_device_under_consideration = junk, ho_last_text_to_trace_buf_dequeue = 0,
      ho_empty_cycle_packer = 0, ho_empty_cycle_unpacker = 0, ho_empty_cycle_transmit = 0,
      ho_empty_cycle_req_completed = 0, ho_skippable_cycle = 0,
      ho_total_credit_checks = 0, ho_int_credit_reject_ctr = 0, ho_ext_credit_reject_ctr = 0\<rparr>"

definition register_device :: "u64 \<Rightarrow> u64 \<times> u64 \<Rightarrow> CXLHost \<Rightarrow> CXLHost result" where
  "register_device i iv h =
     cxl_assert (list_all (\<lambda>j. j \<noteq> i) (ho_connected_devices h)) ''Re-registering device''
       (Inr (h\<lparr>ho_connected_devices := ho_connected_devices h @ [i],
               ho_address_intervals := sm_insert i iv (ho_address_intervals h),
               ho_ext_creds := sm_insert (node_key i) \<lparr>req_credit = 1, rsp_credit = 0, data_credit = 1\<rparr>
                 (ho_ext_creds h)\<rparr>))"

definition register_DAM :: "u64 \<times> u64 \<Rightarrow> CXLHost \<Rightarrow> CXLHost" where
  "register_DAM iv h = h\<lparr>ho_DAM := True, ho_DAM_addr := iv\<rparr>"

definition set_trace_file :: "string list \<Rightarrow> CXLHost \<Rightarrow> CXLHost" where
  "set_trace_file ls h = h\<lparr>ho_trace_in := ls\<rparr>"

definition destination_device :: "CXLHost \<Rightarrow> u64 \<Rightarrow> int result" where
  "destination_device h addr =
     (case find (\<lambda>(_, lo, hi). addr < hi \<and> addr \<ge> lo) (ho_address_intervals h) of
        None \<Rightarrow> Inl (CXL_ASSERT ''Invalid address'')
      | Some (i, _) \<Rightarrow> Inr (node_key i))"

text \<open>\<^verbatim>\<open>ext_creds[dest]\<close> creates a zero entry if there is none.\<close>

definition ho_cred :: "CXLHost \<Rightarrow> int \<Rightarrow> credits" where
  "ho_cred h dest = sm_get zero_credits (ho_ext_creds h) dest"

definition ho_touch :: "int \<Rightarrow> CXLHost \<Rightarrow> CXLHost" where
  "ho_touch dest h = h\<lparr>ho_ext_creds := sm_insert dest zero_credits (ho_ext_creds h)\<rparr>"

definition ho_set_cred :: "int \<Rightarrow> credits \<Rightarrow> CXLHost \<Rightarrow> CXLHost" where
  "ho_set_cred dest c h = h\<lparr>ho_ext_creds := sm_put dest c (ho_ext_creds h)\<rparr>"

section \<open>Choosing the next request to pack\<close>

datatype ho_vc = VC_Req nat | VC_RWD nat

fun ho_vc_buf :: "ho_vc \<Rightarrow> CXLHost \<Rightarrow> message CXLBuf" where
  "ho_vc_buf (VC_Req i) h = ho_M2S_Req h ! i"
| "ho_vc_buf (VC_RWD i) h = ho_M2S_RWD h ! i"

fun ho_vc_dequeue :: "ho_vc \<Rightarrow> CXLHost \<Rightarrow> CXLHost result" where
  "ho_vc_dequeue (VC_Req i) h =
     bind_r (dequeue (ho_M2S_Req h ! i)) (\<lambda>b. Inr (h\<lparr>ho_M2S_Req := (ho_M2S_Req h)[i := b]\<rparr>))"
| "ho_vc_dequeue (VC_RWD i) h =
     bind_r (dequeue (ho_M2S_RWD h ! i)) (\<lambda>b. Inr (h\<lparr>ho_M2S_RWD := (ho_M2S_RWD h)[i := b]\<rparr>))"

definition ho_count_checks :: "int \<Rightarrow> CXLHost \<Rightarrow> CXLHost" where
  "ho_count_checks dest h =
     (let h = h\<lparr>ho_total_credit_checks := ho_total_credit_checks h + 1\<rparr>;
          h = (if data_credit (ho_int_cred h) = 0
               then h\<lparr>ho_int_credit_reject_ctr := ho_int_credit_reject_ctr h + 1\<rparr> else h)
      in if req_credit (ho_cred h dest) = 0
         then h\<lparr>ho_ext_credit_reject_ctr := ho_ext_credit_reject_ctr h + 1\<rparr> else h)"

text \<open>The loop of \<^verbatim>\<open>check_vcs_for_packing\<close> over the channel indices still to look at.  A
  message of another opcode is passed over: the switch has no default.\<close>

fun ho_scan_vcs ::
  "CXLParams \<Rightarrow> globals \<Rightarrow> message CXLBuf list \<Rightarrow> nat list \<Rightarrow> CXLHost \<Rightarrow> (nat option \<times> CXLHost) result" where
  "ho_scan_vcs p g vcs [] h = Inr (None, h)"
| "ho_scan_vcs p g vcs (i # is) h =
     (let vc = vcs ! (i mod NUM_VC)
      in if \<not> is_buf_empty vc \<and>
            curr_tick g - tick_created (m_time (hd (buf_q vc))) \<ge> delay_vc_to_pack p
         then bind_r (destination_device h (address (hd (buf_q vc)))) (\<lambda>dest.
           if ho_device_under_consideration h = NO_DEVICE \<or> ho_device_under_consideration h = dest
           then (case opCode (hd (buf_q vc)) of
                   Req \<Rightarrow>
                     let h = ho_count_checks dest (ho_touch dest h)
                     in if req_credit (ho_cred h dest) \<noteq> 0 \<and> data_credit (ho_int_cred h) \<noteq> 0
                        then Inr (Some i, h) else ho_scan_vcs p g vcs is h
                 | RwD \<Rightarrow>
                     let h = ho_touch dest h
                     in if data_credit (ho_cred h dest) \<noteq> 0 \<and> rsp_credit (ho_int_cred h) \<noteq> 0
                        then Inr (Some i, h) else ho_scan_vcs p g vcs is h
                 | _ \<Rightarrow> ho_scan_vcs p g vcs is h)
           else ho_scan_vcs p g vcs is h)
         else ho_scan_vcs p g vcs is h)"

definition ho_check_vcs_for_packing ::
  "CXLParams \<Rightarrow> globals \<Rightarrow> message CXLBuf list \<Rightarrow> CXLHost \<Rightarrow> (nat option \<times> CXLHost) result" where
  "ho_check_vcs_for_packing p g vcs h =
     bind_r (ho_scan_vcs p g vcs [ho_packer_cur_vc h ..< NUM_VC + ho_packer_cur_vc h] h) (\<lambda>(r, h).
       case r of
         None \<Rightarrow> Inr (None, h)
       | Some i \<Rightarrow> Inr (Some (i mod NUM_VC),
           h\<lparr>ho_packer_cur_vc := (if ho_packer_cur_vc h = NUM_VC - 1 then 0 else i mod NUM_VC + 1)\<rparr>))"

definition ho_try_Req ::
  "CXLParams \<Rightarrow> globals \<Rightarrow> round_robin_state \<Rightarrow> CXLHost \<Rightarrow> (ho_vc option \<times> CXLHost) result" where
  "ho_try_Req p g next h =
     bind_r (ho_check_vcs_for_packing p g (ho_M2S_Req h) h) (\<lambda>(r, h).
       case r of None \<Rightarrow> Inr (None, h) | Some i \<Rightarrow> Inr (Some (VC_Req i), h\<lparr>ho_pkr2_state := next\<rparr>))"

definition ho_try_RWD ::
  "CXLParams \<Rightarrow> globals \<Rightarrow> round_robin_state \<Rightarrow> CXLHost \<Rightarrow> (ho_vc option \<times> CXLHost) result" where
  "ho_try_RWD p g next h =
     bind_r (ho_check_vcs_for_packing p g (ho_M2S_RWD h) h) (\<lambda>(r, h).
       case r of None \<Rightarrow> Inr (None, h) | Some i \<Rightarrow> Inr (Some (VC_RWD i), h\<lparr>ho_pkr2_state := next\<rparr>))"

definition ho_get_msg_from_vcs ::
  "CXLParams \<Rightarrow> globals \<Rightarrow> CXLHost \<Rightarrow> (ho_vc option \<times> CXLHost) result" where
  "ho_get_msg_from_vcs p g h =
     (case ho_pkr2_state h of
        RR_r \<Rightarrow> bind_r (ho_try_Req p g RR_R h) (\<lambda>(r, h).
                 case r of Some v \<Rightarrow> Inr (Some v, h) | None \<Rightarrow> ho_try_RWD p g RR_w h)
      | RR_R \<Rightarrow> bind_r (ho_try_RWD p g RR_w h) (\<lambda>(r, h).
                 case r of Some v \<Rightarrow> Inr (Some v, h) | None \<Rightarrow> ho_try_Req p g RR_R h)
      | RR_w \<Rightarrow> bind_r (ho_try_Req p g RR_r h) (\<lambda>(r, h).
                 case r of Some v \<Rightarrow> Inr (Some v, h) | None \<Rightarrow> ho_try_RWD p g RR_w h)
      | RR_W \<Rightarrow> Inl (CXL_ASSERT ''Illegal state in round robin''))"

section \<open>Credits and the hand-over to the transmit buffer\<close>

definition ho_credit_sanity_check :: "CXLHost \<Rightarrow> 'a result \<Rightarrow> 'a result" where
  "ho_credit_sanity_check h k =
     cxl_assert (req_credit (ho_int_cred h) = 0) ''Req cred of host should be 0''
    (cxl_assert (0 \<le> rsp_credit (ho_int_cred h) \<and> rsp_credit (ho_int_cred h) \<le> buf_size (ho_S2M_NDR h))
       ''Rsp cred of host out of range''
    (cxl_assert (0 \<le> data_credit (ho_int_cred h) \<and> data_credit (ho_int_cred h) \<le> buf_size (ho_S2M_DRS h))
       ''Data cred of host out of range'' k))"

definition get_Host_credits :: "CXLHost \<Rightarrow> credits result" where
  "get_Host_credits h =
     ho_credit_sanity_check h
       (Inr \<lparr>req_credit = 0, rsp_credit = int (slot_count_in_flit (ho_flit_to_pack h) m2s_rwd_hdr),
             data_credit = int (slot_count_in_flit (ho_flit_to_pack h) m2s_req)\<rparr>)"

definition ho_add_flit_to_buf :: "globals \<Rightarrow> CXLHost \<Rightarrow> (globals \<times> CXLHost) result" where
  "ho_add_flit_to_buf g h =
     (let f = ho_flit_to_pack h;
          f = f\<lparr>fl_time := (fl_time f)\<lparr>time_of_creation := curr_tick g\<rparr>\<rparr>
      in bind_r (get_Host_credits (h\<lparr>ho_flit_to_pack := f\<rparr>)) (\<lambda>crds.
           let f = f\<lparr>fl_header := (fl_header f)\<lparr>fh_credit := crds\<rparr>\<rparr>;
               f = set_time tick_packed_update (curr_tick g) f;
               f = f\<lparr>flit_id := flit_counter g\<rparr>
           in bind_r (enqueue (ho_tx_buffer h) f) (\<lambda>tx.
                Inr (g\<lparr>flit_counter := flit_counter g + 1\<rparr>,
                     h\<lparr>ho_flit_to_pack := f, ho_tx_buffer := tx\<rparr>))))"

section \<open>The packer\<close>

definition ho_put_data :: "nat \<Rightarrow> CXLHost \<Rightarrow> CXLHost" where
  "ho_put_data i h = h\<lparr>ho_flit_to_pack := put_data i (ho_last_rwd_hdr h) (ho_flit_to_pack h)\<rparr>"

text \<open>The switch over \<^verbatim>\<open>packer_rollover\<close> for a brand-new flit.\<close>

definition ho_place_rollover :: "CXLHost \<Rightarrow> CXLHost result" where
  "ho_place_rollover h =
     (if ho_packer_rollover h = 1
      then Inr ((ho_put_data 1 h)\<lparr>ho_packer_rollover := ho_packer_rollover h - 1\<rparr>)
      else if ho_packer_rollover h = 2
      then Inr ((ho_put_data 2 (ho_put_data 1 h))\<lparr>ho_packer_rollover := ho_packer_rollover h - 2\<rparr>)
      else if ho_packer_rollover h = 3
      then Inr ((ho_put_data 3 (ho_put_data 2 (ho_put_data 1 h)))
                  \<lparr>ho_packer_rollover := ho_packer_rollover h - 3\<rparr>)
      else if ho_packer_rollover h = 4
      then Inr ((ho_put_data 3 (ho_put_data 2 (ho_put_data 1 (ho_put_data 0 h))))
                  \<lparr>ho_packer_rollover := ho_packer_rollover h - 4\<rparr>)
      else Inl (CXL_ASSERT ''Illegal rollover count''))"

definition ho_place_req :: "nat \<Rightarrow> ho_vc \<Rightarrow> message \<Rightarrow> CXLHost \<Rightarrow> CXLHost result" where
  "ho_place_req i vc m h =
     (let h = h\<lparr>ho_flit_to_pack := put_message i m2s_req m (ho_flit_to_pack h)\<rparr>
      in bind_r (destination_device h (address m)) (\<lambda>dest.
         let h = ho_set_cred dest ((ho_cred h dest)\<lparr>req_credit := req_credit (ho_cred h dest) - 1\<rparr>) h
         in bind_r (ho_vc_dequeue vc h) (\<lambda>h.
            Inr (h\<lparr>ho_int_cred := (ho_int_cred h)\<lparr>data_credit := data_credit (ho_int_cred h) - 1\<rparr>\<rparr>))))"

definition ho_place_rwd :: "nat \<Rightarrow> ho_vc \<Rightarrow> message \<Rightarrow> CXLHost \<Rightarrow> CXLHost result" where
  "ho_place_rwd i vc m h =
     (let h = h\<lparr>ho_last_rwd_hdr := message_copy (ho_last_rwd_hdr h) m,
                ho_flit_to_pack := put_message i m2s_rwd_hdr m (ho_flit_to_pack h),
                ho_packer_rollover := 4\<rparr>
      in bind_r (destination_device h (address m)) (\<lambda>dest.
         let h = ho_set_cred dest ((ho_cred h dest)\<lparr>data_credit := data_credit (ho_cred h dest) - 1\<rparr>) h;
             h = h\<lparr>ho_int_cred := (ho_int_cred h)\<lparr>rsp_credit := rsp_credit (ho_int_cred h) - 1\<rparr>\<rparr>
         in ho_vc_dequeue vc h))"

text \<open>One iteration of the packing loop at slot \<open>i\<close>; the flag says whether the loop goes on.
  The first message fixes the device of the flit, even if it does not fit.\<close>

definition ho_pack_slot ::
  "CXLParams \<Rightarrow> globals \<Rightarrow> nat \<Rightarrow> CXLHost \<Rightarrow> (bool \<times> CXLHost) result" where
  "ho_pack_slot p g i h =
     (if sl_type (fl_slots (ho_flit_to_pack h) ! i) \<noteq> empty then Inr (True, h)
      else if ho_packer_rollover h \<noteq> 0 \<and> i \<noteq> 0
      then Inr (True, (ho_put_data i h)\<lparr>ho_packer_rollover := ho_packer_rollover h - 1\<rparr>)
      else bind_r (ho_get_msg_from_vcs p g h) (\<lambda>(r, h).
        case r of
          None \<Rightarrow> Inr (False, h)
        | Some vc \<Rightarrow>
            bind_r (get_head (ho_vc_buf vc h)) (\<lambda>m.
            bind_r (if ho_device_under_consideration h = NO_DEVICE
                    then destination_device h (address m) else Inr (ho_device_under_consideration h)) (\<lambda>dev.
              let h = h\<lparr>ho_device_under_consideration := dev\<rparr>
              in case opCode m of
                   Req \<Rightarrow>
                     if slot_count_in_flit (ho_flit_to_pack h) m2s_req \<le> 1
                     then bind_r (ho_place_req i vc m h) (\<lambda>h. Inr (True, h))
                     else Inr (True, h)
                 | RwD \<Rightarrow>
                     if (slot_count_in_flit (ho_flit_to_pack h) m2s_rwd_hdr = 0 \<and> i = 0) \<or>
                        (slot_count_in_flit (ho_flit_to_pack h) m2s_rwd_hdr = 0 \<and>
                         are_all_slots_after_this_empty (ho_flit_to_pack h) i)
                     then bind_r (ho_place_rwd i vc m h) (\<lambda>h. Inr (True, h))
                     else Inr (True, h)
                 | _ \<Rightarrow> Inl (CXL_ASSERT ''Illegal message type'')))))"

fun ho_pack_loop ::
  "CXLParams \<Rightarrow> globals \<Rightarrow> nat list \<Rightarrow> CXLHost \<Rightarrow> CXLHost result" where
  "ho_pack_loop p g [] h = Inr h"
| "ho_pack_loop p g (i # is) h =
     bind_r (ho_pack_slot p g i h) (\<lambda>(go, h). if go then ho_pack_loop p g is h else Inr h)"

definition ho_packing_rule_violated :: "CXLHost \<Rightarrow> bool" where
  "ho_packing_rule_violated h \<longleftrightarrow>
     (let f = ho_flit_to_pack h;
          req_count = slot_count_in_flit f m2s_req;
          rwd_count = slot_count_in_flit f m2s_rwd_hdr;
          data_count = slot_count_in_flit f data
      in req_count > 2 \<or> data_count > 4 \<or> rwd_count > 1 \<or> rwd_count + data_count + req_count > 4)"

definition ho_pack_more ::
  "CXLParams \<Rightarrow> globals \<Rightarrow> CXLHost \<Rightarrow> (bool \<times> globals \<times> CXLHost) result" where
  "ho_pack_more p g h =
     bind_r (ho_pack_loop p g [0, 1, 2, 3] h) (\<lambda>h.
       let active = \<not> is_flit_empty (ho_flit_to_pack h);
           h = (if active then h\<lparr>ho_is_packer_waiting := True\<rparr> else h)
       in cxl_assert (\<not> ho_packing_rule_violated h) ''Packing rule violated on packer side''
            (Inr (active, g, h)))"

definition ho_send_waiting :: "globals \<Rightarrow> CXLHost \<Rightarrow> (bool \<times> globals \<times> CXLHost) result" where
  "ho_send_waiting g h =
     (if is_buf_full (ho_tx_buffer h) then Inr (True, g, h)
      else bind_r (ho_add_flit_to_buf g h) (\<lambda>(g, h).
             Inr (True, g, h\<lparr>ho_is_packer_waiting := False\<rparr>)))"

definition ho_FLIT_packer ::
  "CXLParams \<Rightarrow> uninit \<Rightarrow> globals \<Rightarrow> CXLHost \<Rightarrow> (bool \<times> globals \<times> CXLHost) result" where
  "ho_FLIT_packer p u g h =
     (let h = (if \<not> ho_is_packer_waiting h
               then h\<lparr>ho_flit_to_pack := flit_new u, ho_started_packing_at := curr_tick g,
                      ho_device_under_consideration :=
                        (if ho_packer_rollover h > 0 then ho_device_under_consideration h else NO_DEVICE)\<rparr>
               else h)
      in if ho_is_packer_waiting h \<and> is_flit_full (ho_flit_to_pack h) then ho_send_waiting g h
         else if ho_is_packer_waiting h \<and>
                 curr_tick g - ho_started_packing_at h > ho_packer_wait_time h \<and>
                 \<not> is_flit_empty (ho_flit_to_pack h)
         then ho_send_waiting g h
         else cxl_assert (0 \<le> ho_packer_rollover h \<and> ho_packer_rollover h \<le> 4)
                ''Packer rollover illegal value''
           (if ho_packer_rollover h \<noteq> 0 \<and> \<not> ho_is_packer_waiting h
            then bind_r (ho_place_rollover h) (\<lambda>h'.
                   if ho_packer_rollover h = 4
                   then (if is_buf_full (ho_tx_buffer h')
                         then Inr (True, g, h'\<lparr>ho_is_packer_waiting := True\<rparr>)
                         else bind_r (ho_add_flit_to_buf g h') (\<lambda>(g, h').
                                Inr (True, g, h'\<lparr>ho_is_packer_waiting := False\<rparr>)))
                   else ho_pack_more p g h')
            else ho_pack_more p g h))"

section \<open>The unpacker\<close>

text \<open>The device all messages of a flit belong to.\<close>

fun ho_source_device :: "CXLHost \<Rightarrow> slot list \<Rightarrow> int \<Rightarrow> int result" where
  "ho_source_device h [] dev = Inr dev"
| "ho_source_device h (s # ss) dev =
     (if sl_type s = empty then ho_source_device h ss dev
      else if dev = NO_DEVICE
      then bind_r (destination_device h (address (sl_msg s))) (ho_source_device h ss)
      else bind_r (destination_device h (address (sl_msg s))) (\<lambda>dest.
             if dev \<noteq> dest then Inl (CXL_ASSERT ''Single flit has messages from different devices'')
             else ho_source_device h ss dest))"

definition ho_rollover_rule :: "int \<Rightarrow> flit \<Rightarrow> bool" where
  "ho_rollover_rule k f \<longleftrightarrow>
     (let is_data = (\<lambda>i. sl_type (fl_slots f ! i) = data)
      in if k = 0 then True
         else if k = 1 then is_data 1
         else if k = 2 then is_data 1 \<and> is_data 2
         else if k = 3 then is_data 1 \<and> is_data 2 \<and> is_data 3
         else is_data 0 \<and> is_data 1 \<and> is_data 2 \<and> is_data 3)"

definition ho_finish_drs :: "globals \<Rightarrow> CXLHost \<Rightarrow> CXLHost result" where
  "ho_finish_drs g h =
     (let m = ho_last_drs_hdr h; m = m\<lparr>m_time := (m_time m)\<lparr>tick_resp_unpacked := curr_tick g\<rparr>\<rparr>
      in bind_r (enqueue (ho_S2M_DRS h) m) (\<lambda>q.
           Inr (h\<lparr>ho_last_drs_hdr := m, ho_S2M_DRS := q\<rparr>)))"

fun ho_unpack_rollover :: "globals \<Rightarrow> nat list \<Rightarrow> flit \<Rightarrow> CXLHost \<Rightarrow> (flit \<times> CXLHost) result" where
  "ho_unpack_rollover g [] f h = Inr (f, h)"
| "ho_unpack_rollover g (i # is) f h =
     (if sl_type (fl_slots f ! i) \<noteq> data then ho_unpack_rollover g is f h
      else let h = h\<lparr>ho_unpacker_rollover := ho_unpacker_rollover h - 1\<rparr>;
               f = f\<lparr>fl_slots := (fl_slots f)[i := (fl_slots f ! i)\<lparr>sl_type := empty\<rparr>]\<rparr>
           in if ho_unpacker_rollover h = 0
              then bind_r (ho_finish_drs g h) (\<lambda>h. Inr (f, h))
              else ho_unpack_rollover g is f h)"

definition ho_unpack_slot :: "globals \<Rightarrow> slot \<Rightarrow> CXLHost \<Rightarrow> CXLHost result" where
  "ho_unpack_slot g s h =
     (case sl_type s of
        s2m_ndr \<Rightarrow>
          let m = (sl_msg s)\<lparr>m_time := (m_time (sl_msg s))\<lparr>tick_resp_unpacked := curr_tick g\<rparr>\<rparr>
          in bind_r (enqueue (ho_S2M_NDR h) m) (\<lambda>q. Inr (h\<lparr>ho_S2M_NDR := q\<rparr>))
      | s2m_drs_hdr \<Rightarrow>
          cxl_assert (ho_unpacker_rollover h = 0)
            ''Received RwD header without getting previous data first!''
            (Inr (h\<lparr>ho_unpacker_rollover := 4,
                    ho_last_drs_hdr := message_copy (ho_last_drs_hdr h) (sl_msg s)\<rparr>))
      | data \<Rightarrow>
          cxl_assert (ho_unpacker_rollover h > 0) ''Data received when not expected!''
            (let h = h\<lparr>ho_unpacker_rollover := ho_unpacker_rollover h - 1\<rparr>
             in if ho_unpacker_rollover h = 0 then ho_finish_drs g h else Inr h)
      | empty \<Rightarrow> Inr h
      | _ \<Rightarrow> Inl (CXL_ASSERT ''Illegal message type on rx buffer''))"

fun ho_unpack_slots :: "globals \<Rightarrow> slot list \<Rightarrow> CXLHost \<Rightarrow> CXLHost result" where
  "ho_unpack_slots g [] h = Inr h"
| "ho_unpack_slots g (s # ss) h = bind_r (ho_unpack_slot g s h) (ho_unpack_slots g ss)"

text \<open>Unlike the device, the host counts the slots before it takes the owed data out.\<close>

definition ho_unpack_flit :: "globals \<Rightarrow> flit \<Rightarrow> CXLHost \<Rightarrow> CXLHost result" where
  "ho_unpack_flit g f h =
     bind_r (ho_source_device h (fl_slots f) NO_DEVICE) (\<lambda>dev.
     let ndr_ctr = slot_count_in_flit f s2m_ndr;
         drs_ctr = slot_count_in_flit f s2m_drs_hdr;
         data_ctr = slot_count_in_flit f data
     in cxl_assert (ho_unpacker_rollover h \<le> 4 \<and> ho_unpacker_rollover h \<ge> 0) ''Rollover data out of range''
       (cxl_assert (ho_rollover_rule (ho_unpacker_rollover h) f) ''Data rollover rule violated''
       (cxl_assert (ndr_ctr \<le> 2 \<and> data_ctr \<le> 4 \<and> drs_ctr \<le> 1) ''Packing rule violated''
       (bind_r (if ho_unpacker_rollover h \<noteq> 0 then ho_unpack_rollover g [0, 1, 2, 3] f h else Inr (f, h))
         (\<lambda>(f, h). bind_r (ho_unpack_slots g (fl_slots f) h) (\<lambda>h.
            bind_r (dequeue (ho_rx_buffer h)) (\<lambda>rx.
              let h = h\<lparr>ho_rx_buffer := rx\<rparr>; cr = fh_credit (fl_header f)
              in Inr (ho_set_cred dev ((ho_cred h dev)
                   \<lparr>req_credit := req_credit (ho_cred h dev) + req_credit cr,
                    data_credit := data_credit (ho_cred h dev) + data_credit cr\<rparr>) h))))))))"

definition ho_FLIT_unpacker :: "CXLParams \<Rightarrow> globals \<Rightarrow> CXLHost \<Rightarrow> (bool \<times> CXLHost) result" where
  "ho_FLIT_unpacker p g h =
     cxl_assert (\<not> (is_buf_full (ho_rx_buffer h) \<and> is_buf_full (ho_S2M_DRS h) \<and> is_buf_full (ho_S2M_NDR h)))
       ''Rx side stall!''
    (if is_buf_empty (ho_rx_buffer h) then Inr (False, h)
     else bind_r (get_head (ho_rx_buffer h)) (\<lambda>f.
       if curr_tick g - time_of_receipt (fl_time f) < delay_rx_buf_to_unpack p then Inr (False, h)
       else bind_r (ho_unpack_flit g f h) (\<lambda>h. Inr (True, h))))"

section \<open>The transmitter\<close>

definition ho_transmit ::
  "CXLParams \<Rightarrow> uninit \<Rightarrow> globals \<Rightarrow> CXLHost \<Rightarrow> CXLBus \<Rightarrow> (bool \<times> CXLHost \<times> CXLBus) result" where
  "ho_transmit p u g h b =
     (if is_buf_empty (ho_tx_buffer h) then Inr (False, h, b)
      else if bus_is_full b then Inr (False, h, b)
      else bind_r (get_head (ho_tx_buffer h)) (\<lambda>x.
        if curr_tick g - time_of_creation (fl_time x) < delay_tx_buf_to_bus p then Inr (False, h, b)
        else if curr_tick g - ho_last_transmitted_at h < cxl_bus_ticks_per_dequeue p then Inr (False, h, b)
        else let f = flit_copy (flit_new u) x;
                 f = f\<lparr>fl_time := (fl_time f)\<lparr>time_of_transmission := curr_tick g\<rparr>\<rparr>;
                 f = set_time tick_transmitted_update (curr_tick g) f
             in bind_r (add_to_bus g f b) (\<lambda>b.
                bind_r (dequeue (ho_tx_buffer h)) (\<lambda>tx.
                  Inr (True, h\<lparr>ho_last_transmitted_at := curr_tick g, ho_tx_buffer := tx\<rparr>, b)))))"

section \<open>Retiring completed requests\<close>

datatype ho_rx_vc = RX_NDR | RX_DRS

fun ho_rx_buf :: "ho_rx_vc \<Rightarrow> CXLHost \<Rightarrow> message CXLBuf" where
  "ho_rx_buf RX_NDR h = ho_S2M_NDR h"
| "ho_rx_buf RX_DRS h = ho_S2M_DRS h"

fun ho_set_rx_buf :: "ho_rx_vc \<Rightarrow> message CXLBuf \<Rightarrow> CXLHost \<Rightarrow> CXLHost" where
  "ho_set_rx_buf RX_NDR q h = h\<lparr>ho_S2M_NDR := q\<rparr>"
| "ho_set_rx_buf RX_DRS q h = h\<lparr>ho_S2M_DRS := q\<rparr>"

definition running_avg :: "frac \<Rightarrow> int \<Rightarrow> frac \<Rightarrow> frac" where
  "running_avg avg x cnt =
     sfloat64 (fadd avg (sfloat64 (fdiv (sfloat64 (fadd (sfloat64 (x, 1)) (fneg avg))) cnt)))"

text \<open>The statistics of the table that bits 48 to 59 of the address name.\<close>

definition table_of :: "u64 \<Rightarrow> u64" where
  "table_of a = and (drop_bit 48 a) 0xFFF"

definition ho_record_latency :: "message \<Rightarrow> CXLHost \<Rightarrow> CXLHost" where
  "ho_record_latency m h =
     (let t = m_time m; k = table_of (address m);
          (cnt, avg, avg_dram) = sm_get ((0, 1), (0, 1), (0, 1)) (ho_amat_per_table_cxl h) k;
          cnt = sfloat64 (fadd cnt (1, 1));
          avg = running_avg avg (tick_req_complete t - tick_created t) cnt;
          avg_dram = running_avg avg_dram (tick_ramulator_complete t - tick_at_ramulator t) cnt
      in h\<lparr>ho_amat_per_table_cxl := sm_put k (cnt, avg, avg_dram) (ho_amat_per_table_cxl h)\<rparr>)"

definition ho_check_rx_vc ::
  "CXLParams \<Rightarrow> globals \<Rightarrow> ho_rx_vc \<Rightarrow> CXLHost \<Rightarrow> (bool \<times> globals \<times> CXLHost) result" where
  "ho_check_rx_vc p g v h =
     (let vc = ho_rx_buf v h
      in if is_buf_empty vc then Inr (False, g, h)
         else bind_r (get_head vc) (\<lambda>m.
           if curr_tick g - tick_resp_unpacked (m_time m) < delay_vc_to_retire p then Inr (False, g, h)
           else let m = m\<lparr>m_time := (m_time m)\<lparr>tick_req_complete := curr_tick g\<rparr>\<rparr>
                in cxl_assert (sm_find (ho_messages_sent_to_device h) (msg_id m) \<noteq> None)
                     ''Response received is for an unknown request''
                  (let h = ho_record_latency m h;
                       h = h\<lparr>ho_messages_sent_to_device := sm_erase (msg_id m) (ho_messages_sent_to_device h)\<rparr>;
                       g = g\<lparr>num_reqs_completed := num_reqs_completed g + 1\<rparr>;
                       ic = ho_int_cred h
                   in bind_r (case opCode m of
                                DRS \<Rightarrow> Inr (h\<lparr>ho_int_cred := ic\<lparr>data_credit := data_credit ic + 1\<rparr>\<rparr>)
                              | NDR \<Rightarrow> Inr (h\<lparr>ho_int_cred := ic\<lparr>rsp_credit := rsp_credit ic + 1\<rparr>\<rparr>)
                              | _ \<Rightarrow> Inl (CXL_ASSERT ''Illegal message type received'')) (\<lambda>h.
                      bind_r (dequeue (ho_rx_buf v h)) (\<lambda>q. Inr (True, g, ho_set_rx_buf v q h))))))"

definition ho_first_of ::
  "CXLParams \<Rightarrow> globals \<Rightarrow> ho_rx_vc \<times> round_robin_state \<Rightarrow> ho_rx_vc \<times> round_robin_state
     \<Rightarrow> CXLHost \<Rightarrow> (bool \<times> globals \<times> CXLHost) result" where
  "ho_first_of p g = (\<lambda>(v1, s1) (v2, s2) h.
     bind_r (ho_check_rx_vc p g v1 h) (\<lambda>(b, g, h).
       if b then Inr (True, g, h\<lparr>ho_rcvd_rsp_state := s1\<rparr>)
       else bind_r (ho_check_rx_vc p g v2 h) (\<lambda>(b, g, h).
              if b then Inr (True, g, h\<lparr>ho_rcvd_rsp_state := s2\<rparr>) else Inr (False, g, h))))"

definition check_if_req_completed ::
  "CXLParams \<Rightarrow> globals \<Rightarrow> CXLHost \<Rightarrow> (bool \<times> globals \<times> CXLHost) result" where
  "check_if_req_completed p g h =
     (if is_buf_empty (ho_S2M_DRS h) \<and> is_buf_empty (ho_S2M_NDR h) then Inr (False, g, h)
      else case ho_rcvd_rsp_state h of
             RR_R \<Rightarrow> ho_first_of p g (RX_NDR, RR_w) (RX_DRS, RR_r) h
           | RR_r \<Rightarrow> ho_first_of p g (RX_DRS, RR_R) (RX_NDR, RR_w) h
           | RR_w \<Rightarrow> ho_first_of p g (RX_DRS, RR_R) (RX_NDR, RR_w) h
           | RR_W \<Rightarrow> Inl (CXL_ASSERT ''Unknown state in round robin''))"

section \<open>The skip checks\<close>

definition no_active_transaction :: "CXLHost \<Rightarrow> bool" where
  "no_active_transaction h \<longleftrightarrow>
     list_all (\<lambda>i. is_buf_empty (ho_M2S_Req h ! i) \<and> is_buf_empty (ho_M2S_RWD h ! i)) [0..<NUM_VC] \<and>
     is_buf_empty (ho_S2M_DRS h) \<and> is_buf_empty (ho_S2M_NDR h) \<and>
     ho_reqs_in_dam h = [] \<and> ho_messages_sent_to_device h = []"

definition ho_skip_packer_check :: "CXLParams \<Rightarrow> globals \<Rightarrow> CXLHost \<Rightarrow> bool" where
  "ho_skip_packer_check p g h \<longleftrightarrow>
     (if ho_packer_rollover h \<noteq> 0 \<or> ho_is_packer_waiting h then False
      else if list_all (\<lambda>i. is_buf_empty (ho_M2S_Req h ! i) \<and> is_buf_empty (ho_M2S_RWD h ! i)) [0..<NUM_VC]
      then True
      else let due = (\<lambda>vc. \<not> is_buf_empty vc \<and>
                        curr_tick g - tick_created (m_time (hd (buf_q vc))) \<ge> delay_vc_to_pack p)
           in list_all (\<lambda>i. \<not> due (ho_M2S_Req h ! i) \<and> \<not> due (ho_M2S_RWD h ! i)) [0..<NUM_VC])"

definition ho_skip_transmit_check :: "CXLParams \<Rightarrow> globals \<Rightarrow> CXLHost \<Rightarrow> CXLBus \<Rightarrow> bool" where
  "ho_skip_transmit_check p g h b \<longleftrightarrow>
     (is_buf_empty (ho_tx_buffer h) \<or> bus_is_full b) \<or>
     (\<not> is_buf_empty (ho_tx_buffer h) \<and>
      (curr_tick g - time_of_creation (fl_time (hd (buf_q (ho_tx_buffer h)))) < delay_tx_buf_to_bus p \<or>
       curr_tick g - ho_last_transmitted_at h < cxl_bus_ticks_per_dequeue p))"

definition ho_skip_unpacker_check :: "CXLParams \<Rightarrow> globals \<Rightarrow> CXLHost \<Rightarrow> bool" where
  "ho_skip_unpacker_check p g h \<longleftrightarrow>
     is_buf_empty (ho_rx_buffer h) \<or>
     (\<not> is_buf_empty (ho_rx_buffer h) \<and>
      curr_tick g - time_of_receipt (fl_time (hd (buf_q (ho_rx_buffer h)))) < delay_rx_buf_to_unpack p)"

definition ho_skip_req_complete_check :: "CXLParams \<Rightarrow> globals \<Rightarrow> CXLHost \<Rightarrow> bool" where
  "ho_skip_req_complete_check p g h \<longleftrightarrow>
     (let due = (\<lambda>vc. \<not> is_buf_empty vc \<and>
                   curr_tick g - tick_resp_unpacked (m_time (hd (buf_q vc))) \<ge> delay_vc_to_retire p)
      in if is_buf_empty (ho_S2M_DRS h) \<and> is_buf_empty (ho_S2M_NDR h) then True
         else if due (ho_S2M_DRS h) then False
         else if due (ho_S2M_NDR h) then False
         else True)"

end
