(* ===== verification/CXL_Host_Pack.thy ===== *)
theory CXL_Host_Pack
  imports CXL_Host
begin

text \<open>
  The packer of the host (\<^verbatim>\<open>CXLHost::FLIT_packer\<close>) follows the slot-filling discipline of
  \<open>CXL_Wire\<close> as well.  It differs from the device's in its arbitration: the first message
  commits a flit to one device, so that channels can only drop out afterwards.  Besides the
  legality of the flits, the theory shows that all slots of a flit belong to one device and
  that a flit that carries owed data goes to the device its header went to.
\<close>

section \<open>Views\<close>

abbreviation ho_kinds :: "CXLHost \<Rightarrow> kind list" where
  "ho_kinds h \<equiv> kinds_of kind_host (ho_flit_to_pack h)"

definition on_dest :: "CXLHost \<Rightarrow> u64 \<Rightarrow> (int \<Rightarrow> bool) \<Rightarrow> bool" where
  "on_dest h a P \<longleftrightarrow> (case destination_device h a of Inr dest \<Rightarrow> P dest | Inl _ \<Rightarrow> False)"

lemma on_dest_iff: "on_dest h a P \<longleftrightarrow> (\<exists>dest. destination_device h a = Inr dest \<and> P dest)"
  by (auto simp: on_dest_def split: sum.splits)

text \<open>An address routes to a device that has been registered.\<close>

definition routes :: "CXLHost \<Rightarrow> u64 \<Rightarrow> bool" where
  "routes h a \<longleftrightarrow> on_dest h a (\<lambda>dest. sm_find (ho_ext_creds h) dest \<noteq> None)"

definition ho_due :: "CXLParams \<Rightarrow> globals \<Rightarrow> message CXLBuf \<Rightarrow> bool" where
  "ho_due p g vc \<longleftrightarrow> \<not> is_buf_empty vc \<and>
     curr_tick g - tick_created (m_time (hd (buf_q vc))) \<ge> delay_vc_to_pack p"

definition ho_for_device :: "CXLHost \<Rightarrow> int \<Rightarrow> bool" where
  "ho_for_device h dest \<longleftrightarrow> ho_device_under_consideration h = NO_DEVICE \<or> ho_device_under_consideration h = dest"

definition ho_ready :: "CXLParams \<Rightarrow> globals \<Rightarrow> CXLHost \<Rightarrow> (credits \<Rightarrow> int) \<Rightarrow> message CXLBuf \<Rightarrow> bool" where
  "ho_ready p g h cr vc \<longleftrightarrow> ho_due p g vc \<and>
     on_dest h (address (hd (buf_q vc))) (\<lambda>dest. ho_for_device h dest \<and> cr (ho_cred h dest) \<noteq> 0)"

definition ho_can_Req :: "CXLParams \<Rightarrow> globals \<Rightarrow> CXLHost \<Rightarrow> bool" where
  "ho_can_Req p g h \<longleftrightarrow> data_credit (ho_int_cred h) \<noteq> 0 \<and> (\<exists>vc \<in> set (ho_M2S_Req h). ho_ready p g h req_credit vc)"

definition ho_can_RWD :: "CXLParams \<Rightarrow> globals \<Rightarrow> CXLHost \<Rightarrow> bool" where
  "ho_can_RWD p g h \<longleftrightarrow> rsp_credit (ho_int_cred h) \<noteq> 0 \<and> (\<exists>vc \<in> set (ho_M2S_RWD h). ho_ready p g h data_credit vc)"

text \<open>All messages of some channels can be routed.\<close>

definition vcs_route :: "CXLHost \<Rightarrow> message CXLBuf list \<Rightarrow> bool" where
  "vcs_route h vcs \<longleftrightarrow> (\<forall>vc \<in> set vcs. \<forall>m \<in> set (buf_q vc). routes h (address m))"

definition ho_typed :: "CXLHost \<Rightarrow> bool" where
  "ho_typed h \<longleftrightarrow> vcs_carry Req (ho_M2S_Req h) \<and> vcs_carry RwD (ho_M2S_RWD h) \<and>
     vcs_route h (ho_M2S_Req h) \<and> vcs_route h (ho_M2S_RWD h) \<and>
     (\<forall>iv \<in> set (ho_address_intervals h). node_key (fst iv) \<noteq> NO_DEVICE) \<and>
     length (types (ho_flit_to_pack h)) = 4"

section \<open>Arbitration\<close>

text \<open>The scans change the credit statistics only.\<close>

record credit_ctrs =
  cc_total :: u64
  cc_int :: u64
  cc_ext :: u64

definition ho_ctrs :: "credit_ctrs \<Rightarrow> CXLHost \<Rightarrow> CXLHost" where
  "ho_ctrs c h = h\<lparr>ho_total_credit_checks := cc_total c, ho_int_credit_reject_ctr := cc_int c,
     ho_ext_credit_reject_ctr := cc_ext c\<rparr>"

lemma ho_ctrs_ctrs [simp]: "ho_ctrs c (ho_ctrs c' h) = ho_ctrs c h"
  by (simp add: ho_ctrs_def)

lemma ho_ctrs_id: "\<exists>c. h = ho_ctrs c h"
  by (rule exI [of _ "\<lparr>cc_total = ho_total_credit_checks h, cc_int = ho_int_credit_reject_ctr h,
        cc_ext = ho_ext_credit_reject_ctr h\<rparr>"]) (simp add: ho_ctrs_def)

lemma destination_cong: "ho_address_intervals h' = ho_address_intervals h \<Longrightarrow> destination_device h' = destination_device h"
  by (simp add: destination_device_def fun_eq_iff)

lemma ho_ctrs_frame [simp]:
  "ho_address_intervals (ho_ctrs c h) = ho_address_intervals h"
  "ho_ext_creds (ho_ctrs c h) = ho_ext_creds h" "ho_int_cred (ho_ctrs c h) = ho_int_cred h"
  "ho_device_under_consideration (ho_ctrs c h) = ho_device_under_consideration h"
  "ho_M2S_Req (ho_ctrs c h) = ho_M2S_Req h" "ho_M2S_RWD (ho_ctrs c h) = ho_M2S_RWD h"
  "ho_packer_cur_vc (ho_ctrs c h) = ho_packer_cur_vc h" "ho_flit_to_pack (ho_ctrs c h) = ho_flit_to_pack h"
  "ho_packer_rollover (ho_ctrs c h) = ho_packer_rollover h" "ho_last_rwd_hdr (ho_ctrs c h) = ho_last_rwd_hdr h"
  by (simp_all add: ho_ctrs_def)

lemma ho_ctrs_views [simp]:
  "destination_device (ho_ctrs c h) = destination_device h" "ho_cred (ho_ctrs c h) = ho_cred h"
  "routes (ho_ctrs c h) = routes h" "ho_ready p g (ho_ctrs c h) = ho_ready p g h"
  "ho_can_Req p g (ho_ctrs c h) = ho_can_Req p g h" "ho_can_RWD p g (ho_ctrs c h) = ho_can_RWD p g h"
  "vcs_route (ho_ctrs c h) = vcs_route h" "ho_typed (ho_ctrs c h) = ho_typed h"
proof -
  show dest: "destination_device (ho_ctrs c h) = destination_device h" by (rule destination_cong) simp
  show cred: "ho_cred (ho_ctrs c h) = ho_cred h" by (simp add: ho_cred_def fun_eq_iff)
  show r: "routes (ho_ctrs c h) = routes h" by (simp add: routes_def on_dest_iff fun_eq_iff dest)
  show rd: "ho_ready p g (ho_ctrs c h) = ho_ready p g h"
    by (simp add: ho_ready_def on_dest_iff fun_eq_iff dest cred ho_for_device_def)
  show "ho_can_Req p g (ho_ctrs c h) = ho_can_Req p g h" "ho_can_RWD p g (ho_ctrs c h) = ho_can_RWD p g h"
    by (simp_all add: ho_can_Req_def ho_can_RWD_def rd)
  show v: "vcs_route (ho_ctrs c h) = vcs_route h" by (simp add: vcs_route_def fun_eq_iff r)
  show "ho_typed (ho_ctrs c h) = ho_typed h" by (simp add: ho_typed_def v)
qed

lemma ho_touch_routed: "sm_find (ho_ext_creds h) dest \<noteq> None \<Longrightarrow> ho_touch dest h = h"
  by (auto simp: ho_touch_def sm_insert_def)

lemma count_checks_ctrs: "\<exists>c. ho_count_checks dest h = ho_ctrs c h"
proof -
  have "ho_count_checks dest h = ho_ctrs
     \<lparr>cc_total = ho_total_credit_checks h + 1,
      cc_int = (if data_credit (ho_int_cred h) = 0 then ho_int_credit_reject_ctr h + 1 else ho_int_credit_reject_ctr h),
      cc_ext = (if req_credit (ho_cred h dest) = 0 then ho_ext_credit_reject_ctr h + 1 else ho_ext_credit_reject_ctr h)\<rparr> h"
    by (simp add: ho_count_checks_def ho_ctrs_def Let_def ho_cred_def)
  then show ?thesis by blast
qed

lemma vcs_route_hd:
  assumes "vcs_route h vcs" "i < length vcs" "\<not> is_buf_empty (vcs ! i)"
  obtains dest where "destination_device h (address (hd (buf_q (vcs ! i)))) = Inr dest"
    "sm_find (ho_ext_creds h) dest \<noteq> None"
proof -
  have "vcs ! i \<in> set vcs" "hd (buf_q (vcs ! i)) \<in> set (buf_q (vcs ! i))"
    using assms(2,3) by (simp_all add: is_buf_empty_def)
  then have "routes h (address (hd (buf_q (vcs ! i))))" using assms(1) by (auto simp: vcs_route_def)
  then show thesis using that by (auto simp: routes_def on_dest_iff)
qed

lemma scan_Req:
  assumes "vcs_carry Req vcs" "vcs_route h vcs"
  shows "\<exists>c. ho_scan_vcs p g vcs is h = Inr (if data_credit (ho_int_cred h) = 0 then None
     else find (\<lambda>i. ho_ready p g h req_credit (vcs ! (i mod 4))) is, ho_ctrs c h)"
  using assms
proof (induction "is" arbitrary: h)
  case Nil
  then show ?case using ho_ctrs_id [of h] by auto
next
  case (Cons i "is")
  let ?vc = "vcs ! (i mod 4)"
  have skip: "\<exists>c. ho_scan_vcs p g vcs is (ho_ctrs c' h) = Inr (if data_credit (ho_int_cred h) = 0 then None
     else find (\<lambda>i. ho_ready p g h req_credit (vcs ! (i mod 4))) is, ho_ctrs c h)" for c'
    using Cons.IH [of "ho_ctrs c' h", unfolded ho_ctrs_views ho_ctrs_frame ho_ctrs_ctrs] Cons.prems by blast
  have skip0: "\<exists>c. ho_scan_vcs p g vcs is h = Inr (if data_credit (ho_int_cred h) = 0 then None
     else find (\<lambda>i. ho_ready p g h req_credit (vcs ! (i mod 4))) is, ho_ctrs c h)"
    using Cons.IH [of h] Cons.prems by simp
  show ?case
  proof (cases "ho_due p g ?vc")
    case False
    then have "ho_scan_vcs p g vcs (i # is) h = ho_scan_vcs p g vcs is h" "\<not> ho_ready p g h req_credit ?vc"
      by (auto simp: ho_due_def ho_ready_def NUM_VC_def Let_def)
    then show ?thesis using skip0 by (auto simp del: ho_scan_vcs.simps)
  next
    case True
    have ne: "\<not> is_buf_empty ?vc" using True by (simp add: ho_due_def)
    have len: "i mod 4 < length vcs" using vcs_carry_length [OF Cons.prems(1)] by simp
    obtain dest where d: "destination_device h (address (hd (buf_q ?vc))) = Inr dest"
      "sm_find (ho_ext_creds h) dest \<noteq> None" by (rule vcs_route_hd [OF Cons.prems(2) len ne])
    have oc: "opCode (hd (buf_q ?vc)) = Req" using vcs_carry_hd [OF Cons.prems(1) _ ne] by simp
    obtain c where c: "ho_count_checks dest h = ho_ctrs c h" using count_checks_ctrs by blast
    from True have due: "\<not> is_buf_empty ?vc \<and> curr_tick g - tick_created (m_time (hd (buf_q ?vc))) \<ge> delay_vc_to_pack p"
      by (simp add: ho_due_def)
    have scan: "ho_scan_vcs p g vcs (i # is) h =
       (if ho_for_device h dest
        then (if req_credit (ho_cred h dest) \<noteq> 0 \<and> data_credit (ho_int_cred h) \<noteq> 0 then Inr (Some i, ho_ctrs c h)
              else ho_scan_vcs p g vcs is (ho_ctrs c h))
        else ho_scan_vcs p g vcs is h)"
      using due d oc c by (simp add: NUM_VC_def Let_def ho_for_device_def ho_touch_routed)
    have rd: "ho_ready p g h req_credit ?vc \<longleftrightarrow> ho_for_device h dest \<and> req_credit (ho_cred h dest) \<noteq> 0"
      using True d by (simp add: ho_ready_def on_dest_iff)
    show ?thesis unfolding scan using skip [of c] skip0 rd by auto
  qed
qed

lemma scan_RWD:
  assumes "vcs_carry RwD vcs" "vcs_route h vcs"
  shows "ho_scan_vcs p g vcs is h = Inr (if rsp_credit (ho_int_cred h) = 0 then None
     else find (\<lambda>i. ho_ready p g h data_credit (vcs ! (i mod 4))) is, h)"
proof (induction "is")
  case Nil
  then show ?case by simp
next
  case (Cons i "is")
  let ?vc = "vcs ! (i mod 4)"
  show ?case
  proof (cases "ho_due p g ?vc")
    case False
    then have "ho_scan_vcs p g vcs (i # is) h = ho_scan_vcs p g vcs is h" "\<not> ho_ready p g h data_credit ?vc"
      by (auto simp: ho_due_def ho_ready_def NUM_VC_def Let_def)
    then show ?thesis using Cons by (simp del: ho_scan_vcs.simps)
  next
    case True
    have ne: "\<not> is_buf_empty ?vc" using True by (simp add: ho_due_def)
    have len: "i mod 4 < length vcs" using vcs_carry_length [OF assms(1)] by simp
    obtain dest where d: "destination_device h (address (hd (buf_q ?vc))) = Inr dest"
      "sm_find (ho_ext_creds h) dest \<noteq> None" by (rule vcs_route_hd [OF assms(2) len ne])
    have oc: "opCode (hd (buf_q ?vc)) = RwD" using vcs_carry_hd [OF assms(1) _ ne] by simp
    from True have due: "\<not> is_buf_empty ?vc \<and> curr_tick g - tick_created (m_time (hd (buf_q ?vc))) \<ge> delay_vc_to_pack p"
      by (simp add: ho_due_def)
    have rd: "ho_ready p g h data_credit ?vc \<longleftrightarrow> ho_for_device h dest \<and> data_credit (ho_cred h dest) \<noteq> 0"
      using True d by (simp add: ho_ready_def on_dest_iff)
    show ?thesis using due d oc rd Cons by (simp add: NUM_VC_def Let_def ho_for_device_def ho_touch_routed)
  qed
qed

text \<open>The outcome of a scan: nothing, or a channel whose head can go.\<close>

lemma window_ready:
  assumes "length vcs = 4"
  obtains "find (\<lambda>i. P (vcs ! (i mod 4))) [c ..< 4 + c] = None" "\<not> (\<exists>vc \<in> set vcs. P vc)"
  | i where "find (\<lambda>i. P (vcs ! (i mod 4))) [c ..< 4 + c] = Some i" "P (vcs ! (i mod 4))" "\<exists>vc \<in> set vcs. P vc"
  using find_window [OF assms, of P c] by metis

lemma try_Req_none:
  assumes "ho_typed h" "\<not> ho_can_Req p g h"
  shows "\<exists>c. ho_try_Req p g s h = Inr (None, ho_ctrs c h)"
proof -
  have v: "vcs_carry Req (ho_M2S_Req h)" "vcs_route h (ho_M2S_Req h)" using assms(1) by (simp_all add: ho_typed_def)
  obtain c where c: "ho_scan_vcs p g (ho_M2S_Req h) [ho_packer_cur_vc h ..< 4 + ho_packer_cur_vc h] h =
      Inr (if data_credit (ho_int_cred h) = 0 then None
        else find (\<lambda>i. ho_ready p g h req_credit (ho_M2S_Req h ! (i mod 4))) [ho_packer_cur_vc h ..< 4 + ho_packer_cur_vc h],
        ho_ctrs c h)" using scan_Req [OF v] by blast
  have "(if data_credit (ho_int_cred h) = 0 then None
        else find (\<lambda>i. ho_ready p g h req_credit (ho_M2S_Req h ! (i mod 4))) [ho_packer_cur_vc h ..< 4 + ho_packer_cur_vc h]) = None"
    by (rule window_ready [OF vcs_carry_length [OF v(1)], of "ho_ready p g h req_credit" "ho_packer_cur_vc h"])
       (use assms(2) in \<open>auto simp: ho_can_Req_def\<close>)
  with c show ?thesis unfolding ho_try_Req_def ho_check_vcs_for_packing_def NUM_VC_def by auto
qed

lemma try_Req_some:
  assumes "ho_typed h" "ho_can_Req p g h"
  shows "\<exists>v c n. v < 4 \<and> ho_ready p g h req_credit (ho_M2S_Req h ! v) \<and>
    ho_try_Req p g s h = Inr (Some (VC_Req v), (ho_ctrs c h)\<lparr>ho_packer_cur_vc := n, ho_pkr2_state := s\<rparr>)"
proof -
  have v: "vcs_carry Req (ho_M2S_Req h)" "vcs_route h (ho_M2S_Req h)" using assms(1) by (simp_all add: ho_typed_def)
  have cr: "data_credit (ho_int_cred h) \<noteq> 0" using assms(2) by (simp add: ho_can_Req_def)
  obtain i where i: "find (\<lambda>i. ho_ready p g h req_credit (ho_M2S_Req h ! (i mod 4))) [ho_packer_cur_vc h ..< 4 + ho_packer_cur_vc h] = Some i"
    "ho_ready p g h req_credit (ho_M2S_Req h ! (i mod 4))"
    by (rule window_ready [OF vcs_carry_length [OF v(1)], of "ho_ready p g h req_credit" "ho_packer_cur_vc h"])
       (use assms(2) in \<open>auto simp: ho_can_Req_def\<close>)
  obtain c where "ho_scan_vcs p g (ho_M2S_Req h) [ho_packer_cur_vc h ..< 4 + ho_packer_cur_vc h] h = Inr (Some i, ho_ctrs c h)"
    using scan_Req [OF v, of p g "[ho_packer_cur_vc h ..< 4 + ho_packer_cur_vc h]"] i(1) cr by auto
  then have "ho_try_Req p g s h = Inr (Some (VC_Req (i mod 4)),
      (ho_ctrs c h)\<lparr>ho_packer_cur_vc := (if ho_packer_cur_vc h = 3 then 0 else i mod 4 + 1), ho_pkr2_state := s\<rparr>)"
    unfolding ho_try_Req_def ho_check_vcs_for_packing_def NUM_VC_def by simp
  moreover have "i mod 4 < 4" by simp
  ultimately show ?thesis using i(2) by blast
qed

lemma try_RWD_none:
  assumes "ho_typed h" "\<not> ho_can_RWD p g h"
  shows "ho_try_RWD p g s h = Inr (None, h)"
proof -
  have v: "vcs_carry RwD (ho_M2S_RWD h)" "vcs_route h (ho_M2S_RWD h)" using assms(1) by (simp_all add: ho_typed_def)
  have "(if rsp_credit (ho_int_cred h) = 0 then None
        else find (\<lambda>i. ho_ready p g h data_credit (ho_M2S_RWD h ! (i mod 4))) [ho_packer_cur_vc h ..< 4 + ho_packer_cur_vc h]) = None"
    by (rule window_ready [OF vcs_carry_length [OF v(1)], of "ho_ready p g h data_credit" "ho_packer_cur_vc h"])
       (use assms(2) in \<open>auto simp: ho_can_RWD_def\<close>)
  then show ?thesis unfolding ho_try_RWD_def ho_check_vcs_for_packing_def NUM_VC_def scan_RWD [OF v] by simp
qed

lemma try_RWD_some:
  assumes "ho_typed h" "ho_can_RWD p g h"
  shows "\<exists>v n. v < 4 \<and> ho_ready p g h data_credit (ho_M2S_RWD h ! v) \<and>
    ho_try_RWD p g s h = Inr (Some (VC_RWD v), h\<lparr>ho_packer_cur_vc := n, ho_pkr2_state := s\<rparr>)"
proof -
  have v: "vcs_carry RwD (ho_M2S_RWD h)" "vcs_route h (ho_M2S_RWD h)" using assms(1) by (simp_all add: ho_typed_def)
  have cr: "rsp_credit (ho_int_cred h) \<noteq> 0" using assms(2) by (simp add: ho_can_RWD_def)
  obtain i where i: "find (\<lambda>i. ho_ready p g h data_credit (ho_M2S_RWD h ! (i mod 4))) [ho_packer_cur_vc h ..< 4 + ho_packer_cur_vc h] = Some i"
    "ho_ready p g h data_credit (ho_M2S_RWD h ! (i mod 4))"
    by (rule window_ready [OF vcs_carry_length [OF v(1)], of "ho_ready p g h data_credit" "ho_packer_cur_vc h"])
       (use assms(2) in \<open>auto simp: ho_can_RWD_def\<close>)
  then have "ho_try_RWD p g s h = Inr (Some (VC_RWD (i mod 4)),
      h\<lparr>ho_packer_cur_vc := (if ho_packer_cur_vc h = 3 then 0 else i mod 4 + 1), ho_pkr2_state := s\<rparr>)"
    unfolding ho_try_RWD_def ho_check_vcs_for_packing_def NUM_VC_def scan_RWD [OF v] using cr by simp
  moreover have "i mod 4 < 4" by simp
  ultimately show ?thesis using i(2) by blast
qed

text \<open>The arbiter of the host is \<open>pick\<close>, up to the statistics.\<close>

inductive ho_msg_got :: "CXLParams \<Rightarrow> globals \<Rightarrow> CXLHost \<Rightarrow> (kind \<times> round_robin_state) option \<Rightarrow> bool"
  for p g h where
  got_none: "ho_get_msg_from_vcs p g h = Inr (None, ho_ctrs c h) \<Longrightarrow> ho_msg_got p g h None"
| got_Req: "ho_get_msg_from_vcs p g h = Inr (Some (VC_Req v), (ho_ctrs c h)\<lparr>ho_packer_cur_vc := n, ho_pkr2_state := s\<rparr>) \<Longrightarrow>
    v < 4 \<Longrightarrow> ho_ready p g h req_credit (ho_M2S_Req h ! v) \<Longrightarrow> ho_msg_got p g h (Some (KSmall, s))"
| got_RWD: "ho_get_msg_from_vcs p g h = Inr (Some (VC_RWD v), (ho_ctrs c h)\<lparr>ho_packer_cur_vc := n, ho_pkr2_state := s\<rparr>) \<Longrightarrow>
    v < 4 \<Longrightarrow> ho_ready p g h data_credit (ho_M2S_RWD h ! v) \<Longrightarrow> ho_msg_got p g h (Some (KHdr, s))"

inductive_cases ho_msg_got_None: "ho_msg_got p g h None"
inductive_cases ho_msg_got_small: "ho_msg_got p g h (Some (KSmall, s))"
inductive_cases ho_msg_got_hdr: "ho_msg_got p g h (Some (KHdr, s))"

lemma ho_get_msg_pick:
  assumes typed: "ho_typed h" and arb: "ho_pkr2_state h \<noteq> RR_W"
  shows "ho_msg_got p g h (pick (ho_pkr2_state h) (ho_can_Req p g h) (ho_can_RWD p g h))"
proof -
  obtain c0 where c0: "h = ho_ctrs c0 h" using ho_ctrs_id by blast
  note R = try_Req_some [OF typed, of p g] try_Req_none [OF typed, of p g]
  have W: "\<exists>v n. v < 4 \<and> ho_ready p g h data_credit (ho_M2S_RWD h ! v) \<and>
      ho_try_RWD p g s (ho_ctrs c h) = Inr (Some (VC_RWD v), (ho_ctrs c h)\<lparr>ho_packer_cur_vc := n, ho_pkr2_state := s\<rparr>)"
    if "ho_can_RWD p g h" for s c using try_RWD_some [of "ho_ctrs c h" p g s] typed that by simp
  have Wn: "ho_try_RWD p g s (ho_ctrs c h) = Inr (None, ho_ctrs c h)" if "\<not> ho_can_RWD p g h" for s c
    using try_RWD_none [of "ho_ctrs c h" p g s] typed that by simp
  have req: "ho_msg_got p g h (Some (KSmall, s))"
    if "ho_can_Req p g h" "ho_get_msg_from_vcs p g h = ho_try_Req p g s h" for s
    using R(1) [OF that(1), of s] that(2) by (metis got_Req)
  have rwd: "ho_msg_got p g h (Some (KHdr, s))"
    if "ho_can_RWD p g h" "ho_get_msg_from_vcs p g h = ho_try_RWD p g s (ho_ctrs c h)" for s c
    using W [OF that(1), of s c] that(2) by (metis got_RWD)
  have none: "ho_msg_got p g h None"
    if "ho_get_msg_from_vcs p g h = Inr (None, ho_ctrs c h)" for c using that by (rule got_none)
  let ?alt = "\<lambda>k (r, h). case r of Some v \<Rightarrow> Inr (Some v, h) | None \<Rightarrow> k h"
  have hitR: "bind_r (ho_try_Req p g s h) (?alt k) = ho_try_Req p g s h" if "ho_can_Req p g h" for s k
    using R(1) [OF that, of s] by auto
  have missR: "\<exists>c. bind_r (ho_try_Req p g s h) (?alt k) = k (ho_ctrs c h)" if "\<not> ho_can_Req p g h" for s k
    using R(2) [OF that, of s] by auto
  have hitW: "bind_r (ho_try_RWD p g s h) (?alt k) = ho_try_RWD p g s (ho_ctrs c0 h)" if "ho_can_RWD p g h" for s k
    using W [OF that, of s c0] c0 by auto
  have missW: "bind_r (ho_try_RWD p g s h) (?alt k) = k h" if "\<not> ho_can_RWD p g h" for s k
    using Wn [OF that, of s c0] c0 by auto
  note get = ho_get_msg_from_vcs_def
  show ?thesis
  proof (cases "ho_can_Req p g h")
    case True
    note hits = hitR [OF True]
    show ?thesis
      by (cases "ho_pkr2_state h"; cases "ho_can_RWD p g h")
         (use True arb in \<open>simp_all add: get hits hitW missW req rwd\<close>)
  next
    case False
    obtain c1 c2 where c: "bind_r (ho_try_Req p g RR_R h) (?alt (ho_try_RWD p g RR_w)) = ho_try_RWD p g RR_w (ho_ctrs c1 h)"
      "bind_r (ho_try_Req p g RR_r h) (?alt (ho_try_RWD p g RR_w)) = ho_try_RWD p g RR_w (ho_ctrs c2 h)"
      using missR [OF False] by metis
    obtain c3 where c3: "ho_try_Req p g RR_R h = Inr (None, ho_ctrs c3 h)" using R(2) [OF False] by metis
    show ?thesis
    proof (cases "ho_can_RWD p g h")
      case True
      show ?thesis
        by (cases "ho_pkr2_state h") (use True False arb in \<open>simp_all add: get c hitW rwd\<close>)
    next
      case none2: False
      show ?thesis
        by (cases "ho_pkr2_state h") (use none2 False arb in \<open>simp_all add: get c c3 missW Wn none\<close>)
    qed
  qed
qed

section \<open>What one iteration does\<close>

definition ho_pending :: "CXLHost \<Rightarrow> (u64 \<times> u64 \<times> opcode) multiset" where
  "ho_pending h = vcs_msgs (ho_M2S_Req h) + vcs_msgs (ho_M2S_RWD h) + mset (flit_msgs (ho_flit_to_pack h))"

definition ho_Reqs :: "CXLHost \<Rightarrow> int" where
  "ho_Reqs h = int (size (vcs_msgs (ho_M2S_Req h)))"

definition ho_RWDs :: "CXLHost \<Rightarrow> int" where
  "ho_RWDs h = int (size (vcs_msgs (ho_M2S_RWD h)))"

definition ho_credits_nonneg :: "CXLHost \<Rightarrow> bool" where
  "ho_credits_nonneg h \<longleftrightarrow> sm_ok (ho_ext_creds h) \<and>
     (\<forall>e \<in> set (ho_ext_creds h). 0 \<le> req_credit (snd e) \<and> 0 \<le> data_credit (snd e)) \<and>
     0 \<le> rsp_credit (ho_int_cred h) \<and> 0 \<le> data_credit (ho_int_cred h)"

text \<open>Every used slot of the flit, and the header whose data is owed, belong to the device
  under consideration.\<close>

definition ho_one_device :: "CXLHost \<Rightarrow> bool" where
  "ho_one_device h \<longleftrightarrow>
     (\<forall>s \<in> set (fl_slots (ho_flit_to_pack h)). sl_type s \<noteq> empty \<longrightarrow>
        destination_device h (address (sl_msg s)) = Inr (ho_device_under_consideration h)) \<and>
     (ho_packer_rollover h \<noteq> 0 \<longrightarrow>
        destination_device h (address (ho_last_rwd_hdr h)) = Inr (ho_device_under_consideration h))"

text \<open>The fields that the packing loop neither reads for its decisions nor writes.\<close>

definition ho_rest where
  "ho_rest h =
     ((ho_tx_buffer h, ho_rx_buffer h, ho_address_intervals h, ho_connected_devices h, ho_cur_Req_vc h,
       ho_cur_RWD_vc h, ho_S2M_NDR h, ho_S2M_DRS h, ho_unpacker_rollover h, ho_last_drs_hdr h,
       ho_last_transmitted_at h, ho_rcvd_rsp_state h),
      (ho_trace_in h, ho_is_trace_finished h, ho_text_to_trace_buf h, ho_is_packer_waiting h,
       ho_started_packing_at h, ho_packer_wait_time h, ho_last_text_to_trace_buf_dequeue h,
       ho_DAM h, ho_DAM_addr h, ho_messages_sent_to_device h, ho_reqs_in_dam h))"

lemma ho_rest_simps [simp]:
  "ho_rest (h\<lparr>ho_M2S_Req := x1\<rparr>) = ho_rest h" "ho_rest (h\<lparr>ho_M2S_RWD := x1\<rparr>) = ho_rest h"
  "ho_rest (h\<lparr>ho_ext_creds := x2\<rparr>) = ho_rest h" "ho_rest (h\<lparr>ho_int_cred := x3\<rparr>) = ho_rest h"
  "ho_rest (h\<lparr>ho_packer_cur_vc := x4\<rparr>) = ho_rest h" "ho_rest (h\<lparr>ho_flit_to_pack := x5\<rparr>) = ho_rest h"
  "ho_rest (h\<lparr>ho_pkr2_state := x6\<rparr>) = ho_rest h" "ho_rest (h\<lparr>ho_packer_rollover := x7\<rparr>) = ho_rest h"
  "ho_rest (h\<lparr>ho_last_rwd_hdr := x8\<rparr>) = ho_rest h" "ho_rest (ho_set_cred dd cr h) = ho_rest h"
  "ho_rest (h\<lparr>ho_device_under_consideration := x9\<rparr>) = ho_rest h" "ho_rest (ho_ctrs c h) = ho_rest h"
  by (simp_all add: ho_rest_def ho_set_cred_def ho_ctrs_def)

definition ho_pack_inv :: "CXLHost \<Rightarrow> CXLHost \<Rightarrow> bool" where
  "ho_pack_inv h0 h \<longleftrightarrow> ho_typed h \<and> ho_rest h = ho_rest h0 \<and> ho_credits_nonneg h \<and>
     map fst (ho_ext_creds h) = map fst (ho_ext_creds h0) \<and>
     req_credit (ho_int_cred h) = req_credit (ho_int_cred h0) \<and>
     rsp_credit (ho_int_cred h) - ho_RWDs h = rsp_credit (ho_int_cred h0) - ho_RWDs h0 \<and>
     data_credit (ho_int_cred h) - ho_Reqs h = data_credit (ho_int_cred h0) - ho_Reqs h0 \<and>
     ho_RWDs h \<le> ho_RWDs h0 \<and> ho_Reqs h \<le> ho_Reqs h0 \<and>
     ho_one_device h \<and>
     (ho_device_under_consideration h0 \<noteq> NO_DEVICE \<longrightarrow>
        ho_device_under_consideration h = ho_device_under_consideration h0) \<and>
     ho_pending h = ho_pending h0"

lemma ho_pack_inv_refl: "ho_typed h \<Longrightarrow> ho_credits_nonneg h \<Longrightarrow> ho_one_device h \<Longrightarrow> ho_pack_inv h h"
  by (simp add: ho_pack_inv_def)

lemmas ho_view_defs = ho_pending_def ho_Reqs_def ho_RWDs_def

lemma routes_cong:
  assumes "ho_address_intervals h' = ho_address_intervals h" "map fst (ho_ext_creds h') = map fst (ho_ext_creds h)"
  shows "routes h' = routes h" and "vcs_route h' = vcs_route h"
proof -
  have "sm_find (ho_ext_creds h') d \<noteq> None \<longleftrightarrow> sm_find (ho_ext_creds h) d \<noteq> None" for d
    using arg_cong [OF assms(2), of set] by (auto simp: sm_find_def map_of_eq_None_iff)
  then show "routes h' = routes h"
    by (simp add: routes_def on_dest_iff fun_eq_iff destination_cong [OF assms(1)])
  then show "vcs_route h' = vcs_route h" by (simp add: vcs_route_def fun_eq_iff)
qed

lemma ho_cred_nonneg: "ho_credits_nonneg h \<Longrightarrow> 0 \<le> req_credit (ho_cred h d) \<and> 0 \<le> data_credit (ho_cred h d)"
  by (auto simp: ho_credits_nonneg_def ho_cred_def sm_get_def sm_find_def zero_credits_def
      dest!: map_of_SomeD split: option.splits)

lemma ho_cred_set [simp]: "ho_cred (ho_set_cred d c h) d' = (if d' = d then c else ho_cred h d')"
  by (simp add: ho_cred_def ho_set_cred_def sm_get_def)

text \<open>Owed data fills the slot.\<close>

lemma put_data_slots:
  assumes "i < length (fl_slots f)"
  shows "s \<in> set (fl_slots (put_data i m f)) \<Longrightarrow> s \<in> set (fl_slots f) \<or> address (sl_msg s) = address m"
    and "s \<in> set (fl_slots (put_message i t m f)) \<Longrightarrow> s \<in> set (fl_slots f) \<or> address (sl_msg s) = address m"
  by (auto simp: put_data_def put_message_def dest!: subsetD [OF set_update_subset_insert])

lemma ho_pack_inv_data:
  assumes inv: "ho_pack_inv h0 h" and "i < 4" "types (ho_flit_to_pack h) ! i = empty" "ho_packer_rollover h \<noteq> 0"
  shows "ho_pack_inv h0 ((ho_put_data i h)\<lparr>ho_packer_rollover := r\<rparr>)"
proof -
  have len: "i < length (fl_slots (ho_flit_to_pack h))"
    using inv assms(2) by (simp add: ho_pack_inv_def ho_typed_def types_def)
  let ?h = "(ho_put_data i h)\<lparr>ho_packer_rollover := r\<rparr>"
  have dest: "destination_device ?h = destination_device h" by (rule destination_cong) (simp add: ho_put_data_def)
  have route: "vcs_route ?h = vcs_route h" by (rule routes_cong) (simp_all add: ho_put_data_def)
  have one: "ho_one_device ?h"
    using inv assms(4) put_data_slots(1) [OF len]
    unfolding ho_pack_inv_def ho_one_device_def dest by (fastforce simp: ho_put_data_def)
  show ?thesis
    using inv assms(2,3) one
    by (simp add: ho_pack_inv_def ho_typed_def route [unfolded ho_put_data_def] ho_put_data_def ho_view_defs
        ho_credits_nonneg_def msgs_put_data)
qed

text \<open>A message leaves its channel for the slot and costs one credit on each side.\<close>

definition ho_pack_Req :: "nat \<Rightarrow> nat \<Rightarrow> int \<Rightarrow> CXLHost \<Rightarrow> CXLHost" where
  "ho_pack_Req i v dest h =
     (let h = h\<lparr>ho_flit_to_pack := put_message i m2s_req (hd (buf_q (ho_M2S_Req h ! v))) (ho_flit_to_pack h)\<rparr>;
          h = ho_set_cred dest ((ho_cred h dest)\<lparr>req_credit := req_credit (ho_cred h dest) - 1\<rparr>) h;
          h = h\<lparr>ho_M2S_Req := vc_pop (ho_M2S_Req h) v\<rparr>
      in h\<lparr>ho_int_cred := (ho_int_cred h)\<lparr>data_credit := data_credit (ho_int_cred h) - 1\<rparr>\<rparr>)"

definition ho_pack_RWD :: "nat \<Rightarrow> nat \<Rightarrow> int \<Rightarrow> CXLHost \<Rightarrow> CXLHost" where
  "ho_pack_RWD i v dest h =
     (let m = hd (buf_q (ho_M2S_RWD h ! v));
          h = h\<lparr>ho_last_rwd_hdr := m, ho_flit_to_pack := put_message i m2s_rwd_hdr m (ho_flit_to_pack h), ho_packer_rollover := 4\<rparr>;
          h = ho_set_cred dest ((ho_cred h dest)\<lparr>data_credit := data_credit (ho_cred h dest) - 1\<rparr>) h;
          h = h\<lparr>ho_int_cred := (ho_int_cred h)\<lparr>rsp_credit := rsp_credit (ho_int_cred h) - 1\<rparr>\<rparr>
      in h\<lparr>ho_M2S_RWD := vc_pop (ho_M2S_RWD h) v\<rparr>)"

text \<open>Choosing a message fixes the device.\<close>

definition ho_chosen :: "credit_ctrs \<Rightarrow> nat \<Rightarrow> round_robin_state \<Rightarrow> int \<Rightarrow> CXLHost \<Rightarrow> CXLHost" where
  "ho_chosen c n s dest h =
     (ho_ctrs c h)\<lparr>ho_packer_cur_vc := n, ho_pkr2_state := s, ho_device_under_consideration := dest\<rparr>"

lemma ho_chosen_frame [simp]:
  "ho_address_intervals (ho_chosen c n s dest h) = ho_address_intervals h"
  "ho_ext_creds (ho_chosen c n s dest h) = ho_ext_creds h" "ho_int_cred (ho_chosen c n s dest h) = ho_int_cred h"
  "ho_device_under_consideration (ho_chosen c n s dest h) = dest"
  "ho_M2S_Req (ho_chosen c n s dest h) = ho_M2S_Req h" "ho_M2S_RWD (ho_chosen c n s dest h) = ho_M2S_RWD h"
  "ho_flit_to_pack (ho_chosen c n s dest h) = ho_flit_to_pack h" "ho_pkr2_state (ho_chosen c n s dest h) = s"
  "ho_packer_rollover (ho_chosen c n s dest h) = ho_packer_rollover h"
  "ho_last_rwd_hdr (ho_chosen c n s dest h) = ho_last_rwd_hdr h" "ho_rest (ho_chosen c n s dest h) = ho_rest h"
  "ho_cred (ho_chosen c n s dest h) = ho_cred h"
  "destination_device (ho_chosen c n s dest h) = destination_device h"
  by (simp_all add: ho_chosen_def ho_cred_def fun_eq_iff) (simp add: destination_device_def)

lemma destination_interval:
  assumes "destination_device h a = Inr d"
  shows "\<exists>iv \<in> set (ho_address_intervals h). d = node_key (fst iv)"
proof (cases "find (\<lambda>(_, lo, hi). a < hi \<and> a \<ge> lo) (ho_address_intervals h)")
  case None
  then show ?thesis using assms by (simp add: destination_device_def)
next
  case (Some iv)
  then have "iv \<in> set (ho_address_intervals h)" by (metis find_Some_iff nth_mem)
  moreover have "d = node_key (fst iv)" using assms Some by (simp add: destination_device_def case_prod_beta)
  ultimately show ?thesis by blast
qed

lemma pack_inv_chosen:
  assumes inv: "ho_pack_inv h0 h" and dest: "ho_for_device h dest"
  shows "ho_pack_inv h0 (ho_chosen c n s dest h)"
proof -
  let ?h = "ho_chosen c n s dest h"
  have route: "vcs_route ?h = vcs_route h" by (rule routes_cong) simp_all
  have no: "destination_device h a \<noteq> Inr NO_DEVICE" for a
    using inv destination_interval [of h a NO_DEVICE] by (auto simp: ho_pack_inv_def ho_typed_def)
  have "ho_one_device ?h"
    using inv dest no by (auto simp: ho_pack_inv_def ho_one_device_def ho_for_device_def)
  then show ?thesis
    using inv dest by (auto simp: ho_pack_inv_def ho_typed_def route ho_view_defs ho_credits_nonneg_def ho_for_device_def)
qed

lemma pack_Req_frame [simp]:
  "ho_address_intervals (ho_pack_Req i v dest h) = ho_address_intervals h"
  "ho_rest (ho_pack_Req i v dest h) = ho_rest h"
  "ho_M2S_RWD (ho_pack_Req i v dest h) = ho_M2S_RWD h" "ho_M2S_Req (ho_pack_Req i v dest h) = vc_pop (ho_M2S_Req h) v"
  "ho_packer_rollover (ho_pack_Req i v dest h) = ho_packer_rollover h"
  "ho_pkr2_state (ho_pack_Req i v dest h) = ho_pkr2_state h"
  "ho_last_rwd_hdr (ho_pack_Req i v dest h) = ho_last_rwd_hdr h"
  "ho_device_under_consideration (ho_pack_Req i v dest h) = ho_device_under_consideration h"
  "ho_int_cred (ho_pack_Req i v dest h) = (ho_int_cred h)\<lparr>data_credit := data_credit (ho_int_cred h) - 1\<rparr>"
  "ho_ext_creds (ho_pack_Req i v dest h) = sm_put dest ((ho_cred h dest)\<lparr>req_credit := req_credit (ho_cred h dest) - 1\<rparr>) (ho_ext_creds h)"
  "ho_flit_to_pack (ho_pack_Req i v dest h) = put_message i m2s_req (hd (buf_q (ho_M2S_Req h ! v))) (ho_flit_to_pack h)"
  by (simp_all add: ho_pack_Req_def Let_def ho_set_cred_def ho_cred_def)

lemma pack_RWD_frame [simp]:
  "ho_address_intervals (ho_pack_RWD i v dest h) = ho_address_intervals h"
  "ho_rest (ho_pack_RWD i v dest h) = ho_rest h"
  "ho_M2S_Req (ho_pack_RWD i v dest h) = ho_M2S_Req h" "ho_M2S_RWD (ho_pack_RWD i v dest h) = vc_pop (ho_M2S_RWD h) v"
  "ho_packer_rollover (ho_pack_RWD i v dest h) = 4" "ho_pkr2_state (ho_pack_RWD i v dest h) = ho_pkr2_state h"
  "ho_last_rwd_hdr (ho_pack_RWD i v dest h) = hd (buf_q (ho_M2S_RWD h ! v))"
  "ho_device_under_consideration (ho_pack_RWD i v dest h) = ho_device_under_consideration h"
  "ho_int_cred (ho_pack_RWD i v dest h) = (ho_int_cred h)\<lparr>rsp_credit := rsp_credit (ho_int_cred h) - 1\<rparr>"
  "ho_ext_creds (ho_pack_RWD i v dest h) = sm_put dest ((ho_cred h dest)\<lparr>data_credit := data_credit (ho_cred h dest) - 1\<rparr>) (ho_ext_creds h)"
  "ho_flit_to_pack (ho_pack_RWD i v dest h) = put_message i m2s_rwd_hdr (hd (buf_q (ho_M2S_RWD h ! v))) (ho_flit_to_pack h)"
  by (simp_all add: ho_pack_RWD_def Let_def ho_set_cred_def ho_cred_def)

text \<open>The effect of taking one credit.\<close>

lemma spend_nonneg:
  assumes "ho_credits_nonneg h" "0 \<le> req_credit c" "0 \<le> data_credit c"
  shows "sm_ok (sm_put dest c (ho_ext_creds h))"
    and "\<forall>e \<in> set (sm_put dest c (ho_ext_creds h)). 0 \<le> req_credit (snd e) \<and> 0 \<le> data_credit (snd e)"
  using assms set_sm_put [of dest c "ho_ext_creds h"] by (auto simp: ho_credits_nonneg_def)

lemma vcs_route_pop: "vcs_route h vcs \<Longrightarrow> i < length vcs \<Longrightarrow> vcs_route h (vc_pop vcs i)"
  unfolding vcs_route_def vc_pop_def
  by (auto dest!: subsetD [OF set_update_subset_insert] intro: list.set_sel(2)) (metis list.set_sel(2) nth_mem tl_Nil)

lemma pack_inv_Req:
  assumes inv: "ho_pack_inv h0 h" and i: "i < 4" "types (ho_flit_to_pack h) ! i = empty"
    and v: "v < 4" "\<not> is_buf_empty (ho_M2S_Req h ! v)"
    and dest: "destination_device h (address (hd (buf_q (ho_M2S_Req h ! v)))) = Inr dest"
      "ho_device_under_consideration h = dest" "req_credit (ho_cred h dest) \<noteq> 0"
    and c: "data_credit (ho_int_cred h) \<noteq> 0"
  shows "ho_pack_inv h0 (ho_pack_Req i v dest h)"
proof -
  let ?h = "ho_pack_Req i v dest h"
  have typed: "ho_typed h" and len: "length (ho_M2S_Req h) = 4" "length (types (ho_flit_to_pack h)) = 4"
    and nn: "ho_credits_nonneg h"
    using inv by (simp_all add: ho_pack_inv_def ho_typed_def vcs_carry_def)
  obtain d' where "destination_device h (address (hd (buf_q (ho_M2S_Req h ! v)))) = Inr d'"
    "sm_find (ho_ext_creds h) d' \<noteq> None"
    by (rule vcs_route_hd [of h "ho_M2S_Req h" v]) (use typed v len in \<open>simp_all add: ho_typed_def\<close>)
  with dest(1) have key: "sm_find (ho_ext_creds h) dest \<noteq> None" by simp
  have "0 \<le> req_credit (ho_cred h dest) \<and> 0 \<le> data_credit (ho_cred h dest)" by (rule ho_cred_nonneg [OF nn])
  with dest(3) have sp: "0 \<le> req_credit ((ho_cred h dest)\<lparr>req_credit := req_credit (ho_cred h dest) - 1\<rparr>)"
    "0 \<le> data_credit ((ho_cred h dest)\<lparr>req_credit := req_credit (ho_cred h dest) - 1\<rparr>)" by simp_all
  have keys: "map fst (ho_ext_creds ?h) = map fst (ho_ext_creds h)"
    using map_fst_sm_put [OF key] nn by (simp add: ho_credits_nonneg_def)
  have dd: "destination_device ?h = destination_device h" by (rule destination_cong) simp
  have route: "vcs_route ?h = vcs_route h" by (rule routes_cong) (use keys in simp_all)
  have one: "ho_one_device ?h"
    using inv dest(1,2) put_data_slots(2) [of i "ho_flit_to_pack h"] len(2) i(1)
    unfolding ho_pack_inv_def ho_one_device_def dd by (fastforce simp: types_def)
  have "ho_typed ?h"
    using typed v len i
    by (simp add: ho_typed_def route vcs_carry_pop vcs_route_pop)
  moreover have "ho_credits_nonneg ?h"
    using spend_nonneg [OF nn sp, of dest] nn c by (simp add: ho_credits_nonneg_def)
  ultimately show ?thesis
    using inv keys one vcs_msgs_pop [of v "ho_M2S_Req h"] v len i
    by (simp add: ho_pack_inv_def ho_view_defs msgs_put_message)
qed

lemma pack_inv_RWD:
  assumes inv: "ho_pack_inv h0 h" and i: "i < 4" "types (ho_flit_to_pack h) ! i = empty"
    and v: "v < 4" "\<not> is_buf_empty (ho_M2S_RWD h ! v)"
    and dest: "destination_device h (address (hd (buf_q (ho_M2S_RWD h ! v)))) = Inr dest"
      "ho_device_under_consideration h = dest" "data_credit (ho_cred h dest) \<noteq> 0"
    and c: "rsp_credit (ho_int_cred h) \<noteq> 0"
  shows "ho_pack_inv h0 (ho_pack_RWD i v dest h)"
proof -
  let ?h = "ho_pack_RWD i v dest h"
  have typed: "ho_typed h" and len: "length (ho_M2S_RWD h) = 4" "length (types (ho_flit_to_pack h)) = 4"
    and nn: "ho_credits_nonneg h"
    using inv by (simp_all add: ho_pack_inv_def ho_typed_def vcs_carry_def)
  obtain d' where "destination_device h (address (hd (buf_q (ho_M2S_RWD h ! v)))) = Inr d'"
    "sm_find (ho_ext_creds h) d' \<noteq> None"
    by (rule vcs_route_hd [of h "ho_M2S_RWD h" v]) (use typed v len in \<open>simp_all add: ho_typed_def\<close>)
  with dest(1) have key: "sm_find (ho_ext_creds h) dest \<noteq> None" by simp
  have "0 \<le> req_credit (ho_cred h dest) \<and> 0 \<le> data_credit (ho_cred h dest)" by (rule ho_cred_nonneg [OF nn])
  with dest(3) have sp: "0 \<le> req_credit ((ho_cred h dest)\<lparr>data_credit := data_credit (ho_cred h dest) - 1\<rparr>)"
    "0 \<le> data_credit ((ho_cred h dest)\<lparr>data_credit := data_credit (ho_cred h dest) - 1\<rparr>)" by simp_all
  have keys: "map fst (ho_ext_creds ?h) = map fst (ho_ext_creds h)"
    using map_fst_sm_put [OF key] nn by (simp add: ho_credits_nonneg_def)
  have dd: "destination_device ?h = destination_device h" by (rule destination_cong) simp
  have route: "vcs_route ?h = vcs_route h" by (rule routes_cong) (use keys in simp_all)
  have one: "ho_one_device ?h"
    using inv dest(1,2) put_data_slots(2) [of i "ho_flit_to_pack h"] len(2) i(1)
    unfolding ho_pack_inv_def ho_one_device_def dd by (fastforce simp: types_def)
  have "ho_typed ?h"
    using typed v len i
    by (simp add: ho_typed_def route vcs_carry_pop vcs_route_pop)
  moreover have "ho_credits_nonneg ?h"
    using spend_nonneg [OF nn sp, of dest] nn c by (simp add: ho_credits_nonneg_def)
  ultimately show ?thesis
    using inv keys one vcs_msgs_pop [of v "ho_M2S_RWD h"] v len i
    by (simp add: ho_pack_inv_def ho_view_defs msgs_put_message)
qed

lemma ho_readyE:
  assumes "ho_ready p g h cr vc"
  obtains dest where "\<not> is_buf_empty vc" "destination_device h (address (hd (buf_q vc))) = Inr dest"
    "ho_for_device h dest" "cr (ho_cred h dest) \<noteq> 0"
  using assms by (auto simp: ho_ready_def ho_due_def on_dest_iff)

lemma pack_slot_Req:
  assumes typed: "ho_typed h" and i: "types (ho_flit_to_pack h) ! i = empty" "i < 4"
      "\<not> (ho_packer_rollover h \<noteq> 0 \<and> i \<noteq> 0)"
    and get: "ho_get_msg_from_vcs p g h = Inr (Some (VC_Req v), (ho_ctrs c h)\<lparr>ho_packer_cur_vc := n, ho_pkr2_state := s\<rparr>)"
    and v: "v < 4" "\<not> is_buf_empty (ho_M2S_Req h ! v)"
      "destination_device h (address (hd (buf_q (ho_M2S_Req h ! v)))) = Inr dest" "ho_for_device h dest"
  shows "ho_pack_slot p g i h =
    (if slot_count_in_flit (ho_flit_to_pack h) m2s_req \<le> 1
     then Inr (True, ho_pack_Req i v dest (ho_chosen c n s dest h)) else Inr (True, ho_chosen c n s dest h))"
proof -
  let ?h = "(ho_ctrs c h)\<lparr>ho_packer_cur_vc := n, ho_pkr2_state := s\<rparr>"
  let ?m = "hd (buf_q (ho_M2S_Req h ! v))"
  have oc: "opCode ?m = Req" using typed v by (simp add: ho_typed_def vcs_carry_hd)
  have e: "sl_type (fl_slots (ho_flit_to_pack h) ! i) = empty"
    using typed i(1,2) by (simp add: ho_typed_def types_def)
  have dd: "destination_device ?h = destination_device h" by (rule destination_cong) simp
  have dev: "(if ho_device_under_consideration ?h = NO_DEVICE then destination_device ?h (address ?m)
          else Inr (ho_device_under_consideration ?h)) = Inr dest"
    using v(3,4) by (auto simp: dd ho_for_device_def)
  have ch: "?h\<lparr>ho_device_under_consideration := dest\<rparr> = ho_chosen c n s dest h" by (simp add: ho_chosen_def)
  have place: "ho_place_req i (VC_Req v) ?m (ho_chosen c n s dest h) = Inr (ho_pack_Req i v dest (ho_chosen c n s dest h))"
  proof -
    let ?c = "ho_chosen c n s dest h"
    have "destination_device (?c\<lparr>ho_flit_to_pack := put_message i m2s_req ?m (ho_flit_to_pack ?c)\<rparr>) = destination_device h"
      by (rule destination_cong) simp
    then show ?thesis using v(2,3)
      by (simp add: ho_place_req_def ho_pack_Req_def Let_def vc_pop_def ho_set_cred_def ho_cred_def)
  qed
  have head: "get_head (ho_vc_buf (VC_Req v) ?h) = Inr ?m" using v(2) by simp
  show ?thesis
    unfolding ho_pack_slot_def get bind_r_simps case_prod_conv option.case head dev Let_def ch oc opcode.case
    using e i(3) by (auto simp: place)
qed

lemma pack_slot_RWD:
  assumes typed: "ho_typed h" and i: "types (ho_flit_to_pack h) ! i = empty" "i < 4"
      "\<not> (ho_packer_rollover h \<noteq> 0 \<and> i \<noteq> 0)"
    and get: "ho_get_msg_from_vcs p g h = Inr (Some (VC_RWD v), (ho_ctrs c h)\<lparr>ho_packer_cur_vc := n, ho_pkr2_state := s\<rparr>)"
    and v: "v < 4" "\<not> is_buf_empty (ho_M2S_RWD h ! v)"
      "destination_device h (address (hd (buf_q (ho_M2S_RWD h ! v)))) = Inr dest" "ho_for_device h dest"
  shows "ho_pack_slot p g i h =
    (let f = ho_flit_to_pack h
     in if slot_count_in_flit f m2s_rwd_hdr = 0 \<and> (i = 0 \<or> are_all_slots_after_this_empty f i)
        then Inr (True, ho_pack_RWD i v dest (ho_chosen c n s dest h)) else Inr (True, ho_chosen c n s dest h))"
proof -
  let ?h = "(ho_ctrs c h)\<lparr>ho_packer_cur_vc := n, ho_pkr2_state := s\<rparr>"
  let ?m = "hd (buf_q (ho_M2S_RWD h ! v))"
  have oc: "opCode ?m = RwD" using typed v by (simp add: ho_typed_def vcs_carry_hd)
  have e: "sl_type (fl_slots (ho_flit_to_pack h) ! i) = empty"
    using typed i(1,2) by (simp add: ho_typed_def types_def)
  have dd: "destination_device ?h = destination_device h" by (rule destination_cong) simp
  have dev: "(if ho_device_under_consideration ?h = NO_DEVICE then destination_device ?h (address ?m)
          else Inr (ho_device_under_consideration ?h)) = Inr dest"
    using v(3,4) by (auto simp: dd ho_for_device_def)
  have ch: "?h\<lparr>ho_device_under_consideration := dest\<rparr> = ho_chosen c n s dest h" by (simp add: ho_chosen_def)
  have place: "ho_place_rwd i (VC_RWD v) ?m (ho_chosen c n s dest h) = Inr (ho_pack_RWD i v dest (ho_chosen c n s dest h))"
  proof -
    let ?c = "ho_chosen c n s dest h"
    have "destination_device (?c\<lparr>ho_last_rwd_hdr := ?m,
        ho_flit_to_pack := put_message i m2s_rwd_hdr ?m (ho_flit_to_pack ?c), ho_packer_rollover := 4\<rparr>) = destination_device h"
      by (rule destination_cong) simp
    then show ?thesis using v(2,3)
      by (simp add: ho_place_rwd_def ho_pack_RWD_def Let_def vc_pop_def ho_set_cred_def ho_cred_def)
  qed
  have head: "get_head (ho_vc_buf (VC_RWD v) ?h) = Inr ?m" using v(2) by simp
  show ?thesis
    unfolding ho_pack_slot_def get bind_r_simps case_prod_conv option.case head dev Let_def ch oc opcode.case
    using e i(3) by (auto simp: place)
qed

lemma can_RWD_mono:
  assumes "ho_M2S_RWD h' = ho_M2S_RWD h" "ho_address_intervals h' = ho_address_intervals h"
    "rsp_credit (ho_int_cred h') = rsp_credit (ho_int_cred h)"
    "\<And>d. data_credit (ho_cred h' d) = data_credit (ho_cred h d)"
    "ho_for_device h (ho_device_under_consideration h')" "ho_device_under_consideration h' \<noteq> NO_DEVICE"
  shows "ho_can_RWD p g h' \<Longrightarrow> ho_can_RWD p g h"
  using assms by (auto simp: ho_can_RWD_def ho_ready_def on_dest_iff destination_cong [OF assms(2)] ho_for_device_def)

lemma ho_pack_views:
  "ho_kinds (ho_pack_Req i v dest h) = (ho_kinds h)[i := KSmall]"
  "ho_kinds (ho_pack_RWD i v dest h) = (ho_kinds h)[i := KHdr]"
  "ho_kinds (ho_chosen c n s dest h) = ho_kinds h"
  by simp_all

lemma pack_inv_ctrs: "ho_pack_inv h0 h \<Longrightarrow> ho_pack_inv h0 (ho_ctrs c h)"
  by (simp add: ho_pack_inv_def ho_view_defs ho_credits_nonneg_def ho_one_device_def)

lemma ho_pack_slot_sim:
  assumes inv: "ho_pack_inv h0 h" and arb: "ho_pkr2_state h \<noteq> RR_W" and i: "i < 4"
  shows "\<exists>go h'. ho_pack_slot p g i h = Inr (go, h') \<and> ho_pack_inv h0 h' \<and>
    (ho_kinds h', ho_packer_rollover h', ho_pkr2_state h', go) =
      pack_step (ho_can_Req p g h) (ho_can_RWD p g h) i
        (ho_kinds h, ho_packer_rollover h, ho_pkr2_state h, True) \<and>
    ((ho_can_RWD p g h' \<longrightarrow> ho_can_RWD p g h) \<or> ho_packer_rollover h' = 4)"
proof -
  let ?f = "ho_flit_to_pack h"
  have typed: "ho_typed h" and len: "length (types ?f) = 4"
    using inv by (simp_all add: ho_pack_inv_def ho_typed_def)
  have slot: "sl_type (fl_slots ?f ! i) = types ?f ! i"
    using len i by (simp add: types_def)
  note kinds = hok.kinds_empty hok.kinds_counts hok.kinds_after [OF len] len i pack_step.simps
  show ?thesis
  proof (cases "types ?f ! i = empty")
    case False
    then show ?thesis using inv by (auto simp: ho_pack_slot_def slot kinds)
  next
    case empty: True
    show ?thesis
    proof (cases "ho_packer_rollover h \<noteq> 0 \<and> i \<noteq> 0")
      case True
      let ?h = "(ho_put_data i h)\<lparr>ho_packer_rollover := ho_packer_rollover h - 1\<rparr>"
      have "ho_can_RWD p g ?h = ho_can_RWD p g h"
        by (simp add: ho_can_RWD_def ho_ready_def on_dest_iff ho_put_data_def ho_for_device_def ho_cred_def
            destination_device_def)
      moreover have "ho_kinds ?h = (ho_kinds h)[i := KData]" by (simp add: ho_put_data_def)
      moreover have "ho_pkr2_state ?h = ho_pkr2_state h" by (simp add: ho_put_data_def)
      moreover have "ho_pack_slot p g i h = Inr (True, ?h)" using True empty by (simp add: ho_pack_slot_def slot)
      ultimately show ?thesis
        using ho_pack_inv_data [OF inv i empty] True empty by (auto simp: kinds)
    next
      case ask: False
      let ?pick = "pick (ho_pkr2_state h) (ho_can_Req p g h) (ho_can_RWD p g h)"
      note got = ho_get_msg_pick [OF typed arb, of p g]
      consider "?pick = None" | (S) s where "?pick = Some (KSmall, s)" "ho_can_Req p g h"
        | (H) s where "?pick = Some (KHdr, s)" "ho_can_RWD p g h"
        by (rule pick_cases)
      then show ?thesis
      proof cases
        case 1
        then obtain c where "ho_get_msg_from_vcs p g h = Inr (None, ho_ctrs c h)"
          using got by (auto elim: ho_msg_got_None)
        then have "ho_pack_slot p g i h = Inr (False, ho_ctrs c h)" using ask empty by (auto simp: ho_pack_slot_def slot)
        moreover have "ho_pack_inv h0 (ho_ctrs c h)" by (rule pack_inv_ctrs [OF inv])
        moreover have "ho_pkr2_state (ho_ctrs c h) = ho_pkr2_state h" by (simp add: ho_ctrs_def)
        ultimately show ?thesis using 1 ask empty by (auto simp: kinds)
      next
        case S
        then obtain v c n where v: "v < 4" "ho_ready p g h req_credit (ho_M2S_Req h ! v)"
          and get: "ho_get_msg_from_vcs p g h = Inr (Some (VC_Req v), (ho_ctrs c h)\<lparr>ho_packer_cur_vc := n, ho_pkr2_state := s\<rparr>)"
          using got by (auto elim: ho_msg_got_small)
        obtain dest where d: "\<not> is_buf_empty (ho_M2S_Req h ! v)"
          "destination_device h (address (hd (buf_q (ho_M2S_Req h ! v)))) = Inr dest"
          "ho_for_device h dest" "req_credit (ho_cred h dest) \<noteq> 0" by (rule ho_readyE [OF v(2)])
        let ?c = "ho_chosen c n s dest h"
        have cinv: "ho_pack_inv h0 ?c" by (rule pack_inv_chosen [OF inv d(3)])
        have pinv: "ho_pack_inv h0 (ho_pack_Req i v dest ?c)"
          by (rule pack_inv_Req [OF cinv i]) (use empty v(1) d S(2) in \<open>simp_all add: ho_can_Req_def\<close>)
        have nd: "dest \<noteq> NO_DEVICE"
          using typed destination_interval [OF d(2)] by (auto simp: ho_typed_def)
        have m1: "ho_can_RWD p g ?c \<Longrightarrow> ho_can_RWD p g h" by (rule can_RWD_mono) (use d(3) nd in simp_all)
        have m2: "ho_can_RWD p g (ho_pack_Req i v dest ?c) \<Longrightarrow> ho_can_RWD p g h"
          by (rule can_RWD_mono) (use d(3) nd in \<open>simp_all add: ho_cred_def sm_get_def\<close>)
        show ?thesis
          using pack_slot_Req [OF typed empty i ask get v(1) d(1-3)] S(1) ask empty cinv pinv m1 m2
          by (auto simp: kinds ho_pack_views)
      next
        case H
        then obtain v c n where v: "v < 4" "ho_ready p g h data_credit (ho_M2S_RWD h ! v)"
          and get: "ho_get_msg_from_vcs p g h = Inr (Some (VC_RWD v), (ho_ctrs c h)\<lparr>ho_packer_cur_vc := n, ho_pkr2_state := s\<rparr>)"
          using got by (auto elim: ho_msg_got_hdr)
        obtain dest where d: "\<not> is_buf_empty (ho_M2S_RWD h ! v)"
          "destination_device h (address (hd (buf_q (ho_M2S_RWD h ! v)))) = Inr dest"
          "ho_for_device h dest" "data_credit (ho_cred h dest) \<noteq> 0" by (rule ho_readyE [OF v(2)])
        let ?c = "ho_chosen c n s dest h"
        have cinv: "ho_pack_inv h0 ?c" by (rule pack_inv_chosen [OF inv d(3)])
        have pinv: "ho_pack_inv h0 (ho_pack_RWD i v dest ?c)"
          by (rule pack_inv_RWD [OF cinv i]) (use empty v(1) d H(2) in \<open>simp_all add: ho_can_RWD_def\<close>)
        have nd: "dest \<noteq> NO_DEVICE"
          using typed destination_interval [OF d(2)] by (auto simp: ho_typed_def)
        have m1: "ho_can_RWD p g ?c \<Longrightarrow> ho_can_RWD p g h" by (rule can_RWD_mono) (use d(3) nd in simp_all)
        show ?thesis
          using pack_slot_RWD [OF typed empty i ask get v(1) d(1-3)] H(1) ask empty cinv pinv m1
          by (auto simp: kinds ho_pack_views Let_def)
      qed
    qed
  qed
qed

interpretation hop: slot_packer "ho_pack_slot p g" "ho_pack_loop p g" ho_kinds ho_packer_rollover
  ho_pkr2_state "ho_can_Req p g" "ho_can_RWD p g" "ho_pack_inv h0" for p g h0
proof unfold_locales
  fix h assume "ho_pack_inv h0 h"
  then show "length (ho_kinds h) = 4" by (simp add: ho_pack_inv_def ho_typed_def hok.kinds_length)
qed (use ho_pack_slot_sim in auto)

section \<open>The invariant of the packer\<close>

definition ho_credit_ok :: "CXLHost \<Rightarrow> bool" where
  "ho_credit_ok h \<longleftrightarrow> ho_credits_nonneg h \<and> req_credit (ho_int_cred h) = 0 \<and>
     rsp_credit (ho_int_cred h) \<le> buf_size (ho_S2M_NDR h) \<and>
     data_credit (ho_int_cred h) \<le> buf_size (ho_S2M_DRS h)"

definition ho_carry :: "CXLHost \<Rightarrow> int" where
  "ho_carry h = (if ho_is_packer_waiting h then carry (ho_kinds h) (ho_packer_rollover h)
                 else ho_packer_rollover h)"

definition ho_packer_ok :: "CXLHost \<Rightarrow> bool" where
  "ho_packer_ok h \<longleftrightarrow> ho_typed h \<and> ho_credit_ok h \<and> buf_ok (ho_tx_buffer h) \<and> ho_pkr2_state h \<noteq> RR_W \<and>
     (if ho_is_packer_waiting h
      then layout_ok (ho_kinds h) (ho_packer_rollover h) (ho_pkr2_state h) \<and> ho_one_device h
      else 0 \<le> ho_packer_rollover h \<and> ho_packer_rollover h \<le> 4 \<and>
        (ho_packer_rollover h \<noteq> 0 \<longrightarrow>
           destination_device h (address (ho_last_rwd_hdr h)) = Inr (ho_device_under_consideration h)))"

text \<open>The requests the host still has to send.\<close>

definition ho_unsent :: "CXLHost \<Rightarrow> (u64 \<times> u64 \<times> opcode) multiset" where
  "ho_unsent h = vcs_msgs (ho_M2S_Req h) + vcs_msgs (ho_M2S_RWD h) +
     (if ho_is_packer_waiting h then mset (flit_msgs (ho_flit_to_pack h)) else {#}) +
     mset (concat (map flit_msgs (buf_q (ho_tx_buffer h))))"

text \<open>All used slots of a flit belong to device \<open>d\<close>.\<close>

definition flit_to :: "CXLHost \<Rightarrow> int \<Rightarrow> flit \<Rightarrow> bool" where
  "flit_to h d f \<longleftrightarrow> (\<forall>s \<in> set (fl_slots f). sl_type s \<noteq> empty \<longrightarrow>
     destination_device h (address (sl_msg s)) = Inr d)"

lemma flit_to_set_time: "flit_to h d (set_time member v f) \<longleftrightarrow> flit_to h d f"
proof -
  have "(\<forall>s \<in> set (map (\<lambda>s. if sl_type s = empty then s
      else s\<lparr>sl_msg := (sl_msg s)\<lparr>m_time := member (\<lambda>_. v) (m_time (sl_msg s))\<rparr>\<rparr>) xs). sl_type s \<noteq> empty \<longrightarrow>
        destination_device h (address (sl_msg s)) = Inr d) \<longleftrightarrow>
     (\<forall>s \<in> set xs. sl_type s \<noteq> empty \<longrightarrow> destination_device h (address (sl_msg s)) = Inr d)" for xs
    by (induction xs) auto
  from this [of "fl_slots f"] show ?thesis unfolding flit_to_def set_time_def by (simp del: list.set_map)
qed

lemma flit_to_cong:
  "fl_slots f' = fl_slots f \<Longrightarrow> ho_address_intervals h' = ho_address_intervals h \<Longrightarrow> flit_to h' d f' \<longleftrightarrow> flit_to h d f"
  by (simp add: flit_to_def destination_device_def)

lemma one_device_flit: "ho_one_device h \<Longrightarrow> flit_to h (ho_device_under_consideration h) (ho_flit_to_pack h)"
  by (simp add: ho_one_device_def flit_to_def)

text \<open>The half of the host the packer does not touch.\<close>

definition ho_rx_half where
  "ho_rx_half h = (map fst (ho_ext_creds h), ho_rx_buffer h, ho_address_intervals h, ho_connected_devices h,
     ho_S2M_NDR h, ho_S2M_DRS h, ho_unpacker_rollover h, ho_last_drs_hdr h, ho_messages_sent_to_device h,
     ho_reqs_in_dam h, ho_text_to_trace_buf h)"

lemma ho_rx_half_simps [simp]:
  "ho_rx_half (h\<lparr>ho_is_packer_waiting := w\<rparr>) = ho_rx_half h"
  "ho_rx_half (h\<lparr>ho_flit_to_pack := f\<rparr>) = ho_rx_half h"
  "ho_rx_half (h\<lparr>ho_tx_buffer := q\<rparr>) = ho_rx_half h"
  "ho_rx_half (h\<lparr>ho_started_packing_at := n\<rparr>) = ho_rx_half h"
  "ho_rx_half (h\<lparr>ho_packer_rollover := n\<rparr>) = ho_rx_half h"
  "ho_rx_half (h\<lparr>ho_device_under_consideration := n\<rparr>) = ho_rx_half h"
  by (simp_all add: ho_rx_half_def)

definition ho_pack_post :: "CXLHost \<Rightarrow> CXLHost \<Rightarrow> bool" where
  "ho_pack_post h h' \<longleftrightarrow> ho_packer_ok h' \<and> ho_unsent h' = ho_unsent h \<and> ho_rx_half h' = ho_rx_half h \<and>
     (ho_carry h \<noteq> 0 \<longrightarrow> ho_device_under_consideration h' = ho_device_under_consideration h) \<and>
     ((ho_tx_buffer h' = ho_tx_buffer h \<and> ho_carry h' = ho_carry h) \<or>
      (\<exists>f. ho_tx_buffer h' = (ho_tx_buffer h)\<lparr>buf_q := buf_q (ho_tx_buffer h) @ [f]\<rparr> \<and>
         wire_flit (ho_carry h) (kinds_of kind_host f) = Some (ho_carry h') \<and>
         flit_to h' (ho_device_under_consideration h') f \<and> \<not> is_flit_empty f \<and>
         fh_credit (fl_header f) = \<lparr>req_credit = 0, rsp_credit = int (slot_count_in_flit f m2s_rwd_hdr),
           data_credit = int (slot_count_in_flit f m2s_req)\<rparr>))"

section \<open>Handing a flit to the transmit buffer\<close>

lemma ho_add_flit_to_buf_ok:
  assumes "ho_credit_ok h" "\<not> is_buf_full (ho_tx_buffer h)"
  obtains f g' where "ho_add_flit_to_buf g h = Inr (g', h\<lparr>ho_flit_to_pack := f,
      ho_tx_buffer := (ho_tx_buffer h)\<lparr>buf_q := buf_q (ho_tx_buffer h) @ [f]\<rparr>\<rparr>)"
    "types f = types (ho_flit_to_pack h)" "flit_msgs f = flit_msgs (ho_flit_to_pack h)"
    "\<And>d. flit_to h d f \<longleftrightarrow> flit_to h d (ho_flit_to_pack h)"
    "fh_credit (fl_header f) = \<lparr>req_credit = 0, rsp_credit = int (slot_count_in_flit f m2s_rwd_hdr),
           data_credit = int (slot_count_in_flit f m2s_req)\<rparr>"
proof -
  let ?cr = "\<lparr>req_credit = 0, rsp_credit = int (slot_count_in_flit (ho_flit_to_pack h) m2s_rwd_hdr),
           data_credit = int (slot_count_in_flit (ho_flit_to_pack h) m2s_req)\<rparr>"
  let ?ft = "(ho_flit_to_pack h)\<lparr>fl_time := (fl_time (ho_flit_to_pack h))\<lparr>time_of_creation := curr_tick g\<rparr>\<rparr>"
  let ?fh = "?ft\<lparr>fl_header := (fl_header ?ft)\<lparr>fh_credit := ?cr\<rparr>\<rparr>"
  let ?f = "(set_time tick_packed_update (curr_tick g) ?fh)\<lparr>flit_id := flit_counter g\<rparr>"
  have cr: "get_Host_credits (h\<lparr>ho_flit_to_pack := ?ft\<rparr>) = Inr ?cr"
    using assms(1)
    by (simp add: get_Host_credits_def ho_credit_sanity_check_def ho_credit_ok_def ho_credits_nonneg_def slot_count_types)
  have to: "flit_to h d ?f \<longleftrightarrow> flit_to h d (ho_flit_to_pack h)" for d
  proof -
    have "flit_to h d ?f \<longleftrightarrow> flit_to h d (set_time tick_packed_update (curr_tick g) ?fh)" by (rule flit_to_cong) simp_all
    also have "\<dots> \<longleftrightarrow> flit_to h d ?fh" by (rule flit_to_set_time)
    also have "\<dots> \<longleftrightarrow> flit_to h d (ho_flit_to_pack h)" by (rule flit_to_cong) simp_all
    finally show ?thesis .
  qed
  show thesis
    by (rule that [of "g\<lparr>flit_counter := flit_counter g + 1\<rparr>" ?f])
       (use to assms(2) in \<open>simp_all add: ho_add_flit_to_buf_def Let_def cr slot_count_types\<close>)
qed

lemma ho_send_ok:
  assumes "ho_typed h" "ho_credit_ok h" "buf_ok (ho_tx_buffer h)" "ho_one_device h"
    and layout: "layout_ok (ho_kinds h) (ho_packer_rollover h) (ho_pkr2_state h)"
    and full: "\<not> is_buf_full (ho_tx_buffer h)" and used: "\<not> is_flit_empty (ho_flit_to_pack h)"
  obtains g' h' where "ho_add_flit_to_buf g h = Inr (g', h')"
    "ho_pack_post (h\<lparr>ho_is_packer_waiting := True\<rparr>) (h'\<lparr>ho_is_packer_waiting := False\<rparr>)"
proof -
  let ?r = "ho_packer_rollover h"
  have k: "0 \<le> ?r" "?r \<le> 4" "ho_pkr2_state h \<noteq> RR_W"
    using layout layout_ok_range [OF layout] by (auto simp: layout_ok_def)
  obtain f g' where f: "ho_add_flit_to_buf g h = Inr (g', h\<lparr>ho_flit_to_pack := f,
      ho_tx_buffer := (ho_tx_buffer h)\<lparr>buf_q := buf_q (ho_tx_buffer h) @ [f]\<rparr>\<rparr>)"
    "types f = types (ho_flit_to_pack h)" "flit_msgs f = flit_msgs (ho_flit_to_pack h)"
    "flit_to h (ho_device_under_consideration h) f"
    "fh_credit (fl_header f) = \<lparr>req_credit = 0, rsp_credit = int (slot_count_in_flit f m2s_rwd_hdr),
           data_credit = int (slot_count_in_flit f m2s_req)\<rparr>"
    by (rule ho_add_flit_to_buf_ok [OF assms(2) full, of g]) (use one_device_flit [OF assms(4)] in blast)
  let ?h = "h\<lparr>ho_flit_to_pack := f, ho_tx_buffer := (ho_tx_buffer h)\<lparr>buf_q := buf_q (ho_tx_buffer h) @ [f]\<rparr>,
      ho_is_packer_waiting := False\<rparr>"
  have kf: "kinds_of kind_host f = ho_kinds h" using f(2) by (simp add: kinds_of_def)
  have dd: "destination_device ?h = destination_device h" by (rule destination_cong) simp
  have vr: "vcs_route ?h = vcs_route h" by (rule routes_cong) simp_all
  have to: "flit_to ?h (ho_device_under_consideration h) f" using f(4) by (simp add: flit_to_def dd)
  have own: "destination_device h (address (ho_last_rwd_hdr h)) = Inr (ho_device_under_consideration h)" if "?r \<noteq> 0"
    using assms(4) that by (simp add: ho_one_device_def)
  have ok: "ho_packer_ok ?h"
    using assms k f(2) buf_ok_enqueue [OF assms(3) full, of f] own
    by (simp add: ho_packer_ok_def ho_typed_def vr dd ho_credit_ok_def ho_credits_nonneg_def)
  have "ho_pack_post (h\<lparr>ho_is_packer_waiting := True\<rparr>) ?h"
    using ok layout_ok_sendable [OF layout] f(3,5) kf to used f(2)
    unfolding ho_pack_post_def is_flit_empty_types by (auto simp: ho_unsent_def ho_carry_def)
  with f(1) show thesis by (intro that) auto
qed

section \<open>The packer keeps its invariant and sends legal flits\<close>

lemma ho_rule_holds:
  assumes "ho_typed h" "layout_ok (ho_kinds h) k s"
  shows "\<not> ho_packing_rule_violated h"
  using layout_ok_counts [OF assms(2)] assms(1) count_kinds_le [of "ho_kinds h"]
  by (simp add: ho_packing_rule_violated_def count_rule_def hok.kinds_counts Let_def ho_typed_def hok.kinds_length)

lemma ho_pack_inv_credit_ok: "ho_pack_inv h0 h \<Longrightarrow> ho_credit_ok h0 \<Longrightarrow> ho_credit_ok h"
  by (simp add: ho_pack_inv_def ho_credit_ok_def ho_rest_def)

lemma typed_waiting [simp]:
  "ho_typed (h\<lparr>ho_is_packer_waiting := w\<rparr>) = ho_typed h"
  "ho_credit_ok (h\<lparr>ho_is_packer_waiting := w\<rparr>) = ho_credit_ok h"
  "ho_one_device (h\<lparr>ho_is_packer_waiting := w\<rparr>) = ho_one_device h"
  "destination_device (h\<lparr>ho_is_packer_waiting := w\<rparr>) = destination_device h"
proof -
  let ?h = "h\<lparr>ho_is_packer_waiting := w\<rparr>"
  show dd: "destination_device ?h = destination_device h" by (rule destination_cong) simp
  have "vcs_route ?h = vcs_route h" by (rule routes_cong) simp_all
  then show "ho_typed ?h = ho_typed h" by (simp add: ho_typed_def)
  show "ho_credit_ok ?h = ho_credit_ok h" by (simp add: ho_credit_ok_def ho_credits_nonneg_def)
  show "ho_one_device ?h = ho_one_device h" by (simp add: ho_one_device_def dd)
qed

lemma ho_pack_more_ok:
  assumes h: "ho_typed h" "ho_credit_ok h" "buf_ok (ho_tx_buffer h)" "ho_one_device h"
    and layout: "layout_ok (ho_kinds h) 0 (ho_pkr2_state h)" "ho_kinds h \<in> set open_layouts"
      "ho_packer_rollover h = 0"
    and dev: "carry (ho_kinds h) 0 \<noteq> 0 \<longrightarrow> ho_device_under_consideration h \<noteq> NO_DEVICE"
  obtains b h' where "ho_pack_more p g h = Inr (b, g, h')"
    "ho_pack_post (h\<lparr>ho_is_packer_waiting := True\<rparr>) h'"
proof -
  have inv0: "ho_pack_inv h h" using h by (simp add: ho_pack_inv_refl ho_credit_ok_def)
  obtain h1 where h1: "ho_pack_loop p g [0, 1, 2, 3] h = Inr h1" "ho_pack_inv h h1"
    "layout_ok (ho_kinds h1) (ho_packer_rollover h1) (ho_pkr2_state h1)"
    "carry (ho_kinds h1) (ho_packer_rollover h1) = carry (ho_kinds h) 0"
    by (rule hop.loop_layout [OF inv0 layout])
  let ?active = "\<not> is_flit_empty (ho_flit_to_pack h1)"
  let ?h = "if ?active then h1\<lparr>ho_is_packer_waiting := True\<rparr> else h1"
  have rest: "ho_rest h1 = ho_rest h" and typed: "ho_typed h1" and pend: "ho_pending h1 = ho_pending h"
    and one: "ho_one_device h1" and keys: "map fst (ho_ext_creds h1) = map fst (ho_ext_creds h)"
    and same: "ho_device_under_consideration h \<noteq> NO_DEVICE \<Longrightarrow>
      ho_device_under_consideration h1 = ho_device_under_consideration h"
    using h1(2) by (simp_all add: ho_pack_inv_def)
  have cred: "ho_credit_ok h1" using ho_pack_inv_credit_ok [OF h1(2) h(2)] .
  have half: "ho_rx_half h1 = ho_rx_half h" "ho_tx_buffer h1 = ho_tx_buffer h"
    "ho_is_packer_waiting h1 = ho_is_packer_waiting h"
    using rest keys by (simp_all add: ho_rest_def ho_rx_half_def)
  have "\<not> ho_packing_rule_violated h1" by (rule ho_rule_holds [OF typed h1(3)])
  then have more: "ho_pack_more p g h = Inr (?active, g, ?h)"
    unfolding ho_pack_more_def h1(1) bind_r_simps Let_def by (simp add: ho_packing_rule_violated_def)
  have arb: "ho_pkr2_state h1 \<noteq> RR_W" using h1(3) by (simp add: layout_ok_def)
  have waiting: "ho_pack_post (h\<lparr>ho_is_packer_waiting := True\<rparr>) (h1\<lparr>ho_is_packer_waiting := True\<rparr>)"
    using h layout(3) h1(3,4) typed cred one half pend same dev arb
    by (simp add: ho_pack_post_def ho_packer_ok_def ho_carry_def ho_unsent_def ho_pending_def)
  show thesis
  proof (cases ?active)
    case True
    with that [OF more] waiting show ?thesis by simp
  next
    case False
    then have "ho_kinds h1 = fresh_layout 0"
      using typed by (simp add: hok.empty_flit_kinds ho_typed_def)
    then have "ho_packer_rollover h1 = 0" "carry (ho_kinds h1) 0 = 0"
      using layout_ok_open [OF h1(3)] by (simp_all add: fresh_layout_def carry_def)
    then have "ho_pack_post (h\<lparr>ho_is_packer_waiting := True\<rparr>) h1"
      using h layout(3) h1(3,4) typed cred one half pend same dev arb False
      by (simp add: ho_pack_post_def ho_packer_ok_def ho_carry_def ho_unsent_def ho_pending_def empty_flit_msgs)
    with that [OF more] False show ?thesis by simp
  qed
qed

lemma ho_place_rollover_ok:
  assumes "ho_typed h" "ho_kinds h = fresh_layout 0" "0 < ho_packer_rollover h" "ho_packer_rollover h \<le> 4"
    "flit_msgs (ho_flit_to_pack h) = []" "flit_to h d (ho_flit_to_pack h)"
    "destination_device h (address (ho_last_rwd_hdr h)) = Inr d"
  obtains f where "ho_place_rollover h = Inr (h\<lparr>ho_flit_to_pack := f, ho_packer_rollover := 0\<rparr>)"
    "kinds_of kind_host f = fresh_layout (ho_packer_rollover h)" "length (types f) = 4" "flit_msgs f = []"
    "flit_to h d f"
proof -
  let ?f = "ho_flit_to_pack h"
  have e: "types ?f = [empty, empty, empty, empty]"
    using assms(1,2) by (auto simp: ho_typed_def length_4_conv kinds_of_def fresh_layout_def hok.kd_empty)
  define put where "put i f = put_data i (ho_last_rwd_hdr h) f" for i f
  have put: "ho_put_data i (h\<lparr>ho_flit_to_pack := f\<rparr>) = h\<lparr>ho_flit_to_pack := put i f\<rparr>"
    "ho_put_data i h = h\<lparr>ho_flit_to_pack := put i ?f\<rparr>"
    "types (put i f) = (types f)[i := data]" 
    "i < length (types f) \<Longrightarrow> types f ! i = empty \<Longrightarrow> mset (flit_msgs (put i f)) = mset (flit_msgs f)" for i f
    by (simp_all add: put_def ho_put_data_def msgs_put_data)
  have to: "flit_to h d (put i f)" if "i < length (types f)" "flit_to h d f" for i f
    using that put_data_slots(1) [of i f _ "ho_last_rwd_hdr h"] assms(7)
    unfolding flit_to_def put_def by (fastforce simp: types_def)
  note simps = ho_place_rollover_def put kinds_of_def fresh_layout_def numeral_eq_Suc e assms(5)
  consider "ho_packer_rollover h = 1" | "ho_packer_rollover h = 2" | "ho_packer_rollover h = 3"
    | "ho_packer_rollover h = 4" using assms(3,4) by linarith
  then show thesis
  proof cases
    case 1
    then show ?thesis
      by (intro that [of "put 1 ?f"] to assms(6)) (simp_all add: simps flip: mset_zero_iff)
  next
    case 2
    then show ?thesis
      by (intro that [of "put 2 (put 1 ?f)"] to assms(6)) (simp_all add: simps flip: mset_zero_iff)
  next
    case 3
    then show ?thesis
      by (intro that [of "put 3 (put 2 (put 1 ?f))"] to assms(6)) (simp_all add: simps flip: mset_zero_iff)
  next
    case 4
    then show ?thesis
      by (intro that [of "put 3 (put 2 (put 1 (put 0 ?f)))"] to assms(6)) (simp_all add: simps flip: mset_zero_iff)
  qed
qed

lemma ho_pack_post_refl: "ho_packer_ok h \<Longrightarrow> ho_pack_post h h"
  by (simp add: ho_pack_post_def)

lemma ho_pack_post_from:
  "ho_pack_post e h' \<Longrightarrow> ho_unsent e = ho_unsent h \<Longrightarrow> ho_tx_buffer e = ho_tx_buffer h \<Longrightarrow>
   ho_carry e = ho_carry h \<Longrightarrow> ho_rx_half e = ho_rx_half h \<Longrightarrow>
   (ho_carry h \<noteq> 0 \<longrightarrow> ho_device_under_consideration e = ho_device_under_consideration h) \<Longrightarrow> ho_pack_post h h'"
  by (simp add: ho_pack_post_def)

lemma ho_send_waiting_ok:
  assumes "ho_packer_ok h" "ho_is_packer_waiting h" "\<not> is_flit_empty (ho_flit_to_pack h)"
  shows "\<exists>g' h'. ho_send_waiting g h = Inr (True, g', h') \<and> ho_pack_post h h'"
proof (cases "is_buf_full (ho_tx_buffer h)")
  case True
  then show ?thesis using assms by (simp add: ho_send_waiting_def ho_pack_post_refl)
next
  case False
  have h: "h\<lparr>ho_is_packer_waiting := True\<rparr> = h" using assms(2) by simp
  obtain g' h' where "ho_add_flit_to_buf g h = Inr (g', h')"
    "ho_pack_post (h\<lparr>ho_is_packer_waiting := True\<rparr>) (h'\<lparr>ho_is_packer_waiting := False\<rparr>)"
    by (rule ho_send_ok [of h g]) (use assms False in \<open>auto simp: ho_packer_ok_def ho_carry_def\<close>)
  then show ?thesis using False by (simp add: ho_send_waiting_def h)
qed

lemma ho_waiting_open:
  assumes "ho_packer_ok h" "ho_is_packer_waiting h" "\<not> is_flit_full (ho_flit_to_pack h)"
  shows "ho_packer_rollover h = 0" "ho_kinds h \<in> set open_layouts"
  using assms layout_ok_open by (auto simp: ho_packer_ok_def hok.kinds_full)

lemma dest_not_sentinel: "ho_typed h \<Longrightarrow> destination_device h a \<noteq> Inr NO_DEVICE"
  using destination_interval [of h a NO_DEVICE] by (auto simp: ho_typed_def)

text \<open>A flit under construction that owes data is committed to a device.\<close>

lemma carry_data: "length ks = 4 \<Longrightarrow> carry ks 0 > 0 \<Longrightarrow> KData \<in> set ks"
  by (auto simp: carry_def intro: ccontr dest: count_notin)

lemma waiting_device:
  assumes "ho_typed h" "ho_one_device h" "layout_ok (ho_kinds h) 0 s" "carry (ho_kinds h) 0 \<noteq> 0"
  shows "ho_device_under_consideration h \<noteq> NO_DEVICE"
proof -
  have "0 < carry (ho_kinds h) 0" using layout_ok_carry_range [OF assms(3)] assms(4) by linarith
  then have "KData \<in> set (ho_kinds h)" using carry_data [OF layout_ok_length [OF assms(3)]] by simp
  then obtain x where "x \<in> set (fl_slots (ho_flit_to_pack h))" "sl_type x = data"
    by (auto simp: kinds_of_def types_def hok.kd_data eq_commute [of KData])
  with assms(1,2) show ?thesis using dest_not_sentinel by (force simp: ho_one_device_def)
qed

text \<open>The state of a packer that starts a fresh flit, with the owed data in place.\<close>

lemma ho_fresh_ok:
  fixes h :: CXLHost and t :: int and f :: flit
  assumes ok: "ho_packer_ok h" "\<not> ho_is_packer_waiting h"
    and f: "kinds_of kind_host f = fresh_layout (ho_packer_rollover h)" "length (types f) = 4" "flit_msgs f = []"
      "flit_to h d f" "ho_packer_rollover h \<noteq> 0 \<longrightarrow> d = ho_device_under_consideration h"
  defines "e \<equiv> h\<lparr>ho_flit_to_pack := f, ho_started_packing_at := t, ho_device_under_consideration := d, ho_packer_rollover := 0\<rparr>"
  shows "ho_typed e" "ho_credit_ok e" "buf_ok (ho_tx_buffer e)" "ho_one_device e"
    "layout_ok (ho_kinds e) 0 (ho_pkr2_state e)" "ho_packer_rollover e = 0"
    "ho_pack_post (e\<lparr>ho_is_packer_waiting := True\<rparr>) h' \<Longrightarrow> ho_pack_post h h'"
    "ho_packer_ok (e\<lparr>ho_is_packer_waiting := True\<rparr>)"
proof -
  have r: "0 \<le> ho_packer_rollover h" "ho_packer_rollover h \<le> 4" "ho_pkr2_state h \<noteq> RR_W"
    using ok by (simp_all add: ho_packer_ok_def)
  note fresh = fresh_layout_ok [OF r]
  have dd: "destination_device e = destination_device h" by (rule destination_cong) (simp add: e_def)
  have "vcs_route e = vcs_route h" by (rule routes_cong) (simp_all add: e_def)
  then show typed: "ho_typed e" using ok f by (simp add: ho_packer_ok_def ho_typed_def e_def)
  show cred: "ho_credit_ok e"
    using ok by (simp add: e_def ho_packer_ok_def ho_credit_ok_def ho_credits_nonneg_def)
  show bok: "buf_ok (ho_tx_buffer e)" using ok by (simp add: e_def ho_packer_ok_def)
  show one: "ho_one_device e"
    using f(4) unfolding ho_one_device_def dd by (simp add: e_def flit_to_def)
  show lay: "layout_ok (ho_kinds e) 0 (ho_pkr2_state e)" using f(1) fresh(1) by (simp add: e_def)
  show roll: "ho_packer_rollover e = 0" by (simp add: e_def)
  show "ho_packer_ok (e\<lparr>ho_is_packer_waiting := True\<rparr>)"
    using typed cred bok one lay roll r(3) by (simp add: ho_packer_ok_def) (simp add: e_def)
  assume post: "ho_pack_post (e\<lparr>ho_is_packer_waiting := True\<rparr>) h'"
  show "ho_pack_post h h'"
    by (rule ho_pack_post_from [OF post]) (use ok f fresh(2) in \<open>auto simp: e_def ho_unsent_def ho_carry_def\<close>)
qed

lemma ho_FLIT_packer_waiting:
  assumes ok: "ho_packer_ok h" and w: "ho_is_packer_waiting h"
  shows "\<exists>b g' h'. ho_FLIT_packer p u g h = Inr (b, g', h') \<and> ho_pack_post h h'"
proof (cases "is_flit_full (ho_flit_to_pack h) \<or> (curr_tick g - ho_started_packing_at h > ho_packer_wait_time h \<and>
                 \<not> is_flit_empty (ho_flit_to_pack h))")
  case True
  then have "ho_FLIT_packer p u g h = ho_send_waiting g h" using w by (auto simp: ho_FLIT_packer_def)
  moreover have "length (types (ho_flit_to_pack h)) = 4"
    using ok by (simp add: ho_packer_ok_def ho_typed_def)
  then have "\<not> is_flit_empty (ho_flit_to_pack h)"
    using True by (auto simp: is_flit_full_types is_flit_empty_types length_4_conv)
  ultimately show ?thesis using ho_send_waiting_ok [OF ok w] by metis
next
  case False
  then have open_: "ho_packer_rollover h = 0" "ho_kinds h \<in> set open_layouts"
    using ho_waiting_open [OF ok w] by auto
  have f: "ho_typed h" "ho_credit_ok h" "buf_ok (ho_tx_buffer h)" "ho_one_device h" "layout_ok (ho_kinds h) 0 (ho_pkr2_state h)"
    using ok w open_(1) by (simp_all add: ho_packer_ok_def)
  have "ho_FLIT_packer p u g h = ho_pack_more p g h"
    using False w open_(1) by (auto simp: ho_FLIT_packer_def Let_def)
  moreover obtain b h' where "ho_pack_more p g h = Inr (b, g, h')" "ho_pack_post (h\<lparr>ho_is_packer_waiting := True\<rparr>) h'"
    by (rule ho_pack_more_ok [OF f open_(2,1), of p g]) (use waiting_device [OF f(1,4,5)] in blast)
  moreover have "h\<lparr>ho_is_packer_waiting := True\<rparr> = h" using w by simp
  ultimately show ?thesis by metis
qed

lemma ho_FLIT_packer_fresh:
  assumes ok: "ho_packer_ok h" and w: "\<not> ho_is_packer_waiting h"
  shows "\<exists>b g' h'. ho_FLIT_packer p u g h = Inr (b, g', h') \<and> ho_pack_post h h'"
proof -
  let ?r = "ho_packer_rollover h"
  let ?dev = "if ?r > 0 then ho_device_under_consideration h else NO_DEVICE"
  let ?h = "h\<lparr>ho_flit_to_pack := flit_new u, ho_started_packing_at := curr_tick g, ho_device_under_consideration := ?dev\<rparr>"
  let ?e = "\<lambda>f. h\<lparr>ho_flit_to_pack := f, ho_started_packing_at := curr_tick g, ho_device_under_consideration := ?dev, ho_packer_rollover := 0\<rparr>"
  have r: "0 \<le> ?r" "?r \<le> 4" "ho_pkr2_state h \<noteq> RR_W" using ok w by (simp_all add: ho_packer_ok_def)
  have dev: "?r \<noteq> 0 \<longrightarrow> ?dev = ho_device_under_consideration h" using r by simp
  have more: "\<exists>b h'. ho_pack_more p g (?e f) = Inr (b, g, h') \<and> ho_pack_post h h'"
    if f: "kinds_of kind_host f = fresh_layout ?r" "length (types f) = 4" "flit_msgs f = []" "flit_to h ?dev f" "?r < 4" for f
  proof -
    note fresh = ho_fresh_ok [OF ok w f(1-4) dev, of "curr_tick g"]
    have "ho_kinds (?e f) \<in> set open_layouts" using fresh_layout_ok(3) [OF r f(5)] f(1) by simp
    with fresh waiting_device [OF fresh(1,4,5)] show ?thesis by (metis ho_pack_more_ok [of "?e f" p g])
  qed
  have new: "flit_to h ?dev (flit_new u)" by (simp add: flit_to_def flit_new_def)
  show ?thesis
  proof (cases "?r = 0")
    case True
    then have "?h = ?e (flit_new u)" by simp
    moreover have "ho_FLIT_packer p u g h = ho_pack_more p g ?h"
      using w True by (simp add: ho_FLIT_packer_def)
    moreover have "\<exists>b h'. ho_pack_more p g (?e (flit_new u)) = Inr (b, g, h') \<and> ho_pack_post h h'"
      by (rule more) (use True new in simp_all)
    ultimately show ?thesis by metis
  next
    case False
    have own: "destination_device h (address (ho_last_rwd_hdr h)) = Inr ?dev"
      using ok w False r by (simp add: ho_packer_ok_def)
    have dd: "destination_device ?h = destination_device h" by (rule destination_cong) simp
    have vr: "vcs_route ?h = vcs_route h" by (rule routes_cong) simp_all
    obtain f where f: "ho_place_rollover ?h = Inr (?h\<lparr>ho_flit_to_pack := f, ho_packer_rollover := 0\<rparr>)"
      "kinds_of kind_host f = fresh_layout ?r" "length (types f) = 4" "flit_msgs f = []" "flit_to ?h ?dev f"
      by (rule ho_place_rollover_ok [of ?h ?dev])
         (use ok False r own dd new vr in \<open>auto simp: ho_packer_ok_def ho_typed_def flit_to_def\<close>)
    have pl: "ho_place_rollover ?h = Inr (?e f)" using f(1) by simp
    have to: "flit_to h ?dev f" using f(5) by (simp add: flit_to_def dd)
    note fresh = ho_fresh_ok [OF ok w f(2-4) to dev, of "curr_tick g"]
    show ?thesis
    proof (cases "?r = 4")
      case True
      show ?thesis
      proof (cases "is_buf_full (ho_tx_buffer h)")
        case full: True
        then show ?thesis using fresh(7) [OF ho_pack_post_refl [OF fresh(8)]] pl w True
          by (auto simp: ho_FLIT_packer_def)
      next
        case full: False
        have used: "\<not> is_flit_empty f"
          using f(2,3) True by (auto simp: is_flit_empty_types length_4_conv kinds_of_def fresh_layout_def)
        obtain g' h' where "ho_add_flit_to_buf g (?e f) = Inr (g', h')"
          "ho_pack_post ((?e f)\<lparr>ho_is_packer_waiting := True\<rparr>) (h'\<lparr>ho_is_packer_waiting := False\<rparr>)"
          by (rule ho_send_ok [OF fresh(1-4), of g]) (use fresh(5,6) full used in simp_all)
        with fresh(7) full pl w True show ?thesis by (auto simp: ho_FLIT_packer_def)
      qed
    next
      case less: False
      then have "ho_FLIT_packer p u g h = ho_pack_more p g (?e f)"
        using w False pl r by (simp add: ho_FLIT_packer_def)
      with more [OF f(2-4) to] less r(2) show ?thesis by auto
    qed
  qed
qed

lemma ho_FLIT_packer_cases:
  "ho_packer_ok h \<Longrightarrow> \<exists>b g' h'. ho_FLIT_packer p u g h = Inr (b, g', h') \<and> ho_pack_post h h'"
  using ho_FLIT_packer_waiting ho_FLIT_packer_fresh by blast

section \<open>A concrete host\<close>

text \<open>A host with two devices that holds a read and a write for the first and a read for the
  second.\<close>

definition sample_host :: CXLHost where
  "sample_host =
     (CXLHost_new sample_uninit 0 64 64 0)
       \<lparr>ho_connected_devices := [0, 1],
        ho_address_intervals := [(0, 0, 1024), (1, 1024, 2048)],
        ho_ext_creds := [(0, \<lparr>req_credit = 1, rsp_credit = 0, data_credit = 1\<rparr>),
                         (1, \<lparr>req_credit = 1, rsp_credit = 0, data_credit = 1\<rparr>)],
        ho_M2S_Req := [\<lparr>buf_size = 16, buf_q = [sample_msg Req 64 1]\<rparr>, \<lparr>buf_size = 16, buf_q = [sample_msg Req 1088 2]\<rparr>,
          CXLBuf_new 16, CXLBuf_new 16],
        ho_M2S_RWD := [CXLBuf_new 16, \<lparr>buf_size = 16, buf_q = [sample_msg RwD 192 3]\<rparr>,
          CXLBuf_new 16, CXLBuf_new 16]\<rparr>"

definition ho_run_packer :: "int \<Rightarrow> CXLHost \<Rightarrow> (bool \<times> globals \<times> CXLHost) result" where
  "ho_run_packer t h = ho_FLIT_packer sample_params sample_uninit (sample_globals t) h"

definition sample_host_waiting :: CXLHost where
  "sample_host_waiting = snd (snd (projr (ho_run_packer 100 sample_host)))"

lemma sample_host_ok:
  "ho_packer_ok sample_host" "ho_packer_ok sample_host_waiting"
  "ho_kinds sample_host_waiting = [KHdr, KData, KData, KData]"
  "returns (ho_run_packer 101 sample_host_waiting)"
  by code_simp+

section \<open>Properties\<close>

text \<open>C14.  The packer of the host never aborts and keeps its invariant: no assertion on
  rollover, packing rule, credits, buffer overflow, channel types or unroutable addresses can
  fire, whatever the time and the parameters are.\<close>

theorem host_packer_safe:
  assumes "ho_packer_ok h"
  shows "\<exists>b g' h'. ho_FLIT_packer p u g h = Inr (b, g', h') \<and> ho_packer_ok h'"
  using ho_FLIT_packer_cases [OF assms] by (metis ho_pack_post_def)

theorem host_packer_safe_witness:
  "ho_packer_ok sample_host \<and>
   (\<exists>b g' h'. ho_FLIT_packer sample_params sample_uninit (sample_globals 100) sample_host
       = Inr (b, g', h') \<and> ho_packer_ok h')"
  using host_packer_safe [OF sample_host_ok(1)] sample_host_ok(1) by blast

text \<open>C15.  Each call of the host packer either leaves the transmit buffer and the rollover of
  the stream alone or appends one flit that is legal at the rollover the stream had, all of
  whose used slots are addressed to one device; while data is owed that device does not
  change, and the flit grants one response credit for every write and one data credit for
  every read it carries.\<close>

theorem host_packer_wire:
  assumes "ho_packer_ok h" and "ho_FLIT_packer p u g h = Inr (b, g', h')"
  shows "(ho_carry h \<noteq> 0 \<longrightarrow> ho_device_under_consideration h' = ho_device_under_consideration h) \<and>
    ((ho_tx_buffer h' = ho_tx_buffer h \<and> ho_carry h' = ho_carry h) \<or>
     (\<exists>f. buf_q (ho_tx_buffer h') = buf_q (ho_tx_buffer h) @ [f] \<and>
        wire_flit (ho_carry h) (kinds_of kind_host f) = Some (ho_carry h') \<and>
        flit_to h' (ho_device_under_consideration h') f \<and> \<not> is_flit_empty f \<and>
        rsp_credit (fh_credit (fl_header f)) = int (slot_count_in_flit f m2s_rwd_hdr) \<and>
        data_credit (fh_credit (fl_header f)) = int (slot_count_in_flit f m2s_req)))"
  using ho_FLIT_packer_cases [OF assms(1), of p u g] assms(2) by (fastforce simp: ho_pack_post_def)

theorem host_packer_wire_witness:
  "\<exists>b g' h'. ho_run_packer 101 sample_host_waiting = Inr (b, g', h') \<and>
     ((ho_tx_buffer h' = ho_tx_buffer sample_host_waiting \<and> ho_carry h' = ho_carry sample_host_waiting) \<or>
      (\<exists>f. buf_q (ho_tx_buffer h') = buf_q (ho_tx_buffer sample_host_waiting) @ [f] \<and>
         wire_flit (ho_carry sample_host_waiting) (kinds_of kind_host f) = Some (ho_carry h')))"
proof -
  obtain b g' h' where r: "ho_run_packer 101 sample_host_waiting = Inr (b, g', h')"
    using sample_host_ok(4) by (auto simp: returns_def)
  from host_packer_wire [OF sample_host_ok(2) r [unfolded ho_run_packer_def]] r show ?thesis by blast
qed

text \<open>C16.  The host packer neither loses nor duplicates a request: the requests in the
  channels, in the flit under construction and in the transmit buffer together stay the
  same.\<close>

theorem host_packer_conserves:
  assumes "ho_packer_ok h" and "ho_FLIT_packer p u g h = Inr (b, g', h')"
  shows "ho_unsent h' = ho_unsent h"
  using ho_FLIT_packer_cases [OF assms(1), of p u g] assms(2) by (auto simp: ho_pack_post_def)

theorem host_packer_conserves_witness:
  "\<exists>b g' h'. ho_run_packer 101 sample_host_waiting = Inr (b, g', h') \<and> ho_unsent h' = ho_unsent sample_host_waiting"
proof -
  obtain b g' h' where r: "ho_run_packer 101 sample_host_waiting = Inr (b, g', h')"
    using sample_host_ok(4) by (auto simp: returns_def)
  from host_packer_conserves [OF sample_host_ok(2) r [unfolded ho_run_packer_def]] r show ?thesis by blast
qed

end
