(* ===== verification/CXL_Host_Retire.thy ===== *)
theory CXL_Host_Retire
  imports CXL_Host_Pack
begin

text \<open>
  Retiring requests (\<^verbatim>\<open>CXLHost::check_if_req_completed\<close>): the table of outstanding requests
  and the response channels stay consistent, one response is retired exactly when the skip
  check sees one that is due, and its credit comes back.
\<close>

section \<open>Outstanding requests\<close>

definition ho_responses :: "CXLHost \<Rightarrow> message list" where
  "ho_responses h = buf_q (ho_S2M_NDR h) @ buf_q (ho_S2M_DRS h)"

text \<open>Every response that waits is for an outstanding request, no two for the same one, and
  the channels hold the right kind.\<close>

definition ho_retire_ok :: "CXLHost \<Rightarrow> bool" where
  "ho_retire_ok h \<longleftrightarrow> ho_rcvd_rsp_state h \<noteq> RR_W \<and> sm_ok (ho_messages_sent_to_device h) \<and>
     list_all (\<lambda>m. opCode m = NDR) (buf_q (ho_S2M_NDR h)) \<and>
     list_all (\<lambda>m. opCode m = DRS) (buf_q (ho_S2M_DRS h)) \<and>
     distinct (map msg_id (ho_responses h)) \<and>
     list_all (\<lambda>m. sm_find (ho_messages_sent_to_device h) (msg_id m) \<noteq> None) (ho_responses h)"

definition ho_rx_due :: "CXLParams \<Rightarrow> globals \<Rightarrow> message CXLBuf \<Rightarrow> bool" where
  "ho_rx_due p g vc \<longleftrightarrow> \<not> is_buf_empty vc \<and>
     curr_tick g - tick_resp_unpacked (m_time (hd (buf_q vc))) \<ge> delay_vc_to_retire p"

lemma skip_req_complete_due:
  "\<not> ho_skip_req_complete_check p g h \<longleftrightarrow> ho_rx_due p g (ho_S2M_DRS h) \<or> ho_rx_due p g (ho_S2M_NDR h)"
  by (auto simp: ho_skip_req_complete_check_def ho_rx_due_def Let_def)

text \<open>What retiring one response changes.\<close>

definition ho_retired :: "globals \<Rightarrow> CXLHost \<Rightarrow> globals \<Rightarrow> CXLHost \<Rightarrow> bool" where
  "ho_retired g h g' h' \<longleftrightarrow>
     (\<exists>m. m \<in> set (ho_responses h) \<and> mset (ho_responses h) = add_mset m (mset (ho_responses h')) \<and>
        sm_find (ho_messages_sent_to_device h') = (sm_find (ho_messages_sent_to_device h))(msg_id m := None)) \<and>
     length (ho_messages_sent_to_device h) = Suc (length (ho_messages_sent_to_device h')) \<and>
     num_reqs_completed g' = num_reqs_completed g + 1 \<and>
     rsp_credit (ho_int_cred h') + int (length (buf_q (ho_S2M_NDR h'))) =
       rsp_credit (ho_int_cred h) + int (length (buf_q (ho_S2M_NDR h))) \<and>
     data_credit (ho_int_cred h') + int (length (buf_q (ho_S2M_DRS h'))) =
       data_credit (ho_int_cred h) + int (length (buf_q (ho_S2M_DRS h)))"

lemma ho_record_latency_frame [simp]:
  "ho_S2M_NDR (ho_record_latency m h) = ho_S2M_NDR h" "ho_S2M_DRS (ho_record_latency m h) = ho_S2M_DRS h"
  "ho_messages_sent_to_device (ho_record_latency m h) = ho_messages_sent_to_device h"
  "ho_int_cred (ho_record_latency m h) = ho_int_cred h"
  "ho_rcvd_rsp_state (ho_record_latency m h) = ho_rcvd_rsp_state h"
  by (simp_all add: ho_record_latency_def Let_def case_prod_beta)

lemma check_rx_vc_idle: "\<not> ho_rx_due p g (ho_rx_buf v h) \<Longrightarrow> ho_check_rx_vc p g v h = Inr (False, g, h)"
  by (auto simp: ho_check_rx_vc_def ho_rx_due_def Let_def)

lemma mset_remove_distinct:
  assumes "mset xs = add_mset x (mset ys)"
  shows "distinct (map f xs) \<Longrightarrow> distinct (map f ys)" "distinct (map f xs) \<Longrightarrow> f x \<notin> f ` set ys"
    "set ys \<subseteq> set xs"
proof -
  have eq: "mset xs = mset (x # ys)" using assms by simp
  then have "mset (map f xs) = mset (map f (x # ys))" by (simp only: mset_map)
  then have "distinct (map f xs) \<longleftrightarrow> distinct (map f (x # ys))" by (rule mset_eq_imp_distinct_iff)
  then show "distinct (map f xs) \<Longrightarrow> distinct (map f ys)" "distinct (map f xs) \<Longrightarrow> f x \<notin> f ` set ys" by simp_all
  show "set ys \<subseteq> set xs" using mset_eq_setD [OF eq] by auto
qed

lemma check_rx_vc_due:
  assumes ok: "ho_retire_ok h" and due: "ho_rx_due p g (ho_rx_buf v h)"
  obtains g' h' where "ho_check_rx_vc p g v h = Inr (True, g', h')" "ho_retire_ok h'" "ho_retired g h g' h'"
    "ho_rcvd_rsp_state h' = ho_rcvd_rsp_state h"
proof -
  obtain m ms where q: "buf_q (ho_rx_buf v h) = m # ms"
    using due by (cases "buf_q (ho_rx_buf v h)") (auto simp: ho_rx_due_def is_buf_empty_def)
  have resp: "mset (ho_responses h) = add_mset m (mset (case v of RX_NDR \<Rightarrow> ms @ buf_q (ho_S2M_DRS h) | RX_DRS \<Rightarrow> buf_q (ho_S2M_NDR h) @ ms))"
    using q by (cases v) (simp_all add: ho_responses_def)
  have m: "m \<in> set (ho_responses h)" using q by (cases v) (simp_all add: ho_responses_def)
  then obtain x where x: "sm_find (ho_messages_sent_to_device h) (msg_id m) = Some x"
    using ok unfolding ho_retire_ok_def list_all_iff by blast
  have dist: "distinct (map msg_id (ho_responses h))" using ok by (simp add: ho_retire_ok_def)
  have op: "opCode m = (case v of RX_NDR \<Rightarrow> NDR | RX_DRS \<Rightarrow> DRS)"
    using ok q by (cases v) (simp_all add: ho_retire_ok_def)
  let ?m = "m\<lparr>m_time := (m_time m)\<lparr>tick_req_complete := curr_tick g\<rparr>\<rparr>"
  let ?h = "(ho_record_latency ?m h)\<lparr>ho_messages_sent_to_device := sm_erase (msg_id m) (ho_messages_sent_to_device h)\<rparr>"
  let ?ic = "ho_int_cred h"
  let ?c = "case v of RX_NDR \<Rightarrow> ?ic\<lparr>rsp_credit := rsp_credit ?ic + 1\<rparr> | RX_DRS \<Rightarrow> ?ic\<lparr>data_credit := data_credit ?ic + 1\<rparr>"
  let ?h' = "ho_set_rx_buf v ((ho_rx_buf v h)\<lparr>buf_q := ms\<rparr>) (?h\<lparr>ho_int_cred := ?c\<rparr>)"
  let ?g' = "g\<lparr>num_reqs_completed := num_reqs_completed g + 1\<rparr>"
  have "ho_check_rx_vc p g v h = Inr (True, ?g', ?h')"
    using due q x op by (cases v) (simp_all add: ho_check_rx_vc_def ho_rx_due_def Let_def get_head_def dequeue_def is_buf_empty_def)
  moreover have r': "ho_responses ?h' = (case v of RX_NDR \<Rightarrow> ms @ buf_q (ho_S2M_DRS h) | RX_DRS \<Rightarrow> buf_q (ho_S2M_NDR h) @ ms)"
    using q by (cases v) (simp_all add: ho_responses_def)
  have len: "length (ho_messages_sent_to_device h) = Suc (length (sm_erase (msg_id m) (ho_messages_sent_to_device h)))"
    using smap.count_erase [of "ho_messages_sent_to_device h" "msg_id m"] x ok
      sm_find_iff [of "ho_messages_sent_to_device h" "msg_id m"]
    by (cases "ho_messages_sent_to_device h") (auto simp: ho_retire_ok_def)
  have "ho_retired g h ?g' ?h'"
    unfolding ho_retired_def
  proof (intro conjI exI)
    show "mset (ho_responses h) = add_mset m (mset (ho_responses ?h'))" using resp r' by simp
  qed (use m len q in \<open>cases v; simp\<close>)+
  moreover have "ho_retire_ok ?h'"
  proof -
    have d: "distinct (map msg_id (ho_responses ?h'))" "msg_id m \<notin> msg_id ` set (ho_responses ?h')"
      and sub: "set (ho_responses ?h') \<subseteq> set (ho_responses h)"
      using mset_remove_distinct(1,2) [OF resp [folded r'] dist] mset_remove_distinct(3) [OF resp [folded r']] by blast+
    have "\<forall>x \<in> set (ho_responses ?h'). sm_find (ho_messages_sent_to_device ?h') (msg_id x) \<noteq> None"
    proof
      fix x assume x: "x \<in> set (ho_responses ?h')"
      then have "msg_id x \<noteq> msg_id m" using d(2) by (metis imageI)
      moreover have "sm_find (ho_messages_sent_to_device h) (msg_id x) \<noteq> None"
        using x sub ok unfolding ho_retire_ok_def list_all_iff by blast
      ultimately show "sm_find (ho_messages_sent_to_device ?h') (msg_id x) \<noteq> None" by (cases v) simp_all
    qed
    moreover have "list_all (\<lambda>m. opCode m = NDR) (buf_q (ho_S2M_NDR ?h'))" "list_all (\<lambda>m. opCode m = DRS) (buf_q (ho_S2M_DRS ?h'))"
      "ho_rcvd_rsp_state ?h' = ho_rcvd_rsp_state h" "sm_ok (ho_messages_sent_to_device ?h')"
      using ok q by (cases v; simp add: ho_retire_ok_def)+
    ultimately show ?thesis using d(1) ok unfolding ho_retire_ok_def list_all_iff by simp
  qed
  moreover have "ho_rcvd_rsp_state ?h' = ho_rcvd_rsp_state h" by (cases v) simp_all
  ultimately show thesis using that by blast
qed

lemma retire_state:
  "ho_retire_ok h \<Longrightarrow> s \<noteq> RR_W \<Longrightarrow> ho_retire_ok (h\<lparr>ho_rcvd_rsp_state := s\<rparr>)"
  "ho_retired g h g' (h'\<lparr>ho_rcvd_rsp_state := s\<rparr>) \<longleftrightarrow> ho_retired g h g' h'"
  by (simp_all add: ho_retire_ok_def ho_retired_def ho_responses_def)

lemma check_if_req_completed_cases:
  assumes ok: "ho_retire_ok h"
  shows "\<exists>b g' h'. check_if_req_completed p g h = Inr (b, g', h') \<and>
    (if b then ho_retire_ok h' \<and> ho_retired g h g' h' else g' = g \<and> h' = h) \<and>
    (b \<longleftrightarrow> ho_rx_due p g (ho_S2M_DRS h) \<or> ho_rx_due p g (ho_S2M_NDR h))"
proof -
  have first: "\<exists>b g' h'. ho_first_of p g (v1, s1) (v2, s2) h = Inr (b, g', h') \<and>
      (if b then ho_retire_ok h' \<and> ho_retired g h g' h' else g' = g \<and> h' = h) \<and>
      (b \<longleftrightarrow> ho_rx_due p g (ho_rx_buf v1 h) \<or> ho_rx_due p g (ho_rx_buf v2 h))"
    if s: "s1 \<noteq> RR_W" "s2 \<noteq> RR_W" for v1 s1 v2 s2
  proof (cases "ho_rx_due p g (ho_rx_buf v1 h)")
    case True
    obtain g' h' where "ho_check_rx_vc p g v1 h = Inr (True, g', h')" "ho_retire_ok h'" "ho_retired g h g' h'"
      by (rule check_rx_vc_due [OF ok True])
    then show ?thesis using True s by (auto simp: ho_first_of_def retire_state)
  next
    case idle: False
    show ?thesis
    proof (cases "ho_rx_due p g (ho_rx_buf v2 h)")
      case True
      obtain g' h' where "ho_check_rx_vc p g v2 h = Inr (True, g', h')" "ho_retire_ok h'" "ho_retired g h g' h'"
        by (rule check_rx_vc_due [OF ok True])
      then show ?thesis using True idle s by (auto simp: ho_first_of_def retire_state check_rx_vc_idle)
    next
      case False
      then show ?thesis using idle by (auto simp: ho_first_of_def check_rx_vc_idle)
    qed
  qed
  show ?thesis
  proof (cases "is_buf_empty (ho_S2M_DRS h) \<and> is_buf_empty (ho_S2M_NDR h)")
    case True
    then show ?thesis by (auto simp: check_if_req_completed_def ho_rx_due_def)
  next
    case False
    then show ?thesis
      using ok first [of RR_w RR_r RX_NDR RX_DRS] first [of RR_R RR_w RX_DRS RX_NDR]
      by (cases "ho_rcvd_rsp_state h") (auto simp: check_if_req_completed_def ho_retire_ok_def)
  qed
qed

section \<open>Properties\<close>

text \<open>C23.  Retiring a request: with consistent tables the host never aborts and keeps them
  consistent.  It retires a response exactly when the skip check sees one that is due; then
  one response leaves its channel, exactly its request leaves the table of outstanding
  requests, the counter of completed requests grows by one and the credit the request had taken
  comes back.  Otherwise nothing changes.\<close>

theorem host_retires:
  assumes "ho_retire_ok h"
  shows "\<exists>b g' h'. check_if_req_completed p g h = Inr (b, g', h') \<and>
    (b \<longleftrightarrow> \<not> ho_skip_req_complete_check p g h) \<and>
    (if b then ho_retire_ok h' \<and> ho_retired g h g' h' else g' = g \<and> h' = h)"
  using check_if_req_completed_cases [OF assms, of p g] unfolding skip_req_complete_due by blast

definition sample_retire_host :: CXLHost where
  "sample_retire_host = sample_host
     \<lparr>ho_S2M_NDR := \<lparr>buf_size = 1024, buf_q = [sample_msg NDR 64 1]\<rparr>,
      ho_S2M_DRS := \<lparr>buf_size = 1024, buf_q = [sample_msg DRS 192 3]\<rparr>,
      ho_messages_sent_to_device := [(1, sample_msg RwD 64 1), (2, sample_msg Req 1088 2), (3, sample_msg Req 192 3)]\<rparr>"

lemma sample_retire_facts:
  "ho_retire_ok sample_retire_host" "\<not> ho_skip_req_complete_check sample_params (sample_globals 1000) sample_retire_host"
  by code_simp+

theorem host_retires_witness:
  "\<exists>g' h'. check_if_req_completed sample_params (sample_globals 1000) sample_retire_host = Inr (True, g', h') \<and>
     length (ho_messages_sent_to_device h') = 2"
proof -
  have "length (ho_messages_sent_to_device sample_retire_host) = 3" by (simp add: sample_retire_host_def)
  then show ?thesis
    using host_retires [OF sample_retire_facts(1), of sample_params "sample_globals 1000"] sample_retire_facts(2)
    by (auto simp: ho_retired_def)
qed

end
