(* ===== verification/CXL_Host_Unpack.thy ===== *)
theory CXL_Host_Unpack
  imports CXL_Host_Pack
begin

text \<open>
  The unpacker of the host (\<^verbatim>\<open>CXLHost::FLIT_unpacker\<close>) as an instance of the receiver of
  \<open>CXL_Recv\<close>, with the rule that one flit holds messages of one device: it accepts exactly
  the legal flits of one device, delivers their responses and books their credits to that
  device.
\<close>

section \<open>The host as a receiver\<close>

definition ho_rx :: "CXLHost \<Rightarrow> rx_view" where
  "ho_rx h =
     \<lparr>rx_roll = ho_unpacker_rollover h, rx_hdr = untimed (ho_last_drs_hdr h),
      rx_small = map untimed (buf_q (ho_S2M_NDR h)), rx_big = map untimed (buf_q (ho_S2M_DRS h)),
      rx_cap_small = buf_size (ho_S2M_NDR h), rx_cap_big = buf_size (ho_S2M_DRS h)\<rparr>"

text \<open>The state with the fields the unpacking loops write overwritten.\<close>

definition ho_unpack_rest :: "CXLHost \<Rightarrow> CXLHost" where
  "ho_unpack_rest h = h\<lparr>ho_unpacker_rollover := 0, ho_last_drs_hdr := ho_last_rwd_hdr h,
     ho_S2M_NDR := CXLBuf_new 0, ho_S2M_DRS := CXLBuf_new 0\<rparr>"

definition ho_unpack_inv :: "CXLHost \<Rightarrow> bool" where
  "ho_unpack_inv h \<longleftrightarrow> buf_ok (ho_S2M_NDR h) \<and> buf_ok (ho_S2M_DRS h)"

lemma ho_unpack_rest_simps [simp]:
  "ho_unpack_rest (h\<lparr>ho_unpacker_rollover := k\<rparr>) = ho_unpack_rest h"
  "ho_unpack_rest (h\<lparr>ho_last_drs_hdr := m\<rparr>) = ho_unpack_rest h"
  "ho_unpack_rest (h\<lparr>ho_S2M_NDR := q\<rparr>) = ho_unpack_rest h"
  "ho_unpack_rest (h\<lparr>ho_S2M_DRS := q\<rparr>) = ho_unpack_rest h"
  by (simp_all add: ho_unpack_rest_def)

text \<open>Equal rests agree on every other field.\<close>

lemma ho_unpack_rest_fields:
  assumes "ho_unpack_rest h' = ho_unpack_rest h"
  shows "ho_rx_buffer h' = ho_rx_buffer h" "ho_ext_creds h' = ho_ext_creds h" "ho_int_cred h' = ho_int_cred h"
    "ho_address_intervals h' = ho_address_intervals h" "ho_messages_sent_to_device h' = ho_messages_sent_to_device h"
proof -
  have "ho_rx_buffer (ho_unpack_rest x) = ho_rx_buffer x" "ho_ext_creds (ho_unpack_rest x) = ho_ext_creds x"
    "ho_int_cred (ho_unpack_rest x) = ho_int_cred x"
    "ho_address_intervals (ho_unpack_rest x) = ho_address_intervals x"
    "ho_messages_sent_to_device (ho_unpack_rest x) = ho_messages_sent_to_device x" for x
    by (simp_all add: ho_unpack_rest_def)
  then show "ho_rx_buffer h' = ho_rx_buffer h" "ho_ext_creds h' = ho_ext_creds h" "ho_int_cred h' = ho_int_cred h"
    "ho_address_intervals h' = ho_address_intervals h" "ho_messages_sent_to_device h' = ho_messages_sent_to_device h"
    using assms by metis+
qed

lemma ho_rx_roll: "rx_roll (ho_rx h) = ho_unpacker_rollover h"
  by (simp add: ho_rx_def)

lemma ho_rx_sel:
  "rx_roll (ho_rx h) = ho_unpacker_rollover h"
  "rx_small (ho_rx h) = map untimed (buf_q (ho_S2M_NDR h))"
  "rx_big (ho_rx h) = map untimed (buf_q (ho_S2M_DRS h))"
  by (simp_all add: ho_rx_def)

lemma finish_drs_view:
  "ho_finish_drs g h = Inr h' \<Longrightarrow> ho_unpack_rest h' = ho_unpack_rest h \<and>
     ho_rx h' = (ho_rx h)\<lparr>rx_big := rx_big (ho_rx h) @ [rx_hdr (ho_rx h)]\<rparr>"
  by (auto simp: ho_finish_drs_def Let_def ho_rx_def)

lemma finish_drs_returns:
  assumes "ho_unpack_inv h" "int (length (rx_big (ho_rx h))) < rx_cap_big (ho_rx h)"
  shows "\<exists>h'. ho_finish_drs g h = Inr h' \<and> ho_unpack_inv h'"
proof -
  have "\<not> is_buf_full (ho_S2M_DRS h)"
    using assms by (simp add: ho_unpack_inv_def not_full_iff ho_rx_def)
  with assms(1) show ?thesis
    by (simp add: ho_finish_drs_def Let_def ho_unpack_inv_def buf_ok_enqueue)
qed

lemma ho_unpack_slot_view:
  assumes "ho_unpack_slot g s h = Inr h'"
  shows "ho_rx h' = rx_slot kind_dev s (ho_rx h) \<and> ho_unpack_rest h' = ho_unpack_rest h \<and>
    wire_tok (rx_roll (ho_rx h)) (kind_dev (sl_type s)) \<noteq> None"
proof (cases "sl_type s")
  case data
  let ?h = "h\<lparr>ho_unpacker_rollover := ho_unpacker_rollover h - 1\<rparr>"
  have pos: "0 < ho_unpacker_rollover h"
    and fin: "(if ho_unpacker_rollover ?h = 0 then ho_finish_drs g ?h else Inr ?h) = Inr h'"
    using assms data by (auto simp: ho_unpack_slot_def Let_def)
  show ?thesis
  proof (cases "ho_unpacker_rollover h = 1")
    case True
    then have "ho_finish_drs g ?h = Inr h'" using fin by simp
    from finish_drs_view [OF this] data pos True show ?thesis by (simp add: rx_slot_def ho_rx_def)
  next
    case False
    then have "h' = ?h" using fin by simp
    with data pos False show ?thesis by (simp add: rx_slot_def ho_rx_def)
  qed
qed (use assms in \<open>auto simp: ho_unpack_slot_def rx_slot_def ho_rx_def Let_def\<close>)

lemma ho_unpack_slot_returns:
  assumes inv: "ho_unpack_inv h" and tok: "wire_tok (rx_roll (ho_rx h)) (kind_dev (sl_type s)) \<noteq> None"
    and fits: "rx_fits (rx_slot kind_dev s (ho_rx h))"
  shows "\<exists>h'. ho_unpack_slot g s h = Inr h' \<and> ho_unpack_inv h'"
proof (cases "sl_type s")
  case s2m_ndr
  then have "\<not> is_buf_full (ho_S2M_NDR h)"
    using inv fits by (simp add: ho_unpack_inv_def not_full_iff rx_slot_def rx_fits_def ho_rx_def)
  with s2m_ndr inv show ?thesis
    by (simp add: ho_unpack_slot_def Let_def ho_unpack_inv_def buf_ok_enqueue)
next
  case data
  let ?h = "h\<lparr>ho_unpacker_rollover := ho_unpacker_rollover h - 1\<rparr>"
  have pos: "0 < ho_unpacker_rollover h" using tok data by (simp add: ho_rx_roll split: if_splits)
  show ?thesis
  proof (cases "ho_unpacker_rollover h = 1")
    case True
    have "int (length (rx_big (ho_rx ?h))) < rx_cap_big (ho_rx ?h)"
      using fits data True by (simp add: rx_slot_def rx_fits_def ho_rx_def)
    with finish_drs_returns [of ?h g] inv obtain h' where "ho_finish_drs g ?h = Inr h'"
      "ho_unpack_inv h'" by (auto simp: ho_unpack_inv_def)
    then show ?thesis using data True by (simp add: ho_unpack_slot_def Let_def)
  next
    case False
    then show ?thesis using data pos inv
      by (simp add: ho_unpack_slot_def Let_def ho_unpack_inv_def)
  qed
qed (use assms in \<open>auto simp: ho_unpack_slot_def ho_rx_def ho_unpack_inv_def split: if_splits\<close>)

interpretation hor: flit_receiver kind_dev s2m_ndr s2m_drs_hdr "ho_unpack_rollover g"
  "\<lambda>h. h\<lparr>ho_unpacker_rollover := ho_unpacker_rollover h - 1\<rparr>" "ho_finish_drs g" ho_rx ho_unpack_rest
  ho_unpack_inv "ho_unpack_slots g" "ho_unpack_slot g" ho_rx ho_unpack_rest ho_unpack_inv "\<lambda>h. h" for g
proof unfold_locales
  fix h h' s
  show "ho_unpack_inv h \<Longrightarrow> int (length (rx_big (ho_rx h))) < rx_cap_big (ho_rx h) \<Longrightarrow>
      \<exists>h'. ho_finish_drs g h = Inr h' \<and> ho_unpack_inv h'" by (rule finish_drs_returns)
  show "ho_unpack_inv h \<Longrightarrow> wire_tok (rx_roll (ho_rx h)) (kind_dev (sl_type s)) \<noteq> None \<Longrightarrow>
      rx_fits (rx_slot kind_dev s (ho_rx h)) \<Longrightarrow> \<exists>h'. ho_unpack_slot g s h = Inr h' \<and> ho_unpack_inv h'"
    by (rule ho_unpack_slot_returns)
  show "ho_unpack_slot g s h = Inr h' \<Longrightarrow> ho_rx h' = rx_slot kind_dev s (ho_rx h) \<and>
      ho_unpack_rest h' = ho_unpack_rest h \<and> wire_tok (rx_roll (ho_rx h)) (kind_dev (sl_type s)) \<noteq> None"
    by (rule ho_unpack_slot_view)
qed (auto simp: ho_rx_def Let_def ho_unpack_inv_def finish_drs_view dest: finish_drs_view)

section \<open>The device a flit comes from\<close>

lemma source_from:
  "dev \<noteq> NO_DEVICE \<Longrightarrow> ho_source_device h ss dev = Inr d \<longleftrightarrow>
     d = dev \<and> (\<forall>s \<in> set ss. sl_type s \<noteq> empty \<longrightarrow> destination_device h (address (sl_msg s)) = Inr dev)"
  by (induction ss) auto

text \<open>No interval belongs to the number that stands for no device.\<close>

definition no_device_unused :: "CXLHost \<Rightarrow> bool" where
  "no_device_unused h \<longleftrightarrow> (\<forall>iv \<in> set (ho_address_intervals h). node_key (fst iv) \<noteq> NO_DEVICE)"

lemma destination_not_NO_DEVICE:
  "no_device_unused h \<Longrightarrow> destination_device h a = Inr d \<Longrightarrow> d \<noteq> NO_DEVICE"
  by (auto simp: destination_device_def no_device_unused_def find_Some_iff split: option.splits)
     (metis fst_conv nth_mem)

lemma source_first:
  assumes "no_device_unused h"
  shows "(\<exists>s \<in> set ss. sl_type s \<noteq> empty) \<Longrightarrow> ho_source_device h ss NO_DEVICE = Inr d \<longleftrightarrow>
     (\<forall>s \<in> set ss. sl_type s \<noteq> empty \<longrightarrow> destination_device h (address (sl_msg s)) = Inr d)"
proof (induction ss)
  case (Cons s ss)
  show ?case
  proof (cases "sl_type s = empty")
    case True
    then show ?thesis using Cons by simp
  next
    case False
    then have "ho_source_device h (s # ss) NO_DEVICE =
      bind_r (destination_device h (address (sl_msg s))) (ho_source_device h ss)" by simp
    then show ?thesis
      using False destination_not_NO_DEVICE [OF assms] by (auto simp: source_from)
  qed
qed simp

lemma source_empty:
  "(\<forall>s \<in> set ss. sl_type s = empty) \<Longrightarrow> ho_source_device h ss dev = Inr dev"
  by (induction ss) auto

lemma source_flit:
  assumes "no_device_unused h" "\<not> is_flit_empty f"
  shows "ho_source_device h (fl_slots f) NO_DEVICE = Inr d \<longleftrightarrow> flit_to h d f"
  using source_first [OF assms(1), of "fl_slots f" d] assms(2)
  by (auto simp: flit_to_def is_flit_empty_def list_all_iff)

section \<open>Unpacking a flit\<close>

lemma ho_rollover_rule_iff:
  assumes "length (fl_slots f) = 4" "0 \<le> k" "k \<le> 4"
  shows "ho_rollover_rule k f \<longleftrightarrow> rollover_rule k (kinds_of kind_dev f)"
  using assms by (auto simp: ho_rollover_rule_def rollover_rule_def Let_def kinds_of_def types_def dvk.kd_data)

text \<open>The state after the flit: responses delivered, credits booked, flit gone.\<close>

definition ho_unpacked :: "flit \<Rightarrow> int \<Rightarrow> CXLHost \<Rightarrow> CXLHost \<Rightarrow> CXLHost" where
  "ho_unpacked f dev h h1 = ho_set_cred dev ((ho_cred h dev)
       \<lparr>req_credit := req_credit (ho_cred h dev) + req_credit (fh_credit (fl_header f)),
        data_credit := data_credit (ho_cred h dev) + data_credit (fh_credit (fl_header f))\<rparr>)
     (h1\<lparr>ho_rx_buffer := (ho_rx_buffer h)\<lparr>buf_q := tl (buf_q (ho_rx_buffer h))\<rparr>\<rparr>)"

lemma ho_unpack_flit_ok:
  assumes src: "ho_source_device h (fl_slots f) NO_DEVICE = Inr dev"
    and wire: "wire_flit (ho_unpacker_rollover h) (kinds_of kind_dev f) = Some k"
    and fits: "rx_fits (rx_flit kind_dev f (ho_rx h))"
    and ok: "ho_unpack_inv h" "\<not> is_buf_empty (ho_rx_buffer h)"
  obtains h1 where "ho_unpack_inv h1" "ho_rx h1 = rx_flit kind_dev f (ho_rx h)"
    "ho_unpack_rest h1 = ho_unpack_rest h" "ho_unpack_flit g f h = Inr (ho_unpacked f dev h h1)"
proof -
  let ?k = "ho_unpacker_rollover h" and ?ss = "blank_slots (ho_unpacker_rollover h) (fl_slots f)"
  have w: "length (fl_slots f) = 4" "0 \<le> ?k" "?k \<le> 4" "rollover_rule ?k (kinds_of kind_dev f)"
    "count_rule (kinds_of kind_dev f)"
    using wire by (auto simp: wire_flit_def kinds_of_def types_def split: if_splits)
  obtain h1 h2 where lp: "(if ?k \<noteq> 0 then ho_unpack_rollover g [0, 1, 2, 3] f h else Inr (f, h)) = Inr (f\<lparr>fl_slots := ?ss\<rparr>, h1)"
    "ho_unpack_slots g ?ss h1 = Inr h2" "ho_unpack_inv h2" "ho_rx h2 = rx_flit kind_dev f (ho_rx h)"
    by (rule hor.unpack_loops [OF wire [folded ho_rx_roll] fits ok(1), of g]) (simp only: ho_rx_roll)
  have rest: "ho_unpack_rest h2 = ho_unpack_rest h"
    using hor.unpack_loops_legal(3) [of f h g "f\<lparr>fl_slots := ?ss\<rparr>" h1 h2] w lp(1,2) by (simp add: ho_rx_roll)
  have "ho_unpack_flit g f h = Inr (ho_unpacked f dev h h2)"
    using w src ok(2) lp(1,2) ho_rollover_rule_iff [OF w(1-3)] ho_unpack_rest_fields [OF rest]
    by (simp add: ho_unpack_flit_def Let_def ho_unpacked_def ho_cred_def count_rule_def dvk.kinds_counts)
  with that lp(3,4) rest show thesis by blast
qed

lemma ho_unpack_flit_legal:
  assumes len: "length (fl_slots f) = 4" and ret: "ho_unpack_flit g f h = Inr h'"
  obtains h2 dev where "ho_source_device h (fl_slots f) NO_DEVICE = Inr dev"
    "wire_flit (ho_unpacker_rollover h) (kinds_of kind_dev f) = Some (ho_unpacker_rollover h')"
    "ho_rx h2 = rx_flit kind_dev f (ho_rx h)" "ho_unpack_rest h2 = ho_unpack_rest h"
    "h' = ho_unpacked f dev h h2"
proof -
  let ?k = "ho_unpacker_rollover h" and ?ks = "kinds_of kind_dev f"
  let ?owed = "if ?k \<noteq> 0 then ho_unpack_rollover g [0, 1, 2, 3] f h else Inr (f, h)"
  obtain dev where src: "ho_source_device h (fl_slots f) NO_DEVICE = Inr dev"
    using ret by (auto simp: ho_unpack_flit_def)
  then have k: "0 \<le> ?k" "?k \<le> 4" "ho_rollover_rule ?k f" and "returns ?owed"
    and cr: "slot_count_in_flit f s2m_ndr \<le> 2" "slot_count_in_flit f s2m_drs_hdr \<le> 1" "slot_count_in_flit f data \<le> 4"
    using ret by (cases ?owed; simp add: ho_unpack_flit_def Let_def)+
  then obtain f1 h1 where ow: "?owed = Inr (f1, h1)" by (auto simp: returns_def)
  then have "returns (ho_unpack_slots g (fl_slots f1) h1)"
    using ret k cr src by (cases "ho_unpack_slots g (fl_slots f1) h1") (simp_all add: ho_unpack_flit_def Let_def)
  then obtain h2 where sl: "ho_unpack_slots g (fl_slots f1) h1 = Inr h2" by (auto simp: returns_def)
  have rule: "rollover_rule ?k ?ks" using ho_rollover_rule_iff [OF len k(1,2)] k(3) by simp
  note lp = hor.unpack_loops_legal [OF len k(1,2) [folded ho_rx_roll] rule [folded ho_rx_roll] ow [folded ho_rx_roll] sl,
    unfolded ho_rx_roll]
  have h': "h' = ho_unpacked f dev h h2"
    using ret k cr src ow sl lp(1) ho_unpack_rest_fields [OF lp(3)]
    by (auto simp: ho_unpack_flit_def Let_def ho_unpacked_def ho_cred_def)
  then have "ho_unpacker_rollover h' = ho_unpacker_rollover h2" by (simp add: ho_unpacked_def ho_set_cred_def)
  moreover have "count_rule ?ks" using cr by (simp add: count_rule_def dvk.kinds_counts)
  moreover have "length ?ks = 4" using len by (simp add: dvk.kinds_slots)
  ultimately have "wire_flit ?k ?ks = Some (ho_unpacker_rollover h')"
    using k rule lp(4) by (simp add: wire_flit_def ho_rx_roll)
  with src h' that lp(2,3) show thesis by blast
qed

section \<open>Properties\<close>

text \<open>C21.  Unpacking a flit of one device that is legal at the host's rollover and has room: the
  flit leaves the receive buffer, its write acknowledgements join the NDR channel in order, the
  read response under way joins the DRS channel once its four data slots have arrived, the
  rollover is the one the wire protocol gives, and the credits of the header are booked to
  that device and to no other.\<close>

theorem host_unpacker_delivers:
  assumes "buf_q (ho_rx_buffer h) = f # fs"
    and "curr_tick g - time_of_receipt (fl_time f) \<ge> delay_rx_buf_to_unpack p"
    and "wire_flit (ho_unpacker_rollover h) (kinds_of kind_dev f) = Some k"
    and "no_device_unused h" and "\<not> is_flit_empty f" and "flit_to h dev f"
    and "rx_fits (rx_flit kind_dev f (ho_rx h))" and "ho_unpack_inv h"
    and "\<not> (is_buf_full (ho_rx_buffer h) \<and> is_buf_full (ho_S2M_DRS h) \<and> is_buf_full (ho_S2M_NDR h))"
  shows "\<exists>h'. ho_FLIT_unpacker p g h = Inr (True, h') \<and> buf_q (ho_rx_buffer h') = fs \<and>
    ho_unpacker_rollover h' = k \<and>
    map untimed (buf_q (ho_S2M_NDR h')) =
      map untimed (buf_q (ho_S2M_NDR h)) @ msgs_of_kind kind_dev KSmall (fl_slots f) \<and>
    map untimed (buf_q (ho_S2M_DRS h')) @ rx_pending (ho_rx h') =
      map untimed (buf_q (ho_S2M_DRS h)) @ rx_pending (ho_rx h) @ msgs_of_kind kind_dev KHdr (fl_slots f) \<and>
    (\<forall>d. ho_cred h' d = (if d = dev then (ho_cred h d)
        \<lparr>req_credit := req_credit (ho_cred h d) + req_credit (fh_credit (fl_header f)),
         data_credit := data_credit (ho_cred h d) + data_credit (fh_credit (fl_header f))\<rparr>
      else ho_cred h d))"
proof -
  have ne: "\<not> is_buf_empty (ho_rx_buffer h)" using assms(1) by (simp add: is_buf_empty_def)
  have src: "ho_source_device h (fl_slots f) NO_DEVICE = Inr dev"
    using source_flit [OF assms(4,5)] assms(6) by simp
  obtain h1 where h1: "ho_unpack_inv h1" "ho_rx h1 = rx_flit kind_dev f (ho_rx h)"
    "ho_unpack_rest h1 = ho_unpack_rest h" "ho_unpack_flit g f h = Inr (ho_unpacked f dev h h1)"
    by (rule ho_unpack_flit_ok [OF src assms(3,7,8) ne, of g])
  have "wire_flit (rx_roll (ho_rx h)) (kinds_of kind_dev f) = Some k" using assms(3) by (simp add: ho_rx_roll)
  note rx = dvk.rx_flit_delivers [OF this, folded h1(2)]
  let ?h = "ho_unpacked f dev h h1"
  have "ho_FLIT_unpacker p g h = Inr (True, ?h)"
    using assms(1,2,9) ne h1(4) by (simp add: ho_FLIT_unpacker_def)
  moreover have "ho_rx ?h = ho_rx h1" "buf_q (ho_rx_buffer ?h) = fs"
    using assms(1) by (simp_all add: ho_rx_def ho_unpacked_def ho_set_cred_def)
  moreover have "\<forall>d. ho_cred ?h d = (if d = dev then (ho_cred h d)
        \<lparr>req_credit := req_credit (ho_cred h d) + req_credit (fh_credit (fl_header f)),
         data_credit := data_credit (ho_cred h d) + data_credit (fh_credit (fl_header f))\<rparr>
      else ho_cred h d)"
    using ho_unpack_rest_fields(2) [OF h1(3)]
    by (auto simp: ho_unpacked_def ho_cred_def ho_set_cred_def sm_get_def)
  ultimately show ?thesis using rx by (simp flip: ho_rx_sel)
qed

text \<open>A host with two devices that has received a flit with a write acknowledgement and a
  read response of the first.\<close>

definition sample_resp_flit :: flit where
  "sample_resp_flit = sample_flit
     [(s2m_ndr, sample_msg NDR 64 1), (s2m_drs_hdr, sample_msg DRS 128 2),
      (data, sample_msg NDR 128 2), (data, sample_msg NDR 128 2)]"

definition sample_rx_host :: CXLHost where
  "sample_rx_host = sample_host\<lparr>ho_rx_buffer := \<lparr>buf_size = 64, buf_q = [sample_resp_flit]\<rparr>\<rparr>"

lemma sample_rx_host_facts:
  "buf_q (ho_rx_buffer sample_rx_host) = [sample_resp_flit]"
  "curr_tick (sample_globals 200) - time_of_receipt (fl_time sample_resp_flit)
     \<ge> delay_rx_buf_to_unpack sample_params"
  "wire_flit (ho_unpacker_rollover sample_rx_host) (kinds_of kind_dev sample_resp_flit) = Some 2"
  "no_device_unused sample_rx_host" "\<not> is_flit_empty sample_resp_flit" "flit_to sample_rx_host 0 sample_resp_flit"
  "rx_fits (rx_flit kind_dev sample_resp_flit (ho_rx sample_rx_host))" "ho_unpack_inv sample_rx_host"
  "\<not> (is_buf_full (ho_rx_buffer sample_rx_host) \<and> is_buf_full (ho_S2M_DRS sample_rx_host) \<and>
       is_buf_full (ho_S2M_NDR sample_rx_host))"
  "length (fl_slots sample_resp_flit) = 4"
  by code_simp+

theorem host_unpacker_delivers_witness:
  "\<exists>h'. ho_FLIT_unpacker sample_params (sample_globals 200) sample_rx_host = Inr (True, h') \<and>
     ho_unpacker_rollover h' = 2 \<and> map untimed (buf_q (ho_S2M_NDR h')) = [(1, 64, NDR)]"
proof -
  have "map untimed (buf_q (ho_S2M_NDR sample_rx_host)) = []"
    "msgs_of_kind kind_dev KSmall (fl_slots sample_resp_flit) = [(1, 64, NDR)]" by code_simp+
  then show ?thesis using host_unpacker_delivers [OF sample_rx_host_facts(1-9)] by auto
qed

text \<open>C22.  The host accepts exactly the flits that are legal on the wire at its rollover and
  whose messages all belong to one device: on a due flit whose messages fit it returns if and
  only if the flit is such a flit, and aborts on every other one.\<close>

theorem host_unpacker_accepts_iff:
  assumes "buf_q (ho_rx_buffer h) = f # fs" and "length (fl_slots f) = 4"
    and "curr_tick g - time_of_receipt (fl_time f) \<ge> delay_rx_buf_to_unpack p"
    and "no_device_unused h" and "rx_fits (rx_flit kind_dev f (ho_rx h))" and "ho_unpack_inv h"
    and "\<not> (is_buf_full (ho_rx_buffer h) \<and> is_buf_full (ho_S2M_DRS h) \<and> is_buf_full (ho_S2M_NDR h))"
  shows "returns (ho_FLIT_unpacker p g h) \<longleftrightarrow>
    wire_flit (ho_unpacker_rollover h) (kinds_of kind_dev f) \<noteq> None \<and> (\<exists>dev. flit_to h dev f)"
proof -
  have ne: "\<not> is_buf_empty (ho_rx_buffer h)" using assms(1) by (simp add: is_buf_empty_def)
  have un: "ho_FLIT_unpacker p g h = bind_r (ho_unpack_flit g f h) (\<lambda>h. Inr (True, h))"
    using assms(1,3,7) ne by (simp add: ho_FLIT_unpacker_def)
  have r: "returns (ho_FLIT_unpacker p g h) \<longleftrightarrow> returns (ho_unpack_flit g f h)"
    unfolding un by (cases "ho_unpack_flit g f h") simp_all
  have src: "(\<exists>dev. ho_source_device h (fl_slots f) NO_DEVICE = Inr dev) \<longleftrightarrow> (\<exists>dev. flit_to h dev f)"
  proof (cases "is_flit_empty f")
    case True
    then have "\<forall>s \<in> set (fl_slots f). sl_type s = empty" by (simp add: is_flit_empty_def list_all_iff)
    then show ?thesis using source_empty [of "fl_slots f" h NO_DEVICE] by (simp add: flit_to_def)
  next
    case False
    then show ?thesis using source_flit [OF assms(4)] by simp
  qed
  have "returns (ho_unpack_flit g f h)"
    if "wire_flit (ho_unpacker_rollover h) (kinds_of kind_dev f) = Some k"
      "ho_source_device h (fl_slots f) NO_DEVICE = Inr dev" for k dev
    by (rule ho_unpack_flit_ok [OF that(2,1) assms(5,6) ne, of g]) simp
  moreover have "wire_flit (ho_unpacker_rollover h) (kinds_of kind_dev f) \<noteq> None \<and>
      (\<exists>dev. ho_source_device h (fl_slots f) NO_DEVICE = Inr dev)" if "ho_unpack_flit g f h = Inr h'" for h'
    by (rule ho_unpack_flit_legal [OF assms(2) that]) simp
  ultimately show ?thesis unfolding r src [symmetric] by (auto simp: returns_def)
qed

theorem host_unpacker_accepts_iff_witness:
  "returns (ho_FLIT_unpacker sample_params (sample_globals 200) sample_rx_host) \<longleftrightarrow>
     wire_flit (ho_unpacker_rollover sample_rx_host) (kinds_of kind_dev sample_resp_flit) \<noteq> None \<and>
     (\<exists>dev. flit_to sample_rx_host dev sample_resp_flit)"
  by (rule host_unpacker_accepts_iff [OF sample_rx_host_facts(1,10,2,4,7-9)])

end
