(* ===== verification/CXL_Switch.thy ===== *)
theory CXL_Switch
  imports CXL_Recv Std_Map
begin

text \<open>
  The switch, \<^verbatim>\<open>CXLSwitch\<close> of \<^verbatim>\<open>include/CXLSwitch.h\<close> and \<^verbatim>\<open>src/CXLSwitch.cpp\<close>: it routes the
  flits of its host to the devices by address and merges the flits of the devices into the
  stream to the host, staying at one port while data is owed there.

  A pointer to a link is the index of the link's pair in \<^verbatim>\<open>CXLSystem::interconnects\<close>, which
  \<^verbatim>\<open>update\<close> takes and returns; the first link of a pair carries flits away from the switch.
\<close>

section \<open>State\<close>

type_synonym interconnects = "(CXLBus \<times> CXLBus) list"

record CXLSwitch =
  sw_upstream_buffer_tx :: "flit CXLBuf"
  sw_upstream_buffer_rx :: "flit CXLBuf"
  sw_downstream_buffers_tx :: "(u64, flit CXLBuf) smap"
  sw_downstream_buffers_rx :: "(u64, flit CXLBuf) smap"
  sw_node_id :: int
  sw_previous_destination :: u64
  sw_last_transmission :: u64
  sw_downstream_last_transmission :: "(u64, u64) smap"
  sw_buf_size :: u64
  sw_connected_downstream_tx :: "(u64, nat) smap"
  sw_connected_downstream_rx :: "(u64, nat) smap"
  sw_bus_to_host :: nat
  sw_bus_from_host :: nat
  sw_num_devices :: u64
  sw_ARB_NOC_h2d :: "flit CXLBuf"
  sw_ARB_NOC_d2h :: "flit CXLBuf"
  sw_address_intervals :: "(u64, u64 \<times> u64) smap"
  sw_curr_port :: u64
  sw_expected_rollover :: u64
  sw_skip_cycle :: bool

text \<open>\<^verbatim>\<open>CXLBuf\<close> takes its size as an \<^verbatim>\<open>int\<close>.\<close>

definition int_of_u64 :: "u64 \<Rightarrow> int" where
  "int_of_u64 x = sint (ucast x :: 32 word)"

definition CXLSwitch_new :: "nat \<times> nat \<Rightarrow> u64 \<Rightarrow> int \<Rightarrow> CXLSwitch" where
  "CXLSwitch_new junk sz nid =
     \<lparr>sw_upstream_buffer_tx = CXLBuf_new 0, sw_upstream_buffer_rx = CXLBuf_new 0,
      sw_downstream_buffers_tx = [], sw_downstream_buffers_rx = [], sw_node_id = nid,
      sw_previous_destination = 0, sw_last_transmission = 0, sw_downstream_last_transmission = [],
      sw_buf_size = sz, sw_connected_downstream_tx = [], sw_connected_downstream_rx = [],
      sw_bus_to_host = fst junk, sw_bus_from_host = snd junk, sw_num_devices = 0,
      sw_ARB_NOC_h2d = CXLBuf_new (int_of_u64 sz), sw_ARB_NOC_d2h = CXLBuf_new (int_of_u64 sz),
      sw_address_intervals = [], sw_curr_port = 0, sw_expected_rollover = 0, sw_skip_cycle = False\<rparr>"

definition connect_upstream :: "nat \<Rightarrow> nat \<Rightarrow> CXLSwitch \<Rightarrow> CXLSwitch" where
  "connect_upstream to_host from_host s =
     s\<lparr>sw_bus_to_host := to_host, sw_bus_from_host := from_host,
       sw_upstream_buffer_tx := CXLBuf_new (int_of_u64 (sw_buf_size s)),
       sw_upstream_buffer_rx := CXLBuf_new (int_of_u64 (sw_buf_size s))\<rparr>"

definition connect_downstream ::
  "nat \<Rightarrow> nat \<Rightarrow> u64 \<Rightarrow> u64 \<times> u64 \<Rightarrow> CXLSwitch \<Rightarrow> CXLSwitch result" where
  "connect_downstream to_dev from_dev i iv s =
     cxl_assert (sm_find (sw_connected_downstream_tx s) i = None) ''Already connected''
       (Inr (s\<lparr>sw_connected_downstream_tx := sm_put i to_dev (sw_connected_downstream_tx s),
               sw_connected_downstream_rx := sm_put i from_dev (sw_connected_downstream_rx s),
               sw_address_intervals := sm_put i iv (sw_address_intervals s),
               sw_downstream_buffers_tx := sm_put i (CXLBuf_new (int_of_u64 (sw_buf_size s))) (sw_downstream_buffers_tx s),
               sw_downstream_buffers_rx := sm_put i (CXLBuf_new (int_of_u64 (sw_buf_size s))) (sw_downstream_buffers_rx s),
               sw_downstream_last_transmission := sm_put i 0 (sw_downstream_last_transmission s),
               sw_num_devices := sw_num_devices s + 1\<rparr>))"

definition disconnect_downstream :: "u64 \<Rightarrow> CXLSwitch \<Rightarrow> CXLSwitch result" where
  "disconnect_downstream i s =
     cxl_assert (sm_find (sw_connected_downstream_tx s) i \<noteq> None) ''Not connected''
       (Inr (s\<lparr>sw_connected_downstream_tx := sm_erase i (sw_connected_downstream_tx s),
               sw_connected_downstream_rx := sm_erase i (sw_connected_downstream_rx s),
               sw_address_intervals := sm_erase i (sw_address_intervals s),
               sw_downstream_buffers_tx := sm_erase i (sw_downstream_buffers_tx s),
               sw_downstream_buffers_rx := sm_erase i (sw_downstream_buffers_rx s),
               sw_num_devices := sw_num_devices s - 1\<rparr>))"

section \<open>Checks\<close>

definition sw_destination_device :: "CXLSwitch \<Rightarrow> u64 \<Rightarrow> u64 result" where
  "sw_destination_device s addr =
     (case find (\<lambda>(_, lo, hi). addr < hi \<and> addr \<ge> lo) (sw_address_intervals s) of
        None \<Rightarrow> Inl (CXL_ASSERT ''Invalid address'')
      | Some (i, _) \<Rightarrow> Inr i)"

text \<open>The flag that \<^verbatim>\<open>check_buffer_condition\<close> clears when it sees a flit is returned.\<close>

definition check_buffer_condition :: "globals \<Rightarrow> flit CXLBuf \<Rightarrow> int \<Rightarrow> bool \<Rightarrow> (bool \<times> bool) result" where
  "check_buffer_condition g b delay flag =
     (if is_buf_empty b then Inr (False, flag)
      else bind_r (latency_check_flit g b delay) (\<lambda>due. Inr (due, False)))"

text \<open>\<^verbatim>\<open>curr_tick - l_t\<close> is unsigned.\<close>

definition check_transmission :: "CXLParams \<Rightarrow> globals \<Rightarrow> u64 \<Rightarrow> CXLBus \<Rightarrow> bool" where
  "check_transmission p g l_t b \<longleftrightarrow>
     \<not> bus_is_full b \<and> \<not> (word_of_int (curr_tick g) - l_t < word_of_int (cxl_bus_ticks_per_dequeue p))"

definition all_rx_buf_empty :: "CXLSwitch \<Rightarrow> bool \<times> CXLSwitch" where
  "all_rx_buf_empty s =
     (let ports = map of_nat [0 ..< unat (sw_num_devices s)];
          s' = s\<lparr>sw_downstream_buffers_rx := fold (\<lambda>i. sm_insert i (CXLBuf_new 0)) ports (sw_downstream_buffers_rx s)\<rparr>
      in (list_all (\<lambda>i. is_buf_empty (sm_get (CXLBuf_new 0) (sw_downstream_buffers_rx s) i)) ports \<and>
          is_buf_empty (sw_upstream_buffer_rx s), s'))"

section \<open>Host to device\<close>

text \<open>A flit changes its buffer: it is copied and stamped as received.\<close>

definition sw_move ::
  "uninit \<Rightarrow> globals \<Rightarrow> flit CXLBuf \<Rightarrow> flit CXLBuf \<Rightarrow> (flit \<times> flit CXLBuf \<times> flit CXLBuf) result" where
  "sw_move u g src dst =
     bind_r (get_head src) (\<lambda>x.
     bind_r (dequeue src) (\<lambda>src.
       let f = flit_copy (flit_new u) x; f = f\<lparr>fl_time := (fl_time f)\<lparr>time_of_receipt := curr_tick g\<rparr>\<rparr>
       in bind_r (enqueue dst f) (\<lambda>dst. Inr (f, src, dst))))"

definition sw_from_host :: "CXLParams \<Rightarrow> uninit \<Rightarrow> globals \<Rightarrow> bool \<Rightarrow> CXLSwitch \<Rightarrow> (bool \<times> CXLSwitch) result" where
  "sw_from_host p u g flag s =
     bind_r (check_buffer_condition g (sw_upstream_buffer_rx s) (delay_cxl_port_switch p) flag) (\<lambda>(due, flag).
       if due
       then bind_r (sw_move u g (sw_upstream_buffer_rx s) (sw_ARB_NOC_h2d s)) (\<lambda>(f, rx, arb).
              Inr (flag, s\<lparr>sw_upstream_buffer_rx := rx, sw_ARB_NOC_h2d := arb\<rparr>))
       else Inr (flag, s))"

text \<open>A flit that starts with data follows the one before.\<close>

definition sw_decode :: "CXLSwitch \<Rightarrow> u64 \<Rightarrow> flit \<Rightarrow> u64 result" where
  "sw_decode s prev f =
     (if sl_type (fl_slots f ! 0) = data then Inr prev else sw_destination_device s (get_first_address f))"

definition sw_route :: "CXLParams \<Rightarrow> uninit \<Rightarrow> globals \<Rightarrow> bool \<Rightarrow> CXLSwitch \<Rightarrow> (bool \<times> CXLSwitch) result" where
  "sw_route p u g flag s =
     bind_r (check_buffer_condition g (sw_ARB_NOC_h2d s) (delay_cxl_noc_switch p) flag) (\<lambda>(due, flag).
       if due
       then bind_r (get_head (sw_ARB_NOC_h2d s)) (\<lambda>x.
            bind_r (sw_decode s (sw_previous_destination s) x) (\<lambda>dest.
            bind_r (sw_move u g (sw_ARB_NOC_h2d s) (sm_get (CXLBuf_new 0) (sw_downstream_buffers_tx s) dest)) (\<lambda>(f, arb, tx).
              Inr (flag, s\<lparr>sw_previous_destination := dest, sw_ARB_NOC_h2d := arb,
                           sw_downstream_buffers_tx := sm_put dest tx (sw_downstream_buffers_tx s)\<rparr>))))
       else Inr (flag, s))"

text \<open>A flit leaves the switch on a link.\<close>

definition sw_send ::
  "uninit \<Rightarrow> globals \<Rightarrow> ((int \<Rightarrow> int) \<Rightarrow> msg_timing \<Rightarrow> msg_timing) \<Rightarrow> flit CXLBuf \<Rightarrow> CXLBus \<Rightarrow> (flit CXLBuf \<times> CXLBus) result" where
  "sw_send u g stamp src b =
     bind_r (get_head src) (\<lambda>x.
     bind_r (dequeue src) (\<lambda>src.
       let f = flit_copy (flit_new u) x; f = f\<lparr>fl_time := (fl_time f)\<lparr>time_of_transmission := curr_tick g\<rparr>\<rparr>;
           f = set_time stamp (curr_tick g) f
       in bind_r (add_to_bus g f b) (\<lambda>b. Inr (src, b))))"

text \<open>The loop over the downstream ports; \<open>is\<close> are the keys of the map, in order.\<close>

fun sw_to_devices ::
  "CXLParams \<Rightarrow> uninit \<Rightarrow> globals \<Rightarrow> u64 list \<Rightarrow> bool \<Rightarrow> CXLSwitch \<Rightarrow> interconnects
     \<Rightarrow> (bool \<times> CXLSwitch \<times> interconnects) result" where
  "sw_to_devices p u g [] flag s ics = Inr (flag, s, ics)"
| "sw_to_devices p u g (i # is) flag s ics =
     (let tx = sm_get (CXLBuf_new 0) (sw_downstream_buffers_tx s) i
      in bind_r (check_buffer_condition g tx (delay_cxl_port_switch p) flag) (\<lambda>(due, flag).
           if \<not> due then sw_to_devices p u g is flag s ics
           else case sm_find (sw_connected_downstream_tx s) i of
                  None \<Rightarrow> Inl (NULL_DEREF ''connected_downstream_tx'')
                | Some j \<Rightarrow>
                    (let s = s\<lparr>sw_downstream_last_transmission := sm_insert i 0 (sw_downstream_last_transmission s)\<rparr>
                     in if check_transmission p g (sm_get 0 (sw_downstream_last_transmission s) i) (fst (ics ! j))
                        then bind_r (sw_send u g tick_switch_ds_tx_update tx (fst (ics ! j))) (\<lambda>(tx, b).
                               sw_to_devices p u g is flag
                                 (s\<lparr>sw_downstream_buffers_tx := sm_put i tx (sw_downstream_buffers_tx s),
                                    sw_downstream_last_transmission :=
                                      sm_put i (word_of_int (curr_tick g)) (sw_downstream_last_transmission s)\<rparr>)
                                 (ics[j := (b, snd (ics ! j))]))
                        else sw_to_devices p u g is flag s ics)))"

section \<open>Device to host\<close>

definition update_port :: "CXLSwitch \<Rightarrow> CXLSwitch" where
  "update_port s =
     (if sw_expected_rollover s = 0
      then s\<lparr>sw_curr_port := (if sw_curr_port s < sw_num_devices s - 1 then sw_curr_port s + 1 else 0)\<rparr>
      else s)"

fun update_rollover :: "slot_type list \<Rightarrow> u64 \<Rightarrow> u64" where
  "update_rollover [] k = k"
| "update_rollover (t # ts) k =
     update_rollover ts (if t = s2m_drs_hdr then k + 4 else if t = data then k - 1 else k)"

fun sw_from_devices ::
  "CXLParams \<Rightarrow> uninit \<Rightarrow> globals \<Rightarrow> nat \<Rightarrow> bool \<Rightarrow> CXLSwitch \<Rightarrow> (bool \<times> CXLSwitch) result" where
  "sw_from_devices p u g 0 flag s = Inr (flag, s)"
| "sw_from_devices p u g (Suc n) flag s =
     (let s = s\<lparr>sw_downstream_buffers_rx := sm_insert (sw_curr_port s) (CXLBuf_new 0) (sw_downstream_buffers_rx s)\<rparr>;
          rx = sm_get (CXLBuf_new 0) (sw_downstream_buffers_rx s) (sw_curr_port s)
      in bind_r (check_buffer_condition g rx (delay_cxl_port_switch p) flag) (\<lambda>(due, flag).
           if due
           then bind_r (sw_move u g rx (sw_ARB_NOC_d2h s)) (\<lambda>(f, rx, arb).
                  Inr (flag, update_port
                    (s\<lparr>sw_downstream_buffers_rx := sm_put (sw_curr_port s) rx (sw_downstream_buffers_rx s),
                       sw_ARB_NOC_d2h := arb,
                       sw_expected_rollover := update_rollover (take 4 (fh_slots (fl_header f))) (sw_expected_rollover s)\<rparr>)))
           else sw_from_devices p u g n flag (update_port s)))"

definition sw_merge :: "CXLParams \<Rightarrow> uninit \<Rightarrow> globals \<Rightarrow> bool \<Rightarrow> CXLSwitch \<Rightarrow> (bool \<times> CXLSwitch) result" where
  "sw_merge p u g flag s =
     bind_r (check_buffer_condition g (sw_ARB_NOC_d2h s) (delay_cxl_noc_switch p) flag) (\<lambda>(due, flag).
       if due
       then bind_r (sw_move u g (sw_ARB_NOC_d2h s) (sw_upstream_buffer_tx s)) (\<lambda>(f, arb, tx).
              Inr (flag, s\<lparr>sw_ARB_NOC_d2h := arb, sw_upstream_buffer_tx := tx\<rparr>))
       else Inr (flag, s))"

definition sw_to_host ::
  "CXLParams \<Rightarrow> uninit \<Rightarrow> globals \<Rightarrow> bool \<Rightarrow> CXLSwitch \<Rightarrow> interconnects \<Rightarrow> (bool \<times> CXLSwitch \<times> interconnects) result" where
  "sw_to_host p u g flag s ics =
     bind_r (check_buffer_condition g (sw_upstream_buffer_tx s) (delay_cxl_port_switch p) flag) (\<lambda>(due, flag).
       let j = sw_bus_to_host s
       in if due \<and> check_transmission p g (sw_last_transmission s) (fst (ics ! j))
          then bind_r (sw_send u g tick_switch_us_tx_update (sw_upstream_buffer_tx s) (fst (ics ! j))) (\<lambda>(tx, b).
                 Inr (flag, s\<lparr>sw_upstream_buffer_tx := tx, sw_last_transmission := word_of_int (curr_tick g)\<rparr>,
                      ics[j := (b, snd (ics ! j))]))
          else Inr (flag, s, ics))"

section \<open>The tick\<close>

definition sw_stages ::
  "CXLParams \<Rightarrow> uninit \<Rightarrow> globals \<Rightarrow> CXLSwitch \<Rightarrow> interconnects \<Rightarrow> (bool \<times> CXLSwitch \<times> interconnects) result" where
  "sw_stages p u g s ics =
     bind_r (sw_from_host p u g True s) (\<lambda>(flag, s).
     bind_r (sw_route p u g flag s) (\<lambda>(flag, s).
     bind_r (sw_to_devices p u g (map fst (sw_downstream_buffers_tx s)) flag s ics) (\<lambda>(flag, s, ics).
     bind_r (sw_from_devices p u g (unat (sw_num_devices s)) flag s) (\<lambda>(flag, s).
     bind_r (sw_merge p u g flag s) (\<lambda>(flag, s).
       sw_to_host p u g flag s ics)))))"

definition CXLSwitch_update ::
  "CXLParams \<Rightarrow> uninit \<Rightarrow> bool \<Rightarrow> globals \<Rightarrow> CXLSwitch \<Rightarrow> interconnects \<Rightarrow> (CXLSwitch \<times> interconnects) result" where
  "CXLSwitch_update p u skip g s ics =
     (let (idle, s) = (if skip \<and> sw_skip_cycle s then all_rx_buf_empty s else (False, s))
      in if idle then Inr (s, ics)
         else bind_r (sw_stages p u g s ics) (\<lambda>(flag, s, ics).
                Inr (if skip then s\<lparr>sw_skip_cycle := flag\<rparr> else s, ics)))"

end
