(* ===== verification/CXL_Switch_Flow.thy ===== *)
theory CXL_Switch_Flow
  imports CXL_Switch
begin

text \<open>
  What the switch does with the flits: routing is first-in first-out per device and follows
  the addresses, merging keeps the stream to the host legal on the wire.
\<close>

section \<open>Flits without their time stamps\<close>

type_synonym flit_core = "(flit_header \<times> u64) \<times> (slot_type \<times> umsg) list"

definition flit_core :: "flit \<Rightarrow> flit_core" where
  "flit_core f = ((fl_header f, flit_id f), map (\<lambda>s. (sl_type s, untimed (sl_msg s))) (fl_slots f))"

lemma untimed_m_time [simp]: "untimed (m\<lparr>m_time := t\<rparr>) = untimed m"
  by (simp add: untimed_def)

lemma flit_core_time [simp]:
  "flit_core (f\<lparr>fl_time := t\<rparr>) = flit_core f" "flit_core (set_time stamp v f) = flit_core f"
  by (auto simp: flit_core_def set_time_def)

definition core_types :: "flit_core \<Rightarrow> slot_type list" where
  "core_types c = map fst (snd c)"

definition core_address :: "flit_core \<Rightarrow> u64" where
  "core_address c = (case find (\<lambda>s. fst s \<noteq> empty) (snd c) of None \<Rightarrow> 0 | Some (_, _, a, _) \<Rightarrow> a)"

lemma flit_core_views:
  "types f = core_types (flit_core f)" "fl_header f = fst (fst (flit_core f))"
  "get_first_address f = core_address (flit_core f)"
proof -
  show "types f = core_types (flit_core f)" "fl_header f = fst (fst (flit_core f))"
    by (simp_all add: types_def core_types_def flit_core_def comp_def)
  have "(case find (\<lambda>s. sl_type s \<noteq> empty) ss of None \<Rightarrow> 0 | Some s \<Rightarrow> address (sl_msg s)) =
      (case find (\<lambda>s. fst s \<noteq> empty) (map (\<lambda>s. (sl_type s, untimed (sl_msg s))) ss) of None \<Rightarrow> 0 | Some (_, _, a, _) \<Rightarrow> a)" for ss
    by (induction ss) (auto simp: untimed_def)
  then show "get_first_address f = core_address (flit_core f)"
    by (simp add: get_first_address_def core_address_def flit_core_def)
qed

section \<open>Rollover arithmetic\<close>

lemma wire_run_sum:
  "wire_run k ks = Some k' \<Longrightarrow> k' = k + 4 * int (count_list ks KHdr) - int (count_list ks KData)"
proof (induction ks arbitrary: k)
  case (Cons x xs)
  show ?case
    using Cons.prems Cons.IH [of k] Cons.IH [of 4] Cons.IH [of "k - 1"] by (cases x) (simp_all split: if_splits)
qed simp

lemma blank_data_count:
  "0 \<le> k \<Longrightarrow> k \<le> int (count_list ks KData) \<Longrightarrow> int (count_list (blank_data k ks) KData) = int (count_list ks KData) - k"
  by (induction k ks rule: blank_data.induct) auto

lemma rollover_rule_count:
  assumes "length ks = 4" "0 \<le> k" "k \<le> 4" "rollover_rule k ks"
  shows "k \<le> int (count_list ks KData)"
proof -
  obtain a b c d where "ks = [a, b, c, d]" using assms(1) by (auto simp: length_4_conv)
  moreover have "k = 0 \<or> k = 1 \<or> k = 2 \<or> k = 3 \<or> k = 4" using assms(2,3) by linarith
  ultimately show ?thesis using assms(4) by (auto simp: rollover_rule_def)
qed

text \<open>What a legal flit leaves owed is determined by its counts.\<close>

lemma wire_flit_sum:
  assumes "wire_flit k ks = Some k'"
  shows "k' = k + 4 * int (count_list ks KHdr) - int (count_list ks KData)"
proof -
  have w: "length ks = 4" "0 \<le> k" "k \<le> 4" "rollover_rule k ks" "wire_run 0 (blank_data k ks) = Some k'"
    using assms by (auto simp: wire_flit_def split: if_splits)
  from wire_run_sum [OF w(5)] blank_data_count [OF w(2) rollover_rule_count [OF w(1-4)]] count_blank(1) [of KHdr k ks]
  show ?thesis by simp
qed

lemma update_rollover_sum:
  "update_rollover ts k = k + 4 * of_nat (count_list ts s2m_drs_hdr) - of_nat (count_list ts data)"
  by (induction ts k rule: update_rollover.induct) (auto simp: algebra_simps)

text \<open>The header of a flit records the types of its slots.\<close>

definition header_marks :: "flit \<Rightarrow> bool" where
  "header_marks f \<longleftrightarrow> length (fh_slots (fl_header f)) = 4 \<and>
     map kind_dev (types f) = map (\<lambda>t. if t = m2s_req then KEmpty else kind_dev t) (fh_slots (fl_header f))"

lemma rollover_tracks:
  assumes "header_marks f" and "wire_flit (uint k) (kinds_of kind_dev f) = Some k'"
  shows "uint (update_rollover (take 4 (fh_slots (fl_header f))) k) = k'"
proof -
  let ?ts = "fh_slots (fl_header f)" and ?kd = "\<lambda>t. if t = m2s_req then KEmpty else kind_dev t"
  have kd: "?kd t = KHdr \<longleftrightarrow> t = s2m_drs_hdr" "?kd t = KData \<longleftrightarrow> t = data" for t by (cases t; simp)+
  have "count_list (map ?kd ts) KHdr = count_list ts s2m_drs_hdr \<and> count_list (map ?kd ts) KData = count_list ts data" for ts
    by (induction ts) (use kd in auto)
  then have "k' = uint k + 4 * int (count_list ?ts s2m_drs_hdr) - int (count_list ?ts data)"
    using wire_flit_sum [OF assms(2)] assms(1) by (simp add: kinds_of_def header_marks_def)
  then have "update_rollover (take 4 ?ts) k = word_of_int k'"
    using assms(1) by (simp add: update_rollover_sum header_marks_def)
  moreover have "0 \<le> k'" "k' \<le> 4" using wire_flit_range [OF assms(2)] by auto
  ultimately show ?thesis by (simp add: uint_word_of_int_eq take_bit_int_eq_self)
qed

section \<open>Moving flits between buffers\<close>

lemma check_buffer_cases:
  assumes "check_buffer_condition g b delay flag = Inr (due, flag')"
  shows "due \<longleftrightarrow> \<not> is_buf_empty b \<and> curr_tick g - time_of_receipt (fl_time (hd (buf_q b))) \<ge> delay"
  using assms by (auto simp: check_buffer_condition_def latency_check_flit_def split: if_splits)

lemma sw_move_returns:
  assumes "sw_move u g src dst = Inr (f, src', dst')"
  shows "src' = src\<lparr>buf_q := tl (buf_q src)\<rparr>" "dst' = dst\<lparr>buf_q := buf_q dst @ [f]\<rparr>"
    "buf_q src = hd (buf_q src) # buf_q src'" "flit_core f = flit_core (hd (buf_q src))" "\<not> is_buf_full dst"
  using assms by (auto simp: sw_move_def Let_def is_buf_empty_def flit_copy_def flit_core_def)

lemma sw_send_returns:
  assumes "sw_send u g stamp src b = Inr (src', b')"
  shows "src' = src\<lparr>buf_q := tl (buf_q src)\<rparr>" "buf_q src = hd (buf_q src) # buf_q src'"
    "\<exists>f. flit_slots b' = flit_slots b @ [f] \<and> flit_core f = flit_core (hd (buf_q src)) \<and>
       time_of_transmission (fl_time f) = curr_tick g"
  using assms
  by (auto simp: sw_send_def Let_def is_buf_empty_def add_to_bus_eq_Inr flit_copy_def set_time_def)
     (auto simp: flit_core_def)

section \<open>Merging\<close>

text \<open>The owed data at a port: the port the switch is locked to owes what the switch expects.\<close>

definition port_rollover :: "CXLSwitch \<Rightarrow> u64 \<Rightarrow> int" where
  "port_rollover s i = (if i = sw_curr_port s then uint (sw_expected_rollover s) else 0)"

definition sw_rx :: "CXLSwitch \<Rightarrow> u64 \<Rightarrow> flit list" where
  "sw_rx s i = buf_q (sm_get (CXLBuf_new 0) (sw_downstream_buffers_rx s) i)"

text \<open>Every port holds a legal stream at the rollover it owes.\<close>

definition sw_ports_ok :: "CXLSwitch \<Rightarrow> bool" where
  "sw_ports_ok s \<longleftrightarrow> (\<forall>i. list_all header_marks (sw_rx s i) \<and>
     wire_stream (port_rollover s i) (map (kinds_of kind_dev) (sw_rx s i)) \<noteq> None)"

text \<open>The flits on their way to the host that have passed the ports.\<close>

definition sw_up :: "CXLSwitch \<Rightarrow> flit list" where
  "sw_up s = buf_q (sw_upstream_buffer_tx s) @ buf_q (sw_ARB_NOC_d2h s)"

lemma update_port_frame [simp]:
  "sw_rx (update_port s) = sw_rx s" "sw_up (update_port s) = sw_up s"
  "sw_expected_rollover (update_port s) = sw_expected_rollover s"
  "sw_num_devices (update_port s) = sw_num_devices s"
  by (auto simp: update_port_def sw_rx_def sw_up_def fun_eq_iff)

lemma update_port_rollover: "port_rollover (update_port s) = port_rollover s"
  by (auto simp: update_port_def port_rollover_def fun_eq_iff)

lemma update_port_ok [simp]: "sw_ports_ok (update_port s) \<longleftrightarrow> sw_ports_ok s"
  by (simp add: sw_ports_ok_def update_port_rollover)

lemma sw_rx_insert [simp]:
  "sw_rx (s\<lparr>sw_downstream_buffers_rx := sm_insert i (CXLBuf_new 0) (sw_downstream_buffers_rx s)\<rparr>) = sw_rx s"
  by (simp add: sw_rx_def fun_eq_iff)

text \<open>The two halves of the switch do not share state.\<close>

definition sw_h2d_half where
  "sw_h2d_half s = (sw_upstream_buffer_rx s, sw_ARB_NOC_h2d s, sw_downstream_buffers_tx s,
     sw_previous_destination s, sw_downstream_last_transmission s)"

definition sw_d2h_half where
  "sw_d2h_half s = (sw_upstream_buffer_tx s, sw_ARB_NOC_d2h s, sw_downstream_buffers_rx s,
     sw_last_transmission s, sw_curr_port s, sw_expected_rollover s)"

definition sw_wiring where
  "sw_wiring s = (sw_connected_downstream_tx s, sw_address_intervals s, sw_bus_to_host s, sw_num_devices s)"

lemma update_port_halves [simp]: "sw_h2d_half (update_port s) = sw_h2d_half s" "sw_wiring (update_port s) = sw_wiring s"
  by (simp_all add: update_port_def sw_h2d_half_def sw_wiring_def)

lemma take_port_flit:
  assumes ok: "sw_ports_ok s" and q: "sw_rx s (sw_curr_port s) = x # xs"
    and f: "flit_core f = flit_core x"
    and s': "sw_rx s' = (sw_rx s)(sw_curr_port s := xs)" "sw_curr_port s' = sw_curr_port s"
      "sw_expected_rollover s' = update_rollover (take 4 (fh_slots (fl_header f))) (sw_expected_rollover s)"
  shows "wire_flit (uint (sw_expected_rollover s)) (kinds_of kind_dev f) = Some (uint (sw_expected_rollover s'))"
    and "sw_ports_ok s'"
proof -
  let ?i = "sw_curr_port s"
  have same: "kinds_of kind_dev f = kinds_of kind_dev x" "header_marks f \<longleftrightarrow> header_marks x"
    using flit_core_views [of f] flit_core_views [of x] f by (simp_all add: kinds_of_def header_marks_def)
  have "wire_stream (port_rollover s ?i) (map (kinds_of kind_dev) (x # xs)) \<noteq> None" "list_all header_marks (x # xs)"
    using ok q unfolding sw_ports_ok_def by metis+
  then obtain k where k: "wire_flit (uint (sw_expected_rollover s)) (kinds_of kind_dev f) = Some k"
    "wire_stream k (map (kinds_of kind_dev) xs) \<noteq> None" "header_marks f" "list_all header_marks xs"
    using same by (auto simp: port_rollover_def split: option.splits)
  have k': "uint (sw_expected_rollover s') = k" unfolding s'(3) by (rule rollover_tracks [OF k(3,1)])
  then show "wire_flit (uint (sw_expected_rollover s)) (kinds_of kind_dev f) = Some (uint (sw_expected_rollover s'))"
    using k(1) by simp
  have "port_rollover s' i = (if i = ?i then k else port_rollover s i)" for i
    using k' s'(2) by (simp add: port_rollover_def)
  then show "sw_ports_ok s'"
    using ok k(2,4) s'(1) unfolding sw_ports_ok_def by simp
qed

lemma sw_from_devices_merge:
  assumes "sw_from_devices p u g n flag s = Inr (flag', s')" "sw_ports_ok s"
  shows "sw_ports_ok s' \<and> sw_h2d_half s' = sw_h2d_half s \<and> sw_wiring s' = sw_wiring s \<and>
    ((sw_up s' = sw_up s \<and> sw_expected_rollover s' = sw_expected_rollover s) \<or>
     (\<exists>f. sw_up s' = sw_up s @ [f] \<and>
        wire_flit (uint (sw_expected_rollover s)) (kinds_of kind_dev f) = Some (uint (sw_expected_rollover s'))))"
  using assms
proof (induction n arbitrary: flag s)
  case 0
  then show ?case by simp
next
  case (Suc n)
  let ?s = "s\<lparr>sw_downstream_buffers_rx := sm_insert (sw_curr_port s) (CXLBuf_new 0) (sw_downstream_buffers_rx s)\<rparr>"
  let ?rx = "sm_get (CXLBuf_new 0) (sw_downstream_buffers_rx ?s) (sw_curr_port s)"
  have "port_rollover ?s = port_rollover s" by (simp add: fun_eq_iff port_rollover_def)
  then have ok: "sw_ports_ok ?s" using Suc.prems(2) by (simp add: sw_ports_ok_def)
  have fr: "sw_up ?s = sw_up s" "sw_h2d_half ?s = sw_h2d_half s" "sw_wiring ?s = sw_wiring s"
    by (simp_all add: sw_up_def sw_h2d_half_def sw_wiring_def)
  obtain due fl where c: "check_buffer_condition g ?rx (delay_cxl_port_switch p) flag = Inr (due, fl)"
    using Suc.prems(1) by (auto simp: Let_def)
  show ?case
  proof (cases due)
    case False
    then have "sw_from_devices p u g n fl (update_port ?s) = Inr (flag', s')"
      using Suc.prems(1) c by (auto simp: Let_def)
    from Suc.IH [OF this] ok fr show ?thesis by simp
  next
    case True
    then obtain f rx arb where mv: "sw_move u g ?rx (sw_ARB_NOC_d2h ?s) = Inr (f, rx, arb)"
      and s': "s' = update_port (?s\<lparr>sw_downstream_buffers_rx := sm_put (sw_curr_port s) rx (sw_downstream_buffers_rx ?s),
        sw_ARB_NOC_d2h := arb,
        sw_expected_rollover := update_rollover (take 4 (fh_slots (fl_header f))) (sw_expected_rollover s)\<rparr>)"
      using Suc.prems(1) c by (auto simp: Let_def)
    note m = sw_move_returns [OF mv]
    define t where "t = ?s\<lparr>sw_downstream_buffers_rx := sm_put (sw_curr_port s) rx (sw_downstream_buffers_rx ?s),
        sw_ARB_NOC_d2h := arb,
        sw_expected_rollover := update_rollover (take 4 (fh_slots (fl_header f))) (sw_expected_rollover s)\<rparr>"
    have q: "sw_rx ?s (sw_curr_port ?s) = hd (buf_q ?rx) # buf_q rx"
      unfolding sw_rx_def using m(3) by simp
    have "sw_rx t = (sw_rx ?s)(sw_curr_port ?s := buf_q rx)"
      by (simp add: t_def sw_rx_def sm_get_put fun_eq_iff)
    from take_port_flit [OF ok q m(4) this]
    have "wire_flit (uint (sw_expected_rollover s)) (kinds_of kind_dev f) = Some (uint (sw_expected_rollover t))"
      "sw_ports_ok t" by (simp_all add: t_def)
    moreover have "sw_up t = sw_up s @ [f]" "sw_h2d_half t = sw_h2d_half s" "sw_wiring t = sw_wiring s"
      using m(2) by (simp_all add: t_def sw_up_def sw_h2d_half_def sw_wiring_def)
    moreover have "s' = update_port t" using s' by (simp add: t_def)
    ultimately show ?thesis by simp
  qed
qed

section \<open>Routing\<close>

text \<open>The devices a sequence of flits goes to: a flit that starts with data follows the one
  before.  A flit with an address of no device ends the sequence (the switch aborts on it).\<close>

fun sw_assign :: "CXLSwitch \<Rightarrow> u64 \<Rightarrow> flit list \<Rightarrow> (u64 \<times> flit) list" where
  "sw_assign s prev [] = []"
| "sw_assign s prev (f # fs) =
     (case sw_decode s prev f of Inl _ \<Rightarrow> [] | Inr d \<Rightarrow> (d, f) # sw_assign s d fs)"

definition for_device :: "u64 \<Rightarrow> (u64 \<times> flit) list \<Rightarrow> flit_core list" where
  "for_device d xs = map (flit_core \<circ> snd) (filter (\<lambda>x. fst x = d) xs)"

definition h2d_queue :: "CXLSwitch \<Rightarrow> flit list" where
  "h2d_queue s = buf_q (sw_ARB_NOC_h2d s) @ buf_q (sw_upstream_buffer_rx s)"

text \<open>The flits inside the switch that go to device \<open>d\<close>, oldest first.\<close>

definition sw_pending :: "CXLSwitch \<Rightarrow> u64 \<Rightarrow> flit_core list" where
  "sw_pending s d = map flit_core (buf_q (sm_get (CXLBuf_new 0) (sw_downstream_buffers_tx s) d)) @
     for_device d (sw_assign s (sw_previous_destination s) (h2d_queue s))"

definition four_slots :: "flit \<Rightarrow> bool" where
  "four_slots f \<longleftrightarrow> length (fl_slots f) = 4"

lemma four_slots_core: "list_all four_slots fs \<longleftrightarrow> list_all (\<lambda>c. length (snd c) = 4) (map flit_core fs)"
  by (induction fs) (auto simp: four_slots_def flit_core_def)

lemma sw_decode_core:
  "flit_core f = flit_core f' \<Longrightarrow> four_slots f \<Longrightarrow> sw_address_intervals s' = sw_address_intervals s \<Longrightarrow>
    sw_decode s' prev f = sw_decode s prev f'"
proof -
  assume c: "flit_core f = flit_core f'" and l: "four_slots f" and a: "sw_address_intervals s' = sw_address_intervals s"
  have t: "types f = types f'" "get_first_address f = get_first_address f'"
    using c by (simp_all add: flit_core_views)
  then have "length (fl_slots f') = 4" using l by (metis four_slots_def length_types)
  then have "sl_type (fl_slots f ! 0) = sl_type (fl_slots f' ! 0)"
    using t(1) l by (metis four_slots_def nth_map types_def zero_less_numeral)
  with t(2) a show ?thesis by (simp add: sw_decode_def sw_destination_device_def)
qed

lemma sw_assign_core:
  assumes "map flit_core fs = map flit_core fs'" "list_all four_slots fs" "sw_address_intervals s' = sw_address_intervals s"
  shows "for_device d (sw_assign s' prev fs) = for_device d (sw_assign s prev fs')"
  using assms
proof (induction fs arbitrary: fs' prev)
  case (Cons f fs)
  then obtain f' gs where fs': "fs' = f' # gs" by auto
  have "sw_decode s' prev f = sw_decode s prev f'"
    using sw_decode_core [of f f' s' s prev] Cons.prems fs' by simp
  then show ?case
    using Cons.IH [of gs] Cons.prems fs' by (auto simp: for_device_def split: sum.splits)
qed (simp add: for_device_def)

lemma sw_from_host_pending:
  assumes "sw_from_host p u g flag s = Inr (flag', s')" "list_all four_slots (h2d_queue s)"
  shows "sw_pending s' d = sw_pending s d" "list_all four_slots (h2d_queue s')"
    "sw_d2h_half s' = sw_d2h_half s" "sw_wiring s' = sw_wiring s"
proof -
  obtain due fl where c: "check_buffer_condition g (sw_upstream_buffer_rx s) (delay_cxl_port_switch p) flag = Inr (due, fl)"
    using assms(1) by (auto simp: sw_from_host_def)
  have "sw_pending s' d = sw_pending s d \<and> list_all four_slots (h2d_queue s') \<and>
    sw_d2h_half s' = sw_d2h_half s \<and> sw_wiring s' = sw_wiring s"
  proof (cases due)
    case False
    then show ?thesis using assms c by (simp add: sw_from_host_def)
  next
    case True
    then obtain f rx arb where mv: "sw_move u g (sw_upstream_buffer_rx s) (sw_ARB_NOC_h2d s) = Inr (f, rx, arb)"
      and s': "s' = s\<lparr>sw_upstream_buffer_rx := rx, sw_ARB_NOC_h2d := arb\<rparr>"
      using assms(1) c by (auto simp: sw_from_host_def)
    note m = sw_move_returns [OF mv]
    have core: "map flit_core (h2d_queue s) = map flit_core (h2d_queue s')"
      using m(2,4) arg_cong [OF m(3), of "map flit_core"] by (simp add: h2d_queue_def s')
    have l: "list_all four_slots (h2d_queue s')" using assms(2) core by (simp only: four_slots_core)
    moreover have "sw_pending s' d = sw_pending s d"
      using sw_assign_core [OF core [symmetric] l, of s' s d "sw_previous_destination s"]
      by (simp add: sw_pending_def s')
    ultimately show ?thesis by (simp add: s' sw_d2h_half_def sw_wiring_def)
  qed
  then show "sw_pending s' d = sw_pending s d" "list_all four_slots (h2d_queue s')"
    "sw_d2h_half s' = sw_d2h_half s" "sw_wiring s' = sw_wiring s" by auto
qed

lemma sw_route_pending:
  assumes "sw_route p u g flag s = Inr (flag', s')" "list_all four_slots (h2d_queue s)"
  shows "sw_pending s' d = sw_pending s d" "list_all four_slots (h2d_queue s')"
    "sw_d2h_half s' = sw_d2h_half s" "sw_wiring s' = sw_wiring s"
proof -
  obtain due fl where c: "check_buffer_condition g (sw_ARB_NOC_h2d s) (delay_cxl_noc_switch p) flag = Inr (due, fl)"
    using assms(1) by (auto simp: sw_route_def)
  have "sw_pending s' d = sw_pending s d \<and> list_all four_slots (h2d_queue s') \<and>
    sw_d2h_half s' = sw_d2h_half s \<and> sw_wiring s' = sw_wiring s"
  proof (cases due)
    case False
    then show ?thesis using assms c by (simp add: sw_route_def)
  next
    case True
    let ?q = "\<lambda>dest. sm_get (CXLBuf_new 0) (sw_downstream_buffers_tx s) dest"
    obtain dest f arb tx where dec: "sw_decode s (sw_previous_destination s) (hd (buf_q (sw_ARB_NOC_h2d s))) = Inr dest"
      and mv: "sw_move u g (sw_ARB_NOC_h2d s) (?q dest) = Inr (f, arb, tx)"
      and s': "s' = s\<lparr>sw_previous_destination := dest, sw_ARB_NOC_h2d := arb,
                           sw_downstream_buffers_tx := sm_put dest tx (sw_downstream_buffers_tx s)\<rparr>"
      using assms(1) c True by (auto simp: sw_route_def)
    note m = sw_move_returns [OF mv]
    have q: "h2d_queue s = hd (buf_q (sw_ARB_NOC_h2d s)) # h2d_queue s'"
      using arg_cong [OF m(3), of "\<lambda>q. q @ buf_q (sw_upstream_buffer_rx s)"] by (simp add: h2d_queue_def s')
    have l: "list_all four_slots (h2d_queue s')" using assms(2) q by (metis list.pred_inject(2))
    have "for_device d (sw_assign s' dest (h2d_queue s')) = for_device d (sw_assign s dest (h2d_queue s'))"
      by (rule sw_assign_core) (use l in \<open>simp_all add: s'\<close>)
    moreover have "sw_assign s (sw_previous_destination s) (h2d_queue s) =
      (dest, hd (buf_q (sw_ARB_NOC_h2d s))) # sw_assign s dest (h2d_queue s')"
      by (subst q) (simp add: dec)
    ultimately have "sw_pending s' d = sw_pending s d"
      using m(2,4) by (auto simp: sw_pending_def s' for_device_def sm_get_def)
    with l show ?thesis by (simp add: s' sw_d2h_half_def sw_wiring_def)
  qed
  then show "sw_pending s' d = sw_pending s d" "list_all four_slots (h2d_queue s')"
    "sw_d2h_half s' = sw_d2h_half s" "sw_wiring s' = sw_wiring s" by auto
qed

text \<open>The links are distinct.\<close>

definition links_ok :: "CXLSwitch \<Rightarrow> interconnects \<Rightarrow> bool" where
  "links_ok s ics \<longleftrightarrow> sw_bus_to_host s < length ics \<and>
     (\<forall>i j. sm_find (sw_connected_downstream_tx s) i = Some j \<longrightarrow> j < length ics \<and> j \<noteq> sw_bus_to_host s \<and>
        (\<forall>i'. sm_find (sw_connected_downstream_tx s) i' = Some j \<longrightarrow> i' = i))"

text \<open>\<open>n\<close> flits with the given cores were put on link \<open>j\<close> (first link of the pair).\<close>

definition sent_on :: "nat \<Rightarrow> interconnects \<Rightarrow> interconnects \<Rightarrow> flit_core list \<Rightarrow> bool" where
  "sent_on j ics ics' cs \<longleftrightarrow> (\<exists>fs. flit_slots (fst (ics' ! j)) = flit_slots (fst (ics ! j)) @ fs \<and> map flit_core fs = cs)"

lemma sent_on_refl [simp]: "sent_on j ics ics []"
  by (simp add: sent_on_def)

lemma sent_on_trans: "sent_on j a b cs \<Longrightarrow> sent_on j b c ds \<Longrightarrow> sent_on j a c (cs @ ds)"
  by (auto simp: sent_on_def)

lemma sent_on_other: "j \<noteq> i \<Longrightarrow> sent_on j ics (ics[i := x]) []"
  by (simp add: sent_on_def)

lemma sw_assign_intervals:
  "sw_address_intervals s' = sw_address_intervals s \<Longrightarrow> sw_assign s' prev fs = sw_assign s prev fs"
  by (induction fs arbitrary: prev) (auto simp: sw_decode_def sw_destination_device_def split: sum.splits)

text \<open>What the loop over the ports keeps, and what it sends.\<close>

definition sent_rel :: "CXLSwitch \<Rightarrow> interconnects \<Rightarrow> CXLSwitch \<Rightarrow> interconnects \<Rightarrow> bool" where
  "sent_rel s ics s' ics' \<longleftrightarrow>
    length ics' = length ics \<and> map snd ics' = map snd ics \<and>
    sw_d2h_half s' = sw_d2h_half s \<and> sw_wiring s' = sw_wiring s \<and> h2d_queue s' = h2d_queue s \<and>
    sent_on (sw_bus_to_host s) ics ics' [] \<and>
    (\<forall>d j. sm_find (sw_connected_downstream_tx s) d = Some j \<longrightarrow>
       (\<exists>cs. sent_on j ics ics' cs \<and> sw_pending s d = cs @ sw_pending s' d))"

lemma sent_rel_refl: "sent_rel s ics s ics"
  by (auto simp: sent_rel_def)

lemma sent_rel_trans:
  assumes "sent_rel s ics t jcs" "sent_rel t jcs s' ics'"
  shows "sent_rel s ics s' ics'"
proof -
  have w: "sw_connected_downstream_tx t = sw_connected_downstream_tx s" "sw_bus_to_host t = sw_bus_to_host s"
    using assms(1) by (simp_all add: sent_rel_def sw_wiring_def)
  have "\<exists>cs. sent_on j ics ics' cs \<and> sw_pending s d = cs @ sw_pending s' d"
    if "sm_find (sw_connected_downstream_tx s) d = Some j" for d j
    using that assms w sent_on_trans unfolding sent_rel_def by (metis append_assoc)
  moreover have "sent_on (sw_bus_to_host s) ics ics' []"
    using assms w sent_on_trans [of _ ics jcs "[]" ics' "[]"] by (simp add: sent_rel_def)
  ultimately show ?thesis using assms by (simp add: sent_rel_def)
qed

lemma links_ok_rel: "sent_rel s ics s' ics' \<Longrightarrow> links_ok s ics \<Longrightarrow> links_ok s' ics'"
  by (simp add: sent_rel_def links_ok_def sw_wiring_def)

lemma sw_send_rel:
  assumes snd: "sw_send u g stamp (sm_get (CXLBuf_new 0) (sw_downstream_buffers_tx s) i) (fst (ics ! j)) = Inr (tx, b)"
    and ok: "links_ok s ics" and j: "sm_find (sw_connected_downstream_tx s) i = Some j"
  shows "sent_rel s ics (s\<lparr>sw_downstream_buffers_tx := sm_put i tx (sw_downstream_buffers_tx s),
      sw_downstream_last_transmission := l\<rparr>) (ics[j := (b, snd (ics ! j))])"
proof -
  let ?s = "s\<lparr>sw_downstream_buffers_tx := sm_put i tx (sw_downstream_buffers_tx s), sw_downstream_last_transmission := l\<rparr>"
  let ?ics = "ics[j := (b, snd (ics ! j))]" and ?q = "sm_get (CXLBuf_new 0) (sw_downstream_buffers_tx s) i"
  have len: "j < length ics" "j \<noteq> sw_bus_to_host s" using ok j by (auto simp: links_ok_def)
  note sr = sw_send_returns [OF snd]
  have h: "h2d_queue ?s = h2d_queue s" by (simp add: h2d_queue_def)
  have assign: "sw_assign ?s prev fs = sw_assign s prev fs" for prev fs by (rule sw_assign_intervals) simp
  have p: "sw_pending s d = (if d = i then [flit_core (hd (buf_q ?q))] else []) @ sw_pending ?s d" for d
    using arg_cong [OF sr(2), of "map flit_core"]
    by (simp add: sw_pending_def h assign sm_get_put del: list.map_sel)
  have on_i: "sent_on j ics ?ics [flit_core (hd (buf_q ?q))]"
    using sr(3) len by (auto simp: sent_on_def)
  have "\<exists>cs. sent_on j' ics ?ics cs \<and> sw_pending s d = cs @ sw_pending ?s d"
    if "sm_find (sw_connected_downstream_tx s) d = Some j'" for d j'
  proof (cases "d = i")
    case True
    then show ?thesis using on_i p [of d] that j by auto
  next
    case False
    then have "j' \<noteq> j" using ok j that by (auto simp: links_ok_def)
    then show ?thesis using sent_on_other [of j' j ics] p [of d] False by auto
  qed
  moreover have "map snd ?ics = map snd ics"
    by (metis len(1) list_update_id map_update nth_map snd_conv)
  ultimately show ?thesis
    using sent_on_other [of "sw_bus_to_host s" j ics] len(2) h
    by (simp add: sent_rel_def sw_d2h_half_def sw_wiring_def)
qed

lemma sent_rel_touch: "sent_rel s ics (s\<lparr>sw_downstream_last_transmission := l\<rparr>) ics"
proof -
  let ?s = "s\<lparr>sw_downstream_last_transmission := l\<rparr>"
  have "sw_assign ?s prev fs = sw_assign s prev fs" for prev fs by (rule sw_assign_intervals) simp
  then have "sw_pending ?s d = sw_pending s d" for d by (simp add: sw_pending_def h2d_queue_def)
  then show ?thesis by (auto simp: sent_rel_def sw_d2h_half_def sw_wiring_def h2d_queue_def)
qed

lemma sw_to_devices_rel:
  assumes "sw_to_devices p u g is flag s ics = Inr (flag', s', ics')" "links_ok s ics"
  shows "sent_rel s ics s' ics'"
  using assms
proof (induction "is" arbitrary: flag s ics)
  case Nil
  then show ?case by (simp add: sent_rel_refl)
next
  case (Cons i "is")
  let ?q = "sm_get (CXLBuf_new 0) (sw_downstream_buffers_tx s) i"
  let ?s = "s\<lparr>sw_downstream_last_transmission := sm_insert i 0 (sw_downstream_last_transmission s)\<rparr>"
  obtain due fl where c: "check_buffer_condition g ?q (delay_cxl_port_switch p) flag = Inr (due, fl)"
    using Cons.prems(1) by (auto simp: Let_def)
  show ?case
  proof (cases due)
    case False
    then show ?thesis using Cons c by (simp add: Let_def)
  next
    case True
    with Cons.prems(1) c obtain j where j: "sm_find (sw_connected_downstream_tx s) i = Some j"
      by (auto simp: Let_def split: option.splits)
    note t = sent_rel_touch [of s ics "sm_insert i 0 (sw_downstream_last_transmission s)"]
    have lk: "links_ok ?s ics" by (rule links_ok_rel [OF t Cons.prems(2)])
    show ?thesis
    proof (cases "check_transmission p g (sm_get 0 (sw_downstream_last_transmission ?s) i) (fst (ics ! j))")
      case False
      then have "sw_to_devices p u g is fl ?s ics = Inr (flag', s', ics')"
        using Cons.prems(1) c j True by (simp add: Let_def)
      from sent_rel_trans [OF t Cons.IH [OF this lk]] show ?thesis .
    next
      case send: True
      then obtain tx b where sd: "sw_send u g tick_switch_ds_tx_update ?q (fst (ics ! j)) = Inr (tx, b)"
        and rec: "sw_to_devices p u g is fl
          (?s\<lparr>sw_downstream_buffers_tx := sm_put i tx (sw_downstream_buffers_tx ?s),
              sw_downstream_last_transmission := sm_put i (word_of_int (curr_tick g)) (sw_downstream_last_transmission ?s)\<rparr>)
          (ics[j := (b, snd (ics ! j))]) = Inr (flag', s', ics')"
        using Cons.prems(1) c j True by (auto simp: Let_def)
      have r: "sent_rel ?s ics (?s\<lparr>sw_downstream_buffers_tx := sm_put i tx (sw_downstream_buffers_tx ?s),
              sw_downstream_last_transmission := sm_put i (word_of_int (curr_tick g)) (sw_downstream_last_transmission ?s)\<rparr>)
          (ics[j := (b, snd (ics ! j))])"
        by (rule sw_send_rel [OF _ lk]) (use sd j in simp_all)
      from sent_rel_trans [OF sent_rel_trans [OF t r] Cons.IH [OF rec links_ok_rel [OF r lk]]] show ?thesis .
    qed
  qed
qed

section \<open>The whole tick\<close>

lemma sw_merge_up:
  assumes "sw_merge p u g flag s = Inr (flag', s')"
  shows "map flit_core (sw_up s') = map flit_core (sw_up s)" "sw_rx s' = sw_rx s" "sw_curr_port s' = sw_curr_port s"
    "sw_expected_rollover s' = sw_expected_rollover s" "sw_h2d_half s' = sw_h2d_half s" "sw_wiring s' = sw_wiring s"
proof -
  obtain due fl where c: "check_buffer_condition g (sw_ARB_NOC_d2h s) (delay_cxl_noc_switch p) flag = Inr (due, fl)"
    using assms by (auto simp: sw_merge_def)
  have "s' = s" if "\<not> due" using assms c that by (simp add: sw_merge_def)
  moreover have "map flit_core (sw_up s') = map flit_core (sw_up s) \<and> (\<exists>arb tx. s' = s\<lparr>sw_ARB_NOC_d2h := arb, sw_upstream_buffer_tx := tx\<rparr>)" if d: due
  proof -
    obtain f arb tx where mv: "sw_move u g (sw_ARB_NOC_d2h s) (sw_upstream_buffer_tx s) = Inr (f, arb, tx)"
      and s': "s' = s\<lparr>sw_ARB_NOC_d2h := arb, sw_upstream_buffer_tx := tx\<rparr>"
      using assms c d by (auto simp: sw_merge_def)
    note m = sw_move_returns [OF mv]
    show ?thesis
      using m(2,4) arg_cong [OF m(3), of "map flit_core"] s' by (auto simp: sw_up_def)
  qed
  ultimately show "map flit_core (sw_up s') = map flit_core (sw_up s)" "sw_rx s' = sw_rx s" "sw_curr_port s' = sw_curr_port s"
    "sw_expected_rollover s' = sw_expected_rollover s" "sw_h2d_half s' = sw_h2d_half s" "sw_wiring s' = sw_wiring s"
    by (cases due; auto simp: sw_rx_def fun_eq_iff sw_h2d_half_def sw_wiring_def)+
qed

lemma sw_to_host_up:
  assumes "sw_to_host p u g flag s ics = Inr (flag', s', ics')" "links_ok s ics"
  shows "sw_rx s' = sw_rx s" "sw_curr_port s' = sw_curr_port s" "sw_expected_rollover s' = sw_expected_rollover s"
    "sw_h2d_half s' = sw_h2d_half s" "sw_wiring s' = sw_wiring s" "links_ok s' ics'"
    "\<exists>cs. sent_on (sw_bus_to_host s) ics ics' cs \<and> map flit_core (sw_up s) = cs @ map flit_core (sw_up s')"
    "\<And>j. j \<noteq> sw_bus_to_host s \<Longrightarrow> sent_on j ics ics' []"
proof -
  let ?j = "sw_bus_to_host s"
  obtain due fl where c: "check_buffer_condition g (sw_upstream_buffer_tx s) (delay_cxl_port_switch p) flag = Inr (due, fl)"
    using assms(1) by (auto simp: sw_to_host_def)
  let ?go = "due \<and> check_transmission p g (sw_last_transmission s) (fst (ics ! ?j))"
  have j: "?j < length ics" using assms(2) by (simp add: links_ok_def)
  have stay: "s' = s \<and> ics' = ics" if "\<not> ?go" using assms(1) c that by (auto simp: sw_to_host_def Let_def)
  have go: "\<exists>tx b. sw_send u g tick_switch_us_tx_update (sw_upstream_buffer_tx s) (fst (ics ! ?j)) = Inr (tx, b) \<and>
     s' = s\<lparr>sw_upstream_buffer_tx := tx, sw_last_transmission := word_of_int (curr_tick g)\<rparr> \<and>
     ics' = ics[?j := (b, snd (ics ! ?j))]" if ?go
    using assms(1) c that by (auto simp: sw_to_host_def Let_def)
  show "sw_rx s' = sw_rx s" "sw_curr_port s' = sw_curr_port s" "sw_expected_rollover s' = sw_expected_rollover s"
    "sw_h2d_half s' = sw_h2d_half s" "sw_wiring s' = sw_wiring s" "links_ok s' ics'"
    using stay go assms(2) by (cases ?go; auto simp: sw_rx_def fun_eq_iff sw_h2d_half_def sw_wiring_def links_ok_def)+
  show "\<And>j. j \<noteq> ?j \<Longrightarrow> sent_on j ics ics' []"
    using stay go by (cases ?go) (auto simp: sent_on_other)
  show "\<exists>cs. sent_on ?j ics ics' cs \<and> map flit_core (sw_up s) = cs @ map flit_core (sw_up s')"
  proof (cases ?go)
    case False
    then show ?thesis using stay by auto
  next
    case True
    with go obtain tx b where sd: "sw_send u g tick_switch_us_tx_update (sw_upstream_buffer_tx s) (fst (ics ! ?j)) = Inr (tx, b)"
      and s': "s' = s\<lparr>sw_upstream_buffer_tx := tx, sw_last_transmission := word_of_int (curr_tick g)\<rparr>"
      "ics' = ics[?j := (b, snd (ics ! ?j))]" by blast
    note sr = sw_send_returns [OF sd]
    have "sent_on ?j ics ics' [flit_core (hd (buf_q (sw_upstream_buffer_tx s)))]"
      using sr(3) j by (auto simp: sent_on_def s')
    moreover have "map flit_core (sw_up s) = [flit_core (hd (buf_q (sw_upstream_buffer_tx s)))] @ map flit_core (sw_up s')"
      using arg_cong [OF sr(2), of "map flit_core"] by (simp add: sw_up_def s' del: list.map_sel)
    ultimately show ?thesis by blast
  qed
qed

lemma pending_half:
  assumes "sw_h2d_half s' = sw_h2d_half s" "sw_wiring s' = sw_wiring s"
  shows "sw_pending s' d = sw_pending s d" "h2d_queue s' = h2d_queue s"
proof -
  have "sw_assign s' prev fs = sw_assign s prev fs" for prev fs
    by (rule sw_assign_intervals) (use assms(2) in \<open>simp add: sw_wiring_def\<close>)
  with assms show "sw_pending s' d = sw_pending s d" "h2d_queue s' = h2d_queue s"
    by (simp_all add: sw_h2d_half_def sw_pending_def h2d_queue_def)
qed

lemma up_half:
  assumes "sw_d2h_half s' = sw_d2h_half s"
  shows "sw_up s' = sw_up s" "sw_rx s' = sw_rx s" "sw_curr_port s' = sw_curr_port s" "sw_expected_rollover s' = sw_expected_rollover s"
  using assms by (auto simp: sw_d2h_half_def sw_up_def sw_rx_def fun_eq_iff)

lemma ports_cong:
  assumes "sw_rx s' = sw_rx s" "sw_curr_port s' = sw_curr_port s" "sw_expected_rollover s' = sw_expected_rollover s"
  shows "sw_ports_ok s' \<longleftrightarrow> sw_ports_ok s"
proof -
  have "port_rollover s' = port_rollover s" using assms by (simp add: port_rollover_def fun_eq_iff)
  then show ?thesis using assms by (simp add: sw_ports_ok_def)
qed

lemma all_rx_frame:
  assumes "all_rx_buf_empty s = (b, s')"
  shows "sw_h2d_half s' = sw_h2d_half s" "sw_wiring s' = sw_wiring s" "sw_up s' = sw_up s" "sw_rx s' = sw_rx s"
    "sw_curr_port s' = sw_curr_port s" "sw_expected_rollover s' = sw_expected_rollover s" "links_ok s' ics = links_ok s ics"
proof -
  have s': "s' = s\<lparr>sw_downstream_buffers_rx :=
      fold (\<lambda>i. sm_insert i (CXLBuf_new 0)) (map of_nat [0 ..< unat (sw_num_devices s)]) (sw_downstream_buffers_rx s)\<rparr>"
    using assms by (simp add: all_rx_buf_empty_def Let_def)
  show "sw_h2d_half s' = sw_h2d_half s" "sw_wiring s' = sw_wiring s" "sw_up s' = sw_up s" "sw_rx s' = sw_rx s"
    "sw_curr_port s' = sw_curr_port s" "sw_expected_rollover s' = sw_expected_rollover s" "links_ok s' ics = links_ok s ics"
    by (simp_all add: s' sw_h2d_half_def sw_wiring_def sw_up_def sw_rx_def fun_eq_iff links_ok_def sm_get_fold_insert del: fold_map)
qed

text \<open>What a tick does with the flits in both directions.\<close>

definition sw_tick_rel :: "CXLSwitch \<Rightarrow> interconnects \<Rightarrow> CXLSwitch \<Rightarrow> interconnects \<Rightarrow> bool" where
  "sw_tick_rel s ics s' ics' \<longleftrightarrow>
     sw_wiring s' = sw_wiring s \<and> links_ok s' ics' \<and> list_all four_slots (h2d_queue s') \<and> sw_ports_ok s' \<and>
     (\<forall>d j. sm_find (sw_connected_downstream_tx s) d = Some j \<longrightarrow>
        (\<exists>cs. sent_on j ics ics' cs \<and> sw_pending s d = cs @ sw_pending s' d)) \<and>
     (\<exists>cs. sent_on (sw_bus_to_host s) ics ics' cs \<and>
        ((cs @ map flit_core (sw_up s') = map flit_core (sw_up s) \<and> sw_expected_rollover s' = sw_expected_rollover s) \<or>
         (\<exists>f. cs @ map flit_core (sw_up s') = map flit_core (sw_up s @ [f]) \<and>
            wire_flit (uint (sw_expected_rollover s)) (kinds_of kind_dev f) = Some (uint (sw_expected_rollover s')))))"

lemma sw_stages_rel:
  assumes ret: "sw_stages p u g s ics = Inr (flag, s', ics')"
    and ok: "links_ok s ics" "list_all four_slots (h2d_queue s)" "sw_ports_ok s"
  shows "sw_tick_rel s ics s' ics'"
proof -
  obtain f1 s1 f2 s2 f3 s3 ics3 f4 s4 f5 s5 where
    st: "sw_from_host p u g True s = Inr (f1, s1)" "sw_route p u g f1 s1 = Inr (f2, s2)"
      "sw_to_devices p u g (map fst (sw_downstream_buffers_tx s2)) f2 s2 ics = Inr (f3, s3, ics3)"
      "sw_from_devices p u g (unat (sw_num_devices s3)) f3 s3 = Inr (f4, s4)" "sw_merge p u g f4 s4 = Inr (f5, s5)"
      "sw_to_host p u g f5 s5 ics3 = Inr (flag, s', ics')"
    using ret by (auto simp: sw_stages_def)
  note a = sw_from_host_pending [OF st(1) ok(2)]
  note b = sw_route_pending [OF st(2) a(2)]
  have w2: "sw_wiring s2 = sw_wiring s" "sw_d2h_half s2 = sw_d2h_half s" using a b by simp_all
  then have l2: "links_ok s2 ics" using ok(1) by (simp add: links_ok_def sw_wiring_def)
  note c = sw_to_devices_rel [OF st(3) l2]
  note l3 = links_ok_rel [OF c l2]
  have w3: "sw_wiring s3 = sw_wiring s" "sw_d2h_half s3 = sw_d2h_half s" using c w2 by (simp_all add: sent_rel_def)
  note u3 = up_half [OF w3(2)]
  have p3: "sw_ports_ok s3" using ports_cong [OF u3(2-4)] ok(3) by simp
  note d = sw_from_devices_merge [OF st(4) p3]
  note e = sw_merge_up [OF st(5)]
  have w5: "sw_wiring s5 = sw_wiring s" "sw_h2d_half s5 = sw_h2d_half s3" using d e w3 by simp_all
  have l5: "links_ok s5 ics3" using l3 w5(1) w3(1) by (simp add: links_ok_def sw_wiring_def)
  note f = sw_to_host_up [OF st(6) l5]
  have ports: "sw_ports_ok s'" using ports_cong [OF f(1-3)] ports_cong [OF e(2-4)] d by simp
  have w': "sw_wiring s' = sw_wiring s" "sw_h2d_half s' = sw_h2d_half s3" using f w5 by simp_all
  have p': "sw_pending s' dv = sw_pending s3 dv" for dv by (rule pending_half) (use w' w3 in simp_all)
  have con: "sw_connected_downstream_tx s2 = sw_connected_downstream_tx s" "sw_bus_to_host s5 = sw_bus_to_host s"
    "sw_bus_to_host s2 = sw_bus_to_host s" using w2 w5 by (simp_all add: sw_wiring_def)
  have route: "\<exists>cs. sent_on j ics ics' cs \<and> sw_pending s dv = cs @ sw_pending s' dv"
    if j: "sm_find (sw_connected_downstream_tx s) dv = Some j" for dv j
  proof -
    obtain cs where cs: "sent_on j ics ics3 cs" "sw_pending s2 dv = cs @ sw_pending s3 dv"
      using c j con by (auto simp: sent_rel_def)
    have "j \<noteq> sw_bus_to_host s5" using ok(1) j con by (auto simp: links_ok_def)
    from sent_on_trans [OF cs(1) f(8) [OF this]] cs(2) a(1) b(1) p' show ?thesis by auto
  qed
  obtain cs where cs: "sent_on (sw_bus_to_host s) ics3 ics' cs" "map flit_core (sw_up s5) = cs @ map flit_core (sw_up s')"
    using f(7) con by auto
  have "sent_on (sw_bus_to_host s) ics ics3 []" using c con by (simp add: sent_rel_def)
  from sent_on_trans [OF this cs(1)] have on: "sent_on (sw_bus_to_host s) ics ics' cs" by simp
  have "h2d_queue s' = h2d_queue s3" by (rule pending_half) (use w' w3 in simp_all)
  then have "list_all four_slots (h2d_queue s')" using c b(2) by (simp add: sent_rel_def)
  moreover have "(cs @ map flit_core (sw_up s') = map flit_core (sw_up s) \<and> sw_expected_rollover s' = sw_expected_rollover s) \<or>
         (\<exists>f. cs @ map flit_core (sw_up s') = map flit_core (sw_up s @ [f]) \<and>
            wire_flit (uint (sw_expected_rollover s)) (kinds_of kind_dev f) = Some (uint (sw_expected_rollover s')))"
    using d cs(2) e(1,4) f(3) u3(1,4) by auto
  ultimately show ?thesis using w'(1) f(6) ports route on unfolding sw_tick_rel_def by blast
qed

lemma CXLSwitch_update_rel:
  assumes ret: "CXLSwitch_update p u skip g s ics = Inr (s', ics')"
    and ok: "links_ok s ics" "list_all four_slots (h2d_queue s)" "sw_ports_ok s"
  shows "sw_tick_rel s ics s' ics'"
proof -
  obtain idle t where t: "(if skip \<and> sw_skip_cycle s then all_rx_buf_empty s else (False, s)) = (idle, t)"
    by (cases "if skip \<and> sw_skip_cycle s then all_rx_buf_empty s else (False, s)")
  have fr: "sw_h2d_half t = sw_h2d_half s" "sw_wiring t = sw_wiring s" "sw_up t = sw_up s" "sw_rx t = sw_rx s"
    "sw_curr_port t = sw_curr_port s" "sw_expected_rollover t = sw_expected_rollover s" "links_ok t ics"
    using t all_rx_frame(1-6) [of s idle t] all_rx_frame(7) [of s idle t ics] ok(1) by (auto split: if_splits)
  have p: "sw_pending t d = sw_pending s d" "h2d_queue t = h2d_queue s" for d by (rule pending_half [OF fr(1,2)])+
  have "sw_ports_ok t" using ports_cong [OF fr(4-6)] ok(3) by simp
  have con: "sw_connected_downstream_tx t = sw_connected_downstream_tx s" "sw_bus_to_host t = sw_bus_to_host s"
    using fr(2) by (simp_all add: sw_wiring_def)
  have rel: "sw_tick_rel t ics x y \<longleftrightarrow> sw_tick_rel s ics x y" for x y
    by (simp add: sw_tick_rel_def fr con p)
  show ?thesis
  proof (cases idle)
    case True
    then have "s' = t" "ics' = ics" using ret t by (simp_all add: CXLSwitch_update_def)
    moreover have "sw_tick_rel t ics t ics"
      using fr p ok(2) \<open>sw_ports_ok t\<close> by (auto simp: sw_tick_rel_def intro!: exI [of _ "[]"])
    ultimately show ?thesis using rel by simp
  next
    case False
    then obtain flag s1 where st: "sw_stages p u g t ics = Inr (flag, s1, ics')"
      and s': "s' = (if skip then s1\<lparr>sw_skip_cycle := flag\<rparr> else s1)"
      using ret t by (auto simp: CXLSwitch_update_def)
    have r: "sw_tick_rel t ics s1 ics'"
      by (rule sw_stages_rel [OF st fr(7)]) (use ok(2) p \<open>sw_ports_ok t\<close> in simp_all)
    let ?s = "s1\<lparr>sw_skip_cycle := flag\<rparr>"
    have h: "sw_h2d_half ?s = sw_h2d_half s1" "sw_wiring ?s = sw_wiring s1" "sw_d2h_half ?s = sw_d2h_half s1"
      by (simp_all add: sw_h2d_half_def sw_wiring_def sw_d2h_half_def)
    have "sw_tick_rel t ics ?s ics'"
      using r pending_half [OF h(1,2)] up_half [OF h(3)] ports_cong [OF up_half(2-4) [OF h(3)]] h(2)
      by (simp add: sw_tick_rel_def links_ok_def)
    with r rel s' show ?thesis by simp
  qed
qed

end
