(* ===== verification/CXL_Host_Reg.thy ===== *)
theory CXL_Host_Reg
  imports CXL_Host_Pack
begin

text \<open>
  Construction of a host and registration of its devices: the packer invariant holds from the
  start, a registered interval is routed to its device, and the registry stays one entry per
  device.
\<close>

section \<open>Construction\<close>

lemma host_new_ok:
  assumes "0 \<le> sz" "sz < 2 ^ 31"
  shows "ho_packer_ok (CXLHost_new u junk vc_size sz nid)"
  using assms
  by (simp add: ho_packer_ok_def CXLHost_new_def ho_typed_def vcs_carry_def vcs_route_def NUM_VC_def
      ho_credit_ok_def ho_credits_nonneg_def CXLBuf_new_def buf_ok_def)

text \<open>Registering a device keeps every address that was routed routed.\<close>

lemma register_routes:
  assumes "register_device i iv h = Inr h'"
    "\<forall>e \<in> set (ho_address_intervals h). sm_find (ho_ext_creds h) (node_key (fst e)) \<noteq> None" "routes h a"
  shows "routes h' a"
proof -
  let ?P = "\<lambda>(_ :: u64, lo, hi). a < hi \<and> a \<ge> lo"
  have h': "ho_address_intervals h' = sm_insert i iv (ho_address_intervals h)"
    "ho_ext_creds h' = sm_insert (node_key i) \<lparr>req_credit = 1, rsp_credit = 0, data_credit = 1\<rparr> (ho_ext_creds h)"
    using assms(1) by (auto simp: register_device_def)
  have "find ?P (ho_address_intervals h) \<noteq> None"
    using assms(3) by (auto simp: routes_def on_dest_iff destination_device_def split: option.splits)
  then have "find ?P (ho_address_intervals h') \<noteq> None"
    unfolding h' sm_insert_def by (cases "sm_find (ho_address_intervals h) i = None") (simp_all only: if_True if_False find_put_mono simp_thms)
  then obtain e where e: "find ?P (ho_address_intervals h') = Some e" by auto
  then have "e \<in> set (ho_address_intervals h')" by (metis find_Some_iff nth_mem)
  then have "e = (i, iv) \<or> e \<in> set (ho_address_intervals h)"
    using set_sm_put [of i iv "ho_address_intervals h"] by (auto simp: h' sm_insert_def split: if_splits)
  then have "sm_find (ho_ext_creds h') (node_key (fst e)) \<noteq> None"
    using assms(2) by (auto simp: h' sm_insert_def)
  with e show ?thesis by (auto simp: routes_def on_dest_iff destination_device_def case_prod_beta)
qed

text \<open>The registry: one interval and one credit entry per connected device.\<close>

definition registry_ok :: "CXLHost \<Rightarrow> bool" where
  "registry_ok h \<longleftrightarrow> sm_ok (ho_address_intervals h) \<and> sm_ok (ho_ext_creds h) \<and>
     distinct (ho_connected_devices h) \<and> fst ` set (ho_address_intervals h) = set (ho_connected_devices h) \<and>
     fst ` set (ho_ext_creds h) = node_key ` set (ho_connected_devices h) \<and>
     (\<forall>i \<in> set (ho_connected_devices h). i < 2 ^ 32 \<and> i \<noteq> 4096) \<and>
     length (ho_ext_creds h) = length (ho_connected_devices h)"

lemma node_key_small: "i < 2 ^ 32 \<Longrightarrow> node_key i = uint i"
proof -
  assume i: "i < 2 ^ 32"
  have "uint i < uint (2 ^ 32 :: u64)" using i by (simp only: word_less_def)
  then have "uint i < 2 ^ 32" by simp
  then show ?thesis by (simp add: node_key_def unsigned_ucast_eq take_bit_int_eq_self_iff)
qed

lemma registry_intervals: "registry_ok h \<Longrightarrow> e \<in> set (ho_address_intervals h) \<Longrightarrow>
    node_key (fst e) \<noteq> NO_DEVICE \<and> sm_find (ho_ext_creds h) (node_key (fst e)) \<noteq> None"
proof -
  assume ok: "registry_ok h" and e: "e \<in> set (ho_address_intervals h)"
  then have i: "fst e \<in> set (ho_connected_devices h)" unfolding registry_ok_def by blast
  with ok have "fst e < 2 ^ 32" "fst e \<noteq> 4096" unfolding registry_ok_def by blast+
  moreover have "fst e = 4096" if "uint (fst e) = 4096"
    using that word_of_int_uint [of "fst e"] by (simp only:) simp
  ultimately have "node_key (fst e) \<noteq> NO_DEVICE"
    by (auto simp: node_key_small)
  moreover have "sm_find (ho_ext_creds h) (node_key (fst e)) \<noteq> None"
    using ok i unfolding registry_ok_def sm_find_iff by blast
  ultimately show ?thesis by blast
qed

lemma register_ok:
  assumes reg: "registry_ok h" and ok: "ho_packer_ok h" "\<not> ho_is_packer_waiting h" "ho_packer_rollover h = 0"
    and i: "i \<notin> set (ho_connected_devices h)" "i < 2 ^ 32" "i \<noteq> 4096"
  obtains h' where "register_device i iv h = Inr h'" "registry_ok h'" "ho_packer_ok h'"
    "ho_connected_devices h' = ho_connected_devices h @ [i]"
    "ho_address_intervals h' = sm_put i iv (ho_address_intervals h)"
    "\<not> ho_is_packer_waiting h'" "ho_packer_rollover h' = 0"
proof -
  let ?c = "\<lparr>req_credit = 1, rsp_credit = 0, data_credit = 1\<rparr>"
  let ?h = "h\<lparr>ho_connected_devices := ho_connected_devices h @ [i],
     ho_address_intervals := sm_put i iv (ho_address_intervals h), ho_ext_creds := sm_put (node_key i) ?c (ho_ext_creds h)\<rparr>"
  have new: "sm_find (ho_address_intervals h) i = None"
    using reg i(1) sm_find_iff [of "ho_address_intervals h" i] unfolding registry_ok_def by blast
  have inj: "node_key i \<noteq> node_key j" if "j \<in> set (ho_connected_devices h)" for j
  proof -
    have "j < 2 ^ 32" "j \<noteq> i" using reg that i(1) unfolding registry_ok_def by blast+
    then show ?thesis using i(2) unfolding node_key_small [OF i(2)] by (metis node_key_small unsigned_word_eqI)
  qed
  then have newc: "sm_find (ho_ext_creds h) (node_key i) = None"
    using reg sm_find_iff [of "ho_ext_creds h" "node_key i"] unfolding registry_ok_def by blast
  have r: "register_device i iv h = Inr ?h"
    using i(1) new newc by (auto simp: register_device_def list_all_iff sm_insert_def)
  have reg': "registry_ok ?h"
    using reg i new newc by (auto simp: registry_ok_def fst_set_sm_put length_sm_put)
  have nn: "ho_credits_nonneg ?h"
    using ok(1) set_sm_put [of "node_key i" ?c "ho_ext_creds h"]
    by (auto simp: ho_packer_ok_def ho_credit_ok_def ho_credits_nonneg_def)
  have iv: "\<forall>e \<in> set (ho_address_intervals h). sm_find (ho_ext_creds h) (node_key (fst e)) \<noteq> None"
    using registry_intervals [OF reg] by blast
  have "vcs_route ?h vcs" if "vcs_route h vcs" for vcs
    using that register_routes [OF r iv] by (auto simp: vcs_route_def)
  moreover have "\<forall>iv \<in> set (ho_address_intervals ?h). node_key (fst iv) \<noteq> NO_DEVICE"
    using registry_intervals [OF reg'] by blast
  ultimately have "ho_packer_ok ?h"
    using ok nn by (simp add: ho_packer_ok_def ho_typed_def ho_credit_ok_def)
  then show thesis using that [of ?h] r reg' ok(2,3) by simp
qed

text \<open>The registrations that \<^verbatim>\<open>CXLSys\<close> makes for one host, in order.\<close>

fun register_all :: "(u64 \<times> u64 \<times> u64) list \<Rightarrow> CXLHost \<Rightarrow> CXLHost result" where
  "register_all [] h = Inr h"
| "register_all ((i, iv) # rs) h = bind_r (register_device i iv h) (register_all rs)"

lemma register_all_ok:
  assumes "registry_ok h" "ho_packer_ok h" "\<not> ho_is_packer_waiting h" "ho_packer_rollover h = 0"
    and "distinct (map fst rs)" "\<forall>r \<in> set rs. fst r \<notin> set (ho_connected_devices h) \<and> fst r < 2 ^ 32 \<and> fst r \<noteq> 4096"
  shows "\<exists>h'. register_all rs h = Inr h' \<and> registry_ok h' \<and> ho_packer_ok h' \<and>
    set (ho_address_intervals h') = set (ho_address_intervals h) \<union> set rs"
  using assms
proof (induction rs arbitrary: h)
  case (Cons r rs)
  obtain i iv where r: "r = (i, iv)" by (cases r)
  obtain h1 where h1: "register_device i iv h = Inr h1" "registry_ok h1" "ho_packer_ok h1"
    "ho_connected_devices h1 = ho_connected_devices h @ [i]"
    "ho_address_intervals h1 = sm_put i iv (ho_address_intervals h)"
    "\<not> ho_is_packer_waiting h1" "ho_packer_rollover h1 = 0"
    using register_ok [of h i iv] Cons.prems r by auto
  have "sm_find (ho_address_intervals h) i = None"
    using Cons.prems(1,6) sm_find_iff [of "ho_address_intervals h" i] unfolding registry_ok_def r
    by (metis fst_conv list.set_intros(1))
  then have "set (ho_address_intervals h1) = insert r (set (ho_address_intervals h))"
    by (simp add: h1 r set_sm_put_new)
  moreover have "\<forall>r' \<in> set rs. fst r' \<notin> set (ho_connected_devices h1) \<and> fst r' < 2 ^ 32 \<and> fst r' \<noteq> 4096"
    using Cons.prems(5,6) r by (auto simp: h1)
  ultimately show ?case
    using Cons.IH [of h1] h1 Cons.prems(5) by (auto simp: r)
qed auto

section \<open>Properties\<close>

text \<open>C17.  Setting up a host: from a constructed host, registering devices with distinct ids
  and pairwise disjoint address intervals never aborts, ends in a state with the packer
  invariant in which the credit table has one entry per device (the check at the start of
  every tick), and routes every address of an interval to the device that owns it.\<close>

theorem host_setup_ok:
  assumes "0 \<le> sz" "sz < 2 ^ 31" "distinct (map fst rs)"
    "\<forall>r \<in> set rs. fst r < 2 ^ 32 \<and> fst r \<noteq> 4096"
    "\<forall>(i, lo, hi) \<in> set rs. \<forall>(j, lo', hi') \<in> set rs. i \<noteq> j \<longrightarrow> hi \<le> lo' \<or> hi' \<le> lo"
  shows "\<exists>h. register_all rs (CXLHost_new u junk vc_size sz nid) = Inr h \<and> ho_packer_ok h \<and>
    length (ho_ext_creds h) = length (ho_connected_devices h) \<and>
    (\<forall>(i, lo, hi) \<in> set rs. \<forall>a. lo \<le> a \<and> a < hi \<longrightarrow> destination_device h a = Inr (uint i))"
proof -
  let ?h0 = "CXLHost_new u junk vc_size sz nid"
  have "registry_ok ?h0" "\<not> ho_is_packer_waiting ?h0" "ho_packer_rollover ?h0 = 0"
    "ho_connected_devices ?h0 = []" "ho_address_intervals ?h0 = []"
    by (simp_all add: registry_ok_def CXLHost_new_def)
  then obtain h where h: "register_all rs ?h0 = Inr h" "registry_ok h" "ho_packer_ok h"
    "set (ho_address_intervals h) = set rs"
    using register_all_ok [OF _ host_new_ok [OF assms(1,2)], of u junk vc_size nid rs] assms(3,4) by auto
  have "destination_device h a = Inr (uint i)" if r: "(i, lo, hi) \<in> set rs" and a: "lo \<le> a" "a < hi" for i lo hi a
  proof -
    have u: "e = (i, lo, hi)" if "e \<in> set rs" "case e of (_, lo, hi) \<Rightarrow> a < hi \<and> a \<ge> lo" for e
    proof -
      have "fst e = i"
        using that a bspec [OF bspec [OF assms(5) r, simplified] that(1)]
        by (cases e) (auto intro: order.strict_trans2)
      then show ?thesis
        using inj_onD [of fst "set rs" e "(i, lo, hi)"] assms(3) that(1) r by (simp add: distinct_map)
    qed
    have so: "sm_ok (ho_address_intervals h)" using h(2) by (simp add: registry_ok_def)
    have "find (\<lambda>(_ :: u64, lo, hi). a < hi \<and> a \<ge> lo) (ho_address_intervals h) = Some (i, lo, hi)"
    proof (rule find_unique [OF so])
      fix e assume "e \<in> set (ho_address_intervals h)" "case e of (_, lo, hi) \<Rightarrow> a < hi \<and> a \<ge> lo"
      then show "e = (i, lo, hi)" unfolding h(4) by (rule u)
    qed (use r a h(4) in simp_all)
    then show ?thesis using assms(4) r by (auto simp: destination_device_def node_key_small)
  qed
  then have "\<forall>(i, lo, hi) \<in> set rs. \<forall>a. lo \<le> a \<and> a < hi \<longrightarrow> destination_device h a = Inr (uint i)" by blast
  moreover have "length (ho_ext_creds h) = length (ho_connected_devices h)" using h(2) by (simp add: registry_ok_def)
  ultimately show ?thesis using h(1,3) by blast
qed

theorem host_setup_ok_witness:
  "\<exists>h. register_all [(2, 0, 4096), (3, 4096, 8192)] (CXLHost_new sample_uninit 0 32 16 1) = Inr h \<and>
     ho_packer_ok h \<and> length (ho_ext_creds h) = 2 \<and> destination_device h 5000 = Inr 3"
proof -
  let ?rs = "[(2, 0, 4096), (3, 4096, 8192)] :: (u64 \<times> u64 \<times> u64) list"
  obtain h where h: "register_all ?rs (CXLHost_new sample_uninit 0 32 16 1) = Inr h"
    and ok: "ho_packer_ok h" "length (ho_ext_creds h) = length (ho_connected_devices h)"
      "\<forall>(i, lo, hi) \<in> set ?rs. \<forall>a. lo \<le> a \<and> a < hi \<longrightarrow> destination_device h a = Inr (uint i)"
    using host_setup_ok [of 16 ?rs sample_uninit 0 32 1] by auto
  have "length (ho_connected_devices h) = 2" using h by (auto simp: register_device_def CXLHost_new_def)
  with h ok show ?thesis by auto
qed

end
