(* ===== verification/CXL_Fabric.thy ===== *)
theory CXL_Fabric
  imports CXL_Bus_Timing CXL_Host_Unpack CXL_Switch_Flow CXL_Host_Reg
begin

text \<open>
  The fabric: what the switch does with the streams of the nodes.  The stream of the host,
  in which every flit is for one device and owed data follows its header, reaches each device as
  a legal stream; the streams of the devices reach the host merged into a legal one.
\<close>

section \<open>The stream of the host\<close>

text \<open>The flits a host sends, with the device of each: legal on the wire, addressed to one
  device, and to the device of the flit before while data is owed.  The packer sends such a
  stream.\<close>

fun host_stream :: "CXLHost \<Rightarrow> int \<Rightarrow> int \<Rightarrow> (int \<times> flit) list \<Rightarrow> int \<Rightarrow> int \<Rightarrow> bool" where
  "host_stream h d k [] d2 k2 \<longleftrightarrow> k2 = k \<and> (k \<noteq> 0 \<longrightarrow> d2 = d)"
| "host_stream h d k ((d1, f) # fs) d2 k2 \<longleftrightarrow>
     (case wire_flit k (kinds_of kind_host f) of None \<Rightarrow> False | Some k1 \<Rightarrow>
        (k \<noteq> 0 \<longrightarrow> d1 = d) \<and> flit_to h d1 f \<and> \<not> is_flit_empty f \<and> host_stream h d1 k1 fs d2 k2)"

lemma host_stream_start: "(k \<noteq> 0 \<longrightarrow> d = d') \<Longrightarrow> host_stream h d k fs d2 k2 \<longleftrightarrow> host_stream h d' k fs d2 k2"
  by (cases fs) (auto split: option.splits)

lemma host_stream_append:
  "host_stream h d k xs d1 k1 \<Longrightarrow> host_stream h d1 k1 ys d2 k2 \<Longrightarrow> host_stream h d k (xs @ ys) d2 k2"
proof (induction xs arbitrary: d k)
  case Nil
  then show ?case using host_stream_start [of k d d1 h ys] by auto
next
  case (Cons x xs)
  then show ?case by (cases x) (auto split: option.splits)
qed

lemma host_stream_cong:
  "ho_address_intervals h' = ho_address_intervals h \<Longrightarrow> host_stream h' d k fs d2 k2 = host_stream h d k fs d2 k2"
proof (induction fs arbitrary: d k)
  case (Cons x fs)
  obtain d1 f where x: "x = (d1, f)" by (cases x)
  show ?case using Cons flit_to_cong [of f f h' h d1] by (simp add: x split: option.splits)
qed simp

text \<open>The flits one call of the packer appends to the transmit buffer, with their device.\<close>

definition ho_sent :: "CXLHost \<Rightarrow> CXLHost \<Rightarrow> (int \<times> flit) list" where
  "ho_sent h h' = map (Pair (ho_device_under_consideration h'))
     (drop (length (buf_q (ho_tx_buffer h))) (buf_q (ho_tx_buffer h')))"

text \<open>A device sees the flits of the stream that are for it, at the rollover it owes.\<close>

definition dev_rollover :: "int \<Rightarrow> int \<Rightarrow> int \<Rightarrow> int" where
  "dev_rollover d k dev = (if dev = d then k else 0)"

lemma host_stream_device:
  assumes "host_stream h d k fs d2 k2"
  shows "wire_stream (dev_rollover d k dev) (map (kinds_of kind_host \<circ> snd) (filter (\<lambda>x. fst x = dev) fs)) \<noteq> None"
  using assms
proof (induction fs arbitrary: d k)
  case (Cons x fs)
  obtain d' f where x: "x = (d', f)" by (cases x)
  obtain k' where k: "wire_flit k (kinds_of kind_host f) = Some k'" "k \<noteq> 0 \<longrightarrow> d' = d" "host_stream h d' k' fs d2 k2"
    using Cons.prems x by (auto split: option.splits)
  show ?case
  proof (cases "dev = d'")
    case True
    then have "dev_rollover d k dev = k" using k(2) by (auto simp: dev_rollover_def)
    then show ?thesis using Cons.IH [OF k(3)] True k(1) by (simp add: x dev_rollover_def)
  next
    case False
    then have "dev_rollover d k dev = dev_rollover d' k' dev" using k(2) by (auto simp: dev_rollover_def)
    then show ?thesis using Cons.IH [OF k(3)] False by (simp add: x)
  qed
qed simp

section \<open>Host and switch agree on addresses\<close>

definition same_intervals :: "CXLHost \<Rightarrow> CXLSwitch \<Rightarrow> bool" where
  "same_intervals h s \<longleftrightarrow> sw_address_intervals s = ho_address_intervals h \<and>
     (\<forall>e \<in> set (ho_address_intervals h). fst e < 2 ^ 32)"

lemma same_destination:
  assumes "same_intervals h s" "destination_device h a = Inr d"
  obtains i where "sw_destination_device s a = Inr i" "uint i = d"
proof -
  obtain e where e: "find (\<lambda>(_, lo, hi). a < hi \<and> a \<ge> lo) (ho_address_intervals h) = Some e" "node_key (fst e) = d"
    using assms(2) by (auto simp: destination_device_def split: option.splits)
  then have "e \<in> set (ho_address_intervals h)" by (metis find_Some_iff nth_mem)
  then have "node_key (fst e) = uint (fst e)" using assms(1) node_key_small by (auto simp: same_intervals_def)
  with e assms(1) show thesis
    by (intro that [of "fst e"]) (simp_all add: sw_destination_device_def same_intervals_def case_prod_beta)
qed

lemma find_SomeD: "find P xs = Some x \<Longrightarrow> x \<in> set xs \<and> P x"
  by (induction xs) (auto split: if_splits)

lemma first_used_slot:
  assumes "\<not> is_flit_empty f" "flit_to h d f"
  shows "destination_device h (get_first_address f) = Inr d"
proof -
  have "\<exists>x \<in> set (fl_slots f). sl_type x \<noteq> empty"
    using assms(1) by (auto simp: is_flit_empty_def list_all_iff)
  then obtain x where x: "find (\<lambda>s. sl_type s \<noteq> empty) (fl_slots f) = Some x"
    using find_None_iff [of "\<lambda>s. sl_type s \<noteq> empty" "fl_slots f"] by (cases "find (\<lambda>s. sl_type s \<noteq> empty) (fl_slots f)") auto
  then have "x \<in> set (fl_slots f)" "sl_type x \<noteq> empty" by (auto dest: find_SomeD)
  with x assms(2) show ?thesis by (simp add: get_first_address_def flit_to_def)
qed

text \<open>A flit that starts with data continues the one before.\<close>

lemma leading_data_owed:
  assumes "wire_flit k (kinds_of kind_host f) = Some k'" "sl_type (fl_slots f ! 0) = data"
  shows "k \<noteq> 0"
proof
  assume "k = 0"
  then have w: "length (kinds_of kind_host f) = 4" "wire_run 0 (blank_data 0 (kinds_of kind_host f)) = Some k'"
    using assms(1) by (auto simp: wire_flit_def split: if_splits)
  then obtain a b c d where s: "fl_slots f = [a, b, c, d]"
    by (auto simp: kinds_of_def types_def length_4_conv)
  show False using w(2) assms(2) by (simp add: s kinds_of_def types_def)
qed

text \<open>The switch sends every flit to the device the host meant.\<close>

lemma switch_follows_host:
  assumes "same_intervals h s" "host_stream h d k fs d2 k2" "k \<noteq> 0 \<longrightarrow> uint prev = d"
  shows "map (\<lambda>(i, f). (uint i, f)) (sw_assign s prev (map snd fs)) = fs"
  using assms(2,3)
proof (induction fs arbitrary: d k prev)
  case (Cons x fs)
  obtain d' f where x: "x = (d', f)" by (cases x)
  obtain k' where k: "wire_flit k (kinds_of kind_host f) = Some k'" "k \<noteq> 0 \<longrightarrow> d' = d" "flit_to h d' f"
    "\<not> is_flit_empty f" "host_stream h d' k' fs d2 k2"
    using Cons.prems x by (auto split: option.splits)
  obtain i where i: "sw_decode s prev f = Inr i" "uint i = d'"
  proof (cases "sl_type (fl_slots f ! 0) = data")
    case True
    then show ?thesis using that [of prev] leading_data_owed [OF k(1)] k(2) Cons.prems(2) by (simp add: sw_decode_def)
  next
    case False
    then show ?thesis
      using same_destination [OF assms(1) first_used_slot [OF k(4,3)]] that by (auto simp: sw_decode_def)
  qed
  then show ?case using Cons.IH [OF k(5), of i] by (simp add: x)
qed simp

lemma sw_pending_host:
  assumes "same_intervals h s" "host_stream h d k fs d2 k2" "k \<noteq> 0 \<longrightarrow> uint (sw_previous_destination s) = d"
    and "map flit_core (h2d_queue s) = map (flit_core \<circ> snd) fs" "list_all four_slots (h2d_queue s)"
  shows "sw_pending s i = map flit_core (buf_q (sm_get (CXLBuf_new 0) (sw_downstream_buffers_tx s) i)) @
    map (flit_core \<circ> snd) (filter (\<lambda>x. fst x = uint i) fs)"
proof -
  have uint_eq: "uint a = uint b \<longleftrightarrow> a = b" for a b :: u64 by (metis unsigned_word_eqI)
  let ?as = "sw_assign s (sw_previous_destination s) (map snd fs)"
  have "for_device i (sw_assign s (sw_previous_destination s) (h2d_queue s)) = for_device i ?as"
    by (rule sw_assign_core) (use assms(4,5) in simp_all)
  also have "\<dots> = map (flit_core \<circ> snd) (filter (\<lambda>x. fst x = uint i) (map (\<lambda>(i, f). (uint i, f)) ?as))"
    using uint_eq by (simp add: for_device_def filter_map comp_def case_prod_beta)
  finally show ?thesis
    unfolding switch_follows_host [OF assms(1-3)] by (simp add: sw_pending_def)
qed

section \<open>The packer sends a host stream\<close>

lemma ho_sent_stream:
  assumes "ho_packer_ok h" "ho_FLIT_packer p u g h = Inr (b, g', h')"
  shows "host_stream h (ho_device_under_consideration h) (ho_carry h) (ho_sent h h')
      (ho_device_under_consideration h') (ho_carry h')"
    and "ho_packer_ok h'" "ho_address_intervals h' = ho_address_intervals h"
proof -
  have post: "ho_pack_post h h'" using ho_FLIT_packer_cases [OF assms(1), of p u g] assms(2) by auto
  show "ho_packer_ok h'" and iv: "ho_address_intervals h' = ho_address_intervals h"
    using post by (simp_all add: ho_pack_post_def ho_rx_half_def)
  let ?d = "ho_device_under_consideration h'"
  have "ho_sent h h' = [] \<and> ho_carry h' = ho_carry h \<or>
    (\<exists>f. ho_sent h h' = [(?d, f)] \<and> wire_flit (ho_carry h) (kinds_of kind_host f) = Some (ho_carry h') \<and>
       flit_to h' ?d f \<and> \<not> is_flit_empty f)"
    using post by (auto simp: ho_pack_post_def ho_sent_def)
  with post flit_to_cong [OF refl iv] show "host_stream h (ho_device_under_consideration h) (ho_carry h) (ho_sent h h') ?d (ho_carry h')"
    by (auto simp: ho_pack_post_def)
qed

text \<open>A run of the host as the packer sees it: calls of the packer, interleaved with steps of
  the other stages, which may fill channels, return credits and empty the transmit buffer but
  leave the flit under construction and the routing alone.\<close>

definition ho_other_step :: "CXLHost \<Rightarrow> CXLHost \<Rightarrow> bool" where
  "ho_other_step h h' \<longleftrightarrow> ho_packer_ok h' \<and> ho_carry h' = ho_carry h \<and>
     (ho_carry h \<noteq> 0 \<longrightarrow> ho_device_under_consideration h' = ho_device_under_consideration h) \<and>
     ho_address_intervals h' = ho_address_intervals h"

inductive host_run :: "CXLHost \<Rightarrow> (int \<times> flit) list \<Rightarrow> CXLHost \<Rightarrow> bool" for h where
  start: "host_run h [] h"
| pack: "host_run h fs h1 \<Longrightarrow> ho_FLIT_packer p u g h1 = Inr (b, g', h2) \<Longrightarrow> host_run h (fs @ ho_sent h1 h2) h2"
| other: "host_run h fs h1 \<Longrightarrow> ho_other_step h1 h2 \<Longrightarrow> host_run h fs h2"

lemma host_run_stream:
  assumes "host_run h fs h'" "ho_packer_ok h"
  shows "ho_packer_ok h' \<and> ho_address_intervals h' = ho_address_intervals h \<and>
    host_stream h (ho_device_under_consideration h) (ho_carry h) fs (ho_device_under_consideration h') (ho_carry h')"
  using assms
proof (induction rule: host_run.induct)
  case start
  then show ?case by simp
next
  case (pack fs h1 p u g b g' h2)
  note st = ho_sent_stream [OF conjunct1 [OF pack.IH [OF pack.prems]] pack.hyps(2)]
  have "host_stream h (ho_device_under_consideration h1) (ho_carry h1) (ho_sent h1 h2) (ho_device_under_consideration h2) (ho_carry h2)"
    using st(1) pack.IH [OF pack.prems] host_stream_cong [of h1 h] by simp
  with pack st(2,3) show ?case by (auto intro: host_stream_append)
next
  case (other fs h1 h2)
  let ?d1 = "ho_device_under_consideration h1" and ?d2 = "ho_device_under_consideration h2"
  have "host_stream h ?d1 (ho_carry h1) [] ?d2 (ho_carry h2)" using other.hyps(2) by (auto simp: ho_other_step_def)
  with other have "host_stream h (ho_device_under_consideration h) (ho_carry h) (fs @ []) ?d2 (ho_carry h2)"
    by (auto intro: host_stream_append simp del: append_Nil2)
  with other show ?case by (simp add: ho_other_step_def)
qed

section \<open>Properties\<close>


lemma sample_host_returns: "returns (ho_run_packer 100 sample_host)"
  by code_simp


text \<open>A switch with two devices that holds flits of the host for both (a read and a write for
  device 0, the rest of the write, a read for device 1) and a read response of device 1.\<close>

definition sample_h2d :: "flit list" where
  "sample_h2d =
     [sample_flit [(m2s_req, sample_msg Req 64 1), (m2s_rwd_hdr, sample_msg RwD 128 2),
        (data, sample_msg RwD 128 2), (data, sample_msg RwD 128 2)],
      sample_flit [(empty, sample_msg RwD 0 0), (data, sample_msg RwD 128 2), (data, sample_msg RwD 128 2),
        (empty, sample_msg RwD 0 0)],
      sample_flit [(m2s_req, sample_msg Req 1088 3), (empty, sample_msg RwD 0 0), (empty, sample_msg RwD 0 0),
        (empty, sample_msg RwD 0 0)]]"

definition sample_d2h :: flit where
  "sample_d2h = (let f = sample_flit [(s2m_drs_hdr, sample_msg DRS 1088 4), (data, sample_msg DRS 1088 4),
       (data, sample_msg DRS 1088 4), (data, sample_msg DRS 1088 4)]
     in f\<lparr>fl_header := (fl_header f)\<lparr>fh_slots := types f\<rparr>\<rparr>)"

definition sample_switch :: CXLSwitch where
  "sample_switch =
     (let s = connect_upstream 0 0 (CXLSwitch_new (0, 0) 4096 0);
          s = projr (connect_downstream 1 1 0 (0, 1024) s);
          s = projr (connect_downstream 2 2 1 (1024, 2048) s)
      in s\<lparr>sw_upstream_buffer_rx := \<lparr>buf_size = 4096, buf_q = tl sample_h2d\<rparr>,
           sw_ARB_NOC_h2d := \<lparr>buf_size = 4096, buf_q = [hd sample_h2d]\<rparr>,
           sw_downstream_buffers_rx := sm_put 1 \<lparr>buf_size = 4096, buf_q = [sample_d2h]\<rparr> (sw_downstream_buffers_rx s)\<rparr>)"

definition sample_links :: interconnects where
  "sample_links = replicate 3 (let b = CXLBus_new sample_params two_flit_bus 15 0 UpStream in (b, b))"

lemma ports_check:
  assumes "list_all (\<lambda>(i, b). list_all header_marks (buf_q b) \<and>
      wire_stream (port_rollover s i) (map (kinds_of kind_dev) (buf_q b)) \<noteq> None) (sw_downstream_buffers_rx s)"
  shows "sw_ports_ok s"
  unfolding sw_ports_ok_def
proof
  fix i
  show "list_all header_marks (sw_rx s i) \<and> wire_stream (port_rollover s i) (map (kinds_of kind_dev) (sw_rx s i)) \<noteq> None"
  proof (cases "sm_find (sw_downstream_buffers_rx s) i")
    case None
    then show ?thesis by (simp add: sw_rx_def sm_get_def CXLBuf_new_def)
  next
    case (Some b)
    then have "(i, b) \<in> set (sw_downstream_buffers_rx s)" by (simp add: sm_find_def map_of_SomeD)
    with assms Some show ?thesis by (auto simp: sw_rx_def sm_get_def list_all_iff)
  qed
qed

lemma links_check:
  assumes "distinct (map snd (sw_connected_downstream_tx s))" "sw_bus_to_host s < length ics"
    "list_all (\<lambda>(i, j). j < length ics \<and> j \<noteq> sw_bus_to_host s) (sw_connected_downstream_tx s)"
  shows "links_ok s ics"
proof -
  have m: "(i, j) \<in> set (sw_connected_downstream_tx s)" if "sm_find (sw_connected_downstream_tx s) i = Some j" for i j
    using that by (simp add: sm_find_def map_of_SomeD)
  have inj: "inj_on snd (set (sw_connected_downstream_tx s))" using assms(1) by (simp add: distinct_map)
  have "i' = i" if "sm_find (sw_connected_downstream_tx s) i = Some j" "sm_find (sw_connected_downstream_tx s) i' = Some j" for i i' j
    using inj_onD [OF inj _ m [OF that(1)] m [OF that(2)]] by simp
  moreover have "j < length ics \<and> j \<noteq> sw_bus_to_host s" if "sm_find (sw_connected_downstream_tx s) i = Some j" for i j
    using assms(3) m [OF that] by (auto simp: list_all_iff)
  ultimately show ?thesis using assms(2) unfolding links_ok_def by blast
qed

lemma sample_switch_facts:
  "links_ok sample_switch sample_links" "list_all four_slots (h2d_queue sample_switch)" "sw_ports_ok sample_switch"
  "returns (CXLSwitch_update sample_params sample_uninit False (sample_globals 500) sample_switch sample_links)"
proof -
  show "links_ok sample_switch sample_links" by (rule links_check) code_simp+
  show "sw_ports_ok sample_switch" by (rule ports_check) code_simp
qed code_simp+

definition core_kinds :: "(slot_type \<Rightarrow> kind) \<Rightarrow> flit_core \<Rightarrow> kind list" where
  "core_kinds kd c = map kd (core_types c)"

text \<open>C19.  The switch delivers the stream of the host: with a host stream in its inbound
  queues, the flits it puts on the link of a device in a tick, followed by those still inside
  for that device, are exactly those that waited at the port and those the host addressed to the
  device, in order and with their contents; and if the stream on the link was legal so far, it
  stays legal.\<close>

theorem switch_routes:
  assumes "CXLSwitch_update p u skip g s ics = Inr (s', ics')"
    and "links_ok s ics" "list_all four_slots (h2d_queue s)" "sw_ports_ok s"
    and "same_intervals h s" "host_stream h d k fs d2 k2" "k \<noteq> 0 \<longrightarrow> uint (sw_previous_destination s) = d"
    and "map flit_core (h2d_queue s) = map (flit_core \<circ> snd) fs"
    and "sm_find (sw_connected_downstream_tx s) i = Some j"
    and "wire_stream r (map (kinds_of kind_host) (buf_q (sm_get (CXLBuf_new 0) (sw_downstream_buffers_tx s) i)))
           = Some (dev_rollover d k (uint i))"
  shows "\<exists>sent. sent_on j ics ics' sent \<and>
     sent @ sw_pending s' i = map flit_core (buf_q (sm_get (CXLBuf_new 0) (sw_downstream_buffers_tx s) i)) @
       map (flit_core \<circ> snd) (filter (\<lambda>x. fst x = uint i) fs) \<and>
     wire_stream r (map (core_kinds kind_host) (sent @ sw_pending s' i)) \<noteq> None"
proof -
  let ?q = "buf_q (sm_get (CXLBuf_new 0) (sw_downstream_buffers_tx s) i)"
  have pend: "sw_pending s i = map flit_core ?q @ map (flit_core \<circ> snd) (filter (\<lambda>x. fst x = uint i) fs)"
    by (rule sw_pending_host [OF assms(5-8,3)])
  have kc: "core_kinds kind_host (flit_core f) = kinds_of kind_host f" for f
    by (simp add: core_kinds_def kinds_of_def flit_core_views)
  then have "wire_stream r (map (core_kinds kind_host) (sw_pending s i)) \<noteq> None"
    using host_stream_device [OF assms(6), of "uint i"] assms(10)
    by (simp add: pend comp_def wire_stream_append)
  with CXLSwitch_update_rel [OF assms(1-4)] assms(9) pend show ?thesis
    unfolding sw_tick_rel_def by metis
qed

definition sample_fs :: "(int \<times> flit) list" where
  "sample_fs = zip [0, 0, 1] sample_h2d"

theorem switch_routes_witness:
  "\<exists>s' ics' sent. CXLSwitch_update sample_params sample_uninit False (sample_globals 500) sample_switch sample_links = Inr (s', ics') \<and>
     sent_on 1 sample_links ics' sent \<and> sent @ sw_pending s' 0 = map flit_core (take 2 sample_h2d)"
proof -
  obtain s' ics' where r: "CXLSwitch_update sample_params sample_uninit False (sample_globals 500) sample_switch sample_links = Inr (s', ics')"
    using sample_switch_facts(4) by (auto simp: returns_def)
  have iv: "ho_address_intervals sample_host = sw_address_intervals sample_switch"
    "list_all (\<lambda>e. fst e < 2 ^ 32) (ho_address_intervals sample_host)" by code_simp+
  then have same: "same_intervals sample_host sample_switch" by (simp add: same_intervals_def list_all_iff)
  have f: "host_stream sample_host 0 0 sample_fs 1 0"
    "map flit_core (h2d_queue sample_switch) = map (flit_core \<circ> snd) sample_fs"
    "sm_find (sw_connected_downstream_tx sample_switch) 0 = Some 1"
    "wire_stream 0 (map (kinds_of kind_host) (buf_q (sm_get (CXLBuf_new 0) (sw_downstream_buffers_tx sample_switch) 0)))
      = Some (dev_rollover 0 0 (uint (0 :: u64)))"
    "map flit_core (buf_q (sm_get (CXLBuf_new 0) (sw_downstream_buffers_tx sample_switch) 0)) @
       map (flit_core \<circ> snd) (filter (\<lambda>x. fst x = uint (0 :: u64)) sample_fs) = map flit_core (take 2 sample_h2d)"
    by code_simp+
  from switch_routes [OF r sample_switch_facts(1-3) same f(1) _ f(2-4)] f(5) r show ?thesis by auto
qed

text \<open>C20.  The switch merges the streams of the devices into a legal one: if every port holds a
  legal stream at the rollover it owes, a tick puts on the link to the host the oldest flits
  that have passed the ports, lets at most one more flit pass, legal at the rollover of the
  merged stream, and keeps the ports legal; so data owed by one device is never interleaved
  with flits of another.\<close>

theorem switch_merges:
  assumes "CXLSwitch_update p u skip g s ics = Inr (s', ics')"
    and "links_ok s ics" "list_all four_slots (h2d_queue s)" "sw_ports_ok s"
  shows "sw_ports_ok s' \<and> (\<exists>sent. sent_on (sw_bus_to_host s) ics ics' sent \<and>
     ((sent @ map flit_core (sw_up s') = map flit_core (sw_up s) \<and> sw_expected_rollover s' = sw_expected_rollover s) \<or>
      (\<exists>f. sent @ map flit_core (sw_up s') = map flit_core (sw_up s) @ [flit_core f] \<and>
         wire_flit (uint (sw_expected_rollover s)) (kinds_of kind_dev f) = Some (uint (sw_expected_rollover s')))))"
  using CXLSwitch_update_rel [OF assms] by (simp add: sw_tick_rel_def)

theorem switch_merges_witness:
  "\<exists>s' ics' f. CXLSwitch_update sample_params sample_uninit False (sample_globals 500) sample_switch sample_links = Inr (s', ics') \<and>
     sw_ports_ok s' \<and> map flit_core (sw_up s') = [flit_core f] \<and>
     wire_flit 0 (kinds_of kind_dev f) = Some 1 \<and> sw_curr_port s' = 1"
proof -
  obtain s' ics' where r: "CXLSwitch_update sample_params sample_uninit False (sample_globals 500) sample_switch sample_links = Inr (s', ics')"
    using sample_switch_facts(4) by (auto simp: returns_def)
  have f: "sw_up sample_switch = []" "uint (sw_expected_rollover sample_switch) = 0" by code_simp+
  have "let s' = fst (projr (CXLSwitch_update sample_params sample_uninit False (sample_globals 500) sample_switch sample_links))
    in length (sw_up s') = 1 \<and> uint (sw_expected_rollover s') = 1 \<and> sw_curr_port s' = 1" by code_simp
  then have e: "length (sw_up s') = 1" "uint (sw_expected_rollover s') = 1" "sw_curr_port s' = 1" using r by (simp_all add: Let_def)
  from switch_merges [OF r sample_switch_facts(1-3)] f e show ?thesis using r by (auto simp: length_Suc_conv)
qed

end
