(* ===== verification/CXL_Parse.thy ===== *)
theory CXL_Parse
  imports CXL_Host "HOL-Library.Char_ord"
begin

text \<open>
  Reading a line of the trace (\<^verbatim>\<open>src/CXLHost.cpp\<close>, \<^verbatim>\<open>split\<close> and the second half of
  \<^verbatim>\<open>text_to_trace\<close>): the words of a line, \<^verbatim>\<open>std::stoul\<close> with base 0 on them, and the
  request they describe.
\<close>

section \<open>Words\<close>

text \<open>\<^verbatim>\<open>getline\<close> on a string stream: the items between delimiters; nothing follows a
  delimiter at the end of the string.\<close>

fun split_on :: "char \<Rightarrow> string \<Rightarrow> string \<Rightarrow> string list" where
  "split_on d [] acc = (if acc = [] then [] else [rev acc])"
| "split_on d (c # cs) acc = (if c = d then rev acc # split_on d cs [] else split_on d cs (c # acc))"

definition split :: "string \<Rightarrow> char \<Rightarrow> string list" where
  "split s d = split_on d s []"

section \<open>Numbers\<close>

text \<open>\<^verbatim>\<open>strtoul\<close> with base 0: white space, a sign, the prefix that gives the base, then the
  longest run of digits of that base.  \<^verbatim>\<open>stoul\<close> throws if there is no digit, or if the number
  does not fit; a minus sign negates modulo \<open>2 ^ 64\<close>.\<close>

definition is_space :: "char \<Rightarrow> bool" where
  "is_space c \<longleftrightarrow> of_char c \<in> set [32 :: nat, 9, 10, 11, 12, 13]"

definition digit_of :: "char \<Rightarrow> nat option" where
  "digit_of c =
     (let n = (of_char c :: nat)
      in if 48 \<le> n \<and> n \<le> 57 then Some (n - 48)
         else if 97 \<le> n \<and> n \<le> 122 then Some (n - 87)
         else if 65 \<le> n \<and> n \<le> 90 then Some (n - 55)
         else None)"

definition is_digit :: "nat \<Rightarrow> char \<Rightarrow> bool" where
  "is_digit b c \<longleftrightarrow> (case digit_of c of None \<Rightarrow> False | Some n \<Rightarrow> n < b)"

definition digits_value :: "nat \<Rightarrow> string \<Rightarrow> int" where
  "digits_value b cs = foldl (\<lambda>acc c. acc * int b + (case digit_of c of None \<Rightarrow> 0 | Some n \<Rightarrow> int n)) 0 cs"

text \<open>The base and the rest after the prefix; a lone \<^verbatim>\<open>0x\<close> is the number \<^verbatim>\<open>0\<close>.\<close>

fun number_base :: "string \<Rightarrow> nat \<times> string" where
  "number_base (z # x # c # cs) =
     (if z = CHR ''0'' \<and> (x = CHR ''x'' \<or> x = CHR ''X'') \<and> is_digit 16 c then (16, c # cs)
      else if z = CHR ''0'' then (8, z # x # c # cs) else (10, z # x # c # cs))"
| "number_base cs = (if cs \<noteq> [] \<and> hd cs = CHR ''0'' then 8 else 10, cs)"

fun strip_sign :: "string \<Rightarrow> bool \<times> string" where
  "strip_sign [] = (False, [])"
| "strip_sign (c # cs) =
     (if c = CHR ''-'' then (True, cs) else if c = CHR ''+'' then (False, cs) else (False, c # cs))"

definition stoul :: "string \<Rightarrow> u64 result" where
  "stoul s =
     (let (neg, cs) = strip_sign (dropWhile is_space s);
          (b, cs) = number_base cs;
          ds = takeWhile (is_digit b) cs;
          n = digits_value b ds
      in if ds = [] then Inl (BAD_PARSE ''invalid_argument'')
         else if n \<ge> 2 ^ 64 then Inl (BAD_PARSE ''out_of_range'')
         else Inr (if neg then - word_of_int n else word_of_int n))"

section \<open>Lines\<close>

definition parse_opcode :: "string \<Rightarrow> opcode result" where
  "parse_opcode w =
     (if w = ''R'' then Inr Req else if w = ''W'' then Inr RwD else Inl (CXL_ASSERT ''Illegal opcode''))"

definition parse_line :: "string \<Rightarrow> (u64 \<times> opcode \<times> u64) result" where
  "parse_line s =
     (let words = split s CHR '' ''
      in cxl_assert (length words = 3) ''Incorrect string splitting''
        (bind_r (stoul (words ! 0)) (\<lambda>addr.
         bind_r (parse_opcode (words ! 1)) (\<lambda>oc.
         bind_r (stoul (words ! 2)) (\<lambda>clk_interval.
           Inr (addr, oc, clk_interval))))))"

section \<open>Reading back what is written\<close>

text \<open>The numerals a trace holds: hexadecimal addresses and decimal counts.\<close>

definition digit_char :: "nat \<Rightarrow> char" where
  "digit_char n = (if n < 10 then char_of (48 + n) else char_of (87 + n))"

fun numeral_of :: "nat \<Rightarrow> nat \<Rightarrow> string" where
  "numeral_of b n = (if b \<le> 1 \<or> n < b then [digit_char n] else numeral_of b (n div b) @ [digit_char (n mod b)])"

declare numeral_of.simps [simp del]

lemma digit_of_char: "n < 36 \<Longrightarrow> digit_of (digit_char n) = Some n"
  by (auto simp: digit_char_def digit_of_def Let_def)

lemma is_digit_char: "n < b \<Longrightarrow> b \<le> 36 \<Longrightarrow> is_digit b (digit_char n)"
  by (simp add: is_digit_def digit_of_char)

lemma numeral_digits: "2 \<le> b \<Longrightarrow> b \<le> 36 \<Longrightarrow> list_all (is_digit b) (numeral_of b n)"
proof (induction b n rule: numeral_of.induct)
  case (1 b n)
  then show ?case by (subst numeral_of.simps) (auto simp: is_digit_char)
qed

lemma numeral_value: "2 \<le> b \<Longrightarrow> b \<le> 36 \<Longrightarrow> digits_value b (numeral_of b n) = int n"
proof (induction b n rule: numeral_of.induct)
  case (1 b n)
  show ?case
  proof (cases "n < b")
    case True
    then show ?thesis using "1.prems" by (subst numeral_of.simps) (simp add: digits_value_def digit_of_char)
  next
    case False
    then have "digits_value b (numeral_of b (n div b)) = int (n div b)" using 1 by auto
    moreover have "n mod b < 36" using "1.prems" mod_less_divisor [of b n] by linarith
    then have dg: "digit_of (digit_char (n mod b)) = Some (n mod b)" by (rule digit_of_char)
    ultimately show ?thesis
      using False "1.prems" dg by (subst numeral_of.simps) (simp add: digits_value_def flip: of_nat_mult of_nat_add)
  qed
qed

lemma numeral_nonempty: "numeral_of b n \<noteq> []"
  by (subst numeral_of.simps) auto

lemma digit_not_special:
  assumes "is_digit b c"
  shows "\<not> is_space c" "c \<noteq> CHR ''-''" "c \<noteq> CHR ''+''" "c \<noteq> CHR '' ''"
proof -
  have n: "(48 \<le> (of_char c :: nat) \<and> (of_char c :: nat) \<le> 57) \<or> (97 \<le> (of_char c :: nat) \<and> (of_char c :: nat) \<le> 122) \<or>
      (65 \<le> (of_char c :: nat) \<and> (of_char c :: nat) \<le> 90)"
    using assms by (auto simp: is_digit_def digit_of_def Let_def split: if_splits)
  then show "\<not> is_space c" by (auto simp: is_space_def)
  show "c \<noteq> CHR ''-''" "c \<noteq> CHR ''+''" "c \<noteq> CHR '' ''" using n by auto
qed

lemma takeWhile_all: "list_all P xs \<Longrightarrow> takeWhile P xs = xs"
  by (simp add: takeWhile_eq_all_conv list_all_iff)

text \<open>A decimal numeral does not start with the digit 0, unless it is 0.\<close>

lemma digit_char_zero: "digit_char 0 = CHR ''0''"
  by code_simp

lemma digit_char_0: "n < 36 \<Longrightarrow> digit_char n = CHR ''0'' \<longleftrightarrow> n = 0"
  using digit_of_char [of n] digit_of_char [of 0] digit_char_zero by auto

lemma numeral_hd: "0 < n \<Longrightarrow> 2 \<le> b \<Longrightarrow> b \<le> 36 \<Longrightarrow> hd (numeral_of b n) \<noteq> CHR ''0''"
proof (induction b n rule: numeral_of.induct)
  case (1 b n)
  then show ?case
    by (subst numeral_of.simps) (auto simp: digit_char_0 numeral_nonempty div_greater_zero_iff)
qed

lemma number_base_dec: "cs \<noteq> [] \<Longrightarrow> hd cs \<noteq> CHR ''0'' \<Longrightarrow> number_base cs = (10, cs)"
  by (cases cs rule: number_base.cases) auto

lemma stoul_digits:
  assumes "cs \<noteq> []" "\<not> is_space (hd cs)" "hd cs \<noteq> CHR ''-''" "hd cs \<noteq> CHR ''+''"
  shows "stoul cs = (case number_base cs of (b, cs) \<Rightarrow> let ds = takeWhile (is_digit b) cs; n = digits_value b ds
     in if ds = [] then Inl (BAD_PARSE ''invalid_argument'')
        else if n \<ge> 2 ^ 64 then Inl (BAD_PARSE ''out_of_range'') else Inr (word_of_int n))"
proof -
  obtain c cs' where "cs = c # cs'" using assms(1) by (cases cs) auto
  with assms show ?thesis by (simp add: stoul_def Let_def case_prod_beta)
qed

lemma stoul_dec: "n < 2 ^ 64 \<Longrightarrow> stoul (numeral_of 10 n) = Inr (of_nat n)"
proof (cases "n = 0")
  case True
  have "numeral_of 10 0 = ''0''" by (subst numeral_of.simps) (simp add: digit_char_zero)
  moreover have "stoul ''0'' = Inr 0" by code_simp
  ultimately show ?thesis using True by simp
next
  case False
  assume n: "n < 2 ^ 64"
  let ?cs = "numeral_of 10 n"
  have all: "list_all (is_digit 10) ?cs" by (rule numeral_digits) simp_all
  then have d: "is_digit 10 (hd ?cs)" using numeral_nonempty [of 10 n] by (simp add: list_all_iff)
  have "number_base ?cs = (10, ?cs)"
    by (rule number_base_dec) (use False numeral_nonempty numeral_hd in auto)
  then show ?thesis
    using n numeral_value [of 10 n] numeral_nonempty [of 10 n] digit_not_special [OF d]
    by (simp add: stoul_digits takeWhile_all [OF all])
qed

lemma stoul_hex: "n < 2 ^ 64 \<Longrightarrow> stoul (CHR ''0'' # CHR ''x'' # numeral_of 16 n) = Inr (of_nat n)"
proof -
  assume n: "n < 2 ^ 64"
  let ?cs = "numeral_of 16 n"
  have all: "list_all (is_digit 16) ?cs" by (rule numeral_digits) simp_all
  obtain c cs where cs: "?cs = c # cs" using numeral_nonempty by (cases ?cs) auto
  have "number_base (CHR ''0'' # CHR ''x'' # ?cs) = (16, ?cs)" using all cs by simp
  moreover have "\<not> is_space CHR ''0''" by (simp add: is_space_def)
  ultimately show ?thesis
    using n numeral_value [of 16 n] numeral_nonempty [of 16 n] by (simp add: stoul_digits takeWhile_all [OF all])
qed

lemma split_on_word:
  "list_all (\<lambda>c. c \<noteq> d) w \<Longrightarrow> split_on d (w @ d # cs) acc = (rev acc @ w) # split_on d cs []"
  "list_all (\<lambda>c. c \<noteq> d) w \<Longrightarrow> acc \<noteq> [] \<or> w \<noteq> [] \<Longrightarrow> split_on d w acc = [rev acc @ w]"
  by (induction w arbitrary: acc) auto

text \<open>The line of a request.\<close>

definition print_line :: "u64 \<Rightarrow> opcode \<Rightarrow> u64 \<Rightarrow> string" where
  "print_line a oc n =
     ''0x'' @ numeral_of 16 (unat a) @ '' '' @ (if oc = Req then ''R'' else ''W'') @ '' '' @ numeral_of 10 (unat n)"

lemma numeral_no_space: "2 \<le> b \<Longrightarrow> b \<le> 36 \<Longrightarrow> list_all (\<lambda>c. c \<noteq> CHR '' '') (numeral_of b n)"
  using numeral_digits [of b n] digit_not_special(4) by (auto simp: list_all_iff)

lemma split_line:
  "split (print_line a oc n) CHR '' '' =
     [''0x'' @ numeral_of 16 (unat a), if oc = Req then ''R'' else ''W'', numeral_of 10 (unat n)]"
proof -
  let ?h = "''0x'' @ numeral_of 16 (unat a)" and ?o = "if oc = Req then ''R'' else ''W''" and ?d = "numeral_of 10 (unat n)"
  have l: "print_line a oc n = ?h @ CHR '' '' # (?o @ CHR '' '' # ?d)" by (simp add: print_line_def)
  have "list_all (\<lambda>c. c \<noteq> CHR '' '') ?h" "list_all (\<lambda>c. c \<noteq> CHR '' '') ?o" "list_all (\<lambda>c. c \<noteq> CHR '' '') ?d"
    using numeral_no_space by simp_all
  then show ?thesis
    unfolding split_def l using numeral_nonempty by (simp only: split_on_word) (simp add: split_on_word)
qed

section \<open>Properties\<close>

text \<open>C24.  Reading back a line of the trace: for every address, kind of request and count, the
  line with the address in hexadecimal and the count in decimal is parsed to exactly them.\<close>

theorem parse_print_line:
  assumes "oc = Req \<or> oc = RwD"
  shows "parse_line (print_line a oc n) = Inr (a, oc, n)"
proof -
  have b: "unat x < 2 ^ 64" for x :: u64 using unsigned_less [of x, where 'a = nat] by simp
  have "stoul (''0x'' @ numeral_of 16 (unat a)) = Inr a" using stoul_hex [OF b [of a]] by simp
  moreover have "stoul (numeral_of 10 (unat n)) = Inr n" using stoul_dec [OF b [of n]] by simp
  ultimately show ?thesis
    using assms by (auto simp: parse_line_def split_line parse_opcode_def Let_def)
qed

theorem parse_print_line_witness:
  "parse_line (print_line 0xb00000000000040 RwD 17) = Inr (0xb00000000000040, RwD, 17)"
  by (rule parse_print_line) simp

end
