(* ===== verification/CXL_DAM.thy ===== *)
theory CXL_DAM
  imports CXL_Host
begin

text \<open>
  The direct-attached memory of a host, \<^verbatim>\<open>DirectAttached\<close> of \<^verbatim>\<open>ramulator/src/RamDevice.h\<close> and
  \<^verbatim>\<open>ramulator/src/DirectAttached.cpp\<close>: the same front end as the memory of a device, whose
  completion callback retires the request in the host.  Its map \<^verbatim>\<open>reqs_in_ramulator\<close> is never
  filled and has no field here.
\<close>

record 'm DirectAttached =
  da_node_id :: int
  da_ram :: "'m RamDevice"

definition DirectAttached_new :: "'m \<Rightarrow> u64 \<Rightarrow> int \<Rightarrow> 'm DirectAttached" where
  "DirectAttached_new mem junk nid = \<lparr>da_node_id = nid, da_ram = ramulator_init mem junk\<rparr>"

text \<open>The callback: \<^verbatim>\<open>reqs_in_dam[id]\<close> reads 0 for an unknown id.\<close>

definition direct_attached_req_complete :: "Request \<Rightarrow> globals \<times> CXLHost \<Rightarrow> globals \<times> CXLHost" where
  "direct_attached_req_complete r = (\<lambda>(g, h).
     let k = table_of (rq_addr r);
         (cnt, avg) = sm_get (0, (0, 1)) (ho_amat_per_table_dam h) k;
         cnt = cnt + 1;
         avg = running_avg avg (curr_tick g - sm_get 0 (ho_reqs_in_dam h) (req_id r)) (sfloat64 (uint cnt, 1))
     in (g\<lparr>num_reqs_completed := num_reqs_completed g + 1, num_dam_reqs := num_dam_reqs g + 1\<rparr>,
         h\<lparr>ho_amat_per_table_dam := sm_put k (cnt, avg) (ho_amat_per_table_dam h),
           ho_reqs_in_dam := sm_erase (req_id r) (ho_reqs_in_dam h)\<rparr>))"

text \<open>Fetch the next request of the buffer unless the last one is still refused.\<close>

definition da_fetch :: "'m RamDevice \<Rightarrow> 'm RamDevice" where
  "da_fetch ram =
     (let st = rd_state ram
      in if ds_status st \<noteq> END \<and> \<not> ds_stall st
         then case get_dramtrace_request (rd_inp_buf ram) (rd_addr ram) (rd_type ram) (rd_req_id ram)
              of (s, ib, a, t, i) \<Rightarrow>
                ram\<lparr>rd_inp_buf := ib, rd_addr := a, rd_type := t, rd_req_id := i,
                    rd_state := st\<lparr>ds_status := s\<rparr>\<rparr>
         else ram)"

definition da_offer :: "'m mem_ops \<Rightarrow> 'm RamDevice \<Rightarrow> 'm RamDevice result" where
  "da_offer ops ram =
     (let st = rd_state ram
      in if ds_status st \<noteq> END
         then if ds_status st \<noteq> EMPTY
              then bind_r (mem_send ops (rd_memory ram) (Request_new (rd_addr ram) (rd_type ram) (rd_req_id ram)))
                    (\<lambda>(mem, ok).
                       let st = st\<lparr>ds_stall := \<not> ok\<rparr>;
                           st = (if ok
                                 then case rd_type ram of READ \<Rightarrow> st\<lparr>ds_reads := ds_reads st + 1\<rparr>
                                      | WRITE \<Rightarrow> st\<lparr>ds_writes := ds_writes st + 1\<rparr> | _ \<Rightarrow> st
                                 else st)
                       in Inr (ram\<lparr>rd_memory := mem, rd_state := st\<rparr>))
              else Inr ram
         else Inr (ram\<lparr>rd_memory := mem_drain_writes ops (rd_memory ram)\<rparr>))"

definition DirectAttached_update ::
  "'m mem_ops \<Rightarrow> globals \<Rightarrow> CXLHost \<Rightarrow> 'm DirectAttached \<Rightarrow> (bool \<times> globals \<times> CXLHost \<times> 'm DirectAttached) result" where
  "DirectAttached_update ops g h dam =
     (let ram = da_ram dam; st = rd_state ram
      in if ds_status st \<noteq> END \<or> mem_pending_requests ops (rd_memory ram) \<noteq> 0
         then bind_r (da_offer ops (da_fetch ram)) (\<lambda>ram.
              bind_r (mem_tick ops (rd_memory ram)) (\<lambda>(mem, done).
                let (g, h) = fold direct_attached_req_complete done (g, h); st = rd_state ram
                in Inr (False, g, h, dam\<lparr>da_ram := ram\<lparr>rd_memory := mem, rd_state := st\<lparr>ds_clks := ds_clks st + 1\<rparr>\<rparr>\<rparr>)))
         else Inr (True, g, h, dam))"

text \<open>The stand-alone loop of \<^verbatim>\<open>run_trace\<close>, for \<open>n\<close> ticks at most.\<close>

fun run_trace ::
  "'m mem_ops \<Rightarrow> nat \<Rightarrow> globals \<Rightarrow> CXLHost \<Rightarrow> 'm DirectAttached \<Rightarrow> (globals \<times> CXLHost \<times> 'm DirectAttached) option result" where
  "run_trace ops 0 g h dam = Inr None"
| "run_trace ops (Suc n) g h dam =
     (if ds_is_sim_finished (rd_state (da_ram dam)) then Inr (Some (g, h, dam))
      else bind_r (DirectAttached_update ops g h dam) (\<lambda>(fin, g, h, dam).
             run_trace ops n g h (dam\<lparr>da_ram := (da_ram dam)\<lparr>rd_state := (rd_state (da_ram dam))\<lparr>ds_is_sim_finished := fin\<rparr>\<rparr>\<rparr>)))"

end
