(* ===== verification/CXL_Trace.thy ===== *)
theory CXL_Trace
  imports CXL_Parse CXL_DAM CXL_Device
begin

text \<open>
  The trace reader and the tick of the host (\<^verbatim>\<open>CXLHost::text_to_trace\<close> and
  \<^verbatim>\<open>CXLHost::update\<close> of \<^verbatim>\<open>src/CXLHost.cpp\<close>).

  When nothing is active the reader moves the clock to the tick of the next request and runs the
  memories for the ticks it leaves out.  So it works on the host, its direct-attached memory
  (\<open>None\<close> if it has none) and the devices whose memories it knows; the record \<open>host_world\<close> holds
  them with the globals.
\<close>

section \<open>State\<close>

record 'm host_world =
  hw_g :: globals
  hw_host :: CXLHost
  hw_dam :: "'m DirectAttached option"
  hw_devs :: "'m CXLDevice list"

section \<open>Skipping idle time\<close>

text \<open>\<^verbatim>\<open>curr_tick += first * ticks_per_ins - (curr_tick - last)\<close> is computed in \<^verbatim>\<open>uint64_t\<close>.\<close>

definition next_issue_tick :: "CXLParams \<Rightarrow> CXLHost \<Rightarrow> u64 \<Rightarrow> int" where
  "next_issue_tick p h gap =
     sint (word_of_int (ho_last_text_to_trace_buf_dequeue h) + gap * word_of_int (ticks_per_ins p) :: u64)"

text \<open>The multiples of 6 after \<open>t0\<close> up to \<open>now\<close>; the division truncates.\<close>

definition left_out_ticks :: "int \<Rightarrow> int \<Rightarrow> int list" where
  "left_out_ticks t0 now =
     (let i0 = (trunc_div t0 6 + 1) * 6
      in map (\<lambda>n. i0 + 6 * int n) [0 ..< nat ((now - i0) div 6 + 1)])"

fun rams_update :: "'m mem_ops \<Rightarrow> globals \<Rightarrow> 'm CXLDevice list \<Rightarrow> 'm CXLDevice list result" where
  "rams_update ops g [] = Inr []"
| "rams_update ops g (d # ds) =
     bind_r (RamDevice_update ops g d) (\<lambda>(_, d). bind_r (rams_update ops g ds) (\<lambda>ds. Inr (d # ds)))"

definition dam_update :: "'m mem_ops \<Rightarrow> 'm host_world \<Rightarrow> 'm host_world result" where
  "dam_update ops w =
     (case hw_dam w of
        None \<Rightarrow> Inl (NULL_DEREF ''DAM'')
      | Some dam \<Rightarrow> bind_r (DirectAttached_update ops (hw_g w) (hw_host w) dam) (\<lambda>(_, g, h, dam).
          Inr (w\<lparr>hw_g := g, hw_host := h, hw_dam := Some dam\<rparr>)))"

fun catch_up :: "'m mem_ops \<Rightarrow> int list \<Rightarrow> 'm host_world \<Rightarrow> 'm host_world result" where
  "catch_up ops [] w = Inr w"
| "catch_up ops (i # is) w =
     bind_r (if i \<noteq> curr_tick (hw_g w) then dam_update ops w else Inr w) (\<lambda>w.
     bind_r (rams_update ops (hw_g w) (hw_devs w)) (\<lambda>ds.
       catch_up ops is (w\<lparr>hw_devs := ds\<rparr>)))"

definition skip_idle :: "CXLParams \<Rightarrow> 'm mem_ops \<Rightarrow> 'm host_world \<Rightarrow> 'm host_world result" where
  "skip_idle p ops w =
     (let h = hw_host w; g = hw_g w
      in if no_active_transaction h \<and> \<not> is_buf_empty (ho_text_to_trace_buf h)
         then bind_r (get_head (ho_text_to_trace_buf h)) (\<lambda>(gap, _).
                let now = next_issue_tick p h gap
                in catch_up ops (left_out_ticks (curr_tick g) now) (w\<lparr>hw_g := g\<lparr>curr_tick := now\<rparr>\<rparr>))
         else Inr w)"

section \<open>Issuing a request\<close>

definition issue_due :: "CXLParams \<Rightarrow> globals \<Rightarrow> CXLHost \<Rightarrow> bool" where
  "issue_due p g h \<longleftrightarrow> \<not> is_buf_empty (ho_text_to_trace_buf h) \<and>
     (word_of_int (curr_tick g - ho_last_text_to_trace_buf_dequeue h) :: u64)
       \<ge> fst (hd (buf_q (ho_text_to_trace_buf h))) * word_of_int (ticks_per_ins p)"

definition next_vc :: "nat \<Rightarrow> nat" where
  "next_vc i = (if i = NUM_VC - 1 then 0 else i + 1)"

text \<open>To the direct-attached memory, if its buffer has room:\<close>

definition issue_to_dam :: "globals \<Rightarrow> message \<Rightarrow> CXLHost \<Rightarrow> 'm DirectAttached \<Rightarrow> (CXLHost \<times> 'm DirectAttached) result" where
  "issue_to_dam g t h dam =
     (let ram = da_ram dam
      in if isFull (rd_inp_buf ram) then Inr (h, dam)
         else bind_r (message2ramulator_req t) (\<lambda>req.
              bind_r (buf_add (rd_inp_buf ram) req) (\<lambda>ib.
              bind_r (dequeue (ho_text_to_trace_buf h)) (\<lambda>q.
                Inr (h\<lparr>ho_reqs_in_dam := sm_insert (rr_req_id req) (curr_tick g) (ho_reqs_in_dam h),
                       ho_text_to_trace_buf := q\<rparr>,
                     dam\<lparr>da_ram := ram\<lparr>rd_inp_buf := ib\<rparr>\<rparr>)))))"

text \<open>To a virtual channel; the flag says that the channel had room.\<close>

definition issue_to_vc :: "uninit \<Rightarrow> globals \<Rightarrow> message \<Rightarrow> CXLHost \<Rightarrow> (bool \<times> CXLHost) result" where
  "issue_to_vc u g t h =
     (let temp = message_copy (u_msg u) t;
          temp = temp\<lparr>m_time := (m_time temp)\<lparr>tick_created := curr_tick g\<rparr>\<rparr>;
          finish = (\<lambda>temp h. bind_r (dequeue (ho_text_to_trace_buf h)) (\<lambda>q.
            Inr (True, h\<lparr>ho_text_to_trace_buf := q,
              ho_messages_sent_to_device := sm_insert (msg_id temp) temp (ho_messages_sent_to_device h)\<rparr>)))
      in case opCode temp of
           Req \<Rightarrow>
             if is_buf_full (ho_M2S_Req h ! ho_cur_Req_vc h) then Inr (False, h)
             else let temp = temp\<lparr>m_time := (m_time temp)\<lparr>read_write := False\<rparr>\<rparr>
                  in bind_r (enqueue (ho_M2S_Req h ! ho_cur_Req_vc h) temp) (\<lambda>vc.
                       finish temp (h\<lparr>ho_M2S_Req := (ho_M2S_Req h)[ho_cur_Req_vc h := vc],
                                      ho_cur_Req_vc := next_vc (ho_cur_Req_vc h)\<rparr>))
         | RwD \<Rightarrow>
             if is_buf_full (ho_M2S_RWD h ! ho_cur_RWD_vc h) then Inr (False, h)
             else let temp = temp\<lparr>m_time := (m_time temp)\<lparr>read_write := True\<rparr>\<rparr>
                  in bind_r (enqueue (ho_M2S_RWD h ! ho_cur_RWD_vc h) temp) (\<lambda>vc.
                       finish temp (h\<lparr>ho_M2S_RWD := (ho_M2S_RWD h)[ho_cur_RWD_vc h := vc],
                                      ho_cur_RWD_vc := next_vc (ho_cur_RWD_vc h)\<rparr>))
         | _ \<Rightarrow> Inl (CXL_ASSERT ''Illegal message type''))"

text \<open>The flag is false if \<^verbatim>\<open>text_to_trace\<close> returns early because a channel is full.\<close>

definition issue_request :: "CXLParams \<Rightarrow> uninit \<Rightarrow> 'm host_world \<Rightarrow> (bool \<times> 'm host_world) result" where
  "issue_request p u w =
     (let h = hw_host w; g = hw_g w
      in if issue_due p g h
         then bind_r (get_head (ho_text_to_trace_buf h)) (\<lambda>(_, t).
           let h = h\<lparr>ho_last_text_to_trace_buf_dequeue := curr_tick g\<rparr>
           in case (if address t \<ge> fst (ho_DAM_addr h) \<and> address t < snd (ho_DAM_addr h) then hw_dam w else None) of
                Some dam \<Rightarrow> bind_r (issue_to_dam g t h dam) (\<lambda>(h, dam).
                  Inr (True, w\<lparr>hw_host := h, hw_dam := Some dam\<rparr>))
              | None \<Rightarrow> bind_r (issue_to_vc u g t h) (\<lambda>(ok, h). Inr (ok, w\<lparr>hw_host := h\<rparr>)))
         else Inr (True, w))"

section \<open>Reading a line\<close>

text \<open>The result is false at the end of the file.\<close>

definition read_line :: "uninit \<Rightarrow> globals \<Rightarrow> CXLHost \<Rightarrow> (bool \<times> globals \<times> CXLHost) result" where
  "read_line u g h =
     (if is_buf_full (ho_text_to_trace_buf h) then Inr (True, g, h)
      else case ho_trace_in h of
             [] \<Rightarrow> Inr (False, g, h)
           | s # ls \<Rightarrow>
               bind_r (parse_line s) (\<lambda>(addr, oc, clk_interval).
                 let (m, g) = message_new u g oc addr
                 in bind_r (enqueue (ho_text_to_trace_buf h) (clk_interval, m)) (\<lambda>q.
                      Inr (True, g, h\<lparr>ho_trace_in := ls, ho_text_to_trace_buf := q\<rparr>))))"

definition text_to_trace :: "CXLParams \<Rightarrow> uninit \<Rightarrow> 'm mem_ops \<Rightarrow> 'm host_world \<Rightarrow> (bool \<times> 'm host_world) result" where
  "text_to_trace p u ops w =
     bind_r (skip_idle p ops w) (\<lambda>w.
     bind_r (issue_request p u w) (\<lambda>(ok, w).
       if \<not> ok then Inr (True, w)
       else bind_r (read_line u (hw_g w) (hw_host w)) (\<lambda>(more, g, h).
              Inr (more, w\<lparr>hw_g := g, hw_host := h\<rparr>))))"

section \<open>The tick of the host\<close>

text \<open>As for the device: each part runs unless \<open>skip\<close> is set and its check allows skipping it;
  the counter of empty cycles is kept with \<open>skip\<close> only.\<close>

definition ho_stage_pack where
  "ho_stage_pack p u skip g h =
     (let runs = \<not> ho_skip_packer_check p g h
      in bind_r (if \<not> skip \<or> runs then ho_FLIT_packer p u g h else Inr (False, g, h)) (\<lambda>(a, g, h).
           Inr (runs, a, g, h\<lparr>ho_empty_cycle_packer := count_if_skipped skip runs (ho_empty_cycle_packer h)\<rparr>)))"

definition ho_stage_transmit where
  "ho_stage_transmit p u skip g h b =
     (let runs = \<not> ho_skip_transmit_check p g h b
      in bind_r (if \<not> skip \<or> runs then ho_transmit p u g h b else Inr (False, h, b)) (\<lambda>(a, h, b).
           Inr (runs, a, h\<lparr>ho_empty_cycle_transmit := count_if_skipped skip runs (ho_empty_cycle_transmit h)\<rparr>, b)))"

definition ho_stage_unpack where
  "ho_stage_unpack p skip g h =
     (let runs = \<not> ho_skip_unpacker_check p g h
      in bind_r (if \<not> skip \<or> runs then ho_FLIT_unpacker p g h else Inr (False, h)) (\<lambda>(a, h).
           Inr (runs, a, h\<lparr>ho_empty_cycle_unpacker := count_if_skipped skip runs (ho_empty_cycle_unpacker h)\<rparr>)))"

definition ho_stage_retire where
  "ho_stage_retire p skip g h =
     (let runs = \<not> ho_skip_req_complete_check p g h
      in bind_r (if \<not> skip \<or> runs then check_if_req_completed p g h else Inr (False, g, h)) (\<lambda>(a, g, h).
           Inr (runs, a, g, h\<lparr>ho_empty_cycle_req_completed := count_if_skipped skip runs (ho_empty_cycle_req_completed h)\<rparr>)))"

definition ho_end_tick ::
  "bool \<Rightarrow> bool \<times> bool \<Rightarrow> bool \<times> bool \<Rightarrow> bool \<times> bool \<Rightarrow> bool \<times> bool \<Rightarrow> CXLHost \<Rightarrow> CXLHost result" where
  "ho_end_tick skip pk tx un rt h =
     (let h = h\<lparr>ho_skippable_cycle := ho_skippable_cycle h +
                 (if \<not> fst pk \<and> \<not> fst tx \<and> \<not> fst un \<and> \<not> fst rt then 1 else 0)\<rparr>;
          bad = (\<lambda>(r, a). skip \<and> \<not> r \<and> a)
      in cxl_assert (\<not> bad pk) ''Packer Flag Error''
        (cxl_assert (\<not> bad tx) ''Transmit Flag Error''
        (cxl_assert (\<not> bad un) ''Unpacker Flag Error''
        (cxl_assert (\<not> bad rt) ''Complete Flag Error'' (Inr h)))))"

definition ho_get_trace :: "CXLParams \<Rightarrow> uninit \<Rightarrow> 'm mem_ops \<Rightarrow> 'm host_world \<Rightarrow> 'm host_world result" where
  "ho_get_trace p u ops w =
     (if \<not> ho_is_trace_finished (hw_host w) \<or> \<not> is_buf_empty (ho_text_to_trace_buf (hw_host w))
      then bind_r (text_to_trace p u ops w) (\<lambda>(more, w).
             Inr (if more then w else w\<lparr>hw_host := (hw_host w)\<lparr>ho_is_trace_finished := True\<rparr>\<rparr>))
      else Inr w)"

definition CXLHost_update ::
  "CXLParams \<Rightarrow> uninit \<Rightarrow> 'm mem_ops \<Rightarrow> bool \<Rightarrow> 'm host_world \<Rightarrow> CXLBus \<Rightarrow> ('m host_world \<times> CXLBus) result" where
  "CXLHost_update p u ops skip w b =
     bind_r (ho_get_trace p u ops w) (\<lambda>w.
     cxl_assert (length (ho_ext_creds (hw_host w)) = length (ho_connected_devices (hw_host w)))
       ''External credits for unknown device added''
    (bind_r (ho_stage_pack p u skip (hw_g w) (hw_host w)) (\<lambda>(r1, a1, g, h).
     bind_r (ho_stage_transmit p u skip g h b) (\<lambda>(r2, a2, h, b).
     bind_r (ho_stage_unpack p skip g h) (\<lambda>(r3, a3, h).
     bind_r (ho_stage_retire p skip g h) (\<lambda>(r4, a4, g, h).
     bind_r (ho_end_tick skip (r1, a1) (r2, a2) (r3, a3) (r4, a4) h) (\<lambda>h.
       Inr (w\<lparr>hw_g := g, hw_host := h\<rparr>, b))))))))"

end
