(* ===== verification/CXL_Sys.thy ===== *)
theory CXL_Sys
  imports CXL_Trace CXL_Host_Reg CXL_Switch
begin

text \<open>
  The system, \<^verbatim>\<open>CXLSystem\<close> of \<^verbatim>\<open>include/CXLSys.h\<close> and \<^verbatim>\<open>src/CXLSys.cpp\<close>, and the loop of
  \<^verbatim>\<open>main\<close>: construction and wiring, the order of a tick, and the condition on which the simulation ends.

  \<^verbatim>\<open>interconnects\<close> has one pair of links per host, then one per device; the first link of a
  pair leads from the switch to the node, the second back.  The buffers and links behind
  pointers are the fields of the components, taken and put back by the operations.
\<close>

section \<open>State\<close>

record 'm CXLSystem =
  sy_DAMs :: "'m DirectAttached list"
  sy_devices :: "'m CXLDevice list"
  sy_hosts :: "CXLHost list"
  sy_interconnects :: interconnects
  sy_last_DAM_update :: "int list"
  sy_switch :: CXLSwitch

definition HOST_VC_SIZE :: int where "HOST_VC_SIZE = 1024"
definition HOST_BUF_SIZE :: int where "HOST_BUF_SIZE = 2048"
definition DEV_VC_SIZE :: int where "DEV_VC_SIZE = 1024"
definition DEV_BUF_SIZE :: int where "DEV_BUF_SIZE = 2048"

text \<open>What construction leaves to chance, and the memories it makes.\<close>

record 'm sys_env =
  se_uninit :: uninit
  se_junk :: int
  se_bus :: CXLBus
  se_params :: CXLParams
  se_memory :: "int \<Rightarrow> 'm"  \<comment> \<open>the memory of the node with this id\<close>

section \<open>Construction\<close>

definition sys_register_devices :: "u64 list \<Rightarrow> (u64 \<times> u64) list \<Rightarrow> CXLHost list \<Rightarrow> CXLHost list result" where
  "sys_register_devices dev_host ivs =
     fold_r (\<lambda>i hs.
       let k = unat (dev_host ! i)
       in if k < length hs
          then bind_r (register_device (of_nat i) (ivs ! i) (hs ! k)) (\<lambda>h. Inr (hs[k := h]))
          else Inl (NULL_DEREF ''hosts''))
       [0 ..< length dev_host]"

text \<open>The links of node \<open>i\<close>; they get the next two node ids.\<close>

definition sys_connect_host :: "CXLParams \<Rightarrow> 'm sys_env \<Rightarrow> int \<Rightarrow> nat \<Rightarrow> 'm CXLSystem \<Rightarrow> 'm CXLSystem" where
  "sys_connect_host p e nid i sy =
     (let sw = sy_switch sy; h = sy_hosts sy ! i;
          to_host = (CXLBus_new p (se_bus e) 15 nid UpStream)\<lparr>bus_type := switch_host\<rparr>;
          from_host = (CXLBus_new p (se_bus e) 15 (nid + 1) DwStream)\<lparr>bus_type := host_switch\<rparr>
      in sy\<lparr>sy_interconnects := (sy_interconnects sy)[i :=
              (set_from_to_node_id (sw_node_id sw) (ho_node_id h) to_host,
               set_from_to_node_id (ho_node_id h) (sw_node_id sw) from_host)],
            sy_switch := connect_upstream i i sw\<rparr>)"

definition sys_connect_device ::
  "CXLParams \<Rightarrow> 'm sys_env \<Rightarrow> int \<Rightarrow> nat \<Rightarrow> nat \<Rightarrow> u64 \<times> u64 \<Rightarrow> 'm CXLSystem \<Rightarrow> 'm CXLSystem result" where
  "sys_connect_device p e nid i j iv sy =
     (let sw = sy_switch sy; d = sy_devices sy ! j;
          to_dev = (CXLBus_new p (se_bus e) 15 nid DwStream)\<lparr>bus_type := switch_device\<rparr>;
          from_dev = (CXLBus_new p (se_bus e) 15 (nid + 1) UpStream)\<lparr>bus_type := device_switch\<rparr>
      in bind_r (connect_downstream i i (of_nat j) iv sw) (\<lambda>sw'.
           Inr (sy\<lparr>sy_interconnects := (sy_interconnects sy)[i :=
                     (set_from_to_node_id (sw_node_id sw) (dv_node_id d) to_dev,
                      set_from_to_node_id (dv_node_id d) (sw_node_id sw) from_dev)],
                   sy_switch := sw'\<rparr>)))"

definition sys_wire ::
  "CXLParams \<Rightarrow> 'm sys_env \<Rightarrow> int \<Rightarrow> nat \<Rightarrow> nat \<Rightarrow> (u64 \<times> u64) list \<Rightarrow> 'm CXLSystem \<Rightarrow> 'm CXLSystem result" where
  "sys_wire p e nid num_host num_device ivs =
     fold_r (\<lambda>i sy.
       if i < num_host then Inr (sys_connect_host p e (nid + 2 * int i) i sy)
       else sys_connect_device p e (nid + 2 * int i) i (i - num_host) (ivs ! (i - num_host)) sy)
       [0 ..< num_device + num_host]"

definition sys_add_DAMs ::
  "'m sys_env \<Rightarrow> int \<Rightarrow> nat \<Rightarrow> (u64 \<times> u64) list \<Rightarrow> 'm CXLSystem \<Rightarrow> 'm CXLSystem result" where
  "sys_add_DAMs e nid num_host ivs_dam =
     fold_r (\<lambda>i sy.
       cxl_assert (length ivs_dam = num_host) ''insufficient information''
         (Inr (sy\<lparr>sy_DAMs := sy_DAMs sy @
                 [DirectAttached_new (se_memory e (nid + int i)) (word_of_int (se_junk e)) (nid + int i)],
               sy_hosts := (sy_hosts sy)[i := register_DAM (ivs_dam ! i) (sy_hosts sy ! i)],
               sy_last_DAM_update := sy_last_DAM_update sy @ [0]\<rparr>)))
       [0 ..< num_host]"

definition CXLSystem_new ::
  "CXLParams \<Rightarrow> 'm sys_env \<Rightarrow> nat \<Rightarrow> nat \<Rightarrow> bool \<Rightarrow> (u64 \<times> u64) list \<Rightarrow> (u64 \<times> u64) list \<Rightarrow> u64 list
     \<Rightarrow> 'm CXLSystem result" where
  "CXLSystem_new p e num_host num_device has_DAM ivs_dam ivs dev_host =
     cxl_assert (length ivs = length dev_host \<and> length ivs = num_device) ''insufficient information''
    (let dev_id = (\<lambda>i. 1 + int num_host + int i);
         devices = map (\<lambda>i. CXLDevice_new p (se_uninit e)
             (ramulator_init (se_memory e (dev_id i)) (word_of_int (se_junk e))) DEV_VC_SIZE DEV_BUF_SIZE (dev_id i))
           [0 ..< num_device];
         hosts = map (\<lambda>i. CXLHost_new (se_uninit e) (se_junk e) HOST_VC_SIZE HOST_BUF_SIZE (1 + int i)) [0 ..< num_host];
         nid = 1 + int num_host + int num_device
     in bind_r (sys_register_devices dev_host ivs hosts) (\<lambda>hosts.
        if hosts = [] \<and> devices \<noteq> [] then Inl (NULL_DEREF ''hosts'')
        else let sy = \<lparr>sy_DAMs = [], sy_devices = devices, sy_hosts = hosts,
                   sy_interconnects = replicate (num_device + num_host) (se_bus e, se_bus e),
                   sy_last_DAM_update = [], sy_switch = CXLSwitch_new (0, 0) 4096 0\<rparr>
             in bind_r (sys_wire p e nid num_host num_device ivs sy) (\<lambda>sy.
                if has_DAM
                then sys_add_DAMs e (nid + 2 * int (num_device + num_host)) num_host ivs_dam sy
                else Inr sy)))"

section \<open>The tick\<close>

text \<open>The state a tick works on.\<close>

type_synonym 'm sys_state = "globals \<times> 'm CXLSystem"

definition sys_host_links :: "CXLParams \<Rightarrow> uninit \<Rightarrow> nat \<Rightarrow> 'm sys_state \<Rightarrow> 'm sys_state result" where
  "sys_host_links p u i = (\<lambda>(g, sy).
     let ic = sy_interconnects sy ! i; h = sy_hosts sy ! i; sw = sy_switch sy
     in bind_r (CXLBus_update p u g (fst ic) (ho_rx_buffer h)) (\<lambda>(b1, rx).
        bind_r (CXLBus_update p u g (snd ic) (sw_upstream_buffer_rx sw)) (\<lambda>(b2, srx).
          Inr (g, sy\<lparr>sy_interconnects := (sy_interconnects sy)[i := (b1, b2)],
                     sy_hosts := (sy_hosts sy)[i := h\<lparr>ho_rx_buffer := rx\<rparr>],
                     sy_switch := sw\<lparr>sw_upstream_buffer_rx := srx\<rparr>\<rparr>))))"

definition sys_device_links :: "CXLParams \<Rightarrow> uninit \<Rightarrow> nat \<Rightarrow> nat \<Rightarrow> 'm sys_state \<Rightarrow> 'm sys_state result" where
  "sys_device_links p u num_host i = (\<lambda>(g, sy).
     let j = i - num_host; ic = sy_interconnects sy ! i; d = sy_devices sy ! j; sw = sy_switch sy
     in bind_r (CXLBus_update p u g (fst ic) (dv_rx_buffer d)) (\<lambda>(b1, rx).
        bind_r (CXLBus_update p u g (snd ic) (sm_get (CXLBuf_new 0) (sw_downstream_buffers_rx sw) (of_nat j))) (\<lambda>(b2, srx).
          Inr (g, sy\<lparr>sy_interconnects := (sy_interconnects sy)[i := (b1, b2)],
                     sy_devices := (sy_devices sy)[j := d\<lparr>dv_rx_buffer := rx\<rparr>],
                     sy_switch := sw\<lparr>sw_downstream_buffers_rx := sm_put (of_nat j) srx (sw_downstream_buffers_rx sw)\<rparr>\<rparr>))))"

definition sys_switch_update :: "CXLParams \<Rightarrow> uninit \<Rightarrow> bool \<Rightarrow> 'm sys_state \<Rightarrow> 'm sys_state result" where
  "sys_switch_update p u skip = (\<lambda>(g, sy).
     bind_r (CXLSwitch_update p u skip g (sy_switch sy) (sy_interconnects sy)) (\<lambda>(sw, ics).
       Inr (g, sy\<lparr>sy_switch := sw, sy_interconnects := ics\<rparr>)))"

text \<open>A node writes to the second link of its pair.\<close>

definition sys_device_update ::
  "CXLParams \<Rightarrow> uninit \<Rightarrow> 'm mem_ops \<Rightarrow> bool \<Rightarrow> nat \<Rightarrow> nat \<Rightarrow> 'm sys_state \<Rightarrow> 'm sys_state result" where
  "sys_device_update p u ops skip num_host j = (\<lambda>(g, sy).
     let i = num_host + j; ic = sy_interconnects sy ! i
     in bind_r (CXLDevice_update p u ops skip g (sy_devices sy ! j) (snd ic)) (\<lambda>(g, d, b).
          Inr (g, sy\<lparr>sy_devices := (sy_devices sy)[j := d], sy_interconnects := (sy_interconnects sy)[i := (fst ic, b)]\<rparr>)))"

text \<open>Only the first host knows the memories of the devices.\<close>

definition sys_host_update ::
  "CXLParams \<Rightarrow> uninit \<Rightarrow> 'm mem_ops \<Rightarrow> bool \<Rightarrow> nat \<Rightarrow> 'm sys_state \<Rightarrow> 'm sys_state result" where
  "sys_host_update p u ops skip i = (\<lambda>(g, sy).
     let ic = sy_interconnects sy ! i;
         w = \<lparr>hw_g = g, hw_host = sy_hosts sy ! i,
              hw_dam = (if i < length (sy_DAMs sy) then Some (sy_DAMs sy ! i) else None),
              hw_devs = (if i = 0 then sy_devices sy else [])\<rparr>
     in bind_r (CXLHost_update p u ops skip w (snd ic)) (\<lambda>(w, b).
          Inr (hw_g w, sy\<lparr>sy_hosts := (sy_hosts sy)[i := hw_host w],
            sy_DAMs := (case hw_dam w of None \<Rightarrow> sy_DAMs sy | Some dam \<Rightarrow> (sy_DAMs sy)[i := dam]),
            sy_devices := (if i = 0 then hw_devs w else sy_devices sy),
            sy_interconnects := (sy_interconnects sy)[i := (fst ic, b)]\<rparr>)))"

definition sys_dam_update :: "'m mem_ops \<Rightarrow> nat \<Rightarrow> 'm sys_state \<Rightarrow> 'm sys_state result" where
  "sys_dam_update ops i = (\<lambda>(g, sy).
     bind_r (DirectAttached_update ops g (sy_hosts sy ! i) (sy_DAMs sy ! i)) (\<lambda>(_, g, h, dam).
       Inr (g, sy\<lparr>sy_hosts := (sy_hosts sy)[i := h], sy_DAMs := (sy_DAMs sy)[i := dam]\<rparr>)))"

definition CXLSystem_update :: "CXLParams \<Rightarrow> uninit \<Rightarrow> 'm mem_ops \<Rightarrow> bool \<Rightarrow> 'm sys_state \<Rightarrow> 'm sys_state result" where
  "CXLSystem_update p u ops skip = (\<lambda>(g, sy).
     let nh = length (sy_hosts sy)
     in bind_r (fold_r (sys_host_links p u) [0 ..< nh] (g, sy)) (\<lambda>st.
        bind_r (sys_switch_update p u skip st) (\<lambda>st.
        bind_r (fold_r (sys_device_links p u nh) [nh ..< length (sy_interconnects sy)] st) (\<lambda>st.
        bind_r (fold_r (sys_device_update p u ops skip nh) [0 ..< length (sy_devices sy)] st) (\<lambda>st.
        bind_r (fold_r (sys_host_update p u ops skip) [0 ..< nh] st) (\<lambda>(g, sy).
          if curr_tick g mod delay_ramulator_update p = 0
          then fold_r (sys_dam_update ops) [0 ..< length (sy_DAMs sy)] (g, sy)
          else Inr (g, sy)))))))"

section \<open>The main loop\<close>

text \<open>\<^verbatim>\<open>main\<close> counts the lines of the trace and runs until as many requests have completed
  and none is outstanding.  \<open>None\<close> means that the loop is still running after \<open>n\<close> ticks.\<close>

definition sim_done :: "u64 \<Rightarrow> 'm sys_state \<Rightarrow> bool" where
  "sim_done num_reqs = (\<lambda>(g, sy).
     ho_messages_sent_to_device (sy_hosts sy ! 0) = [] \<and> ho_reqs_in_dam (sy_hosts sy ! 0) = [] \<and>
     num_reqs_completed g \<ge> num_reqs)"

fun sim_loop ::
  "CXLParams \<Rightarrow> uninit \<Rightarrow> 'm mem_ops \<Rightarrow> bool \<Rightarrow> u64 \<Rightarrow> nat \<Rightarrow> int \<times> 'm sys_state \<Rightarrow> (int \<times> 'm sys_state) option result" where
  "sim_loop p u ops skip num_reqs 0 st = Inr None"
| "sim_loop p u ops skip num_reqs (Suc n) (inactive, st) =
     bind_r (CXLSystem_update p u ops skip st) (\<lambda>(g, sy).
       let g = g\<lparr>curr_tick := curr_tick g + 1\<rparr>;
           inactive = (if no_active_transaction (sy_hosts sy ! 0) then inactive + 1 else inactive)
       in if sim_done num_reqs (g, sy) then Inr (Some (inactive, g, sy))
          else sim_loop p u ops skip num_reqs n (inactive, g, sy))"

text \<open>The system \<^verbatim>\<open>main\<close> builds: one host with direct-attached memory, one device.\<close>

definition main_system :: "'m sys_env \<Rightarrow> string list \<Rightarrow> 'm CXLSystem result" where
  "main_system e trace =
     bind_r (CXLSystem_new (main_params (se_params e)) e 1 1 True [(0, 0xaffffffffffffff)] [(0xb00000000000000, 0xcffffffffffffff)] [0])
       (\<lambda>sy. Inr (sy\<lparr>sy_hosts := (sy_hosts sy)[0 := set_trace_file trace (sy_hosts sy ! 0)]\<rparr>))"

definition main_globals :: globals where
  "main_globals = \<lparr>curr_tick = 0, msg_count = 0, flit_counter = 0, num_reqs_completed = 0, num_dam_reqs = 0\<rparr>"

text \<open>\<^verbatim>\<open>num_reqs\<close> is the number of newlines of the file.\<close>

definition main_run ::
  "'m sys_env \<Rightarrow> 'm mem_ops \<Rightarrow> bool \<Rightarrow> string list \<Rightarrow> nat \<Rightarrow> (int \<times> 'm sys_state) option result" where
  "main_run e ops skip trace n =
     bind_r (main_system e trace) (\<lambda>sy.
       sim_loop (main_params (se_params e)) (se_uninit e) ops skip (of_nat (length trace)) n (0, main_globals, sy))"

end
