(* ===== verification/CXL_Mem.thy ===== *)
theory CXL_Mem
  imports CXL_If
begin

text \<open>
  What the CXL layer relies on in a memory: every request a memory accepts stays in it until the
  memory calls the callback for it, once.  \<open>held\<close> gives the ids of the requests inside.  The DRAM
  model fulfils the contract (\<open>Ram_Flow\<close>).
\<close>

text \<open>Driving a memory: \<open>Some r\<close> offers a request, \<open>None\<close> is a cycle.  The results are the accepted and the
  completed requests.\<close>

fun mem_drive :: "'m mem_ops \<Rightarrow> Request option list \<Rightarrow> 'm \<Rightarrow> ('m \<times> Request list \<times> Request list) result" where
  "mem_drive ops [] m = Inr (m, [], [])"
| "mem_drive ops (Some r # es) m =
     bind_r (mem_send ops m r) (\<lambda>(m, ok).
     bind_r (mem_drive ops es m) (\<lambda>(m, acc, fin). Inr (m, (if ok then r # acc else acc), fin)))"
| "mem_drive ops (None # es) m =
     bind_r (mem_tick ops m) (\<lambda>(m, done).
     bind_r (mem_drive ops es m) (\<lambda>(m, acc, fin). Inr (m, acc, done @ fin)))"

definition access_request :: "Request \<Rightarrow> bool" where
  "access_request r \<longleftrightarrow> rq_type r = READ \<or> rq_type r = WRITE"

locale conserving_memory =
  fixes ops :: "'m mem_ops" and mem_ok :: "'m \<Rightarrow> bool" and held :: "'m \<Rightarrow> u64 multiset"
  assumes send_held: "mem_ok m \<Longrightarrow> access_request r \<Longrightarrow> mem_send ops m r = Inr (m', ok) \<Longrightarrow>
      mem_ok m' \<and> held m' = held m + (if ok then {#req_id r#} else {#})"
    and tick_held: "mem_ok m \<Longrightarrow> mem_tick ops m = Inr (m', done) \<Longrightarrow>
      mem_ok m' \<and> held m = held m' + mset (map req_id done)"
    and drain_ok: "mem_ok m \<Longrightarrow> mem_ok (mem_drain_writes ops m)"
    and drain_same: "mem_ok m \<Longrightarrow> held (mem_drain_writes ops m) = held m"
    and idle_empty: "mem_ok m \<Longrightarrow> mem_pending_requests ops m = 0 \<Longrightarrow> held m = {#}"
begin

text \<open>Over a whole run: what went in is what came out and what is still inside.\<close>

lemma drive_held:
  "mem_drive ops evs m = Inr (m', acc, fin) \<Longrightarrow> mem_ok m \<Longrightarrow> list_all (pred_option access_request) evs \<Longrightarrow>
     mem_ok m' \<and> held m + mset (map req_id acc) = held m' + mset (map req_id fin)"
proof (induction evs arbitrary: m acc fin)
  case (Cons e evs)
  show ?case
  proof (cases e)
    case None
    with Cons.prems(1) obtain m1 d1 f1 where m1: "mem_tick ops m = Inr (m1, d1)" "mem_drive ops evs m1 = Inr (m', acc, f1)"
      and fin: "fin = d1 @ f1" by auto
    have t: "mem_ok m1 \<and> held m = held m1 + mset (map req_id d1)" by (rule tick_held [OF Cons.prems(2) m1(1)])
    then have "mem_ok m' \<and> held m1 + mset (map req_id acc) = held m' + mset (map req_id f1)"
      using Cons.IH [OF m1(2)] Cons.prems(3) by simp
    then show ?thesis using t fin by simp
  next
    case (Some r)
    have "\<exists>p. mem_send ops m r = Inr p \<and> (\<exists>a1. mem_drive ops evs (fst p) = Inr (m', a1, fin) \<and> acc = (if snd p then r # a1 else a1))"
      using Cons.prems(1) Some by (auto simp: case_prod_beta)
    then obtain m1 ok a1 where m1: "mem_send ops m r = Inr (m1, ok)" "mem_drive ops evs m1 = Inr (m', a1, fin)"
      and acc: "acc = (if ok then r # a1 else a1)" by (metis prod.collapse)
    have t: "mem_ok m1 \<and> held m1 = held m + (if ok then {#req_id r#} else {#})"
      using send_held [OF Cons.prems(2) _ m1(1)] Cons.prems(3) Some by simp
    then have "mem_ok m' \<and> held m1 + mset (map req_id a1) = held m' + mset (map req_id fin)"
      using Cons.IH [OF m1(2)] Cons.prems(3) by simp
    then show ?thesis using t acc by (cases ok) simp_all
  qed
qed simp

end

text \<open>The requests a front end has taken and not yet completed: those of its buffer, the one the
  memory refused last time, those in the memory.\<close>

definition rd_stalled :: "'m RamDevice \<Rightarrow> u64 multiset" where
  "rd_stalled ram = (if ds_stall (rd_state ram) then {#rd_req_id ram#} else {#})"

definition rd_queued :: "'m RamDevice \<Rightarrow> u64 multiset" where
  "rd_queued ram = image_mset rr_req_id (mset (ib_buf (rd_inp_buf ram))) + rd_stalled ram"

text \<open>The buffer has valid requests of the two kinds only, and so has the request that waits.\<close>

definition rd_front_ok :: "'m RamDevice \<Rightarrow> bool" where
  "rd_front_ok ram \<longleftrightarrow> ds_status (rd_state ram) \<noteq> END \<and>
     (ds_stall (rd_state ram) \<longrightarrow> ds_status (rd_state ram) = VALID \<and> (rd_type ram = READ \<or> rd_type ram = WRITE)) \<and>
     list_all (\<lambda>r. rr_status r = VALID \<and> (rr_type r = READ \<or> rr_type r = WRITE)) (ib_buf (rd_inp_buf ram))"

end
