(* ===== verification/CXL_Books.thy ===== *)
theory CXL_Books
  imports CXL_Sys CXL_Mem CXL_Host_Retire
begin

text \<open>
  The books of the simulation.  Every line of the trace becomes one request, which waits in
  \<^verbatim>\<open>text_to_trace_buf\<close>, is then outstanding in \<^verbatim>\<open>messages_sent_to_device\<close> or \<^verbatim>\<open>reqs_in_dam\<close>, and is counted in
  \<^verbatim>\<open>num_reqs_completed\<close> when it leaves them.  The main loop ends by these books; the invariant
  here shows that they balance in every tick.
\<close>

section \<open>What holds of every result\<close>

definition post :: "'a result \<Rightarrow> ('a \<Rightarrow> bool) \<Rightarrow> bool" where
  "post m P \<longleftrightarrow> (\<forall>x. m = Inr x \<longrightarrow> P x)"

lemma post_simps [simp]: "post (Inr x) P \<longleftrightarrow> P x" "post (Inl e) P"
  by (simp_all add: post_def)

lemma post_bind: "post (bind_r m f) P \<longleftrightarrow> post m (\<lambda>x. post (f x) P)"
  by (cases m) (auto simp: post_def)

lemma post_all: "(\<And>x. P x) \<Longrightarrow> post m P"
  by (simp add: post_def)

lemma post_mono: "post m Q \<Longrightarrow> (\<And>x. Q x \<Longrightarrow> P x) \<Longrightarrow> post m P"
  by (simp add: post_def)

lemma post_D: "post m P \<Longrightarrow> m = Inr x \<Longrightarrow> P x"
  by (simp add: post_def)

lemma post_I: "(\<And>x. m = Inr x \<Longrightarrow> P x) \<Longrightarrow> post m P"
  by (simp add: post_def)

lemma bind_r_tupled:
  "bind_r m (\<lambda>(a, b, c, d). f4 a b c d) = Inr y \<Longrightarrow> (\<And>a b c d. m = Inr (a, b, c, d) \<Longrightarrow> f4 a b c d = Inr y \<Longrightarrow> P) \<Longrightarrow> P"
  "bind_r m3 (\<lambda>(a, b, c). f3 a b c) = Inr y \<Longrightarrow> (\<And>a b c. m3 = Inr (a, b, c) \<Longrightarrow> f3 a b c = Inr y \<Longrightarrow> P) \<Longrightarrow> P"
  "bind_r m2 (\<lambda>(a, b). f2 a b) = Inr y \<Longrightarrow> (\<And>a b. m2 = Inr (a, b) \<Longrightarrow> f2 a b = Inr y \<Longrightarrow> P) \<Longrightarrow> P"
  by (auto elim!: bind_r_returns)

lemma cxl_assert_returns: "cxl_assert c msg k = Inr y \<Longrightarrow> (c \<Longrightarrow> k = Inr y \<Longrightarrow> P) \<Longrightarrow> P"
  by simp

section \<open>Who writes the books\<close>

definition ho_books ::
  "CXLHost \<Rightarrow> string list \<times> (u64 \<times> message) CXLBuf \<times> (u64, message) smap \<times> (u64, int) smap" where
  "ho_books h = (ho_trace_in h, ho_text_to_trace_buf h, ho_messages_sent_to_device h, ho_reqs_in_dam h)"

definition g_books :: "globals \<Rightarrow> u64 \<times> u64" where
  "g_books g = (msg_count g, num_reqs_completed g)"

text \<open>The packer, the transmitter and the unpacker do not.\<close>

lemma books_cred [simp]: "ho_books (ho_set_cred k c h) = ho_books h" "ho_books (ho_touch k h) = ho_books h"
  "ho_books (ho_count_checks k h) = ho_books h" "ho_books (ho_put_data i h) = ho_books h"
  by (simp_all add: ho_books_def ho_set_cred_def ho_touch_def ho_count_checks_def ho_put_data_def Let_def)

lemma books_vc_dequeue: "ho_vc_dequeue v h = Inr h' \<Longrightarrow> ho_books h' = ho_books h"
  by (cases v) (auto simp: ho_books_def)

lemma books_scan: "ho_scan_vcs p g vcs is h = Inr (r, h') \<Longrightarrow> ho_books h' = ho_books h"
proof (induction "is" arbitrary: h)
  case (Cons i "is")
  then show ?case
    using Cons.IH [of "ho_count_checks d (ho_touch d h)" for d] Cons.IH [of "ho_touch d h" for d] Cons.IH [of h]
    by (fastforce simp: Let_def split: if_splits opcode.splits)
qed simp

lemma books_check_vcs: "ho_check_vcs_for_packing p g vcs h = Inr (r, h') \<Longrightarrow> ho_books h' = ho_books h"
  by (auto simp: ho_check_vcs_for_packing_def split: option.splits dest!: books_scan) (simp_all add: ho_books_def)

lemma books_try: "ho_try_Req p g s h = Inr (r, h') \<Longrightarrow> ho_books h' = ho_books h"
  "ho_try_RWD p g s h = Inr (r, h') \<Longrightarrow> ho_books h' = ho_books h"
  by (auto simp: ho_try_Req_def ho_try_RWD_def split: option.splits dest!: books_check_vcs) (simp_all add: ho_books_def)

lemma books_get_msg: "ho_get_msg_from_vcs p g h = Inr (r, h') \<Longrightarrow> ho_books h' = ho_books h"
  by (auto simp: ho_get_msg_from_vcs_def split: round_robin_state.splits option.splits dest!: books_try)

lemma books_place: "ho_place_req i vc m h = Inr h' \<Longrightarrow> ho_books h' = ho_books h"
  "ho_place_rwd i vc m h = Inr h' \<Longrightarrow> ho_books h' = ho_books h"
  by (auto simp: ho_place_req_def ho_place_rwd_def Let_def dest!: books_vc_dequeue) (simp_all add: ho_books_def ho_set_cred_def)

lemma books_pack_slot:
  assumes "ho_pack_slot p g i h = Inr (go, h')"
  shows "ho_books h' = ho_books h"
proof (cases "sl_type (fl_slots (ho_flit_to_pack h) ! i) \<noteq> empty \<or> (ho_packer_rollover h \<noteq> 0 \<and> i \<noteq> 0)")
  case True
  then show ?thesis using assms by (auto simp: ho_pack_slot_def ho_books_def ho_put_data_def split: if_splits)
next
  case False
  then obtain r h1 where h1: "ho_get_msg_from_vcs p g h = Inr (r, h1)"
    using assms by (auto simp: ho_pack_slot_def)
  note b1 = books_get_msg [OF h1]
  have slot: "post (case opCode m of
         Req \<Rightarrow> if c then bind_r (ho_place_req i vc m e) (\<lambda>h. Inr (True, h)) else Inr (True, e)
       | RwD \<Rightarrow> if c' then bind_r (ho_place_rwd i vc m e) (\<lambda>h. Inr (True, h)) else Inr (True, e)
       | _ \<Rightarrow> Inl x) (\<lambda>(go, h'). ho_books h' = ho_books h)" if "ho_books e = ho_books h" for m c c' vc e x
    using that by (cases "opCode m") (auto simp: post_bind intro!: post_I dest!: books_place)
  have "post (ho_pack_slot p g i h) (\<lambda>(go, h'). ho_books h' = ho_books h)"
  proof (cases r)
    case None
    then show ?thesis using False h1 b1 by (auto simp: ho_pack_slot_def)
  next
    case (Some vc)
    have "ho_books (h1\<lparr>ho_device_under_consideration := dev\<rparr>) = ho_books h" for dev using b1 by (simp add: ho_books_def)
    from slot [OF this] show ?thesis
      using False h1 Some by (auto simp: ho_pack_slot_def Let_def post_bind simp del: bind_r_eq_Inr intro!: post_all)
  qed
  from post_D [OF this assms] show ?thesis by simp
qed

lemma books_pack_loop: "ho_pack_loop p g is h = Inr h' \<Longrightarrow> ho_books h' = ho_books h"
  by (induction "is" arbitrary: h) (auto split: if_splits dest!: books_pack_slot)

lemma books_pack_more: "post (ho_pack_more p g h) (\<lambda>(a, g', h'). ho_books h' = ho_books h \<and> g' = g)"
proof -
  have "ho_books (e\<lparr>ho_is_packer_waiting := True\<rparr>) = ho_books e" for e by (simp add: ho_books_def)
  moreover have "post (ho_pack_loop p g [0, 1, 2, 3] h) (\<lambda>h'. ho_books h' = ho_books h)"
    by (rule post_I) (erule books_pack_loop)
  ultimately show ?thesis
    unfolding ho_pack_more_def Let_def post_bind by (auto simp: post_def simp del: ho_pack_loop.simps)
qed

lemma books_add_flit: "ho_add_flit_to_buf g h = Inr (g', h') \<Longrightarrow> ho_books h' = ho_books h \<and> g_books g' = g_books g"
  by (auto simp: ho_add_flit_to_buf_def Let_def ho_books_def g_books_def)

lemma books_send: "post (ho_send_waiting g h) (\<lambda>(a, g', h'). ho_books h' = ho_books h \<and> g_books g' = g_books g)"
proof -
  have "ho_books (e\<lparr>ho_is_packer_waiting := False\<rparr>) = ho_books e" for e by (simp add: ho_books_def)
  then show ?thesis unfolding ho_send_waiting_def by (auto simp: post_def dest: books_add_flit)
qed

lemma books_place_rollover: "ho_place_rollover h = Inr h' \<Longrightarrow> ho_books h' = ho_books h"
  by (auto simp: ho_place_rollover_def ho_books_def ho_put_data_def split: if_splits)

lemma books_packer:
  assumes "ho_FLIT_packer p u g h = Inr (a, g', h')"
  shows "ho_books h' = ho_books h \<and> g_books g' = g_books g"
proof -
  let ?P = "\<lambda>h (a, g', h'). ho_books h' = ho_books h \<and> g_books g' = g_books g"
  have more: "post (ho_pack_more p g h) (?P h)" for h using books_pack_more [of p g h] by (auto simp: post_def)
  have roll: "post (bind_r (ho_place_rollover h) (\<lambda>h'. if c then if d h' then Inr (True, g, h'\<lparr>ho_is_packer_waiting := True\<rparr>)
       else bind_r (ho_add_flit_to_buf g h') (\<lambda>(g, h'). Inr (True, g, h'\<lparr>ho_is_packer_waiting := False\<rparr>))
       else ho_pack_more p g h')) (?P h)" for h c d
  proof -
    have w: "ho_books (e\<lparr>ho_is_packer_waiting := b\<rparr>) = ho_books e" for e b by (simp add: ho_books_def)
    have "post (if c then if d h' then Inr (True, g, h'\<lparr>ho_is_packer_waiting := True\<rparr>)
       else bind_r (ho_add_flit_to_buf g h') (\<lambda>(g, h'). Inr (True, g, h'\<lparr>ho_is_packer_waiting := False\<rparr>))
       else ho_pack_more p g h') (?P h')" for h'
      using more [of h'] by (auto simp: post_bind w intro!: post_I dest!: books_add_flit)
    note tail = this
    show ?thesis
      unfolding post_bind [of "ho_place_rollover h"]
    proof (rule post_I)
      fix x assume "ho_place_rollover h = Inr x"
      from books_place_rollover [OF this] show "post (if c then if d x then Inr (True, g, x\<lparr>ho_is_packer_waiting := True\<rparr>)
       else bind_r (ho_add_flit_to_buf g x) (\<lambda>(g, h'). Inr (True, g, h'\<lparr>ho_is_packer_waiting := False\<rparr>))
       else ho_pack_more p g x) (?P h)" using tail [of x] by simp
    qed
  qed
  let ?h = "if \<not> ho_is_packer_waiting h
     then h\<lparr>ho_flit_to_pack := flit_new u, ho_started_packing_at := curr_tick g,
            ho_device_under_consideration := (if ho_packer_rollover h > 0 then ho_device_under_consideration h else NO_DEVICE)\<rparr>
     else h"
  have "post (ho_FLIT_packer p u g h) (?P ?h)"
    unfolding ho_FLIT_packer_def Let_def cxl_assert_def using more [of ?h] roll [of ?h] books_send [of g ?h] by simp
  moreover have "ho_books ?h = ho_books h" by (simp add: ho_books_def)
  ultimately show ?thesis using post_D [OF _ assms] by fastforce
qed

lemma books_transmit: "ho_transmit p u g h b = Inr (a, h', b') \<Longrightarrow> ho_books h' = ho_books h"
proof -
  have "post (ho_transmit p u g h b) (\<lambda>(a, h', b'). ho_books h' = ho_books h)"
    unfolding ho_transmit_def Let_def by (auto simp: post_bind ho_books_def intro!: post_all)
  then show "ho_transmit p u g h b = Inr (a, h', b') \<Longrightarrow> ho_books h' = ho_books h" by (auto dest: post_D)
qed

lemma books_finish_drs: "ho_finish_drs g h = Inr h' \<Longrightarrow> ho_books h' = ho_books h"
  by (auto simp: ho_finish_drs_def ho_books_def Let_def)

lemma books_unpack_rollover: "ho_unpack_rollover g is f h = Inr (f', h') \<Longrightarrow> ho_books h' = ho_books h"
proof (induction "is" arbitrary: f h)
  case (Cons i "is")
  let ?h = "h\<lparr>ho_unpacker_rollover := ho_unpacker_rollover h - 1\<rparr>"
  let ?f = "f\<lparr>fl_slots := (fl_slots f)[i := (fl_slots f ! i)\<lparr>sl_type := empty\<rparr>]\<rparr>"
  have b: "ho_books ?h = ho_books h" by (simp add: ho_books_def)
  consider "sl_type (fl_slots f ! i) \<noteq> data" | "sl_type (fl_slots f ! i) = data" "ho_unpacker_rollover ?h = 0"
    | "sl_type (fl_slots f ! i) = data" "ho_unpacker_rollover ?h \<noteq> 0" by blast
  then show ?case
  proof cases
    case 1
    then show ?thesis using Cons by simp
  next
    case 2
    then have "ho_finish_drs g ?h = Inr h'" using Cons.prems by (auto simp: Let_def)
    then show ?thesis using books_finish_drs b by metis
  next
    case 3
    then have "ho_unpack_rollover g is ?f ?h = Inr (f', h')" using Cons.prems by (simp add: Let_def)
    then show ?thesis using Cons.IH b by metis
  qed
qed simp

lemma books_unpack_slots: "ho_unpack_slots g ss h = Inr h' \<Longrightarrow> ho_books h' = ho_books h"
proof (induction ss arbitrary: h)
  case (Cons s ss)
  then obtain h1 where "ho_unpack_slot g s h = Inr h1" "ho_unpack_slots g ss h1 = Inr h'" by auto
  moreover have "ho_books h1 = ho_books h"
    using calculation(1) by (auto simp: ho_unpack_slot_def Let_def split: slot_type.splits if_splits dest!: books_finish_drs)
      (simp_all add: ho_books_def)
  ultimately show ?case using Cons.IH by simp
qed simp

lemma books_unpack_flit:
  assumes "ho_unpack_flit g f h = Inr h'"
  shows "ho_books h' = ho_books h"
proof -
  have "\<exists>q h2 dev c rx. (if ho_unpacker_rollover h \<noteq> 0 then ho_unpack_rollover g [0, 1, 2, 3] f h else Inr (f, h)) = Inr q \<and>
      ho_unpack_slots g (fl_slots (fst q)) (snd q) = Inr h2 \<and> h' = ho_set_cred dev c (h2\<lparr>ho_rx_buffer := rx\<rparr>)"
    using assms unfolding ho_unpack_flit_def Let_def cxl_assert_eq_Inr bind_r_eq_Inr case_prod_beta sum.inject by metis
  then obtain f1 h1 h2 dev c rx where
    roll: "(if ho_unpacker_rollover h \<noteq> 0 then ho_unpack_rollover g [0, 1, 2, 3] f h else Inr (f, h)) = Inr (f1, h1)"
    and slots: "ho_unpack_slots g (fl_slots f1) h1 = Inr h2" and h': "h' = ho_set_cred dev c (h2\<lparr>ho_rx_buffer := rx\<rparr>)"
    by (metis prod.collapse)
  have "ho_books h1 = ho_books h"
    using roll books_unpack_rollover by (cases "ho_unpacker_rollover h \<noteq> 0") (auto simp del: ho_unpack_rollover.simps)
  moreover have "ho_books h' = ho_books h2" by (simp add: h') (simp add: ho_books_def)
  ultimately show ?thesis using books_unpack_slots [OF slots] by simp
qed

lemma books_unpacker:
  assumes "ho_FLIT_unpacker p g h = Inr (a, h')"
  shows "ho_books h' = ho_books h"
proof -
  from assms obtain f where "(a = False \<and> h' = h) \<or> ho_unpack_flit g f h = Inr h'"
    by (auto simp: ho_FLIT_unpacker_def split: if_splits)
  then show ?thesis using books_unpack_flit by auto
qed

end
