(* ===== verification/CXL_Ledger.thy ===== *)
theory CXL_Ledger
  imports CXL_Books
begin

text \<open>
  The ledger of the simulation: \<^verbatim>\<open>msg_count\<close> requests were made, \<^verbatim>\<open>num_reqs_completed\<close> of them are
  complete, and the others are exactly the ids that wait in \<^verbatim>\<open>text_to_trace_buf\<close> or are keys of
  \<^verbatim>\<open>messages_sent_to_device\<close> or \<^verbatim>\<open>reqs_in_dam\<close>.  The steps of a tick keep it, and \<^verbatim>\<open>reqs_in_dam\<close> agrees
  with what the direct-attached memory holds.
\<close>

section \<open>Ledgers\<close>

definition ledger :: "nat \<Rightarrow> nat \<Rightarrow> u64 multiset \<Rightarrow> bool" where
  "ledger n c M \<longleftrightarrow> c + size M = n \<and> (\<forall>i. count M i \<le> 1) \<and> (\<forall>i \<in># M. unat i < n)"

lemma ledger_mint: "ledger (unat k) c M \<Longrightarrow> ledger (Suc (unat k)) c (add_mset k M)"
proof -
  assume l: "ledger (unat k) c M"
  then have "k \<notin># M" by (auto simp: ledger_def)
  then show ?thesis using l by (auto simp: ledger_def count_eq_zero_iff dest!: bspec)
qed

lemma ledger_retire: "ledger n c (M + N) \<Longrightarrow> ledger n (c + size N) M"
proof -
  assume l: "ledger n c (M + N)"
  have "count M i \<le> 1" for i
  proof -
    have "count (M + N) i \<le> 1" using l unfolding ledger_def by blast
    then show ?thesis by simp
  qed
  then show ?thesis using l by (auto simp: ledger_def)
qed

lemma ledger_fresh: "ledger n c (add_mset k M) \<Longrightarrow> k \<notin># M"
  by (auto simp: ledger_def count_eq_zero_iff [symmetric] dest: spec [of _ k])

section \<open>Keys of a table\<close>

definition keys :: "('k::linorder, 'v) smap \<Rightarrow> 'k multiset" where
  "keys m = mset (map fst m)"

lemma keys_iff: "k \<in># keys m \<longleftrightarrow> sm_find m k \<noteq> None"
  using sm_find_iff [of m k] by (simp add: keys_def)

lemma keys_put: "sm_find m k = None \<Longrightarrow> keys (sm_put k v m) = add_mset k (keys m)"
  by (induction k v m rule: sm_put.induct) (auto simp: keys_def sm_find_def split: if_splits)

lemma keys_insert: "k \<notin># keys m \<Longrightarrow> keys (sm_insert k v m) = add_mset k (keys m)"
  by (simp add: sm_insert_def keys_iff keys_put)

lemma sm_ok_insert: "sm_ok m \<Longrightarrow> sm_ok (sm_insert k v m)"
  by (simp add: sm_insert_def)

lemma keys_erase:
  assumes "sm_ok m" "k \<in># keys m"
  shows "keys m = add_mset k (keys (sm_erase k m))"
proof -
  have "distinct (map fst m)" by (rule sm_ok_distinct [OF assms(1)])
  then show ?thesis using assms(2)
  proof (induction m)
    case (Cons e m)
    have "sm_erase k m = m" if "k \<notin> fst ` set m" using that by (auto simp: sm_erase_def intro!: filter_True)
    moreover have "sm_erase k (e # m) = (if fst e = k then sm_erase k m else e # sm_erase k m)" by (simp add: sm_erase_def)
    ultimately show ?case using Cons by (auto simp: keys_def)
  qed (simp add: keys_def)
qed

section \<open>The ledger of a host\<close>

definition ho_ids :: "CXLHost \<Rightarrow> u64 multiset" where
  "ho_ids h = image_mset (\<lambda>x. msg_id (snd x)) (mset (buf_q (ho_text_to_trace_buf h))) +
     keys (ho_messages_sent_to_device h) + keys (ho_reqs_in_dam h)"

definition books_ok :: "nat \<Rightarrow> globals \<Rightarrow> CXLHost \<Rightarrow> bool" where
  "books_ok N g h \<longleftrightarrow> sm_ok (ho_messages_sent_to_device h) \<and> sm_ok (ho_reqs_in_dam h) \<and>
     N < 2 ^ 64 \<and> unat (msg_count g) + length (ho_trace_in h) = N \<and>
     ledger (unat (msg_count g)) (unat (num_reqs_completed g)) (ho_ids h)"

text \<open>\<open>dam_ok\<close> relates the table of a host to its memory, given the invariant of the memory and the ids in it.\<close>

definition dam_ok :: "('m \<Rightarrow> bool) \<Rightarrow> ('m \<Rightarrow> u64 multiset) \<Rightarrow> CXLHost \<Rightarrow> 'm DirectAttached option \<Rightarrow> bool" where
  "dam_ok mem_ok held h = (\<lambda>None \<Rightarrow> ho_reqs_in_dam h = []
     | Some dam \<Rightarrow> mem_ok (rd_memory (da_ram dam)) \<and> rd_front_ok (da_ram dam) \<and>
         keys (ho_reqs_in_dam h) = rd_queued (da_ram dam) + held (rd_memory (da_ram dam)))"

lemma books_ok_cong: "ho_books h' = ho_books h \<Longrightarrow> g_books g' = g_books g \<Longrightarrow> books_ok N g' h' = books_ok N g h"
  by (simp add: books_ok_def ho_books_def g_books_def ho_ids_def)

lemma dam_ok_cong: "ho_books h' = ho_books h \<Longrightarrow> dam_ok mem_ok held h' = dam_ok mem_ok held h"
  by (rule ext) (simp add: dam_ok_def ho_books_def split: option.splits)

lemma unat_msg: "unat (msg_count g) < 2 ^ 64"
  using unsigned_less [where 'a = nat, of "msg_count g"] by simp

text \<open>Completing requests: the ids leave and the counter grows by as many.\<close>

lemma books_complete:
  assumes "books_ok N g h" "ho_ids h = ho_ids h' + M" "num_reqs_completed g' = num_reqs_completed g + of_nat (size M)"
    and "msg_count g' = msg_count g" "ho_trace_in h' = ho_trace_in h"
    and "sm_ok (ho_messages_sent_to_device h')" "sm_ok (ho_reqs_in_dam h')"
  shows "books_ok N g' h'"
proof -
  have l: "ledger (unat (msg_count g)) (unat (num_reqs_completed g)) (ho_ids h' + M)" "N < 2 ^ 64"
    using assms(1,2) by (simp_all add: books_ok_def)
  then have "unat (num_reqs_completed g) + size M < 2 ^ 64" using unat_msg [of g] by (simp add: ledger_def)
  then have "unat (num_reqs_completed g') = unat (num_reqs_completed g) + size M"
    unfolding assms(3) by (simp add: unat_word_ariths unsigned_of_nat take_bit_eq_mod)
  then show ?thesis using ledger_retire [OF l(1)] assms by (simp add: books_ok_def)
qed

lemma check_rx_vc_cases:
  assumes "ho_check_rx_vc p g v h = Inr (b, g', h')"
  shows "(g' = g \<and> h' = h) \<or> (\<exists>k. k \<in># keys (ho_messages_sent_to_device h) \<and>
    ho_books h' = (ho_trace_in h, ho_text_to_trace_buf h, sm_erase k (ho_messages_sent_to_device h), ho_reqs_in_dam h) \<and>
    g_books g' = (msg_count g, num_reqs_completed g + 1))"
proof -
  have l: "ho_books (ho_record_latency m h) = ho_books h" for m
    by (simp add: ho_books_def ho_record_latency_def Let_def split: prod.splits)
  have "(g' = g \<and> h' = h) \<or> (let k = msg_id (hd (buf_q (ho_rx_buf v h))) in sm_find (ho_messages_sent_to_device h) k \<noteq> None \<and>
    ho_books h' = (ho_trace_in h, ho_text_to_trace_buf h, sm_erase k (ho_messages_sent_to_device h), ho_reqs_in_dam h) \<and>
    g_books g' = (msg_count g, num_reqs_completed g + 1))"
    using assms l by (cases v) (auto simp: ho_check_rx_vc_def Let_def ho_books_def g_books_def split: if_splits opcode.splits)
  then show ?thesis unfolding keys_iff Let_def by blast
qed

lemma books_check_rx_vc:
  assumes "ho_check_rx_vc p g v h = Inr (b, g', h')" "books_ok N g h"
  shows "books_ok N g' h' \<and> ho_reqs_in_dam h' = ho_reqs_in_dam h"
  using check_rx_vc_cases [OF assms(1)]
proof (elim disjE exE conjE)
  fix k
  assume k: "k \<in># keys (ho_messages_sent_to_device h)"
    "ho_books h' = (ho_trace_in h, ho_text_to_trace_buf h, sm_erase k (ho_messages_sent_to_device h), ho_reqs_in_dam h)"
    "g_books g' = (msg_count g, num_reqs_completed g + 1)"
  have "keys (ho_messages_sent_to_device h) = add_mset k (keys (ho_messages_sent_to_device h'))"
    using keys_erase [OF _ k(1)] assms(2) k(2) by (simp add: books_ok_def ho_books_def)
  then have "ho_ids h = ho_ids h' + {#k#}" using k(2) by (simp add: ho_ids_def ho_books_def)
  then have "books_ok N g' h'"
    by (rule books_complete [OF assms(2)]) (use k assms(2) in \<open>simp_all add: ho_books_def g_books_def books_ok_def\<close>)
  then show ?thesis using k(2) by (simp add: ho_books_def)
qed (use assms in simp)

lemma books_first_of:
  assumes "ho_first_of p g q1 q2 h = Inr (a, g', h')" "books_ok N g h"
  shows "books_ok N g' h' \<and> ho_reqs_in_dam h' = ho_reqs_in_dam h"
proof -
  have c: "books_ok N g (h\<lparr>ho_rcvd_rsp_state := s\<rparr>) = books_ok N g h" for g h s
    by (rule books_ok_cong) (simp_all add: ho_books_def)
  show ?thesis using assms
    by (cases q1; cases q2) (auto simp: ho_first_of_def c split: if_splits dest!: books_check_rx_vc)
qed

lemma books_retire:
  assumes "check_if_req_completed p g h = Inr (a, g', h')" "books_ok N g h"
  shows "books_ok N g' h' \<and> ho_reqs_in_dam h' = ho_reqs_in_dam h"
  using assms by (auto simp: check_if_req_completed_def split: if_splits round_robin_state.splits dest: books_first_of)

section \<open>The direct-attached memory\<close>

lemma dam_complete_books:
  assumes "fold direct_attached_req_complete rs (g, h) = (g', h')" "sm_ok (ho_reqs_in_dam h)"
    and "keys (ho_reqs_in_dam h) = X + mset (map req_id rs)"
  shows "sm_ok (ho_reqs_in_dam h') \<and> keys (ho_reqs_in_dam h') = X \<and> ho_trace_in h' = ho_trace_in h \<and>
    ho_text_to_trace_buf h' = ho_text_to_trace_buf h \<and> ho_messages_sent_to_device h' = ho_messages_sent_to_device h \<and>
    msg_count g' = msg_count g \<and> num_reqs_completed g' = num_reqs_completed g + of_nat (length rs)"
  using assms
proof (induction rs arbitrary: g h)
  case (Cons r rs)
  obtain g1 h1 where 1: "direct_attached_req_complete r (g, h) = (g1, h1)" by fastforce
  have b: "ho_reqs_in_dam h1 = sm_erase (req_id r) (ho_reqs_in_dam h)" "ho_trace_in h1 = ho_trace_in h"
    "ho_text_to_trace_buf h1 = ho_text_to_trace_buf h" "ho_messages_sent_to_device h1 = ho_messages_sent_to_device h"
    "msg_count g1 = msg_count g" "num_reqs_completed g1 = num_reqs_completed g + 1"
    using 1 by (auto simp: direct_attached_req_complete_def Let_def split: prod.splits)
  have "keys (ho_reqs_in_dam h) = add_mset (req_id r) (keys (ho_reqs_in_dam h1))"
    unfolding b(1) by (rule keys_erase) (use Cons.prems in simp_all)
  then have "keys (ho_reqs_in_dam h1) = X + mset (map req_id rs)" using Cons.prems(3) by simp
  from Cons.IH [OF _ _ this, of g1] show ?case using Cons.prems(1,2) 1 b by simp
qed simp

context conserving_memory
begin

lemma fetch_queued:
  assumes "rd_front_ok ram"
  shows "let ram' = da_fetch ram in rd_memory ram' = rd_memory ram \<and> ds_status (rd_state ram') \<noteq> END \<and>
    (ds_status (rd_state ram') = EMPTY \<longrightarrow> rd_front_ok ram' \<and> rd_queued ram = rd_queued ram') \<and>
    (ds_status (rd_state ram') = VALID \<longrightarrow> (rd_type ram' = READ \<or> rd_type ram' = WRITE) \<and>
       list_all (\<lambda>r. rr_status r = VALID \<and> (rr_type r = READ \<or> rr_type r = WRITE)) (ib_buf (rd_inp_buf ram')) \<and>
       rd_queued ram = add_mset (rd_req_id ram') (image_mset rr_req_id (mset (ib_buf (rd_inp_buf ram')))))"
  using assms by (cases "ib_buf (rd_inp_buf ram)")
    (auto simp: da_fetch_def Let_def rd_front_ok_def get_dramtrace_request_def isEmpty_def rd_queued_def rd_stalled_def)

lemma offer_queued:
  assumes "rd_front_ok ram" "mem_ok (rd_memory ram)" "da_offer ops (da_fetch ram) = Inr ram'"
  shows "mem_ok (rd_memory ram') \<and> rd_front_ok ram' \<and>
    rd_queued ram' + held (rd_memory ram') = rd_queued ram + held (rd_memory ram)"
proof -
  define r where "r = da_fetch ram"
  have f: "rd_memory r = rd_memory ram" "ds_status (rd_state r) \<noteq> END"
    "ds_status (rd_state r) = EMPTY \<Longrightarrow> rd_front_ok r \<and> rd_queued ram = rd_queued r"
    "ds_status (rd_state r) = VALID \<Longrightarrow> (rd_type r = READ \<or> rd_type r = WRITE) \<and>
       list_all (\<lambda>r. rr_status r = VALID \<and> (rr_type r = READ \<or> rr_type r = WRITE)) (ib_buf (rd_inp_buf r)) \<and>
       rd_queued ram = add_mset (rd_req_id r) (image_mset rr_req_id (mset (ib_buf (rd_inp_buf r))))"
    using fetch_queued [OF assms(1)] by (simp_all add: Let_def r_def)
  show ?thesis
  proof (cases "ds_status (rd_state r)")
    case VALID
    let ?q = "Request_new (rd_addr r) (rd_type r) (rd_req_id r)"
    obtain x where s: "mem_send ops (rd_memory r) ?q = Inr x"
      using assms(3) VALID unfolding r_def [symmetric] by (auto simp: da_offer_def Let_def)
    obtain mem ok where x: "x = (mem, ok)" by (cases x)
    have ram': "ram' = r\<lparr>rd_memory := mem, rd_state := rd_state ram'\<rparr>" "ds_stall (rd_state ram') = (\<not> ok)"
      "ds_status (rd_state ram') = VALID"
      using assms(3) VALID s unfolding x r_def [symmetric] by (auto simp: da_offer_def Let_def split: Request_Type.splits)
    have st: "rd_memory ram' = mem" "rd_type ram' = rd_type r" "rd_req_id ram' = rd_req_id r" "rd_inp_buf ram' = rd_inp_buf r"
      by (subst ram'(1), simp)+
    have "mem_ok mem \<and> held mem = held (rd_memory r) + (if ok then {#rd_req_id r#} else {#})"
      using send_held [OF _ _ s [unfolded x]] assms(2) f(1,4) VALID by (simp add: access_request_def Request_new_def)
    then show ?thesis using f(1) f(4) [OF VALID] st ram'(2,3)
      by (cases ok) (simp_all add: rd_front_ok_def rd_queued_def rd_stalled_def)
  next
    case EMPTY
    then show ?thesis using assms f by (auto simp: da_offer_def Let_def r_def [symmetric])
  qed (use f(2) in simp)
qed

lemma dam_books:
  assumes "DirectAttached_update ops g h dam = Inr (b, g', h', dam')"
    and "books_ok N g h" "dam_ok mem_ok held h (Some dam)"
  shows "books_ok N g' h' \<and> dam_ok mem_ok held h' (Some dam')"
proof (cases "b")
  case True
  then show ?thesis using assms by (auto simp: DirectAttached_update_def Let_def case_prod_beta split: if_splits)
next
  case False
  let ?u = "\<lambda>ram mem. ram\<lparr>rd_memory := mem, rd_state := (rd_state ram)\<lparr>ds_clks := ds_clks (rd_state ram) + 1\<rparr>\<rparr>"
  have "\<exists>ram x. da_offer ops (da_fetch (da_ram dam)) = Inr ram \<and> mem_tick ops (rd_memory ram) = Inr x \<and>
      fold direct_attached_req_complete (snd x) (g, h) = (g', h') \<and> dam' = dam\<lparr>da_ram := ?u ram (fst x)\<rparr>"
    using assms(1) False by (fastforce simp: DirectAttached_update_def Let_def case_prod_beta split: if_splits)
  then obtain ram mem rs where o: "da_offer ops (da_fetch (da_ram dam)) = Inr ram" and t: "mem_tick ops (rd_memory ram) = Inr (mem, rs)"
    and c: "fold direct_attached_req_complete rs (g, h) = (g', h')" and dam': "da_ram dam' = ?u ram mem"
    by (metis DirectAttached.select_convs(2) DirectAttached.surjective DirectAttached.update_convs(2) prod.collapse)
  have d: "mem_ok (rd_memory (da_ram dam))" "rd_front_ok (da_ram dam)"
    "keys (ho_reqs_in_dam h) = rd_queued (da_ram dam) + held (rd_memory (da_ram dam))"
    using assms(3) by (simp_all add: dam_ok_def)
  have r: "mem_ok (rd_memory ram)" "rd_front_ok ram" "keys (ho_reqs_in_dam h) = rd_queued ram + held (rd_memory ram)"
    using offer_queued [OF d(2,1) o] d(3) by simp_all
  have m: "mem_ok mem" "held (rd_memory ram) = held mem + mset (map req_id rs)" using tick_held [OF r(1) t] by simp_all
  have "keys (ho_reqs_in_dam h) = (rd_queued ram + held mem) + mset (map req_id rs)" using r(3) m(2) by simp
  note e = dam_complete_books [OF c _ this]
  have ok: "sm_ok (ho_reqs_in_dam h)" "sm_ok (ho_messages_sent_to_device h)" using assms(2) by (simp_all add: books_ok_def)
  have "dam_ok mem_ok held h' (Some dam')"
    using e [OF ok(1)] r(2) m(1) by (simp add: dam_ok_def dam' rd_front_ok_def rd_queued_def rd_stalled_def)
  moreover have "ho_ids h = ho_ids h' + mset (map req_id rs)"
    using e [OF ok(1)] r(3) m(2) by (simp add: ho_ids_def)
  then have "books_ok N g' h'"
    by (rule books_complete [OF assms(2)]) (use e [OF ok(1)] ok in simp_all)
  ultimately show ?thesis by simp
qed

end

end
