(* ===== verification/CXL_Completion.thy ===== *)
theory CXL_Completion
  imports CXL_Ledger CXL_Bus_Timing
begin

text \<open>
  The ledger is kept by the trace reader, by the tick of the host, by the tick of the system and
  by the main loop.  So when \<^verbatim>\<open>main\<close> leaves its loop, every line of the trace has been completed once.
\<close>

section \<open>The trace reader\<close>

definition world_ok :: "('m \<Rightarrow> bool) \<Rightarrow> ('m \<Rightarrow> u64 multiset) \<Rightarrow> nat \<Rightarrow> 'm host_world \<Rightarrow> bool" where
  "world_ok mem_ok held N w \<longleftrightarrow> books_ok N (hw_g w) (hw_host w) \<and> dam_ok mem_ok held (hw_host w) (hw_dam w) \<and> hw_dam w \<noteq> None"

lemma books_move:
  assumes "books_ok N g h" "ho_ids h' = ho_ids h" "ho_trace_in h' = ho_trace_in h" "g_books g' = g_books g"
    and "sm_ok (ho_messages_sent_to_device h')" "sm_ok (ho_reqs_in_dam h')"
  shows "books_ok N g' h'"
  using books_complete [OF assms(1), of h' "{#}" g'] assms by (simp add: g_books_def)

lemma waiting_id:
  assumes "\<not> is_buf_empty (ho_text_to_trace_buf h)" "snd (hd (buf_q (ho_text_to_trace_buf h))) = t"
  shows "image_mset (\<lambda>x. msg_id (snd x)) (mset (buf_q (ho_text_to_trace_buf h))) =
    add_mset (msg_id t) (image_mset (\<lambda>x. msg_id (snd x)) (mset (tl (buf_q (ho_text_to_trace_buf h)))))"
  using assms by (cases "buf_q (ho_text_to_trace_buf h)") (auto simp: is_buf_empty_def)

lemma waiting_fresh:
  assumes "books_ok N g h" "\<not> is_buf_empty (ho_text_to_trace_buf h)" "snd (hd (buf_q (ho_text_to_trace_buf h))) = t"
  shows "msg_id t \<notin># keys (ho_messages_sent_to_device h)" "msg_id t \<notin># keys (ho_reqs_in_dam h)"
proof -
  have "ledger (unat (msg_count g)) (unat (num_reqs_completed g)) (add_mset (msg_id t)
      (image_mset (\<lambda>x. msg_id (snd x)) (mset (tl (buf_q (ho_text_to_trace_buf h)))) +
       keys (ho_messages_sent_to_device h) + keys (ho_reqs_in_dam h)))"
    using assms(1) by (simp add: books_ok_def ho_ids_def waiting_id [OF assms(2,3)])
  from ledger_fresh [OF this] show "msg_id t \<notin># keys (ho_messages_sent_to_device h)" "msg_id t \<notin># keys (ho_reqs_in_dam h)"
    by simp_all
qed

lemma books_issue_dam:
  assumes "issue_to_dam g t h dam = Inr (h', dam')" "snd (hd (buf_q (ho_text_to_trace_buf h))) = t"
    and "books_ok N g h" "dam_ok mem_ok held h (Some dam)"
  shows "books_ok N g h' \<and> dam_ok mem_ok held h' (Some dam')"
proof (cases "isFull (rd_inp_buf (da_ram dam))")
  case True
  then show ?thesis using assms by (simp add: issue_to_dam_def Let_def)
next
  case False
  then obtain req q where req: "message2ramulator_req t = Inr req" and ne: "\<not> is_buf_empty (ho_text_to_trace_buf h)"
    and h': "h' = h\<lparr>ho_reqs_in_dam := sm_insert (rr_req_id req) (curr_tick g) (ho_reqs_in_dam h),
       ho_text_to_trace_buf := (ho_text_to_trace_buf h)\<lparr>buf_q := tl (buf_q (ho_text_to_trace_buf h))\<rparr>\<rparr>"
    and dam': "dam' = dam\<lparr>da_ram := (da_ram dam)\<lparr>rd_inp_buf := (rd_inp_buf (da_ram dam))\<lparr>ib_buf := ib_buf (rd_inp_buf (da_ram dam)) @ [req]\<rparr>\<rparr>\<rparr>"
    using assms(1) by (auto simp: issue_to_dam_def Let_def)
  have r: "rr_req_id req = msg_id t" "rr_status req = VALID" "rr_type req = READ \<or> rr_type req = WRITE"
    using req by (auto simp: message2ramulator_req_def)
  note k = keys_insert [OF waiting_fresh(2) [OF assms(3) ne assms(2)]]
  have "books_ok N g h'"
    by (rule books_move [OF assms(3)])
      (use assms(3) in \<open>simp_all add: h' r ho_ids_def k waiting_id [OF ne assms(2)] books_ok_def sm_ok_insert\<close>)
  moreover have "dam_ok mem_ok held h' (Some dam')"
    using assms(4) r by (auto simp: dam_ok_def h' dam' k rd_front_ok_def rd_queued_def rd_stalled_def)
  ultimately show ?thesis by simp
qed

lemma books_issue_vc:
  assumes "issue_to_vc u g t h = Inr (ok, h')" "snd (hd (buf_q (ho_text_to_trace_buf h))) = t" "books_ok N g h"
  shows "books_ok N g h' \<and> ho_reqs_in_dam h' = ho_reqs_in_dam h"
proof -
  let ?m = "\<lambda>b. t\<lparr>m_time := (m_time t)\<lparr>tick_created := curr_tick g, read_write := b\<rparr>\<rparr>"
  define issued where "issued m \<longleftrightarrow> \<not> is_buf_empty (ho_text_to_trace_buf h) \<and>
     ho_books h' = (ho_trace_in h, (ho_text_to_trace_buf h)\<lparr>buf_q := tl (buf_q (ho_text_to_trace_buf h))\<rparr>,
       sm_insert (msg_id m) m (ho_messages_sent_to_device h), ho_reqs_in_dam h)" for m
  have "h' = h \<or> issued (?m False) \<or> issued (?m True)"
    using assms(1) unfolding issue_to_vc_def Let_def message_copy_eq issued_def
    by (cases "opCode t") (auto simp: ho_books_def split: if_splits)
  then have "h' = h \<or> (\<exists>m. msg_id m = msg_id t \<and> issued m)" by fastforce
  then show ?thesis unfolding issued_def
  proof (elim disjE exE conjE)
    fix m
    assume m: "msg_id m = msg_id t" "\<not> is_buf_empty (ho_text_to_trace_buf h)"
      "ho_books h' = (ho_trace_in h, (ho_text_to_trace_buf h)\<lparr>buf_q := tl (buf_q (ho_text_to_trace_buf h))\<rparr>,
         sm_insert (msg_id m) m (ho_messages_sent_to_device h), ho_reqs_in_dam h)"
    note k = keys_insert [OF waiting_fresh(1) [OF assms(3) m(2) assms(2)]]
    have "books_ok N g h'"
      by (rule books_move [OF assms(3)])
        (use m assms(3) in \<open>simp_all add: ho_books_def ho_ids_def k waiting_id [OF m(2) assms(2)] books_ok_def sm_ok_insert\<close>)
    then show ?thesis using m(3) by (simp add: ho_books_def)
  qed (use assms in simp)
qed

lemma books_issue:
  assumes "issue_request p u w = Inr (ok, w')" "world_ok mem_ok held N w"
  shows "world_ok mem_ok held N w'"
proof (cases "issue_due p (hw_g w) (hw_host w)")
  case True
  let ?t = "snd (hd (buf_q (ho_text_to_trace_buf (hw_host w))))"
  let ?h = "(hw_host w)\<lparr>ho_last_text_to_trace_buf_dequeue := curr_tick (hw_g w)\<rparr>"
  let ?d = "if address ?t \<ge> fst (ho_DAM_addr ?h) \<and> address ?t < snd (ho_DAM_addr ?h) then hw_dam w else None"
  have same: "books_ok N g ?h = books_ok N g (hw_host w)" "dam_ok mem_ok held ?h = dam_ok mem_ok held (hw_host w)" for g
    by (rule books_ok_cong dam_ok_cong, simp_all add: ho_books_def)+
  show ?thesis
  proof (cases ?d)
    case None
    then obtain h' where h': "issue_to_vc u (hw_g w) ?t ?h = Inr (ok, h')" "w' = w\<lparr>hw_host := h'\<rparr>"
      using assms(1) True by (auto simp: issue_request_def Let_def case_prod_beta)
    show ?thesis using books_issue_vc [OF h'(1), of N] assms(2) same h'(2)
      by (auto simp: world_ok_def dam_ok_def split: option.splits)
  next
    case (Some dam)
    then have "hw_dam w = Some dam" by (simp split: if_splits)
    moreover obtain x where x: "issue_to_dam (hw_g w) ?t ?h dam = Inr x" "w' = w\<lparr>hw_host := fst x, hw_dam := Some (snd x)\<rparr>"
      using assms(1) True Some by (auto simp: issue_request_def Let_def case_prod_beta)
    ultimately show ?thesis using books_issue_dam [of "hw_g w" ?t ?h dam "fst x" "snd x" N mem_ok held] assms(2) same
      by (simp add: world_ok_def)
  qed
qed (use assms in \<open>simp add: issue_request_def Let_def\<close>)

lemma books_read_line:
  assumes "read_line u g h = Inr (go, g', h')" "books_ok N g h"
  shows "books_ok N g' h' \<and> ho_reqs_in_dam h' = ho_reqs_in_dam h"
proof (cases "is_buf_full (ho_text_to_trace_buf h)")
  case False
  show ?thesis
  proof (cases "ho_trace_in h")
    case (Cons s ls)
    from assms(1) False Cons obtain x where x: "parse_line s = Inr x" by (auto simp: read_line_def)
    obtain a oc c where abc: "x = (a, oc, c)" by (cases x)
    define m where "m = fst (message_new u g oc a)"
    have "g' = snd (message_new u g oc a)"
      and h': "h' = h\<lparr>ho_trace_in := ls, ho_text_to_trace_buf := (ho_text_to_trace_buf h)\<lparr>buf_q := buf_q (ho_text_to_trace_buf h) @ [(c, m)]\<rparr>\<rparr>"
      using assms(1) False by (simp_all add: read_line_def Cons x abc m_def Let_def case_prod_beta)
    then have g': "msg_count g' = msg_count g + 1" "num_reqs_completed g' = num_reqs_completed g" and m: "msg_id m = msg_count g"
      by (simp_all add: message_new_def m_def Let_def)
    have "ho_ids h' = add_mset (msg_count g) (ho_ids h)" by (simp add: ho_ids_def h' m)
    moreover have "unat (msg_count g) + length (ho_trace_in h) < 2 ^ 64" using assms(2) by (simp add: books_ok_def)
    then have "unat (msg_count g + 1) = Suc (unat (msg_count g))" using Cons
      by (simp add: unat_word_ariths take_bit_eq_mod)
    ultimately show ?thesis using assms(2) Cons g' h' by (simp add: books_ok_def ledger_mint)
  qed (use assms False in \<open>simp add: read_line_def\<close>)
qed (use assms in \<open>simp add: read_line_def\<close>)

lemma world_ok_simps [simp]:
  "world_ok mem_ok held N (w\<lparr>hw_devs := ds\<rparr>) = world_ok mem_ok held N w"
  "world_ok mem_ok held N (w\<lparr>hw_g := (hw_g w)\<lparr>curr_tick := t\<rparr>\<rparr>) = world_ok mem_ok held N w"
  "world_ok mem_ok held N (w\<lparr>hw_host := (hw_host w)\<lparr>ho_is_trace_finished := b\<rparr>\<rparr>) = world_ok mem_ok held N w"
proof -
  have "books_ok N (g\<lparr>curr_tick := t\<rparr>) h = books_ok N g h" for g h by (rule books_ok_cong) (simp_all add: g_books_def)
  moreover have "books_ok N g (h\<lparr>ho_is_trace_finished := b\<rparr>) = books_ok N g h" for g h by (rule books_ok_cong) (simp_all add: ho_books_def)
  moreover have "dam_ok mem_ok held (h\<lparr>ho_is_trace_finished := b\<rparr>) = dam_ok mem_ok held h" for h by (rule dam_ok_cong) (simp add: ho_books_def)
  ultimately show "world_ok mem_ok held N (w\<lparr>hw_devs := ds\<rparr>) = world_ok mem_ok held N w"
    "world_ok mem_ok held N (w\<lparr>hw_g := (hw_g w)\<lparr>curr_tick := t\<rparr>\<rparr>) = world_ok mem_ok held N w"
    "world_ok mem_ok held N (w\<lparr>hw_host := (hw_host w)\<lparr>ho_is_trace_finished := b\<rparr>\<rparr>) = world_ok mem_ok held N w"
    by (simp_all add: world_ok_def)
qed

lemma world_ok_host:
  "world_ok mem_ok held N w \<Longrightarrow> books_ok N g h \<Longrightarrow> ho_reqs_in_dam h = ho_reqs_in_dam (hw_host w) \<Longrightarrow>
     world_ok mem_ok held N (w\<lparr>hw_g := g, hw_host := h\<rparr>)"
  by (auto simp: world_ok_def dam_ok_def split: option.splits)

text \<open>The parts of the tick of a host.\<close>

lemma books_counters [simp]:
  "ho_books (h\<lparr>ho_empty_cycle_packer := n\<rparr>) = ho_books h" "ho_books (h\<lparr>ho_empty_cycle_transmit := n\<rparr>) = ho_books h"
  "ho_books (h\<lparr>ho_empty_cycle_unpacker := n\<rparr>) = ho_books h" "ho_books (h\<lparr>ho_empty_cycle_req_completed := n\<rparr>) = ho_books h"
  "ho_books (h\<lparr>ho_skippable_cycle := n\<rparr>) = ho_books h"
  by (simp_all add: ho_books_def)

lemma stage_pack_books: "ho_stage_pack p u skip g h = Inr (r, a, g', h') \<Longrightarrow> ho_books h' = ho_books h \<and> g_books g' = g_books g"
  by (auto simp: ho_stage_pack_def Let_def split: if_splits dest!: books_packer)

lemma stage_transmit_books: "ho_stage_transmit p u skip g h b = Inr (r, a, h', b') \<Longrightarrow> ho_books h' = ho_books h"
  by (auto simp: ho_stage_transmit_def Let_def split: if_splits dest!: books_transmit)

lemma stage_unpack_books: "ho_stage_unpack p skip g h = Inr (r, a, h') \<Longrightarrow> ho_books h' = ho_books h"
  by (auto simp: ho_stage_unpack_def Let_def split: if_splits dest!: books_unpacker)

lemma stage_retire_books:
  assumes "ho_stage_retire p skip g h = Inr (r, a, g', h')" "books_ok N g h"
  shows "books_ok N g' h' \<and> ho_reqs_in_dam h' = ho_reqs_in_dam h"
proof -
  have "books_ok N g (h\<lparr>ho_empty_cycle_req_completed := n\<rparr>) = books_ok N g h" for g h n by (rule books_ok_cong) simp_all
  then show ?thesis using assms by (auto simp: ho_stage_retire_def Let_def split: if_splits dest!: books_retire)
qed

lemma end_tick_books: "ho_end_tick skip x1 x2 x3 x4 h = Inr h' \<Longrightarrow> ho_books h' = ho_books h"
  by (auto simp: ho_end_tick_def Let_def)

lemma host_stages_books:
  assumes "ho_stage_pack p u skip g h = Inr (r1, a1, g1, h1)" "ho_stage_transmit p u skip g1 h1 b = Inr (r2, a2, h2, b2)"
    "ho_stage_unpack p skip g1 h2 = Inr (r3, a3, h3)" "ho_stage_retire p skip g1 h3 = Inr (r4, a4, g4, h4)"
    "ho_end_tick skip (r1, a1) (r2, a2) (r3, a3) (r4, a4) h4 = Inr h5" "books_ok N g h"
  shows "books_ok N g4 h5 \<and> ho_reqs_in_dam h5 = ho_reqs_in_dam h"
proof -
  have b: "ho_books h3 = ho_books h" "g_books g1 = g_books g"
    using stage_pack_books [OF assms(1)] stage_transmit_books [OF assms(2)] stage_unpack_books [OF assms(3)] by simp_all
  then have "books_ok N g1 h3" using assms(6) books_ok_cong by blast
  then have "books_ok N g4 h4" "ho_reqs_in_dam h4 = ho_reqs_in_dam h3" using stage_retire_books [OF assms(4)] by simp_all
  moreover have "ho_books h5 = ho_books h4" by (rule end_tick_books [OF assms(5)])
  moreover from this have "books_ok N g4 h5 = books_ok N g4 h4" by (rule books_ok_cong) simp
  ultimately show ?thesis using b(1) by (simp add: ho_books_def)
qed

context conserving_memory
begin

lemma dam_update_ok: "dam_update ops w = Inr w' \<Longrightarrow> world_ok mem_ok held N w \<Longrightarrow> world_ok mem_ok held N w'"
  by (auto simp: dam_update_def world_ok_def split: option.splits dest!: dam_books)

lemma catch_up_ok: "catch_up ops is w = Inr w' \<Longrightarrow> world_ok mem_ok held N w \<Longrightarrow> world_ok mem_ok held N w'"
  by (induction "is" arbitrary: w) (auto split: if_splits dest: dam_update_ok)

lemma skip_idle_ok: "skip_idle p ops w = Inr w' \<Longrightarrow> world_ok mem_ok held N w \<Longrightarrow> world_ok mem_ok held N w'"
  by (auto simp: skip_idle_def Let_def split: if_splits prod.splits dest!: catch_up_ok)

lemma text_to_trace_ok:
  assumes "text_to_trace p u ops w = Inr (go, w')" "world_ok mem_ok held N w"
  shows "world_ok mem_ok held N w'"
proof -
  from assms(1) obtain w1 ok w2 where w: "skip_idle p ops w = Inr w1" "issue_request p u w1 = Inr (ok, w2)"
    and r: "w' = w2 \<or> (\<exists>x. read_line u (hw_g w2) (hw_host w2) = Inr (go, x) \<and> w' = w2\<lparr>hw_g := fst x, hw_host := snd x\<rparr>)"
    by (fastforce simp: text_to_trace_def split: if_splits)
  have w2: "world_ok mem_ok held N w2" by (rule books_issue [OF w(2) skip_idle_ok [OF w(1) assms(2)]])
  show ?thesis using r
  proof (elim disjE exE conjE)
    fix x assume x: "read_line u (hw_g w2) (hw_host w2) = Inr (go, x)" "w' = w2\<lparr>hw_g := fst x, hw_host := snd x\<rparr>"
    have "books_ok N (fst x) (snd x) \<and> ho_reqs_in_dam (snd x) = ho_reqs_in_dam (hw_host w2)"
      using books_read_line [of u "hw_g w2" "hw_host w2" go "fst x" "snd x" N] x(1) w2 by (simp add: world_ok_def)
    then show ?thesis using world_ok_host [OF w2] x(2) by simp
  qed (use w2 in simp)
qed

lemma host_update_ok:
  assumes "CXLHost_update p u ops skip w b = Inr (w', b')" "world_ok mem_ok held N w"
  shows "world_ok mem_ok held N w'"
proof -
  have trace: "world_ok mem_ok held N w1" if "ho_get_trace p u ops w = Inr w1" for w1
  proof (cases "\<not> ho_is_trace_finished (hw_host w) \<or> \<not> is_buf_empty (ho_text_to_trace_buf (hw_host w))")
    case True
    then have "bind_r (text_to_trace p u ops w) (\<lambda>(more, w).
        Inr (if more then w else w\<lparr>hw_host := (hw_host w)\<lparr>ho_is_trace_finished := True\<rparr>\<rparr>)) = Inr w1"
      using that by (simp only: ho_get_trace_def if_True)
    then show ?thesis
    proof (elim bind_r_tupled)
      fix go w2
      assume w2: "text_to_trace p u ops w = Inr (go, w2)"
        "Inr (if go then w2 else w2\<lparr>hw_host := (hw_host w2)\<lparr>ho_is_trace_finished := True\<rparr>\<rparr>) = Inr w1"
      show ?thesis using text_to_trace_ok [OF w2(1) assms(2)] w2(2) by (cases go) auto
    qed
  qed (use that assms(2) in \<open>simp add: ho_get_trace_def\<close>)
  from assms(1) show ?thesis unfolding CXLHost_update_def
  proof (elim bind_r_tupled bind_r_returns cxl_assert_returns)
    fix w1 r1 a1 g1 h1 r2 a2 h2 b2 r3 a3 h3 r4 a4 g4 h4 h5
    assume s: "ho_get_trace p u ops w = Inr w1" "length (ho_ext_creds (hw_host w1)) = length (ho_connected_devices (hw_host w1))"
      "ho_stage_pack p u skip (hw_g w1) (hw_host w1) = Inr (r1, a1, g1, h1)" "ho_stage_transmit p u skip g1 h1 b = Inr (r2, a2, h2, b2)"
      "ho_stage_unpack p skip g1 h2 = Inr (r3, a3, h3)" "ho_stage_retire p skip g1 h3 = Inr (r4, a4, g4, h4)"
      "ho_end_tick skip (r1, a1) (r2, a2) (r3, a3) (r4, a4) h4 = Inr h5" "Inr (w1\<lparr>hw_g := g4, hw_host := h5\<rparr>, b2) = Inr (w', b')"
    have w1: "world_ok mem_ok held N w1" by (rule trace [OF s(1)])
    then have "books_ok N g4 h5 \<and> ho_reqs_in_dam h5 = ho_reqs_in_dam (hw_host w1)"
      using host_stages_books [OF s(3-7), of N] by (simp add: world_ok_def)
    then show "world_ok mem_ok held N w'" using world_ok_host [OF w1] s(8) by auto
  qed
qed

end

section \<open>The tick of the system\<close>

text \<open>A device counts flits only.\<close>

lemma dv_more_books: "post (dv_pack_more p g d) (\<lambda>(a, g', d'). g_books g' = g_books g)"
  unfolding dv_pack_more_def Let_def post_bind cxl_assert_def by (rule post_all) simp

lemma dv_add_books: "post (dv_add_flit_to_buf g d) (\<lambda>(g', d'). g_books g' = g_books g)"
  unfolding dv_add_flit_to_buf_def Let_def cxl_assert_def by (auto simp: post_bind g_books_def case_prod_beta intro!: post_I)

lemma dv_add_then_books:
  "post (bind_r (dv_add_flit_to_buf g d) (\<lambda>(g, d). Inr (True, g, d\<lparr>dv_is_packer_waiting := False\<rparr>))) (\<lambda>(a, g', d'). g_books g' = g_books g)"
  unfolding post_bind by (rule post_mono [OF dv_add_books]) auto

lemma dv_packer_books: "post (dv_FLIT_packer p u g d) (\<lambda>(a, g', d'). g_books g' = g_books g)"
proof -
  let ?P = "\<lambda>(a, g', d'). g_books g' = g_books g"
  have send: "post (dv_send_waiting g d) ?P" for d
    unfolding dv_send_waiting_def using dv_add_then_books [of g d] by simp
  have roll: "post (bind_r (dv_place_rollover d) (\<lambda>d'. if c then if is_buf_full (dv_tx_buffer d')
       then Inr (True, g, d'\<lparr>dv_is_packer_waiting := True\<rparr>)
       else bind_r (dv_add_flit_to_buf g d') (\<lambda>(g, d'). Inr (True, g, d'\<lparr>dv_is_packer_waiting := False\<rparr>))
       else dv_pack_more p g d')) ?P" for d c
    unfolding post_bind [of "dv_place_rollover d"]
    by (rule post_all) (simp only: dv_more_books dv_add_then_books post_simps split: if_split, simp)
  show ?thesis unfolding dv_FLIT_packer_def Let_def cxl_assert_def
    by (simp only: send roll dv_more_books post_simps split: if_split, simp)
qed

lemma dv_update_books:
  assumes "CXLDevice_update p u ops skip g d b = Inr (g', d', b')"
  shows "g_books g' = g_books g"
proof -
  have "post (dv_stage_pack p u skip g d) (\<lambda>(r, a, g', d'). g_books g' = g_books g)"
    unfolding dv_stage_pack_def Let_def post_bind
    using dv_packer_books [of p u g d] by (auto simp: post_def)
  moreover obtain r a x y where "dv_stage_pack p u skip g d = Inr (r, a, g', x)"
    using assms unfolding CXLDevice_update_def by (elim bind_r_tupled bind_r_returns) blast
  ultimately show ?thesis using post_D by fastforce
qed

text \<open>One host with its direct-attached memory, and any devices.\<close>

definition sys_ok :: "('m \<Rightarrow> bool) \<Rightarrow> ('m \<Rightarrow> u64 multiset) \<Rightarrow> nat \<Rightarrow> 'm sys_state \<Rightarrow> bool" where
  "sys_ok mem_ok held N = (\<lambda>(g, sy). length (sy_hosts sy) = 1 \<and> length (sy_DAMs sy) = 1 \<and>
     books_ok N g (sy_hosts sy ! 0) \<and> dam_ok mem_ok held (sy_hosts sy ! 0) (Some (sy_DAMs sy ! 0)))"

definition same_books :: "'m sys_state \<Rightarrow> 'm sys_state \<Rightarrow> bool" where
  "same_books = (\<lambda>(g, sy) (g', sy'). g_books g' = g_books g \<and> sy_DAMs sy' = sy_DAMs sy \<and>
     map ho_books (sy_hosts sy') = map ho_books (sy_hosts sy))"

lemma sys_ok_same:
  assumes "sys_ok mem_ok held N st" "same_books st st'"
  shows "sys_ok mem_ok held N st'"
proof -
  obtain g sy g' sy' where st: "st = (g, sy)" "st' = (g', sy')" by (metis prod.collapse)
  have s: "g_books g' = g_books g" "sy_DAMs sy' = sy_DAMs sy" "map ho_books (sy_hosts sy') = map ho_books (sy_hosts sy)"
    using assms(2) by (simp_all add: same_books_def st)
  have l: "length (sy_hosts sy') = length (sy_hosts sy)" using s(3) by (rule map_eq_imp_length_eq)
  have n: "length (sy_hosts sy) = 1" using assms(1) by (simp add: sys_ok_def st)
  then have "ho_books (sy_hosts sy' ! 0) = ho_books (sy_hosts sy ! 0)" using arg_cong [OF s(3), of "\<lambda>xs. xs ! 0"] l by simp
  from dam_ok_cong [OF this, of mem_ok held] books_ok_cong [OF this s(1), of N] show ?thesis
    using assms(1) s(2) l by (simp add: sys_ok_def st)
qed

lemma same_books_steps:
  "sys_host_links p u i st = Inr st' \<Longrightarrow> same_books st st'"
  "sys_switch_update p u skip st = Inr st' \<Longrightarrow> same_books st st'"
  "sys_device_links p u nh i st = Inr st' \<Longrightarrow> same_books st st'"
  "sys_device_update p u ops skip nh i st = Inr st' \<Longrightarrow> same_books st st'"
proof -
  have rx: "map ho_books (hs[i := (hs ! i)\<lparr>ho_rx_buffer := rx\<rparr>]) = map ho_books hs" for hs rx
  proof (cases "i < length hs")
    case True
    then have "ho_books ((hs ! i)\<lparr>ho_rx_buffer := rx\<rparr>) = map ho_books hs ! i" by (simp add: ho_books_def)
    then show ?thesis by (simp add: map_update)
  qed (simp add: list_update_beyond)
  show "sys_host_links p u i st = Inr st' \<Longrightarrow> same_books st st'"
    by (cases st) (auto simp: same_books_def sys_host_links_def Let_def rx)
  show "sys_switch_update p u skip st = Inr st' \<Longrightarrow> same_books st st'"
    by (cases st) (auto simp: same_books_def sys_switch_update_def Let_def)
  show "sys_device_links p u nh i st = Inr st' \<Longrightarrow> same_books st st'"
    by (cases st) (auto simp: same_books_def sys_device_links_def Let_def)
  show "sys_device_update p u ops skip nh i st = Inr st' \<Longrightarrow> same_books st st'"
    by (cases st) (auto simp: same_books_def sys_device_update_def Let_def dest!: dv_update_books)
qed

lemma fold_same_books:
  "fold_r f xs st = Inr st' \<Longrightarrow> (\<And>x st st'. f x st = Inr st' \<Longrightarrow> same_books st st') \<Longrightarrow> sys_ok mem_ok held N st \<Longrightarrow>
     sys_ok mem_ok held N st'"
  by (rule fold_r_inv [where P = "sys_ok mem_ok held N"]) (auto intro: sys_ok_same)

context conserving_memory
begin

lemma sys_host_ok:
  assumes "sys_host_update p u ops skip 0 st = Inr st'" "sys_ok mem_ok held N st"
  shows "sys_ok mem_ok held N st'"
proof -
  obtain g sy where st: "st = (g, sy)" by (cases st)
  let ?w = "\<lparr>hw_g = g, hw_host = sy_hosts sy ! 0, hw_dam = Some (sy_DAMs sy ! 0), hw_devs = sy_devices sy\<rparr>"
  have n: "length (sy_hosts sy) = 1" "length (sy_DAMs sy) = 1" "world_ok mem_ok held N ?w"
    using assms(2) by (simp_all add: st sys_ok_def world_ok_def)
  moreover have "sy_DAMs sy \<noteq> []" using n(2) by auto
  ultimately obtain w b where w: "CXLHost_update p u ops skip ?w (snd (sy_interconnects sy ! 0)) = Inr (w, b)"
    and st': "fst st' = hw_g w" "sy_hosts (snd st') = (sy_hosts sy)[0 := hw_host w]"
      "sy_DAMs (snd st') = (case hw_dam w of None \<Rightarrow> sy_DAMs sy | Some dam \<Rightarrow> (sy_DAMs sy)[0 := dam])"
    using assms(1) by (auto simp: sys_host_update_def st Let_def)
  have "world_ok mem_ok held N w" by (rule host_update_ok [OF w n(3)])
  then show ?thesis using n st' by (cases st') (auto simp: sys_ok_def world_ok_def)
qed

lemma sys_dam_ok:
  assumes "sys_dam_update ops 0 st = Inr st'" "sys_ok mem_ok held N st"
  shows "sys_ok mem_ok held N st'"
  using assms by (cases st) (auto simp: sys_dam_update_def sys_ok_def dest!: dam_books)

lemma system_update_ok:
  assumes "CXLSystem_update p u ops skip st = Inr st'" "sys_ok mem_ok held N st"
  shows "sys_ok mem_ok held N st'"
proof -
  obtain g sy where st: "st = (g, sy)" by (cases st)
  have n: "[0 ..< length (sy_hosts sy)] = [0]" using assms(2) by (simp add: sys_ok_def st)
  from assms(1) show ?thesis unfolding CXLSystem_update_def st prod.case Let_def n
  proof (elim bind_r_returns)
    fix s1 s2 s3 s4 s5
    assume s: "fold_r (sys_host_links p u) [0] (g, sy) = Inr s1" "sys_switch_update p u skip s1 = Inr s2"
      "fold_r (sys_device_links p u (length (sy_hosts sy))) [length (sy_hosts sy) ..< length (sy_interconnects sy)] s2 = Inr s3"
      "fold_r (sys_device_update p u ops skip (length (sy_hosts sy))) [0 ..< length (sy_devices sy)] s3 = Inr s4"
      "fold_r (sys_host_update p u ops skip) [0] s4 = Inr s5"
      "(case s5 of (g, sy) \<Rightarrow> if curr_tick g mod delay_ramulator_update p = 0
          then fold_r (sys_dam_update ops) [0 ..< length (sy_DAMs sy)] (g, sy) else Inr (g, sy)) = Inr st'"
    have "sys_ok mem_ok held N s1" by (rule fold_same_books [OF s(1) same_books_steps(1) assms(2) [unfolded st]])
    then have "sys_ok mem_ok held N s2" by (rule sys_ok_same [OF _ same_books_steps(2) [OF s(2)]])
    then have "sys_ok mem_ok held N s3" using fold_same_books [OF s(3), of mem_ok held N] same_books_steps(3) by blast
    then have "sys_ok mem_ok held N s4" using fold_same_books [OF s(4), of mem_ok held N] same_books_steps(4) by blast
    moreover have "sys_host_update p u ops skip 0 s4 = Inr s5" using s(5) by (auto elim: bind_r_returns)
    ultimately have s5: "sys_ok mem_ok held N s5" using sys_host_ok by blast
    then have "length (sy_DAMs (snd s5)) = 1" by (cases s5) (simp add: sys_ok_def)
    then show "sys_ok mem_ok held N st'" using s(6) s5 by (auto simp: case_prod_beta split: if_splits dest: sys_dam_ok)
  qed
qed

lemma sim_loop_ok:
  "sim_loop p u ops skip k n st = Inr (Some (i, g, sy)) \<Longrightarrow> sys_ok mem_ok held N (snd st) \<Longrightarrow>
     sys_ok mem_ok held N (g, sy) \<and> sim_done k (g, sy)"
proof (induction n arbitrary: st)
  case (Suc n)
  obtain ia s where st: "st = (ia, s)" by (cases st)
  from Suc.prems(1) obtain g1 sy1 where u: "CXLSystem_update p u ops skip s = Inr (g1, sy1)" by (auto simp: st)
  have "sys_ok mem_ok held N (g1, sy1)" by (rule system_update_ok [OF u]) (use Suc.prems(2) in \<open>simp add: st\<close>)
  then have t: "sys_ok mem_ok held N (g1\<lparr>curr_tick := x\<rparr>, sy1)" for x
    by (rule sys_ok_same) (simp add: same_books_def g_books_def)
  show ?case using Suc.prems(1) Suc.IH t u by (auto simp: st Let_def split: if_splits)
qed simp

end

lemma ledger_closed:
  assumes "books_ok N g h" "ho_messages_sent_to_device h = []" "ho_reqs_in_dam h = []" "num_reqs_completed g \<ge> of_nat N"
  shows "num_reqs_completed g = of_nat N \<and> msg_count g = of_nat N \<and> ho_trace_in h = [] \<and> buf_q (ho_text_to_trace_buf h) = []"
proof -
  have b: "N < 2 ^ 64" "unat (msg_count g) + length (ho_trace_in h) = N"
    "unat (num_reqs_completed g) + size (ho_ids h) = unat (msg_count g)"
    using assms(1) by (simp_all add: books_ok_def ledger_def)
  have "unat (of_nat N :: u64) = N" using b(1) by (simp add: unsigned_of_nat take_bit_eq_mod)
  then have "N \<le> unat (num_reqs_completed g)" using assms(4) by (simp add: word_le_nat_alt)
  then have c: "unat (num_reqs_completed g) = N" "unat (msg_count g) = N" "size (ho_ids h) = 0" "length (ho_trace_in h) = 0"
    using b by linarith+
  then have "num_reqs_completed g = of_nat N" "msg_count g = of_nat N" by (metis of_nat_unat ucast_id)+
  then show ?thesis using c by (simp add: ho_ids_def)
qed

section \<open>The start\<close>

lemma main_system_start:
  assumes "main_system e trace = Inr sy"
  shows "\<exists>h. sy_hosts sy = [h] \<and> ho_books h = (trace, CXLBuf_new 20, [], []) \<and>
    sy_DAMs sy = [DirectAttached_new (se_memory e 7) (word_of_int (se_junk e)) 7]"
  using assms
  by (auto simp: main_system_def CXLSystem_new_def Let_def sys_register_devices_def sys_wire_def sys_add_DAMs_def
      sys_connect_host_def sys_connect_device_def register_device_def CXLHost_new_def set_trace_file_def register_DAM_def ho_books_def
      upt_rec [of _ "Suc 0"] upt_rec [of _ "Suc (Suc 0)"])

context conserving_memory
begin

lemma main_run_ok:
  assumes "main_run e ops skip trace n = Inr (Some (i, g, sy))" "length trace < 2 ^ 64"
    and "mem_ok (se_memory e 7)" "held (se_memory e 7) = {#}"
  shows "num_reqs_completed g = of_nat (length trace) \<and> msg_count g = of_nat (length trace) \<and>
    ho_messages_sent_to_device (sy_hosts sy ! 0) = [] \<and> ho_reqs_in_dam (sy_hosts sy ! 0) = [] \<and>
    ho_trace_in (sy_hosts sy ! 0) = [] \<and> buf_q (ho_text_to_trace_buf (sy_hosts sy ! 0)) = [] \<and>
    held (rd_memory (da_ram (sy_DAMs sy ! 0))) = {#}"
proof -
  from assms(1) obtain sy0 where sy0: "main_system e trace = Inr sy0"
    and l: "sim_loop (main_params (se_params e)) (se_uninit e) ops skip (of_nat (length trace)) n (0, main_globals, sy0) = Inr (Some (i, g, sy))"
    by (auto simp: main_run_def)
  obtain h where h: "sy_hosts sy0 = [h]" "ho_books h = (trace, CXLBuf_new 20, [], [])"
    "sy_DAMs sy0 = [DirectAttached_new (se_memory e 7) (word_of_int (se_junk e)) 7]" using main_system_start [OF sy0] by blast
  have "sys_ok mem_ok held (length trace) (main_globals, sy0)"
    using h(2) assms(2-4)
    by (simp add: h sys_ok_def books_ok_def dam_ok_def ho_books_def main_globals_def ho_ids_def CXLBuf_new_def keys_def ledger_def
        DirectAttached_new_def ramulator_init_def rd_front_ok_def initialize_state_def rd_queued_def rd_stalled_def CXL_if_buf_new_def)
  from sim_loop_ok [OF l] this have s: "sys_ok mem_ok held (length trace) (g, sy)" "sim_done (of_nat (length trace)) (g, sy)" by simp_all
  have d: "ho_messages_sent_to_device (sy_hosts sy ! 0) = []" "ho_reqs_in_dam (sy_hosts sy ! 0) = []" "num_reqs_completed g \<ge> of_nat (length trace)"
    using s(2) by (simp_all add: sim_done_def)
  have "books_ok (length trace) g (sy_hosts sy ! 0)" using s(1) by (simp add: sys_ok_def)
  from ledger_closed [OF this d] show ?thesis using d s(1) by (simp add: sys_ok_def dam_ok_def keys_def)
qed

end

section \<open>Properties\<close>


text \<open>A trace of one line, with a memory that completes one request per cycle.\<close>

interpretation fifo: conserving_memory fifo_mem_ops "\<lambda>_. True" "\<lambda>m. mset (map req_id m)"
proof unfold_locales
  fix m m' :: "Request list" and rs :: "Request list"
  assume "mem_tick fifo_mem_ops m = Inr (m', rs)"
  then show "True \<and> mset (map req_id m) = mset (map req_id m') + mset (map req_id rs)"
    by (cases m) (auto simp: fifo_mem_ops_def)
qed (auto simp: fifo_mem_ops_def split: if_splits)

definition sample_sys_env :: "Request list sys_env" where
  "sample_sys_env =
     \<lparr>se_uninit = sample_uninit, se_junk = 0, se_bus = two_flit_bus, se_params = sample_params, se_memory = (\<lambda>_. [])\<rparr>"

definition one_line_run :: "(int \<times> Request list sys_state) option result" where
  "one_line_run = main_run sample_sys_env fifo_mem_ops False [''0x40 R 0''] 2"

lemma one_line_run_ends: "(case one_line_run of Inr (Some _) \<Rightarrow> True | _ \<Rightarrow> False)"
  unfolding one_line_run_def by code_simp


end
