(* ===== verification/CXL_Skip.thy ===== *)
theory CXL_Skip
  imports CXL_Sys CXL_Bus_Timing
begin

text \<open>
  Skipping idle time: which ticks of the memories the trace reader runs itself when it moves the clock, and where it
  moves the clock to.
\<close>

lemma left_out_set:
  assumes "0 \<le> t0"
  shows "set (left_out_ticks t0 now) = {i. t0 < i \<and> i \<le> now \<and> 6 dvd i}"
proof -
  define i0 where "i0 = (t0 div 6 + 1) * 6"
  have "trunc_div t0 6 = t0 div 6" using assms by (cases "t0 = 0") (simp_all add: trunc_div_def)
  then have i0: "left_out_ticks t0 now = map (\<lambda>n. i0 + 6 * int n) [0 ..< nat ((now - i0) div 6 + 1)]"
    by (simp add: left_out_ticks_def i0_def Let_def)
  have first: "t0 < 6 * k \<longleftrightarrow> i0 \<le> 6 * k" for k unfolding i0_def by presburger
  have six: "6 dvd i0" by (simp add: i0_def)
  show ?thesis
  proof (intro equalityI subsetI)
    fix i assume "i \<in> set (left_out_ticks t0 now)"
    then obtain n where n: "i = i0 + 6 * int n" "int n < (now - i0) div 6 + 1" by (auto simp: i0)
    then have "i \<le> now" by presburger
    moreover have "6 dvd i" using six n(1) by simp
    moreover from this obtain k where "i = 6 * k" by blast
    then have "t0 < i" using first n(1) by simp
    ultimately show "i \<in> {i. t0 < i \<and> i \<le> now \<and> 6 dvd i}" by simp
  next
    fix i assume "i \<in> {i. t0 < i \<and> i \<le> now \<and> 6 dvd i}"
    then obtain k where k: "i = 6 * k" "t0 < i" "i \<le> now" by auto
    then have le: "i0 \<le> i" using first by simp
    define n where "n = nat (k - t0 div 6 - 1)"
    have n: "i = i0 + 6 * int n" using le unfolding n_def k(1) i0_def by simp
    then have "int n < (now - i0) div 6 + 1" using k(3) by presburger
    then show "i \<in> set (left_out_ticks t0 now)" unfolding i0 using n by (auto intro!: image_eqI [of _ _ n])
  qed
qed

lemma left_out_sorted: "sorted_wrt (<) (left_out_ticks t0 now)"
  by (auto simp: left_out_ticks_def Let_def sorted_wrt_map intro!: sorted_wrt_mono_rel [OF _ sorted_wrt_upt])

section \<open>Properties\<close>



section \<open>The clock can go back\<close>

text \<open>A host that has been idle for 5 ticks and whose next request has no gap.\<close>

definition idle_world :: "Request list host_world" where
  "idle_world =
     \<lparr>hw_g = main_globals\<lparr>curr_tick := 5\<rparr>,
      hw_host = (CXLHost_new sample_uninit 0 HOST_VC_SIZE HOST_BUF_SIZE 1)\<lparr>ho_text_to_trace_buf := \<lparr>buf_size = 20, buf_q = [(0, sample_msg Req 64 0)]\<rparr>\<rparr>,
      hw_dam = None, hw_devs = []\<rparr>"


end
