(* ===== verification/Ram_DDR4.thy ===== *)
theory Ram_DDR4
  imports CXL_If CXL_Params
begin

text \<open>
  The DDR4 standard of the DRAM model, \<^verbatim>\<open>ramulator/src/DDR4.h\<close> and \<^verbatim>\<open>DDR4.cpp\<close>: levels,
  commands and states, the organisations and speed grades, and the table of timing
  constraints.  The functions of the tables \<^verbatim>\<open>prereq\<close>, \<^verbatim>\<open>rowhit\<close>, \<^verbatim>\<open>rowopen\<close> and \<^verbatim>\<open>lambda\<close>
  work on nodes of the DRAM tree and are in \<open>Ram_DRAM\<close>.
\<close>

section \<open>Levels, commands, states\<close>

datatype Level = Channel | Rank | BankGroup | Bank | Row | Column

fun level_ix :: "Level \<Rightarrow> nat" where
  "level_ix Channel = 0"
| "level_ix Rank = 1"
| "level_ix BankGroup = 2"
| "level_ix Bank = 3"
| "level_ix Row = 4"
| "level_ix Column = 5"

datatype Command = ACT | PRE | PREA | RD | WR | RDA | WRA | REF | PDE | PDX | SRE | SRX

fun cmd_ix :: "Command \<Rightarrow> nat" where
  "cmd_ix ACT = 0"
| "cmd_ix PRE = 1"
| "cmd_ix PREA = 2"
| "cmd_ix RD = 3"
| "cmd_ix WR = 4"
| "cmd_ix RDA = 5"
| "cmd_ix WRA = 6"
| "cmd_ix REF = 7"
| "cmd_ix PDE = 8"
| "cmd_ix PDX = 9"
| "cmd_ix SRE = 10"
| "cmd_ix SRX = 11"

definition all_commands :: "Command list" where
  "all_commands = [ACT, PRE, PREA, RD, WR, RDA, WRA, REF, PDE, PDX, SRE, SRX]"

fun scope :: "Command \<Rightarrow> Level" where
  "scope ACT = Row"
| "scope PRE = Bank"
| "scope PREA = Rank"
| "scope RD = Column"
| "scope WR = Column"
| "scope RDA = Column"
| "scope WRA = Column"
| "scope _ = Rank"

definition is_opening :: "Command \<Rightarrow> bool" where
  "is_opening c \<longleftrightarrow> c = ACT"

definition is_accessing :: "Command \<Rightarrow> bool" where
  "is_accessing c \<longleftrightarrow> c = RD \<or> c = WR \<or> c = RDA \<or> c = WRA"

definition is_closing :: "Command \<Rightarrow> bool" where
  "is_closing c \<longleftrightarrow> c = RDA \<or> c = WRA \<or> c = PRE \<or> c = PREA"

definition is_refreshing :: "Command \<Rightarrow> bool" where
  "is_refreshing c \<longleftrightarrow> c = REF"

datatype State = Opened | Closed | PowerUp | ActPowerDown | PrePowerDown | SelfRefresh | State_MAX

fun start :: "Level \<Rightarrow> State" where
  "start Channel = State_MAX"
| "start Rank = PowerUp"
| "start BankGroup = State_MAX"
| "start Bank = Closed"
| "start Row = Closed"
| "start Column = State_MAX"

text \<open>The initialiser gives five of the six entries; the last, for \<^verbatim>\<open>EXTENSION\<close>, is 0, which is \<^verbatim>\<open>ACT\<close>.\<close>

fun translate :: "Request_Type \<Rightarrow> Command" where
  "translate READ = RD"
| "translate WRITE = WR"
| "translate REFRESH = REF"
| "translate POWERDOWN = PDE"
| "translate SELFREFRESH = SRE"
| "translate EXTENSION = ACT"

section \<open>Organisation and speed\<close>

datatype Org = DDR4_2Gb_x4 | DDR4_2Gb_x8 | DDR4_2Gb_x16 | DDR4_4Gb_x4 | DDR4_4Gb_x8 | DDR4_4Gb_x16
  | DDR4_8Gb_x4 | DDR4_8Gb_x8 | DDR4_8Gb_x16

text \<open>\<^verbatim>\<open>count\<close> has one entry per level.\<close>

record OrgEntry =
  org_size :: int
  org_dq :: int
  org_count :: "int list"

fun org_table :: "Org \<Rightarrow> OrgEntry" where
  "org_table DDR4_2Gb_x4 = \<lparr>org_size = 2048, org_dq = 4, org_count = [0, 0, 4, 4, 2 ^ 15, 2 ^ 10]\<rparr>"
| "org_table DDR4_2Gb_x8 = \<lparr>org_size = 2048, org_dq = 8, org_count = [0, 0, 4, 4, 2 ^ 14, 2 ^ 10]\<rparr>"
| "org_table DDR4_2Gb_x16 = \<lparr>org_size = 2048, org_dq = 16, org_count = [0, 0, 2, 4, 2 ^ 14, 2 ^ 10]\<rparr>"
| "org_table DDR4_4Gb_x4 = \<lparr>org_size = 4096, org_dq = 4, org_count = [0, 0, 4, 4, 2 ^ 16, 2 ^ 10]\<rparr>"
| "org_table DDR4_4Gb_x8 = \<lparr>org_size = 4096, org_dq = 8, org_count = [0, 0, 4, 4, 2 ^ 15, 2 ^ 10]\<rparr>"
| "org_table DDR4_4Gb_x16 = \<lparr>org_size = 4096, org_dq = 16, org_count = [0, 0, 2, 4, 2 ^ 15, 2 ^ 10]\<rparr>"
| "org_table DDR4_8Gb_x4 = \<lparr>org_size = 8192, org_dq = 4, org_count = [0, 0, 4, 4, 2 ^ 17, 2 ^ 10]\<rparr>"
| "org_table DDR4_8Gb_x8 = \<lparr>org_size = 8192, org_dq = 8, org_count = [0, 0, 4, 4, 2 ^ 16, 2 ^ 10]\<rparr>"
| "org_table DDR4_8Gb_x16 = \<lparr>org_size = 8192, org_dq = 16, org_count = [0, 0, 2, 4, 2 ^ 16, 2 ^ 10]\<rparr>"

datatype Speed = DDR4_1600K | DDR4_1600L | DDR4_1866M | DDR4_1866N | DDR4_2133P | DDR4_2133R | DDR4_2400R | DDR4_2400U | DDR4_3200

datatype RefreshMode = Refresh_1X | Refresh_2X | Refresh_4X

fun refresh_mode_ix :: "RefreshMode \<Rightarrow> nat" where
  "refresh_mode_ix Refresh_1X = 0"
| "refresh_mode_ix Refresh_2X = 1"
| "refresh_mode_ix Refresh_4X = 2"

text \<open>\<^verbatim>\<open>freq\<close> and \<^verbatim>\<open>tCK\<close> only give the clock period in nanoseconds, which nothing reads; they
  have no field.\<close>

record SpeedEntry =
  rate :: int
  nBL :: int
  nCCDS :: int
  nCCDL :: int
  nRTRS :: int
  nCL :: int
  nRCD :: int
  nRP :: int
  nCWL :: int
  nRAS :: int
  nRC :: int
  nRTP :: int
  nWTRS :: int
  nWTRL :: int
  nWR :: int
  nRRDS :: int
  nRRDL :: int
  nFAW :: int
  nRFC :: int
  nREFI :: int
  nPD :: int
  nXP :: int
  nXPDLL :: int
  nCKESR :: int
  nXS :: int
  nXSDLL :: int

definition speed_row :: "int list \<Rightarrow> SpeedEntry" where
  "speed_row v = \<lparr>rate = v ! 0, nBL = v ! 1, nCCDS = v ! 2, nCCDL = v ! 3, nRTRS = v ! 4, nCL = v ! 5, 
     nRCD = v ! 6, nRP = v ! 7, nCWL = v ! 8, nRAS = v ! 9, nRC = v ! 10, nRTP = v ! 11, 
     nWTRS = v ! 12, nWTRL = v ! 13, nWR = v ! 14, nRRDS = v ! 15, nRRDL = v ! 16, nFAW = v ! 17, 
     nRFC = v ! 18, nREFI = v ! 19, nPD = v ! 20, nXP = v ! 21, nXPDLL = v ! 22, nCKESR = v ! 23, 
     nXS = v ! 24, nXSDLL = v ! 25\<rparr>"

text \<open>In the last row \<^verbatim>\<open>nBL\<close> is \<^verbatim>\<open>prefetch_size/2\<close>.\<close>

fun speed_table :: "Speed \<Rightarrow> SpeedEntry" where
  "speed_table DDR4_1600K = speed_row [1600, 4, 4, 5, 2, 11, 11, 11, 9, 28, 39, 6, 2, 6, 12, 0, 0, 0, 0, 0, 4, 5, 0, 5, 0, 0]"
| "speed_table DDR4_1600L = speed_row [1600, 4, 4, 5, 2, 12, 12, 12, 9, 28, 40, 6, 2, 6, 12, 0, 0, 0, 0, 0, 4, 5, 0, 5, 0, 0]"
| "speed_table DDR4_1866M = speed_row [1866, 4, 4, 5, 2, 13, 13, 13, 10, 32, 45, 7, 3, 7, 14, 0, 0, 0, 0, 0, 5, 6, 0, 6, 0, 0]"
| "speed_table DDR4_1866N = speed_row [1866, 4, 4, 5, 2, 14, 14, 14, 10, 32, 46, 7, 3, 7, 14, 0, 0, 0, 0, 0, 5, 6, 0, 6, 0, 0]"
| "speed_table DDR4_2133P = speed_row [2133, 4, 4, 6, 2, 15, 15, 15, 11, 36, 51, 8, 3, 8, 16, 0, 0, 0, 0, 0, 6, 7, 0, 7, 0, 0]"
| "speed_table DDR4_2133R = speed_row [2133, 4, 4, 6, 2, 16, 16, 16, 11, 36, 52, 8, 3, 8, 16, 0, 0, 0, 0, 0, 6, 7, 0, 7, 0, 0]"
| "speed_table DDR4_2400R = speed_row [2400, 4, 4, 6, 2, 16, 16, 16, 12, 39, 55, 9, 3, 9, 18, 0, 0, 0, 0, 0, 6, 8, 0, 7, 0, 0]"
| "speed_table DDR4_2400U = speed_row [2400, 4, 4, 6, 2, 18, 18, 18, 12, 39, 57, 9, 3, 9, 18, 0, 0, 0, 0, 0, 6, 8, 0, 7, 0, 0]"
| "speed_table DDR4_3200 = speed_row [3200, 4, 4, 10, 2, 22, 22, 22, 16, 56, 78, 12, 4, 12, 24, 8, 10, 40, 0, 0, 8, 10, 0, 8, 0, 0]"

record DDR4 =
  org_entry :: OrgEntry
  speed_entry :: SpeedEntry
  refresh_mode :: RefreshMode
  prefetch_size :: int
  channel_width :: int
  read_latency :: int

text \<open>\<^verbatim>\<open>init_speed\<close>: the parameters that depend on both tables.\<close>

definition init_speed :: "DDR4 \<Rightarrow> DDR4 result" where
  "init_speed d =
     (let o_e = org_entry d; s_e = speed_entry d; m = refresh_mode_ix (refresh_mode d);
          speed = (if rate s_e = 1600 then Some 0 else if rate s_e = 1866 then Some 1
                   else if rate s_e = 2133 then Some 2 else if rate s_e = 2400 then Some 3
                   else if rate s_e = 3200 then Some 4 else None);
          density = (if org_size o_e div 1024 = 2 then Some 0 else if org_size o_e div 1024 = 4 then Some 1
                     else if org_size o_e div 1024 = 8 then Some 2 else None)
      in case (speed, density) of
           (Some sp, Some de) \<Rightarrow>
             Inr (d\<lparr>speed_entry := s_e
               \<lparr>nRRDS := [[4, 4, 4, 4, 4], [5, 5, 6, 7, 9]] ! (if org_dq o_e = 16 then 1 else 0) ! sp,
                nRRDL := [[5, 5, 6, 6, 8], [6, 6, 7, 8, 11]] ! (if org_dq o_e = 16 then 1 else 0) ! sp,
                nFAW := [[16, 16, 16, 16, 16], [20, 22, 23, 26, 34], [28, 28, 32, 36, 48]]
                          ! (if org_dq o_e = 4 then 0 else if org_dq o_e = 8 then 1 else 2) ! sp,
                nRFC := [[[128, 150, 171, 192, 256], [208, 243, 278, 312, 416], [280, 327, 374, 420, 560]],
                         [[88, 103, 118, 132, 176], [128, 150, 171, 192, 256], [208, 243, 278, 312, 416]],
                         [[72, 84, 96, 108, 144], [88, 103, 118, 132, 176], [128, 150, 171, 192, 256]]] ! m ! de ! sp,
                nREFI := [6240, 7280, 8320, 9360, 12480] ! sp div 2 ^ m,
                nXS := [[136, 159, 182, 204, 272], [216, 252, 288, 324, 432], [288, 336, 384, 432, 576]] ! de ! sp\<rparr>\<rparr>)
         | _ \<Rightarrow> Inl (RAM_ASSERT ''init_speed''))"

definition DDR4_new :: "Org \<Rightarrow> Speed \<Rightarrow> DDR4 result" where
  "DDR4_new org speed =
     init_speed \<lparr>org_entry = org_table org, speed_entry = speed_table speed, refresh_mode = Refresh_1X,
       prefetch_size = 8, channel_width = 64, read_latency = nCL (speed_table speed) + nBL (speed_table speed)\<rparr>"

definition set_channel_number :: "int \<Rightarrow> DDR4 \<Rightarrow> DDR4" where
  "set_channel_number c d = d\<lparr>org_entry := (org_entry d)\<lparr>org_count := (org_count (org_entry d))[level_ix Channel := c]\<rparr>\<rparr>"

definition set_rank_number :: "int \<Rightarrow> DDR4 \<Rightarrow> DDR4" where
  "set_rank_number r d = d\<lparr>org_entry := (org_entry d)\<lparr>org_count := (org_count (org_entry d))[level_ix Rank := r]\<rparr>\<rparr>"

section \<open>Timing constraints\<close>

text \<open>After the command of the table, \<^verbatim>\<open>cmd\<close> has to wait \<^verbatim>\<open>val\<close> cycles, counted from the
  \<^verbatim>\<open>dist\<close>-th last time of the first; with \<^verbatim>\<open>sibling\<close> the constraint is on the other nodes of the
  level.  The pairs are in the order of the \<^verbatim>\<open>push_back\<close>s of \<^verbatim>\<open>init_timing\<close>.\<close>

datatype TimingEntry = TE (te_cmd: Command) (te_dist: nat) (te_val: int) (te_sibling: bool)

fun init_timing :: "SpeedEntry \<Rightarrow> Level \<Rightarrow> (Command \<times> TimingEntry) list" where
  "init_timing s Channel =
     [(RD, TE RD 1 (nBL s) False), (RD, TE RDA 1 (nBL s) False), (RDA, TE RD 1 (nBL s) False),
      (RDA, TE RDA 1 (nBL s) False), (WR, TE WR 1 (nBL s) False), (WR, TE WRA 1 (nBL s) False),
      (WRA, TE WR 1 (nBL s) False), (WRA, TE WRA 1 (nBL s) False)]"
| "init_timing s Rank =
     [(RD, TE RD 1 (nCCDS s) False), (RD, TE RDA 1 (nCCDS s) False), (RDA, TE RD 1 (nCCDS s) False),
      (RDA, TE RDA 1 (nCCDS s) False), (WR, TE WR 1 (nCCDS s) False), (WR, TE WRA 1 (nCCDS s) False),
      (WRA, TE WR 1 (nCCDS s) False), (WRA, TE WRA 1 (nCCDS s) False), (RD, TE WR 1 (nCL s + nBL s + 2 - nCWL s) False),
      (RD, TE WRA 1 (nCL s + nBL s + 2 - nCWL s) False), (RDA, TE WR 1 (nCL s + nBL s + 2 - nCWL s) False), (RDA, TE WRA 1 (nCL s + nBL s + 2 - nCWL s) False),
      (WR, TE RD 1 (nCWL s + nBL s + nWTRS s) False), (WR, TE RDA 1 (nCWL s + nBL s + nWTRS s) False), (WRA, TE RD 1 (nCWL s + nBL s + nWTRS s) False),
      (WRA, TE RDA 1 (nCWL s + nBL s + nWTRS s) False), (RD, TE RD 1 (nBL s + nRTRS s) True), (RD, TE RDA 1 (nBL s + nRTRS s) True),
      (RDA, TE RD 1 (nBL s + nRTRS s) True), (RDA, TE RDA 1 (nBL s + nRTRS s) True), (RD, TE WR 1 (nBL s + nRTRS s) True),
      (RD, TE WRA 1 (nBL s + nRTRS s) True), (RDA, TE WR 1 (nBL s + nRTRS s) True), (RDA, TE WRA 1 (nBL s + nRTRS s) True),
      (RD, TE WR 1 (nCL s + nBL s + nRTRS s - nCWL s) True), (RD, TE WRA 1 (nCL s + nBL s + nRTRS s - nCWL s) True), (RDA, TE WR 1 (nCL s + nBL s + nRTRS s - nCWL s) True),
      (RDA, TE WRA 1 (nCL s + nBL s + nRTRS s - nCWL s) True), (WR, TE RD 1 (nCWL s + nBL s + nRTRS s - nCL s) True), (WR, TE RDA 1 (nCWL s + nBL s + nRTRS s - nCL s) True),
      (WRA, TE RD 1 (nCWL s + nBL s + nRTRS s - nCL s) True), (WRA, TE RDA 1 (nCWL s + nBL s + nRTRS s - nCL s) True), (RD, TE PREA 1 (nRTP s) False),
      (WR, TE PREA 1 (nCWL s + nBL s + nWR s) False), (RD, TE PDE 1 (nCL s + nBL s + 1) False), (RDA, TE PDE 1 (nCL s + nBL s + 1) False),
      (WR, TE PDE 1 (nCWL s + nBL s + nWR s) False), (WRA, TE PDE 1 (nCWL s + nBL s + nWR s + 1) False), (PDX, TE RD 1 (nXP s) False),
      (PDX, TE RDA 1 (nXP s) False), (PDX, TE WR 1 (nXP s) False), (PDX, TE WRA 1 (nXP s) False),
      (ACT, TE ACT 1 (nRRDS s) False), (ACT, TE ACT 4 (nFAW s) False), (ACT, TE PREA 1 (nRAS s) False),
      (PREA, TE ACT 1 (nRP s) False), (ACT, TE REF 1 (nRC s) False), (PRE, TE REF 1 (nRP s) False),
      (PREA, TE REF 1 (nRP s) False), (RDA, TE REF 1 (nRTP s + nRP s) False), (WRA, TE REF 1 (nCWL s + nBL s + nWR s + nRP s) False),
      (REF, TE ACT 1 (nRFC s) False), (ACT, TE PDE 1 1 False), (PDX, TE ACT 1 (nXP s) False),
      (PDX, TE PRE 1 (nXP s) False), (PDX, TE PREA 1 (nXP s) False), (PRE, TE SRE 1 (nRP s) False),
      (PREA, TE SRE 1 (nRP s) False), (SRX, TE ACT 1 (nXS s) False), (REF, TE REF 1 (nRFC s) False),
      (REF, TE PDE 1 1 False), (PDX, TE REF 1 (nXP s) False), (SRX, TE REF 1 (nXS s) False),
      (PDE, TE PDX 1 (nPD s) False), (PDX, TE PDE 1 (nXP s) False), (PDX, TE SRE 1 (nXP s) False),
      (SRX, TE PDE 1 (nXS s) False), (SRE, TE SRX 1 (nCKESR s) False), (SRX, TE SRE 1 (nXS s) False)]"
| "init_timing s BankGroup =
     [(RD, TE RD 1 (nCCDL s) False), (RD, TE RDA 1 (nCCDL s) False), (RDA, TE RD 1 (nCCDL s) False),
      (RDA, TE RDA 1 (nCCDL s) False), (WR, TE WR 1 (nCCDL s) False), (WR, TE WRA 1 (nCCDL s) False),
      (WRA, TE WR 1 (nCCDL s) False), (WRA, TE WRA 1 (nCCDL s) False), (WR, TE RD 1 (nCWL s + nBL s + nWTRL s) False),
      (WR, TE RDA 1 (nCWL s + nBL s + nWTRL s) False), (WRA, TE RD 1 (nCWL s + nBL s + nWTRL s) False), (WRA, TE RDA 1 (nCWL s + nBL s + nWTRL s) False),
      (ACT, TE ACT 1 (nRRDL s) False)]"
| "init_timing s Bank =
     [(ACT, TE RD 1 (nRCD s) False), (ACT, TE RDA 1 (nRCD s) False), (ACT, TE WR 1 (nRCD s) False),
      (ACT, TE WRA 1 (nRCD s) False), (RD, TE PRE 1 (nRTP s) False), (WR, TE PRE 1 (nCWL s + nBL s + nWR s) False),
      (RDA, TE ACT 1 (nRTP s + nRP s) False), (WRA, TE ACT 1 (nCWL s + nBL s + nWR s + nRP s) False), (ACT, TE ACT 1 (nRC s) False),
      (ACT, TE PRE 1 (nRAS s) False), (PRE, TE ACT 1 (nRP s) False)]"
| "init_timing s Row = []"
| "init_timing s Column = []"

definition timing :: "DDR4 \<Rightarrow> Level \<Rightarrow> Command \<Rightarrow> TimingEntry list" where
  "timing d l c = map snd (filter (\<lambda>e. fst e = c) (init_timing (speed_entry d) l))"

text \<open>The history a node keeps of a command: as long as its constraints look back.\<close>

definition history_length :: "DDR4 \<Rightarrow> Level \<Rightarrow> Command \<Rightarrow> nat" where
  "history_length d l c = fold max (map te_dist (timing d l c)) 0"

lemma timing_mem: "t \<in> set (timing d l c) \<longleftrightarrow> (c, t) \<in> set (init_timing (speed_entry d) l)"
  by (force simp: timing_def)

text \<open>Constraints on siblings look back one command only, which \<^verbatim>\<open>update_timing\<close> asserts.\<close>

lemma sibling_dist: "t \<in> set (timing d l c) \<Longrightarrow> te_sibling t \<Longrightarrow> te_dist t = 1"
  unfolding timing_mem by (cases l) auto

lemma te_dist_pos: "t \<in> set (timing d l c) \<Longrightarrow> 0 < te_dist t"
  unfolding timing_mem by (cases l) auto

lemma le_fold_max: "(m :: nat) \<le> fold max xs m"
  by (induction xs arbitrary: m) (auto intro: le_trans [OF max.cobounded2])

lemma fold_max_ge: "(x :: nat) \<in> set xs \<Longrightarrow> x \<le> fold max xs m"
proof (induction xs arbitrary: m)
  case (Cons y ys)
  then show ?case using le_fold_max [of "max y m" ys] by auto
qed simp

lemma te_dist_history: "t \<in> set (timing d l c) \<Longrightarrow> te_dist t \<le> history_length d l c"
  by (auto simp: history_length_def intro!: fold_max_ge)

lemma translate_opening: "\<not> is_opening (translate t) \<or> t = EXTENSION"
  by (cases t) (simp_all add: is_opening_def)

end
