(* ===== verification/Ram_DRAM.thy ===== *)
theory Ram_DRAM
  imports Ram_DDR4 Std_Map
begin

text \<open>
  The tree of DRAM nodes, \<^verbatim>\<open>DRAM<T>\<close> of \<^verbatim>\<open>ramulator/src/DRAM.h\<close> for \<^verbatim>\<open>T = DDR4\<close>, with the functions
  \<^verbatim>\<open>DDR4::init_prereq\<close>, \<^verbatim>\<open>init_rowhit\<close>, \<^verbatim>\<open>init_rowopen\<close> and \<^verbatim>\<open>init_lambda\<close> that work on its nodes.

  A node keeps for every command the earliest time it may be issued (\<^verbatim>\<open>next\<close>) and the last times
  it was issued (\<^verbatim>\<open>prev\<close>); both are lists over the commands.  The parent pointer and \<^verbatim>\<open>size\<close> are
  never read and have no field.
\<close>

section \<open>Nodes\<close>

record dram_node =
  dn_level :: Level
  dn_id :: int
  dn_state :: State
  dn_row_state :: "(int, State) smap"
  dn_cur_serving_requests :: int
  dn_begin_of_serving :: int
  dn_end_of_serving :: int
  dn_begin_of_cur_reqcnt :: int
  dn_begin_of_refreshing :: int
  dn_end_of_refreshing :: int
  dn_refresh_intervals :: "(int \<times> int) list"
  dn_cur_clk :: int
  dn_next :: "int list"
  dn_prev :: "int list list"
  dn_active_cycles :: int
  dn_refresh_cycles :: int
  dn_active_refresh_overlap_cycles :: int
  dn_serving_requests :: int

datatype DRAM = DRAM_Node (dram_node: dram_node) (dram_children: "DRAM list")

definition dram_node_new :: "DDR4 \<Rightarrow> Level \<Rightarrow> int \<Rightarrow> dram_node" where
  "dram_node_new s l i =
     \<lparr>dn_level = l, dn_id = i, dn_state = start l, dn_row_state = [], dn_cur_serving_requests = 0,
      dn_begin_of_serving = -1, dn_end_of_serving = -1, dn_begin_of_cur_reqcnt = -1,
      dn_begin_of_refreshing = -1, dn_end_of_refreshing = -1, dn_refresh_intervals = [], dn_cur_clk = 0,
      dn_next = replicate 12 (-1), dn_prev = map (\<lambda>c. replicate (history_length s l c) (-1)) all_commands,
      dn_active_cycles = 0, dn_refresh_cycles = 0, dn_active_refresh_overlap_cycles = 0, dn_serving_requests = 0\<rparr>"

fun child_level :: "Level \<Rightarrow> Level option" where
  "child_level Channel = Some Rank"
| "child_level Rank = Some BankGroup"
| "child_level BankGroup = Some Bank"
| "child_level _ = None"

text \<open>The constructor stops above the rows.  The caller sets the id.\<close>

function DRAM_new :: "DDR4 \<Rightarrow> Level \<Rightarrow> int \<Rightarrow> DRAM" where
  "DRAM_new s l i =
     DRAM_Node (dram_node_new s l i)
       (case child_level l of
          None \<Rightarrow> []
        | Some cl \<Rightarrow> map (\<lambda>k. DRAM_new s cl (int k)) [0 ..< nat (org_count (org_entry s) ! level_ix cl)])"
  by pat_completeness auto
termination
  by (relation "measure (\<lambda>(_, l, _). 4 - level_ix l)")
    (auto elim: child_level.elims)

declare DRAM_new.simps [simp del]

text \<open>\<^verbatim>\<open>addr[level + 1]\<close>, and the child it selects.\<close>

definition child_id :: "dram_node \<Rightarrow> int list \<Rightarrow> int" where
  "child_id n addr = addr ! (level_ix (dn_level n) + 1)"

lemma size_nth_child [termination_simp]: "i < length cs \<Longrightarrow> size (cs ! i) < Suc (size_list size cs)"
  using size_list_estimation' [of "cs ! i" cs "size (cs ! i)" size] by (simp add: less_Suc_eq_le)

section \<open>The functions of the standard\<close>

definition rank_banks :: "DRAM \<Rightarrow> DRAM list" where
  "rank_banks d = concat (map dram_children (dram_children d))"

definition all_banks_closed :: "DRAM \<Rightarrow> bool" where
  "all_banks_closed d \<longleftrightarrow> list_all (\<lambda>b. dn_state (dram_node b) = Closed) (rank_banks d)"

text \<open>\<open>None\<close> where the table has no function or the function returns \<^verbatim>\<open>Command::MAX\<close>: the level asks
  for no command first.\<close>

definition prereq_rank :: "State \<Rightarrow> Command option result" where
  "prereq_rank st = (case st of
       PowerUp \<Rightarrow> Inr None
     | ActPowerDown \<Rightarrow> Inr (Some PDX)
     | PrePowerDown \<Rightarrow> Inr (Some PDX)
     | SelfRefresh \<Rightarrow> Inr (Some SRX)
     | _ \<Rightarrow> Inl (RAM_ASSERT ''prereq''))"

definition prereq_bank :: "dram_node \<Rightarrow> Command \<Rightarrow> int \<Rightarrow> Command option result" where
  "prereq_bank n cmd i = (case dn_state n of
       Closed \<Rightarrow> Inr (Some ACT)
     | Opened \<Rightarrow> Inr (Some (if sm_find (dn_row_state n) i \<noteq> None then cmd else PRE))
     | _ \<Rightarrow> Inl (RAM_ASSERT ''prereq''))"

definition prereq_PD :: "State \<Rightarrow> Command option result" where
  "prereq_PD st = (case st of
       PowerUp \<Rightarrow> Inr (Some PDE)
     | ActPowerDown \<Rightarrow> Inr (Some PDE)
     | PrePowerDown \<Rightarrow> Inr (Some PDE)
     | SelfRefresh \<Rightarrow> Inr (Some SRX)
     | _ \<Rightarrow> Inl (RAM_ASSERT ''prereq''))"

definition prereq_SR :: "State \<Rightarrow> Command option result" where
  "prereq_SR st = (case st of
       PowerUp \<Rightarrow> Inr (Some SRE)
     | ActPowerDown \<Rightarrow> Inr (Some PDX)
     | PrePowerDown \<Rightarrow> Inr (Some PDX)
     | SelfRefresh \<Rightarrow> Inr (Some SRE)
     | _ \<Rightarrow> Inl (RAM_ASSERT ''prereq''))"

definition prereq :: "DRAM \<Rightarrow> Command \<Rightarrow> int \<Rightarrow> Command option result" where
  "prereq d cmd i =
     (let n = dram_node d
      in if dn_level n = Rank \<and> (cmd = RD \<or> cmd = WR) then prereq_rank (dn_state n)
         else if dn_level n = Bank \<and> (cmd = RD \<or> cmd = WR) then prereq_bank n cmd i
         else if dn_level n = Rank \<and> cmd = REF then Inr (Some (if all_banks_closed d then REF else PREA))
         else if dn_level n = Rank \<and> cmd = PDE then prereq_PD (dn_state n)
         else if dn_level n = Rank \<and> cmd = SRE then prereq_SR (dn_state n)
         else Inr None)"

text \<open>For both, \<open>None\<close> means that the table has no function.\<close>

definition rowhit :: "dram_node \<Rightarrow> Command \<Rightarrow> int \<Rightarrow> bool result option" where
  "rowhit n cmd i =
     (if dn_level n = Bank \<and> (cmd = RD \<or> cmd = WR)
      then Some (case dn_state n of
             Closed \<Rightarrow> Inr False
           | Opened \<Rightarrow> Inr (sm_find (dn_row_state n) i \<noteq> None)
           | _ \<Rightarrow> Inl (RAM_ASSERT ''rowhit''))
      else None)"

definition rowopen :: "dram_node \<Rightarrow> Command \<Rightarrow> int \<Rightarrow> bool result option" where
  "rowopen n cmd i =
     (if dn_level n = Bank \<and> (cmd = RD \<or> cmd = WR)
      then Some (case dn_state n of
             Closed \<Rightarrow> Inr False
           | Opened \<Rightarrow> Inr True
           | _ \<Rightarrow> Inl (RAM_ASSERT ''rowopen''))
      else None)"

definition close_node :: "dram_node \<Rightarrow> dram_node" where
  "close_node n = n\<lparr>dn_state := Closed, dn_row_state := []\<rparr>"

definition close_banks :: "DRAM list \<Rightarrow> DRAM list" where
  "close_banks = map (\<lambda>bg. DRAM_Node (dram_node bg)
     (map (\<lambda>b. DRAM_Node (close_node (dram_node b)) (dram_children b)) (dram_children bg)))"

definition lambda_fn :: "Command \<Rightarrow> int \<Rightarrow> DRAM \<Rightarrow> DRAM" where
  "lambda_fn cmd i d =
     (let n = dram_node d; cs = dram_children d
      in case dn_level n of
           Bank \<Rightarrow> (case cmd of
               ACT \<Rightarrow> DRAM_Node (n\<lparr>dn_state := Opened, dn_row_state := sm_put i Opened (dn_row_state n)\<rparr>) cs
             | PRE \<Rightarrow> DRAM_Node (close_node n) cs
             | RDA \<Rightarrow> DRAM_Node (close_node n) cs
             | WRA \<Rightarrow> DRAM_Node (close_node n) cs
             | _ \<Rightarrow> d)
         | Rank \<Rightarrow> (case cmd of
               PREA \<Rightarrow> DRAM_Node n (close_banks cs)
             | PDE \<Rightarrow> DRAM_Node (n\<lparr>dn_state := (if all_banks_closed d then PrePowerDown else ActPowerDown)\<rparr>) cs
             | PDX \<Rightarrow> DRAM_Node (n\<lparr>dn_state := PowerUp\<rparr>) cs
             | SRE \<Rightarrow> DRAM_Node (n\<lparr>dn_state := SelfRefresh\<rparr>) cs
             | SRX \<Rightarrow> DRAM_Node (n\<lparr>dn_state := PowerUp\<rparr>) cs
             | _ \<Rightarrow> d)
         | _ \<Rightarrow> d)"

section \<open>Queries\<close>

text \<open>An index that selects no child reads past the vector, an error of the model.\<close>

fun decode :: "Command \<Rightarrow> int list \<Rightarrow> DRAM \<Rightarrow> Command result" where
  "decode cmd addr (DRAM_Node n cs) =
     bind_r (prereq (DRAM_Node n cs) cmd (child_id n addr)) (\<lambda>pc.
       case pc of
         Some c \<Rightarrow> Inr c
       | None \<Rightarrow>
           if child_id n addr < 0 \<or> cs = [] then Inr cmd
           else if nat (child_id n addr) < length cs then decode cmd addr (cs ! nat (child_id n addr))
           else Inl (NULL_DEREF ''children''))"

fun check_cmd :: "Command \<Rightarrow> int list \<Rightarrow> int \<Rightarrow> DRAM \<Rightarrow> bool result" where
  "check_cmd cmd addr clk (DRAM_Node n cs) =
     (if dn_next n ! cmd_ix cmd \<noteq> -1 \<and> clk < dn_next n ! cmd_ix cmd then Inr False
      else if child_id n addr < 0 \<or> dn_level n = scope cmd \<or> cs = [] then Inr True
      else if nat (child_id n addr) < length cs then check_cmd cmd addr clk (cs ! nat (child_id n addr))
      else Inl (NULL_DEREF ''children''))"

fun check_row_hit :: "Command \<Rightarrow> int list \<Rightarrow> DRAM \<Rightarrow> bool result" where
  "check_row_hit cmd addr (DRAM_Node n cs) =
     (case rowhit n cmd (child_id n addr) of
        Some r \<Rightarrow> r
      | None \<Rightarrow>
          if child_id n addr < 0 \<or> cs = [] then Inr False
          else if nat (child_id n addr) < length cs then check_row_hit cmd addr (cs ! nat (child_id n addr))
          else Inl (NULL_DEREF ''children''))"

fun check_row_open :: "Command \<Rightarrow> int list \<Rightarrow> DRAM \<Rightarrow> bool result" where
  "check_row_open cmd addr (DRAM_Node n cs) =
     (case rowopen n cmd (child_id n addr) of
        Some r \<Rightarrow> r
      | None \<Rightarrow>
          if child_id n addr < 0 \<or> cs = [] then Inr False
          else if nat (child_id n addr) < length cs then check_row_open cmd addr (cs ! nat (child_id n addr))
          else Inl (NULL_DEREF ''children''))"

section \<open>Issuing a command\<close>

lemma size_rebuild: "size (DRAM_Node n (dram_children d)) = size d"
  by (cases d) simp

lemma size_close_banks [simp]: "size_list size (close_banks cs) = size_list size cs"
proof -
  have bs: "size \<circ> (\<lambda>b. DRAM_Node (f b) (dram_children b)) = size" for f
    by (rule ext) (simp only: comp_apply size_rebuild)
  have "size (DRAM_Node n (map (\<lambda>b. DRAM_Node (f b) (dram_children b)) (dram_children d))) = size d" for n f d
    by (cases d) (simp add: bs)
  then show ?thesis
    by (induction cs) (simp_all add: close_banks_def del: DRAM.size)
qed

lemma size_lambda_fn: "lambda_fn cmd i d = DRAM_Node n cs \<Longrightarrow> size_list size cs < size d"
  by (cases d) (auto simp: lambda_fn_def Let_def split: Level.splits Command.splits)

function update_state :: "Command \<Rightarrow> int list \<Rightarrow> DRAM \<Rightarrow> DRAM result" where
  "update_state cmd addr d =
     (case lambda_fn cmd (child_id (dram_node d) addr) d of DRAM_Node n cs \<Rightarrow>
        if dn_level n = scope cmd \<or> cs = [] then Inr (DRAM_Node n cs)
        else let k = child_id n addr
             in if 0 \<le> k \<and> nat k < length cs
                then bind_r (update_state cmd addr (cs ! nat k)) (\<lambda>c. Inr (DRAM_Node n (cs[nat k := c])))
                else Inl (NULL_DEREF ''children''))"
  by pat_completeness auto
termination
proof (relation "measure (\<lambda>(_, _, d). size d)")
  fix cmd addr d n cs and k :: int
  assume "lambda_fn cmd (child_id (dram_node d) addr) d = DRAM_Node n cs" "0 \<le> k \<and> nat k < length cs"
  then show "((cmd, addr, cs ! nat k), cmd, addr, d) \<in> measure (\<lambda>(_, _, d). size d)"
    using size_lambda_fn size_nth_child [of "nat k" cs] by fastforce
qed auto

declare update_state.simps [simp del]

text \<open>\<^verbatim>\<open>next[t.cmd] = max(next[t.cmd], future)\<close>\<close>

definition raise_next :: "TimingEntry \<Rightarrow> int \<Rightarrow> dram_node \<Rightarrow> dram_node" where
  "raise_next t future n =
     n\<lparr>dn_next := (dn_next n)[cmd_ix (te_cmd t) := max (dn_next n ! cmd_ix (te_cmd t)) future]\<rparr>"

fun timing_sibling :: "TimingEntry list \<Rightarrow> int \<Rightarrow> dram_node \<Rightarrow> dram_node result" where
  "timing_sibling [] clk n = Inr n"
| "timing_sibling (t # ts) clk n =
     (if \<not> te_sibling t then timing_sibling ts clk n
      else if te_dist t \<noteq> 1 then Inl (RAM_ASSERT ''t.dist == 1'')
      else timing_sibling ts clk (raise_next t (clk + te_val t) n))"

definition push_history :: "Command \<Rightarrow> int \<Rightarrow> dram_node \<Rightarrow> dram_node" where
  "push_history cmd clk n =
     (let h = dn_prev n ! cmd_ix cmd
      in if h \<noteq> [] then n\<lparr>dn_prev := (dn_prev n)[cmd_ix cmd := clk # butlast h]\<rparr> else n)"

text \<open>The statistics of a refresh.\<close>

definition begin_refresh :: "TimingEntry \<Rightarrow> int \<Rightarrow> dram_node \<Rightarrow> dram_node" where
  "begin_refresh t clk n =
     (let e = max (dn_end_of_refreshing n) (dn_next n ! cmd_ix (te_cmd t));
          n = n\<lparr>dn_begin_of_refreshing := clk, dn_end_of_refreshing := e,
                 dn_refresh_cycles := dn_refresh_cycles n + (e - clk)\<rparr>
      in if dn_cur_serving_requests n > 0
         then n\<lparr>dn_refresh_intervals := dn_refresh_intervals n @ [(clk, e)]\<rparr>
         else n)"

fun timing_target :: "Command \<Rightarrow> TimingEntry list \<Rightarrow> int \<Rightarrow> dram_node \<Rightarrow> dram_node result" where
  "timing_target cmd [] clk n = Inr n"
| "timing_target cmd (t # ts) clk n =
     (let past = dn_prev n ! cmd_ix cmd ! (te_dist t - 1)
      in if te_sibling t \<or> past < 0 then timing_target cmd ts clk n
         else let n = raise_next t (past + te_val t) n
              in if is_refreshing cmd \<and> is_opening (te_cmd t)
                 then if past \<noteq> clk then Inl (RAM_ASSERT ''past == clk'')
                      else timing_target cmd ts clk (begin_refresh t clk n)
                 else timing_target cmd ts clk n)"

fun update_timing :: "DDR4 \<Rightarrow> Command \<Rightarrow> int list \<Rightarrow> int \<Rightarrow> DRAM \<Rightarrow> DRAM result"
  and update_timings :: "DDR4 \<Rightarrow> Command \<Rightarrow> int list \<Rightarrow> int \<Rightarrow> DRAM list \<Rightarrow> DRAM list result" where
  "update_timing s cmd addr clk (DRAM_Node n cs) =
     (let ts = timing s (dn_level n) cmd
      in if dn_id n \<noteq> addr ! level_ix (dn_level n)
         then bind_r (timing_sibling ts clk n) (\<lambda>n. Inr (DRAM_Node n cs))
         else bind_r (timing_target cmd ts clk (push_history cmd clk n)) (\<lambda>n.
              bind_r (update_timings s cmd addr clk cs) (\<lambda>cs. Inr (DRAM_Node n cs))))"
| "update_timings s cmd addr clk [] = Inr []"
| "update_timings s cmd addr clk (c # cs) =
     bind_r (update_timing s cmd addr clk c) (\<lambda>c.
     bind_r (update_timings s cmd addr clk cs) (\<lambda>cs. Inr (c # cs)))"

definition set_cur_clk :: "int \<Rightarrow> DRAM \<Rightarrow> DRAM" where
  "set_cur_clk clk d = DRAM_Node ((dram_node d)\<lparr>dn_cur_clk := clk\<rparr>) (dram_children d)"

definition DRAM_update :: "DDR4 \<Rightarrow> Command \<Rightarrow> int list \<Rightarrow> int \<Rightarrow> DRAM \<Rightarrow> DRAM result" where
  "DRAM_update s cmd addr clk d =
     bind_r (update_state cmd addr (set_cur_clk clk d)) (update_timing s cmd addr clk)"

text \<open>The earliest time a command is ready, by a walk down to its scope.\<close>

fun get_next :: "Command \<Rightarrow> int list \<Rightarrow> DRAM \<Rightarrow> int result" where
  "get_next cmd addr (DRAM_Node n cs) =
     (let nx = dn_next n ! cmd_ix cmd
      in if level_ix (dn_level n) < level_ix (scope cmd) \<and> cs \<noteq> [] \<and> child_id n addr \<ge> 0
         then if nat (child_id n addr) < length cs
              then bind_r (get_next cmd addr (cs ! nat (child_id n addr))) (\<lambda>m. Inr (max nx m))
              else Inl (NULL_DEREF ''children'')
         else Inr nx)"

definition DRAM_get_next :: "Command \<Rightarrow> int list \<Rightarrow> DRAM \<Rightarrow> int result" where
  "DRAM_get_next cmd addr d = bind_r (get_next cmd addr d) (\<lambda>m. Inr (max (dn_cur_clk (dram_node d)) m))"

section \<open>Requests being served\<close>

definition serve_node :: "int \<Rightarrow> int \<Rightarrow> dram_node \<Rightarrow> dram_node result" where
  "serve_node delta clk n =
     (let n = (if dn_begin_of_cur_reqcnt n \<noteq> -1 \<and> dn_cur_serving_requests n > 0
               then n\<lparr>dn_serving_requests := dn_serving_requests n +
                        (clk - dn_begin_of_cur_reqcnt n) * dn_cur_serving_requests n,
                      dn_active_cycles := dn_active_cycles n + (clk - dn_begin_of_cur_reqcnt n)\<rparr>
               else n);
          n = n\<lparr>dn_begin_of_cur_reqcnt := clk, dn_cur_serving_requests := dn_cur_serving_requests n + delta\<rparr>
      in if \<not> dn_cur_serving_requests n \<ge> 0 then Inl (RAM_ASSERT ''cur_serving_requests >= 0'')
         else if delta = 1 \<and> dn_cur_serving_requests n = 1
         then let n = n\<lparr>dn_begin_of_serving := clk\<rparr>
              in Inr (if dn_end_of_refreshing n > clk
                      then n\<lparr>dn_active_refresh_overlap_cycles :=
                               dn_active_refresh_overlap_cycles n + (dn_end_of_refreshing n - clk)\<rparr>
                      else n)
         else if dn_cur_serving_requests n = 0
         then if dn_begin_of_serving n = -1 \<or> delta \<noteq> -1 then Inl (RAM_ASSERT ''begin_of_serving'')
              else Inr (n\<lparr>dn_active_cycles := dn_active_cycles n + (clk - dn_begin_of_cur_reqcnt n),
                          dn_end_of_serving := clk,
                          dn_active_refresh_overlap_cycles := dn_active_refresh_overlap_cycles n +
                            sum_list (map (\<lambda>(b, e). min clk e - b) (dn_refresh_intervals n)),
                          dn_refresh_intervals := []\<rparr>)
         else Inr n)"

fun update_serving_requests :: "int list \<Rightarrow> int \<Rightarrow> int \<Rightarrow> DRAM \<Rightarrow> DRAM result" where
  "update_serving_requests addr delta clk (DRAM_Node n cs) =
     (if dn_id n \<noteq> addr ! level_ix (dn_level n) \<or> \<not> (delta = 1 \<or> delta = -1)
      then Inl (RAM_ASSERT ''update_serving_requests'')
      else bind_r (serve_node delta clk n) (\<lambda>n'.
        if child_id n addr < 0 \<or> cs = [] \<or> level_ix (dn_level n) > level_ix Bank then Inr (DRAM_Node n' cs)
        else if nat (child_id n addr) < length cs
        then bind_r (update_serving_requests addr delta clk (cs ! nat (child_id n addr))) (\<lambda>c.
               Inr (DRAM_Node n' (cs[nat (child_id n addr) := c])))
        else Inl (NULL_DEREF ''children'')))"

end
