(* ===== verification/Ram_Ctrl.thy ===== *)
theory Ram_Ctrl
  imports Ram_DRAM CXL_Prelude "HOL-Library.List_Lexorder"
begin

text \<open>
  The memory controller of one channel: \<^verbatim>\<open>Controller<DDR4>\<close> of \<^verbatim>\<open>ramulator/src/Controller.h\<close> with its
  scheduler and row table (\<^verbatim>\<open>Scheduler.h\<close>) and its refresh (\<^verbatim>\<open>Refresh.h\<close>).

  The specification \<^verbatim>\<open>channel->spec\<close>, shared by all nodes, is an argument.  The row policy is the
  one the class fixes, \<^verbatim>\<open>Opened\<close>: it never names a victim and never asks for an automatic precharge.
  The callbacks of a tick are its second result, the requests they are called for in order.
\<close>

section \<open>State\<close>

record Queue =
  qu_q :: "Request list"
  qu_max :: nat

record rt_Entry =
  re_row :: int
  re_hits :: int
  re_timestamp :: int

datatype Scheduler_Type = FCFS | FRFCFS | FRFCFS_Cap | FRFCFS_PriorHit

record ctrl_stats =
  read_transaction_bytes :: int
  write_transaction_bytes :: int
  row_hits :: int
  row_misses :: int
  row_conflicts :: int
  read_row_hits :: "int list"
  read_row_misses :: "int list"
  read_row_conflicts :: "int list"
  write_row_hits :: "int list"
  write_row_misses :: "int list"
  write_row_conflicts :: "int list"
  useless_activates :: int
  read_latency_sum :: int
  req_queue_length_sum :: int
  read_req_queue_length_sum :: int
  write_req_queue_length_sum :: int

record Controller =
  ct_clk :: int
  ct_channel :: DRAM
  ct_sched_type :: Scheduler_Type
  ct_cap :: int
  ct_table :: "(int list, rt_Entry) smap"
  ct_ref_clk :: int
  ct_refreshed :: int
  ct_readq :: Queue
  ct_writeq :: Queue
  ct_actq :: Queue
  ct_otherq :: Queue
  ct_pending :: "Request list"
  ct_write_mode :: bool
  ct_wr_high_watermark :: frac
  ct_wr_low_watermark :: frac
  ct_stats :: ctrl_stats

definition Queue_new :: Queue where
  "Queue_new = \<lparr>qu_q = [], qu_max = 32\<rparr>"

text \<open>The statistics are \<^verbatim>\<open>double\<close>s that count events; they are integers here.\<close>

definition ctrl_stats_new :: "nat \<Rightarrow> ctrl_stats" where
  "ctrl_stats_new cores =
     \<lparr>read_transaction_bytes = 0, write_transaction_bytes = 0, row_hits = 0, row_misses = 0, row_conflicts = 0,
      read_row_hits = replicate cores 0, read_row_misses = replicate cores 0, read_row_conflicts = replicate cores 0,
      write_row_hits = replicate cores 0, write_row_misses = replicate cores 0, write_row_conflicts = replicate cores 0,
      useless_activates = 0, read_latency_sum = 0, req_queue_length_sum = 0, read_req_queue_length_sum = 0,
      write_req_queue_length_sum = 0\<rparr>"

definition Controller_new :: "nat \<Rightarrow> DRAM \<Rightarrow> Controller" where
  "Controller_new cores channel =
     \<lparr>ct_clk = 0, ct_channel = channel, ct_sched_type = FRFCFS_Cap, ct_cap = 16, ct_table = [],
      ct_ref_clk = 0, ct_refreshed = 0, ct_readq = Queue_new, ct_writeq = Queue_new, ct_actq = Queue_new,
      ct_otherq = Queue_new, ct_pending = [], ct_write_mode = False,
      ct_wr_high_watermark = float32 (8, 10), ct_wr_low_watermark = float32 (2, 10),
      ct_stats = ctrl_stats_new cores\<rparr>"

datatype queue_id = Readq | Writeq | Actq | Otherq

fun ct_queue :: "queue_id \<Rightarrow> Controller \<Rightarrow> Request list" where
  "ct_queue Readq c = qu_q (ct_readq c)"
| "ct_queue Writeq c = qu_q (ct_writeq c)"
| "ct_queue Actq c = qu_q (ct_actq c)"
| "ct_queue Otherq c = qu_q (ct_otherq c)"

fun ct_set_queue :: "queue_id \<Rightarrow> Request list \<Rightarrow> Controller \<Rightarrow> Controller" where
  "ct_set_queue Readq q c = c\<lparr>ct_readq := (ct_readq c)\<lparr>qu_q := q\<rparr>\<rparr>"
| "ct_set_queue Writeq q c = c\<lparr>ct_writeq := (ct_writeq c)\<lparr>qu_q := q\<rparr>\<rparr>"
| "ct_set_queue Actq q c = c\<lparr>ct_actq := (ct_actq c)\<lparr>qu_q := q\<rparr>\<rparr>"
| "ct_set_queue Otherq q c = c\<lparr>ct_otherq := (ct_otherq c)\<lparr>qu_q := q\<rparr>\<rparr>"

fun ct_max :: "queue_id \<Rightarrow> Controller \<Rightarrow> nat" where
  "ct_max Readq c = qu_max (ct_readq c)"
| "ct_max Writeq c = qu_max (ct_writeq c)"
| "ct_max Actq c = qu_max (ct_actq c)"
| "ct_max Otherq c = qu_max (ct_otherq c)"

fun get_queue :: "Request_Type \<Rightarrow> queue_id" where
  "get_queue READ = Readq"
| "get_queue WRITE = Writeq"
| "get_queue _ = Otherq"

section \<open>The row table\<close>

definition rt_rowgroup :: "int list \<Rightarrow> int list" where
  "rt_rowgroup av = take (level_ix Row) av"

definition rt_row :: "int list \<Rightarrow> int" where
  "rt_row av = av ! level_ix Row"

definition get_hits :: "(int list, rt_Entry) smap \<Rightarrow> int list \<Rightarrow> bool \<Rightarrow> int" where
  "get_hits t av to_opened_row =
     (case sm_find t (rt_rowgroup av) of
        None \<Rightarrow> 0
      | Some e \<Rightarrow> if \<not> to_opened_row \<and> re_row e \<noteq> rt_row av then 0 else re_hits e)"

definition get_open_row :: "(int list, rt_Entry) smap \<Rightarrow> int list \<Rightarrow> int" where
  "get_open_row t av = (case sm_find t (rt_rowgroup av) of None \<Rightarrow> -1 | Some e \<Rightarrow> re_row e)"

definition rt_access :: "int list \<Rightarrow> int \<Rightarrow> (int list, rt_Entry) smap \<Rightarrow> (int list, rt_Entry) smap result" where
  "rt_access av clk t =
     (case sm_find t (rt_rowgroup av) of
        None \<Rightarrow> Inl (RAM_ASSERT ''match != table.end()'')
      | Some e \<Rightarrow>
          if re_row e \<noteq> rt_row av then Inl (RAM_ASSERT ''match->second.row == row'')
          else Inr (sm_put (rt_rowgroup av) (e\<lparr>re_hits := re_hits e + 1, re_timestamp := clk\<rparr>) t))"

definition rt_close :: "Command \<Rightarrow> int list \<Rightarrow> (int list, rt_Entry) smap \<Rightarrow> (int list, rt_Entry) smap result" where
  "rt_close cmd av t =
     (let sc = (if is_accessing cmd then level_ix Row - 1 else level_ix (scope cmd));
          t' = filter (\<lambda>(k, _). take (sc + 1) k \<noteq> take (sc + 1) av) t
      in if length t' = length t then Inl (RAM_ASSERT ''n_rm > 0'') else Inr t')"

definition rowtable_update ::
  "Command \<Rightarrow> int list \<Rightarrow> int \<Rightarrow> (int list, rt_Entry) smap \<Rightarrow> (int list, rt_Entry) smap result" where
  "rowtable_update cmd av clk t =
     (let t = (if is_opening cmd
               then sm_insert (rt_rowgroup av) \<lparr>re_row = rt_row av, re_hits = 0, re_timestamp = clk\<rparr> t else t)
      in bind_r (if is_accessing cmd then rt_access av clk t else Inr t) (\<lambda>t.
           if is_closing cmd then rt_close cmd av t else Inr t))"

section \<open>Queries of the controller\<close>

definition get_first_cmd :: "Controller \<Rightarrow> Request \<Rightarrow> Command result" where
  "get_first_cmd c r = decode (translate (rq_type r)) (addr_vec r) (ct_channel c)"

definition is_ready_cmd :: "Controller \<Rightarrow> Command \<Rightarrow> int list \<Rightarrow> bool result" where
  "is_ready_cmd c cmd av = check_cmd cmd av (ct_clk c) (ct_channel c)"

definition is_ready :: "Controller \<Rightarrow> Request \<Rightarrow> bool result" where
  "is_ready c r = bind_r (get_first_cmd c r) (\<lambda>cmd. is_ready_cmd c cmd (addr_vec r))"

definition is_row_hit :: "Controller \<Rightarrow> Request \<Rightarrow> bool result" where
  "is_row_hit c r = check_row_hit (translate (rq_type r)) (addr_vec r) (ct_channel c)"

definition is_row_open :: "Controller \<Rightarrow> Request \<Rightarrow> bool result" where
  "is_row_open c r = check_row_open (translate (rq_type r)) (addr_vec r) (ct_channel c)"

section \<open>The scheduler\<close>

text \<open>What the policies prefer a request for; among equals the older one wins, and the first of
  two that arrived together.\<close>

definition sched_pref :: "Scheduler_Type \<Rightarrow> Controller \<Rightarrow> Request \<Rightarrow> bool result" where
  "sched_pref ty c r = (case ty of
       FCFS \<Rightarrow> Inr False
     | FRFCFS \<Rightarrow> is_ready c r
     | FRFCFS_Cap \<Rightarrow> bind_r (is_ready c r) (\<lambda>rd. Inr (rd \<and> get_hits (ct_table c) (addr_vec r) False \<le> ct_cap c))
     | FRFCFS_PriorHit \<Rightarrow> bind_r (is_ready c r) (\<lambda>rd. if rd then is_row_hit c r else Inr False))"

definition sched_compare :: "Scheduler_Type \<Rightarrow> Controller \<Rightarrow> Request list \<Rightarrow> nat \<Rightarrow> nat \<Rightarrow> nat result" where
  "sched_compare ty c q i j =
     bind_r (sched_pref ty c (q ! i)) (\<lambda>ready1.
     bind_r (sched_pref ty c (q ! j)) (\<lambda>ready2.
       Inr (if ready1 \<noteq> ready2 then if ready1 then i else j
            else if arrive (q ! i) \<le> arrive (q ! j) then i else j)))"

definition sched_best :: "Scheduler_Type \<Rightarrow> Controller \<Rightarrow> Request list \<Rightarrow> nat result" where
  "sched_best ty c q = fold_r (\<lambda>j i. sched_compare ty c q i j) [1 ..< length q] 0"

text \<open>The bank a request goes to, as \<^verbatim>\<open>FRFCFS_PriorHit\<close> compares it.\<close>

definition bank_of :: "Request \<Rightarrow> int list" where
  "bank_of r = take (level_ix (scope PRE) + 1) (addr_vec r)"

definition hit_banks :: "Controller \<Rightarrow> Request list \<Rightarrow> int list list result" where
  "hit_banks c q = fold_r (\<lambda>r hs. bind_r (is_row_hit c r) (\<lambda>h. Inr (if h then hs @ [bank_of r] else hs))) q []"

definition violates_hit :: "Controller \<Rightarrow> int list list \<Rightarrow> Request \<Rightarrow> bool result" where
  "violates_hit c hits r =
     bind_r (is_row_hit c r) (\<lambda>h. if h then Inr False
       else bind_r (is_row_open c r) (\<lambda>op. Inr (op \<and> bank_of r \<in> set hits)))"

definition prior_hit_rest :: "Controller \<Rightarrow> Request list \<Rightarrow> nat option result" where
  "prior_hit_rest c q =
     bind_r (hit_banks c q) (\<lambda>hits.
       fold_r (\<lambda>j head. bind_r (violates_hit c hits (q ! j)) (\<lambda>v.
           if v then Inr head
           else case head of
                  None \<Rightarrow> Inr (Some j)
                | Some i \<Rightarrow> bind_r (sched_compare FRFCFS c q i j) (\<lambda>k. Inr (Some k))))
         [0 ..< length q] None)"

definition sched_get_head :: "Controller \<Rightarrow> Request list \<Rightarrow> nat option result" where
  "sched_get_head c q =
     (if q = [] then Inr None
      else bind_r (sched_best (ct_sched_type c) c q) (\<lambda>i.
             if ct_sched_type c \<noteq> FRFCFS_PriorHit then Inr (Some i)
             else bind_r (is_ready c (q ! i)) (\<lambda>rd.
                  bind_r (if rd then is_row_hit c (q ! i) else Inr False) (\<lambda>h.
                    if h then Inr (Some i) else prior_hit_rest c q))))"

section \<open>Operations\<close>

definition ct_enqueue :: "Request \<Rightarrow> Controller \<Rightarrow> bool \<times> Controller" where
  "ct_enqueue r c =
     (let k = get_queue (rq_type r)
      in if ct_max k c = length (ct_queue k c) then (False, c)
         else let r = r\<lparr>arrive := ct_clk c\<rparr>
              in if rq_type r = READ \<and> list_ex (\<lambda>w. rq_addr r = rq_addr w) (ct_queue Writeq c)
                 then (True, c\<lparr>ct_pending := ct_pending c @ [r\<lparr>depart := ct_clk c + 1\<rparr>]\<rparr>)
                 else (True, ct_set_queue k (ct_queue k c @ [r]) c))"

text \<open>1.  Reads whose data has arrived: at most one per cycle.\<close>

definition ct_serve_reads :: "Controller \<Rightarrow> (Controller \<times> Request list) result" where
  "ct_serve_reads c =
     (case ct_pending c of
        [] \<Rightarrow> Inr (c, [])
      | r # rs \<Rightarrow>
          if depart r \<le> ct_clk c
          then bind_r (if depart r - arrive r > 1
                       then bind_r (update_serving_requests (addr_vec r) (-1) (ct_clk c) (ct_channel c)) (\<lambda>ch.
                              Inr (c\<lparr>ct_channel := ch,
                                     ct_stats := (ct_stats c)\<lparr>read_latency_sum := read_latency_sum (ct_stats c) + (depart r - arrive r)\<rparr>\<rparr>))
                       else Inr c)
                 (\<lambda>c. Inr (c\<lparr>ct_pending := rs\<rparr>, [r]))
          else Inr (c, []))"

text \<open>2.  Refresh; \<^verbatim>\<open>addr\<close> and \<^verbatim>\<open>req_id\<close> of a refresh request are not initialised and never read.\<close>

definition refresh_request :: "int \<Rightarrow> int \<Rightarrow> Request" where
  "refresh_request ch rank =
     \<lparr>is_first_command = True, rq_addr = 0, addr_vec = [ch, rank, -1, -1, -1, -1], coreid = 0, req_id = 0,
      rq_type = REFRESH, arrive = -1, depart = -1\<rparr>"

definition refresh_target :: "int \<Rightarrow> Controller \<Rightarrow> Controller result" where
  "refresh_target rank c =
     (case ct_enqueue (refresh_request (dn_id (dram_node (ct_channel c))) rank) c of
        (res, c) \<Rightarrow> if res then Inr c else Inl (RAM_ASSERT ''res''))"

definition inject_refresh :: "Controller \<Rightarrow> Controller result" where
  "inject_refresh c =
     bind_r (fold_r refresh_target (map (dn_id \<circ> dram_node) (dram_children (ct_channel c))) c) (\<lambda>c.
       Inr (c\<lparr>ct_refreshed := ct_ref_clk c\<rparr>))"

definition tick_ref :: "DDR4 \<Rightarrow> Controller \<Rightarrow> Controller result" where
  "tick_ref s c =
     (let c = c\<lparr>ct_ref_clk := ct_ref_clk c + 1\<rparr>
      in if ct_ref_clk c - ct_refreshed c \<ge> nREFI (speed_entry s) then inject_refresh c else Inr c)"

text \<open>3.  Reads or writes.\<close>

definition watermark :: "frac \<Rightarrow> nat \<Rightarrow> int" where
  "watermark w m = trunc (float32 (fmul w (float32 (int m, 1))))"

definition ct_switch_mode :: "Controller \<Rightarrow> Controller" where
  "ct_switch_mode c =
     (let w = int (length (ct_queue Writeq c)); rs = length (ct_queue Readq c)
      in if \<not> ct_write_mode c
         then if w > watermark (ct_wr_high_watermark c) (ct_max Writeq c) \<or> rs = 0 then c\<lparr>ct_write_mode := True\<rparr> else c
         else if w < watermark (ct_wr_low_watermark c) (ct_max Writeq c) \<and> rs \<noteq> 0 then c\<lparr>ct_write_mode := False\<rparr> else c)"

text \<open>4.  The command to issue: the queue, the position of the request in it, the command.\<close>

definition ct_try :: "Controller \<Rightarrow> queue_id \<Rightarrow> (queue_id \<times> nat \<times> Command) option result" where
  "ct_try c k =
     bind_r (sched_get_head c (ct_queue k c)) (\<lambda>h.
       case h of
         None \<Rightarrow> Inr None
       | Some i \<Rightarrow>
           bind_r (get_first_cmd c (ct_queue k c ! i)) (\<lambda>cmd.
           bind_r (is_ready_cmd c cmd (addr_vec (ct_queue k c ! i))) (\<lambda>ok.
             Inr (if ok then Some (k, i, cmd) else None))))"

definition ct_choose :: "Controller \<Rightarrow> (queue_id \<times> nat \<times> Command) option result" where
  "ct_choose c =
     bind_r (ct_try c Actq) (\<lambda>r.
       case r of
         Some x \<Rightarrow> Inr (Some x)
       | None \<Rightarrow> ct_try c (if ct_queue Otherq c \<noteq> [] then Otherq else if ct_write_mode c then Writeq else Readq))"

definition bump :: "nat \<Rightarrow> int list \<Rightarrow> int list" where
  "bump i xs = xs[i := xs ! i + 1]"

definition count_access :: "DDR4 \<Rightarrow> Request \<Rightarrow> bool \<Rightarrow> bool \<Rightarrow> ctrl_stats \<Rightarrow> ctrl_stats" where
  "count_access s r hit op st =
     (let tx = trunc_div (prefetch_size s * channel_width s) 8; k = nat (coreid r);
          st = (if hit then st\<lparr>row_hits := row_hits st + 1\<rparr>
                else if op then st\<lparr>row_conflicts := row_conflicts st + 1\<rparr>
                else st\<lparr>row_misses := row_misses st + 1\<rparr>)
      in if rq_type r = READ
         then (if hit then st\<lparr>read_row_hits := bump k (read_row_hits st)\<rparr>
               else if op then st\<lparr>read_row_conflicts := bump k (read_row_conflicts st)\<rparr>
               else st\<lparr>read_row_misses := bump k (read_row_misses st)\<rparr>)
              \<lparr>read_transaction_bytes := read_transaction_bytes st + tx\<rparr>
         else (if hit then st\<lparr>write_row_hits := bump k (write_row_hits st)\<rparr>
               else if op then st\<lparr>write_row_conflicts := bump k (write_row_conflicts st)\<rparr>
               else st\<lparr>write_row_misses := bump k (write_row_misses st)\<rparr>)
              \<lparr>write_transaction_bytes := write_transaction_bytes st + tx\<rparr>)"

definition ct_first_command :: "DDR4 \<Rightarrow> queue_id \<Rightarrow> nat \<Rightarrow> Controller \<Rightarrow> Controller result" where
  "ct_first_command s k i c =
     (let r = ct_queue k c ! i
      in if \<not> is_first_command r then Inr c
         else let r = r\<lparr>is_first_command := False\<rparr>; c = ct_set_queue k ((ct_queue k c)[i := r]) c
              in if rq_type r = READ \<or> rq_type r = WRITE
                 then bind_r (update_serving_requests (addr_vec r) 1 (ct_clk c) (ct_channel c)) (\<lambda>ch.
                      let c = c\<lparr>ct_channel := ch\<rparr>
                      in bind_r (is_row_hit c r) (\<lambda>hit.
                         bind_r (if hit then Inr False else is_row_open c r) (\<lambda>op.
                           Inr (c\<lparr>ct_stats := count_access s r hit op (ct_stats c)\<rparr>))))
                 else Inr c)"

definition issue_cmd :: "DDR4 \<Rightarrow> Command \<Rightarrow> int list \<Rightarrow> Controller \<Rightarrow> Controller result" where
  "issue_cmd s cmd av c =
     bind_r (is_ready_cmd c cmd av) (\<lambda>ok.
       if \<not> ok then Inl (RAM_ASSERT ''is_ready(cmd, addr_vec)'')
       else bind_r (DRAM_update s cmd av (ct_clk c) (ct_channel c)) (\<lambda>ch.
            let c = c\<lparr>ct_channel := ch\<rparr>;
                c = (if cmd = PRE \<and> get_hits (ct_table c) av True = 0
                     then c\<lparr>ct_stats := (ct_stats c)\<lparr>useless_activates := useless_activates (ct_stats c) + 1\<rparr>\<rparr> else c)
            in bind_r (rowtable_update cmd av (ct_clk c) (ct_table c)) (\<lambda>t. Inr (c\<lparr>ct_table := t\<rparr>))))"

definition remove_nth :: "nat \<Rightarrow> 'a list \<Rightarrow> 'a list" where
  "remove_nth i xs = take i xs @ drop (Suc i) xs"

text \<open>After the command: a request that was only activated moves to \<^verbatim>\<open>actq\<close>, one whose last command
  this was is finished.\<close>

definition ct_after_command :: "DDR4 \<Rightarrow> queue_id \<Rightarrow> nat \<Rightarrow> Command \<Rightarrow> Controller \<Rightarrow> (Controller \<times> Request list) result" where
  "ct_after_command s k i cmd c =
     (let r = ct_queue k c ! i
      in if cmd \<noteq> translate (rq_type r)
         then if is_opening cmd
              then let c = ct_set_queue Actq (ct_queue Actq c @ [r]) c
                   in Inr (ct_set_queue k (remove_nth i (ct_queue k c)) c, [])
              else Inr (c, [])
         else if rq_type r = READ
         then let c = c\<lparr>ct_pending := ct_pending c @ [r\<lparr>depart := ct_clk c + read_latency s\<rparr>]\<rparr>
              in Inr (ct_set_queue k (remove_nth i (ct_queue k c)) c, [])
         else if rq_type r = WRITE
         then bind_r (update_serving_requests (addr_vec r) (-1) (ct_clk c) (ct_channel c)) (\<lambda>ch.
                let c = c\<lparr>ct_channel := ch\<rparr>
                in Inr (ct_set_queue k (remove_nth i (ct_queue k c)) c, [r]))
         else Inr (ct_set_queue k (remove_nth i (ct_queue k c)) c, []))"

definition ct_schedule :: "DDR4 \<Rightarrow> Controller \<Rightarrow> (Controller \<times> Request list) result" where
  "ct_schedule s c =
     bind_r (ct_choose c) (\<lambda>x.
       case x of
         None \<Rightarrow> Inr (c, [])
       | Some (k, i, cmd) \<Rightarrow>
           bind_r (ct_first_command s k i c) (\<lambda>c.
           bind_r (issue_cmd s cmd (addr_vec (ct_queue k c ! i)) c) (ct_after_command s k i cmd)))"

definition ct_begin_tick :: "Controller \<Rightarrow> Controller" where
  "ct_begin_tick c =
     (let rn = int (length (ct_queue Readq c)); wn = int (length (ct_queue Writeq c));
          pn = int (length (ct_pending c)); st = ct_stats c
      in c\<lparr>ct_clk := ct_clk c + 1,
           ct_stats := st\<lparr>req_queue_length_sum := req_queue_length_sum st + rn + wn + pn,
                         read_req_queue_length_sum := read_req_queue_length_sum st + rn + pn,
                         write_req_queue_length_sum := write_req_queue_length_sum st + wn\<rparr>\<rparr>)"

definition ct_tick :: "DDR4 \<Rightarrow> Controller \<Rightarrow> (Controller \<times> Request list) result" where
  "ct_tick s c =
     bind_r (ct_serve_reads (ct_begin_tick c)) (\<lambda>(c, done1).
     bind_r (tick_ref s c) (\<lambda>c.
     bind_r (ct_schedule s (ct_switch_mode c)) (\<lambda>(c, done2). Inr (c, done1 @ done2))))"

definition ct_is_active :: "Controller \<Rightarrow> bool" where
  "ct_is_active c \<longleftrightarrow> dn_cur_serving_requests (dram_node (ct_channel c)) > 0"

end
