(* ===== verification/Ram_Memory.thy ===== *)
theory Ram_Memory
  imports Ram_Ctrl
begin

text \<open>
  The memory, \<^verbatim>\<open>Memory<DDR4, Controller>\<close> of \<^verbatim>\<open>ramulator/src/Memory.h\<close>: construction, the mapping of
  addresses to channel, rank, bank group, bank, row and column, and the operations the
  CXL layer calls.  For DDR4 the mapping file is not used; the translation of the configuration is
  \<^verbatim>\<open>None\<close>.
\<close>

section \<open>State\<close>

datatype mapping_Type = ChRaBaRoCo | RoBaRaCoCh

record mem_stats =
  num_dram_cycles :: int
  num_incoming_requests :: int
  num_read_requests :: "int list"
  num_write_requests :: "int list"
  ramulator_active_cycles :: int
  incoming_requests_per_channel :: "int list"
  incoming_read_reqs_per_channel :: "int list"
  in_queue_req_num_sum :: int
  in_queue_read_req_num_sum :: int
  in_queue_write_req_num_sum :: int

record Memory =
  me_spec :: DDR4
  me_ctrls :: "Controller list"
  me_type :: mapping_Type
  me_addr_bits :: "nat list"
  me_tx_bits :: nat
  me_max_address :: int
  me_stats :: mem_stats

text \<open>\<^verbatim>\<open>calc_log2\<close> counts the shifts until nothing is left.\<close>

definition calc_log2 :: "int \<Rightarrow> nat" where
  "calc_log2 v = ilog2 v"

definition is_pow2_or_0 :: "int \<Rightarrow> bool" where
  "is_pow2_or_0 v \<longleftrightarrow> v = 0 \<or> 2 ^ calc_log2 v = v"

definition mem_stats_new :: "nat \<Rightarrow> nat \<Rightarrow> mem_stats" where
  "mem_stats_new cores channels =
     \<lparr>num_dram_cycles = 0, num_incoming_requests = 0, num_read_requests = replicate cores 0,
      num_write_requests = replicate cores 0, ramulator_active_cycles = 0,
      incoming_requests_per_channel = replicate channels 0, incoming_read_reqs_per_channel = replicate channels 0,
      in_queue_req_num_sum = 0, in_queue_read_req_num_sum = 0, in_queue_write_req_num_sum = 0\<rparr>"

definition Memory_new :: "DDR4 \<Rightarrow> nat \<Rightarrow> Controller list \<Rightarrow> Memory result" where
  "Memory_new s cores ctrls =
     (let sz = org_count (org_entry s); tx = trunc_div (prefetch_size s * channel_width s) 8;
          bits = map calc_log2 sz
      in if \<not> is_pow2_or_0 (sz ! 0) \<or> \<not> is_pow2_or_0 (sz ! 1) then Inl (RAM_ASSERT ''(sz & (sz - 1)) == 0'')
         else if 2 ^ calc_log2 tx \<noteq> tx then Inl (RAM_ASSERT ''(1<<tx_bits) == tx'')
         else Inr \<lparr>me_spec = s, me_ctrls = ctrls, me_type = RoBaRaCoCh,
                   me_addr_bits = bits[5 := bits ! 5 - calc_log2 (prefetch_size s)], me_tx_bits = calc_log2 tx,
                   me_max_address = trunc_div (channel_width s) 8 * prod_list sz,
                   me_stats = mem_stats_new cores (nat (sz ! 0))\<rparr>)"

text \<open>\<^verbatim>\<open>RamDevice::ramulator_init\<close>: one controller per channel.\<close>

definition make_memory :: "Org \<Rightarrow> Speed \<Rightarrow> int \<Rightarrow> int \<Rightarrow> Memory result" where
  "make_memory org speed C R =
     bind_r (DDR4_new org speed) (\<lambda>s.
       let s = set_rank_number R (set_channel_number C s)
       in Memory_new s 1 (map (\<lambda>c. Controller_new 1 (DRAM_new s Channel (int c))) [0 ..< nat C]))"

section \<open>Addresses\<close>

text \<open>\<^verbatim>\<open>slice_lower_bits\<close> takes the lower bits off the address, a signed \<^verbatim>\<open>long\<close> whose shift is
  arithmetic; \<open>slices\<close> does so for the levels of a list in turn.\<close>

definition slice_lower_bits :: "int \<Rightarrow> nat \<Rightarrow> int \<times> int" where
  "slice_lower_bits a bits = (a mod 2 ^ bits, a div 2 ^ bits)"

fun slices :: "nat list \<Rightarrow> int \<Rightarrow> nat list \<Rightarrow> int list \<Rightarrow> int list" where
  "slices bits a [] v = v"
| "slices bits a (l # ls) v = (case slice_lower_bits a (bits ! l) of (x, a) \<Rightarrow> slices bits a ls (v[l := x]))"

fun slice_order :: "mapping_Type \<Rightarrow> nat list" where
  "slice_order ChRaBaRoCo = [5, 4, 3, 2, 1, 0]"
| "slice_order RoBaRaCoCh = [0, 5, 1, 2, 3, 4]"

definition map_address :: "Memory \<Rightarrow> u64 \<Rightarrow> int list" where
  "map_address m a =
     slices (me_addr_bits m) (sint a div 2 ^ me_tx_bits m) (slice_order (me_type m)) (replicate 6 0)"

section \<open>Operations\<close>

definition Memory_send :: "Memory \<Rightarrow> Request \<Rightarrow> (Memory \<times> bool) result" where
  "Memory_send m r =
     (let r = r\<lparr>addr_vec := map_address m (rq_addr r)\<rparr>; k = nat (addr_vec r ! 0); st = me_stats m; core = nat (coreid r)
      in if k < length (me_ctrls m)
         then case ct_enqueue r (me_ctrls m ! k) of (ok, c) \<Rightarrow>
           if ok
           then let st = st\<lparr>num_incoming_requests := num_incoming_requests st + 1,
                            incoming_requests_per_channel := bump k (incoming_requests_per_channel st)\<rparr>;
                    st = (if rq_type r = READ
                          then st\<lparr>num_read_requests := bump core (num_read_requests st),
                                  incoming_read_reqs_per_channel := bump k (incoming_read_reqs_per_channel st)\<rparr>
                          else if rq_type r = WRITE
                          then st\<lparr>num_write_requests := bump core (num_write_requests st)\<rparr> else st)
                in Inr (m\<lparr>me_ctrls := (me_ctrls m)[k := c], me_stats := st\<rparr>, True)
           else Inr (m\<lparr>me_ctrls := (me_ctrls m)[k := c]\<rparr>, False)
         else Inl (NULL_DEREF ''ctrls''))"

fun ctrls_tick :: "DDR4 \<Rightarrow> Controller list \<Rightarrow> (bool \<times> Controller list \<times> Request list) result" where
  "ctrls_tick s [] = Inr (False, [], [])"
| "ctrls_tick s (c # cs) =
     bind_r (ct_tick s c) (\<lambda>(c', done1).
     bind_r (ctrls_tick s cs) (\<lambda>(act, cs, done2).
       Inr (ct_is_active c \<or> act, c' # cs, done1 @ done2)))"

definition Memory_tick :: "Memory \<Rightarrow> (Memory \<times> Request list) result" where
  "Memory_tick m =
     (let n = (\<lambda>f. sum_list (map (\<lambda>c. int (f c)) (me_ctrls m)));
          rd = n (\<lambda>c. length (ct_queue Readq c)); wr = n (\<lambda>c. length (ct_queue Writeq c));
          pe = n (\<lambda>c. length (ct_pending c)); st = me_stats m;
          st = st\<lparr>num_dram_cycles := num_dram_cycles st + 1,
                  in_queue_req_num_sum := in_queue_req_num_sum st + (rd + wr + pe),
                  in_queue_read_req_num_sum := in_queue_read_req_num_sum st + (rd + pe),
                  in_queue_write_req_num_sum := in_queue_write_req_num_sum st + wr\<rparr>
      in bind_r (ctrls_tick (me_spec m) (me_ctrls m)) (\<lambda>(act, cs, done).
           Inr (m\<lparr>me_ctrls := cs,
                  me_stats := (if act then st\<lparr>ramulator_active_cycles := ramulator_active_cycles st + 1\<rparr> else st)\<rparr>, done)))"

definition ct_pending_requests :: "Controller \<Rightarrow> nat" where
  "ct_pending_requests c = length (ct_queue Readq c) + length (ct_queue Writeq c) + length (ct_queue Otherq c) +
     length (ct_queue Actq c) + length (ct_pending c)"

definition Memory_pending_requests :: "Memory \<Rightarrow> int" where
  "Memory_pending_requests m = sum_list (map (int \<circ> ct_pending_requests) (me_ctrls m))"

definition set_high_writeq_watermark :: "frac \<Rightarrow> Memory \<Rightarrow> Memory" where
  "set_high_writeq_watermark w m = m\<lparr>me_ctrls := map (\<lambda>c. c\<lparr>ct_wr_high_watermark := w\<rparr>) (me_ctrls m)\<rparr>"

definition set_low_writeq_watermark :: "frac \<Rightarrow> Memory \<Rightarrow> Memory" where
  "set_low_writeq_watermark w m = m\<lparr>me_ctrls := map (\<lambda>c. c\<lparr>ct_wr_low_watermark := w\<rparr>) (me_ctrls m)\<rparr>"

definition ramulator_ops :: "Memory mem_ops" where
  "ramulator_ops =
     \<lparr>mem_send = Memory_send, mem_tick = Memory_tick, mem_pending_requests = Memory_pending_requests,
      mem_drain_writes = set_high_writeq_watermark (0, 1)\<rparr>"

end
