(* ===== verification/Ram_Flow.thy ===== *)
theory Ram_Flow
  imports Ram_Memory CXL_Mem
begin

text \<open>
  The way of a request through the DRAM model: from its queue, over \<^verbatim>\<open>actq\<close> when its row was opened
  for it, to \<^verbatim>\<open>pending\<close> if it is a read, and out through its callback.  A tick neither loses nor
  duplicates a request, which is what the CXL layer relies on.
\<close>

section \<open>The scheduler picks from its queue\<close>

lemma sched_compare_in:
  "sched_compare ty c q i j = Inr k \<Longrightarrow> k = i \<or> k = j"
  by (auto simp: sched_compare_def split: if_splits)

lemma sched_best_less:
  assumes "sched_best ty c q = Inr i" "q \<noteq> []"
  shows "i < length q"
proof (rule fold_r_inv [where P = "\<lambda>i. i < length q"])
  show "fold_r (\<lambda>j i. sched_compare ty c q i j) [1 ..< length q] 0 = Inr i" using assms(1) by (simp add: sched_best_def)
qed (use assms(2) sched_compare_in in fastforce)+

lemma prior_hit_rest_less:
  assumes "prior_hit_rest c q = Inr (Some i)"
  shows "i < length q"
proof -
  obtain hits where "fold_r (\<lambda>j head. bind_r (violates_hit c hits (q ! j)) (\<lambda>v.
           if v then Inr head
           else case head of
                  None \<Rightarrow> Inr (Some j)
                | Some i \<Rightarrow> bind_r (sched_compare FRFCFS c q i j) (\<lambda>k. Inr (Some k))))
         [0 ..< length q] None = Inr (Some i)"
    using assms by (auto simp: prior_hit_rest_def)
  then have "case Some i of None \<Rightarrow> True | Some i \<Rightarrow> i < length q"
    by (rule fold_r_inv [where P = "\<lambda>h. case h of None \<Rightarrow> True | Some i \<Rightarrow> i < length q"])
      (auto split: if_splits option.splits dest: sched_compare_in)
  then show ?thesis by simp
qed

lemma sched_get_head_less: "sched_get_head c q = Inr (Some i) \<Longrightarrow> i < length q"
  by (auto simp: sched_get_head_def split: if_splits dest: sched_best_less prior_hit_rest_less)

lemma ct_try_less:
  "ct_try c k = Inr (Some (k', i, cmd)) \<Longrightarrow> k' = k \<and> i < length (ct_queue k c) \<and>
     get_first_cmd c (ct_queue k c ! i) = Inr cmd \<and> is_ready_cmd c cmd (addr_vec (ct_queue k c ! i)) = Inr True"
  by (auto simp: ct_try_def split: option.splits if_splits dest: sched_get_head_less)

lemma ct_choose_less:
  "ct_choose c = Inr (Some (k, i, cmd)) \<Longrightarrow> i < length (ct_queue k c) \<and>
     get_first_cmd c (ct_queue k c ! i) = Inr cmd \<and> is_ready_cmd c cmd (addr_vec (ct_queue k c ! i)) = Inr True"
  by (auto simp: ct_choose_def split: option.splits dest!: ct_try_less)

section \<open>What a controller holds\<close>

lemma ct_queue_set [simp]: "ct_queue k' (ct_set_queue k q c) = (if k' = k then q else ct_queue k' c)"
  by (cases k; cases k') simp_all

lemma ct_set_queue_frame [simp]:
  "ct_pending (ct_set_queue k q c) = ct_pending c" "ct_channel (ct_set_queue k q c) = ct_channel c"
  "ct_clk (ct_set_queue k q c) = ct_clk c" "ct_table (ct_set_queue k q c) = ct_table c"
  "ct_max k' (ct_set_queue k q c) = ct_max k' c" "ct_ref_clk (ct_set_queue k q c) = ct_ref_clk c"
  "ct_refreshed (ct_set_queue k q c) = ct_refreshed c"
  by (cases k; simp; cases k'; simp)+

definition ct_requests :: "Controller \<Rightarrow> Request list" where
  "ct_requests c = ct_queue Readq c @ ct_queue Writeq c @ ct_queue Actq c @ ct_pending c"

definition ct_held :: "Controller \<Rightarrow> u64 multiset" where
  "ct_held c = image_mset req_id (mset (ct_requests c))"

text \<open>Every queue has requests of its kind only.\<close>

definition ct_typed :: "Controller \<Rightarrow> bool" where
  "ct_typed c \<longleftrightarrow> list_all (\<lambda>r. rq_type r = READ) (ct_queue Readq c) \<and>
     list_all (\<lambda>r. rq_type r = WRITE) (ct_queue Writeq c) \<and>
     list_all (\<lambda>r. rq_type r = READ \<or> rq_type r = WRITE) (ct_queue Actq c) \<and>
     list_all (\<lambda>r. rq_type r = REFRESH) (ct_queue Otherq c) \<and>
     list_all (\<lambda>r. rq_type r = READ) (ct_pending c)"

text \<open>What neither of them looks at.\<close>

lemma ct_frame:
  assumes "\<And>k. ct_queue k c' = ct_queue k c" "ct_pending c' = ct_pending c"
  shows "ct_held c' = ct_held c" "ct_typed c' = ct_typed c"
  using assms by (simp_all add: ct_held_def ct_requests_def ct_typed_def)

lemma ct_queue_frame [simp]:
  "ct_queue k (c\<lparr>ct_channel := x1\<rparr>) = ct_queue k c" "ct_queue k (c\<lparr>ct_stats := x2\<rparr>) = ct_queue k c"
  "ct_queue k (c\<lparr>ct_table := x3\<rparr>) = ct_queue k c" "ct_queue k (c\<lparr>ct_pending := x4\<rparr>) = ct_queue k c"
  "ct_queue k (c\<lparr>ct_clk := x5\<rparr>) = ct_queue k c" "ct_queue k (c\<lparr>ct_ref_clk := x6\<rparr>) = ct_queue k c"
  "ct_queue k (c\<lparr>ct_refreshed := x6\<rparr>) = ct_queue k c" "ct_queue k (c\<lparr>ct_write_mode := x7\<rparr>) = ct_queue k c"
  "ct_queue k (c\<lparr>ct_wr_high_watermark := x8\<rparr>) = ct_queue k c"
  by (cases k; simp)+

declare ct_queue.simps [simp del] ct_set_queue.simps [simp del] ct_max.simps [simp del]

lemma typed_cong:
  assumes "\<And>k. map rq_type (ct_queue k c') = map rq_type (ct_queue k c)" "ct_pending c' = ct_pending c"
  shows "ct_typed c' = ct_typed c"
proof -
  have "list_all (\<lambda>r. P (rq_type r)) q = list_all P (map rq_type q)" for P q by (simp add: list_all_iff)
  note m = this [of "\<lambda>t. t = READ"] this [of "\<lambda>t. t = WRITE"] this [of "\<lambda>t. t = READ \<or> t = WRITE"] this [of "\<lambda>t. t = REFRESH"]
  show ?thesis unfolding ct_typed_def m using assms by simp
qed

lemma enqueue_held:
  assumes "ct_enqueue r c = (ok, c')" "rq_type r = READ \<or> rq_type r = WRITE" "ct_typed c"
  shows "ct_typed c'" "ct_held c' = ct_held c + (if ok then {#req_id r#} else {#})"
  using assms
  by (auto simp: ct_enqueue_def Let_def ct_typed_def ct_held_def ct_requests_def split: if_splits)

lemma enqueue_refresh_held:
  assumes "ct_enqueue r c = (ok, c')" "rq_type r = REFRESH" "ct_typed c"
  shows "ct_typed c'" "ct_held c' = ct_held c"
  using assms
  by (auto simp: ct_enqueue_def Let_def ct_typed_def ct_held_def ct_requests_def split: if_splits)

lemma serve_reads_held:
  assumes "ct_serve_reads c = Inr (c', done)" "ct_typed c"
  shows "ct_typed c'" "ct_held c = ct_held c' + mset (map req_id done)"
  using assms
  by (auto simp: ct_serve_reads_def ct_typed_def ct_held_def ct_requests_def split: list.splits if_splits)

lemma tick_ref_held:
  assumes "tick_ref s c = Inr c'" "ct_typed c"
  shows "ct_typed c' \<and> ct_held c' = ct_held c"
proof -
  let ?c = "c\<lparr>ct_ref_clk := ct_ref_clk c + 1\<rparr>"
  have c: "ct_typed ?c \<and> ct_held ?c = ct_held c" using assms(2) ct_frame [of ?c c] by simp
  show ?thesis
  proof (cases "ct_ref_clk ?c - ct_refreshed ?c \<ge> nREFI (speed_entry s)")
    case True
    then obtain c1 where f: "fold_r refresh_target (map (dn_id \<circ> dram_node) (dram_children (ct_channel ?c))) ?c = Inr c1"
      and c': "c' = c1\<lparr>ct_refreshed := ct_ref_clk c1\<rparr>"
      using assms(1) by (auto simp: tick_ref_def inject_refresh_def Let_def)
    from f have "ct_typed c1 \<and> ct_held c1 = ct_held c"
    proof (rule fold_r_inv)
      fix r c1 c2 assume c1: "ct_typed c1 \<and> ct_held c1 = ct_held c" and "refresh_target r c1 = Inr c2"
      then have "ct_enqueue (refresh_request (dn_id (dram_node (ct_channel c1))) r) c1 = (True, c2)"
        by (auto simp: refresh_target_def split: prod.splits if_splits)
      from enqueue_refresh_held [OF this] c1 show "ct_typed c2 \<and> ct_held c2 = ct_held c"
        by (simp add: refresh_request_def)
    qed (rule c)
    then show ?thesis using ct_frame [of c' c1] by (simp add: c')
  next
    case False
    then show ?thesis using assms(1) c by (auto simp: tick_ref_def Let_def)
  qed
qed

section \<open>The scheduled command\<close>

lemma mset_remove_nth: "i < length xs \<Longrightarrow> mset xs = add_mset (xs ! i) (mset (remove_nth i xs))"
  using arg_cong [OF id_take_nth_drop, of i xs mset] by (simp add: remove_nth_def)

lemma set_remove_nth: "x \<in> set (remove_nth i xs) \<Longrightarrow> x \<in> set xs"
  by (auto simp: remove_nth_def dest: in_set_takeD in_set_dropD)

lemma remove_nth_append: "i < length xs \<Longrightarrow> remove_nth i (xs @ ys) = remove_nth i xs @ ys"
  by (simp add: remove_nth_def)

lemma decode_REF: "decode REF addr d = Inr cmd \<Longrightarrow> cmd = REF \<or> cmd = PREA"
  by (induction REF addr d rule: decode.induct)
    (auto simp: prereq_def Let_def split: option.splits if_splits)

lemma first_command_frame:
  assumes "ct_first_command s k i c = Inr c'" "i < length (ct_queue k c)"
  shows "\<exists>r. ct_queue k c' = (ct_queue k c)[i := r] \<and> rq_type r = rq_type (ct_queue k c ! i) \<and>
      req_id r = req_id (ct_queue k c ! i) \<and> addr_vec r = addr_vec (ct_queue k c ! i) \<and> rq_addr r = rq_addr (ct_queue k c ! i)"
    "\<And>k'. k' \<noteq> k \<Longrightarrow> ct_queue k' c' = ct_queue k' c" "ct_pending c' = ct_pending c"
  using assms by (auto simp: ct_first_command_def Let_def split: if_splits intro: exI [of _ "ct_queue k c ! i"])

lemma map_update_same: "i < length xs \<Longrightarrow> f r = f (xs ! i) \<Longrightarrow> map f (xs[i := r]) = map f xs"
  by (metis list_update_id map_update nth_map)

lemma issue_cmd_frame:
  assumes "issue_cmd s cmd av c = Inr c'"
  shows "ct_queue k c' = ct_queue k c" "ct_pending c' = ct_pending c"
  using assms by (auto simp: issue_cmd_def Let_def split: if_splits)

lemma held_queues:
  "ct_held c = image_mset req_id (mset (ct_queue Readq c)) + image_mset req_id (mset (ct_queue Writeq c)) +
     image_mset req_id (mset (ct_queue Actq c)) + image_mset req_id (mset (ct_pending c))"
  by (simp add: ct_held_def ct_requests_def)

lemma first_command_held:
  assumes "ct_first_command s k i c = Inr c'" "i < length (ct_queue k c)" "ct_typed c"
  shows "ct_typed c' \<and> ct_held c' = ct_held c"
proof -
  obtain r where r: "ct_queue k c' = (ct_queue k c)[i := r]" "rq_type r = rq_type (ct_queue k c ! i)"
    "req_id r = req_id (ct_queue k c ! i)"
    using first_command_frame(1) [OF assms(1,2)] by blast
  have ids: "image_mset req_id (mset (ct_queue k' c')) = image_mset req_id (mset (ct_queue k' c))" for k'
    using r map_update_same [of i "ct_queue k c" req_id r] assms(2) first_command_frame(2) [OF assms(1,2)]
    by (cases "k' = k") (auto simp flip: mset_map)
  have "map rq_type (ct_queue k' c') = map rq_type (ct_queue k' c)" for k'
    using r map_update_same [of i "ct_queue k c" rq_type r] assms(2) first_command_frame(2) [OF assms(1,2)]
    by (cases "k' = k") auto
  then have "ct_typed c' = ct_typed c"
    using first_command_frame(3) [OF assms(1,2)] by (rule typed_cong)
  then show ?thesis using ids assms(3) first_command_frame(3) [OF assms(1,2)]
    by (simp add: held_queues)
qed

text \<open>Taking a request out of its queue, and putting it where it goes next.\<close>

lemma take_out_held:
  assumes "i < length (ct_queue k c)" "ct_typed c"
  defines "c1 \<equiv> ct_set_queue k (remove_nth i (ct_queue k c)) c"
  shows "ct_typed c1" "ct_held c = ct_held c1 + (if k = Otherq then {#} else {#req_id (ct_queue k c ! i)#})"
    "rq_type (ct_queue k c ! i) = REFRESH \<longleftrightarrow> k = Otherq"
    "k \<noteq> Otherq \<Longrightarrow> rq_type (ct_queue k c ! i) = READ \<or> rq_type (ct_queue k c ! i) = WRITE"
proof -
  have ids: "image_mset req_id (mset (ct_queue k c)) =
      add_mset (req_id (ct_queue k c ! i)) (image_mset req_id (mset (remove_nth i (ct_queue k c))))"
    using arg_cong [OF mset_remove_nth [OF assms(1)], of "image_mset req_id"] by simp
  then show "ct_held c = ct_held c1 + (if k = Otherq then {#} else {#req_id (ct_queue k c ! i)#})"
    unfolding c1_def by (cases k) (simp_all add: held_queues)
  have "list_all P (ct_queue k c) \<Longrightarrow> list_all P (remove_nth i (ct_queue k c))" for P
    by (auto simp: list_all_iff dest: set_remove_nth)
  then show "ct_typed c1" using assms(2) unfolding c1_def by (cases k) (simp_all add: ct_typed_def)
  have "ct_queue k c ! i \<in> set (ct_queue k c)" using assms(1) by simp
  then show "rq_type (ct_queue k c ! i) = REFRESH \<longleftrightarrow> k = Otherq"
    "k \<noteq> Otherq \<Longrightarrow> rq_type (ct_queue k c ! i) = READ \<or> rq_type (ct_queue k c ! i) = WRITE"
    using assms(2) by (cases k; auto simp: ct_typed_def list_all_iff)+
qed

lemma put_act_held:
  assumes "\<And>k. ct_queue k c' = (if k = Actq then ct_queue Actq c @ [r] else ct_queue k c)" "ct_pending c' = ct_pending c"
    "rq_type r = READ \<or> rq_type r = WRITE" "ct_typed c"
  shows "ct_typed c' \<and> ct_held c' = ct_held c + {#req_id r#}"
  using assms by (simp add: ct_typed_def held_queues)

lemma put_pending_held:
  assumes "\<And>k. ct_queue k c' = ct_queue k c" "ct_pending c' = ct_pending c @ [r]" "rq_type r = READ" "ct_typed c"
  shows "ct_typed c' \<and> ct_held c' = ct_held c + {#req_id r#}"
  using assms by (simp add: ct_typed_def held_queues)

lemma after_command_held:
  assumes ret: "ct_after_command s k i cmd c = Inr (c', done)" and i: "i < length (ct_queue k c)" and "ct_typed c"
    and ref: "rq_type (ct_queue k c ! i) = REFRESH \<Longrightarrow> \<not> is_opening cmd"
  shows "ct_typed c' \<and> ct_held c = ct_held c' + mset (map req_id done)"
proof -
  let ?r = "ct_queue k c ! i" and ?c1 = "ct_set_queue k (remove_nth i (ct_queue k c)) c"
  note out = take_out_held [OF i assms(3)]
  consider "cmd \<noteq> translate (rq_type ?r)" "is_opening cmd" | "cmd \<noteq> translate (rq_type ?r)" "\<not> is_opening cmd"
    | "cmd = translate (rq_type ?r)" "rq_type ?r = READ" | "cmd = translate (rq_type ?r)" "rq_type ?r = WRITE"
    | "cmd = translate (rq_type ?r)" "rq_type ?r \<noteq> READ" "rq_type ?r \<noteq> WRITE" by blast
  then show ?thesis
  proof cases
    case 1
    then have k: "k \<noteq> Otherq" using ref out(3) by blast
    have "ct_queue k' c' = (if k' = Actq then ct_queue Actq ?c1 @ [?r] else ct_queue k' ?c1)" for k'
      using 1 ret remove_nth_append [OF i, of "[?r]"] by (auto simp: ct_after_command_def Let_def)
    moreover have "done = []" "ct_pending c' = ct_pending ?c1" using 1 ret by (auto simp: ct_after_command_def Let_def)
    ultimately show ?thesis using put_act_held [of c' ?c1 ?r] out k by simp
  next
    case 2
    then show ?thesis using ret assms(3) by (auto simp: ct_after_command_def Let_def)
  next
    case 3
    then have "k \<noteq> Otherq" using out(3) by auto
    moreover have "ct_queue k' c' = ct_queue k' ?c1" for k'
      using 3 ret by (auto simp: ct_after_command_def Let_def)
    moreover have "done = []" "ct_pending c' = ct_pending ?c1 @ [?r\<lparr>depart := ct_clk c + read_latency s\<rparr>]"
      using 3 ret by (auto simp: ct_after_command_def Let_def)
    ultimately show ?thesis using put_pending_held [of c' ?c1 "?r\<lparr>depart := ct_clk c + read_latency s\<rparr>"] out 3 by simp
  next
    case 4
    then have "k \<noteq> Otherq" using out(3) by auto
    moreover have "done = [?r]" "\<And>k'. ct_queue k' c' = ct_queue k' ?c1" "ct_pending c' = ct_pending ?c1"
      using 4 ret by (auto simp: ct_after_command_def Let_def)
    ultimately show ?thesis using ct_frame [of c' ?c1] out by simp
  next
    case 5
    then have "c' = ?c1" "done = []" using ret by (auto simp: ct_after_command_def Let_def)
    then show ?thesis using out 5 by auto
  qed
qed

lemma schedule_held:
  assumes ret: "ct_schedule s c = Inr (c', done)" and "ct_typed c"
  shows "ct_typed c' \<and> ct_held c = ct_held c' + mset (map req_id done)"
proof (cases "ct_choose c = Inr None")
  case True
  then show ?thesis using assms by (simp add: ct_schedule_def)
next
  case False
  then obtain k i cmd c1 c2 where ch: "ct_choose c = Inr (Some (k, i, cmd))"
    and c1: "ct_first_command s k i c = Inr c1" and c2: "issue_cmd s cmd (addr_vec (ct_queue k c1 ! i)) c1 = Inr c2"
    and c': "ct_after_command s k i cmd c2 = Inr (c', done)"
    using ret by (auto simp: ct_schedule_def split: option.splits)
  have i: "i < length (ct_queue k c)" and cmd: "get_first_cmd c (ct_queue k c ! i) = Inr cmd"
    using ct_choose_less [OF ch] by blast+
  have h1: "ct_typed c1 \<and> ct_held c1 = ct_held c" by (rule first_command_held [OF c1 i assms(2)])
  have i1: "i < length (ct_queue k c1)" "rq_type (ct_queue k c1 ! i) = rq_type (ct_queue k c ! i)"
    using first_command_frame(1) [OF c1 i] i by auto
  have h2: "ct_typed c2 \<and> ct_held c2 = ct_held c" "ct_queue k c2 = ct_queue k c1"
    using h1 ct_frame [of c2 c1] issue_cmd_frame [OF c2] by auto
  have "rq_type (ct_queue k c2 ! i) = REFRESH \<Longrightarrow> \<not> is_opening cmd"
    using cmd i1 h2(2) decode_REF by (auto simp: get_first_cmd_def is_opening_def)
  with after_command_held [OF c'] i1 h2 show ?thesis by simp
qed

lemma ct_tick_held:
  assumes "ct_tick s c = Inr (c', done)" "ct_typed c"
  shows "ct_typed c' \<and> ct_held c = ct_held c' + mset (map req_id done)"
proof -
  define c0 where "c0 = ct_begin_tick c"
  have c0: "ct_queue k c0 = ct_queue k c" "ct_pending c0 = ct_pending c" for k by (simp_all add: c0_def ct_begin_tick_def Let_def)
  obtain d1 c1 c2 d2 where c1: "ct_serve_reads c0 = Inr (c1, d1)" and c2: "tick_ref s c1 = Inr c2"
    and c': "ct_schedule s (ct_switch_mode c2) = Inr (c', d2)" and "done": "done = d1 @ d2"
    using assms(1) by (auto simp: ct_tick_def c0_def)
  have "ct_typed c0 \<and> ct_held c0 = ct_held c" using c0 assms(2) ct_frame [of c0 c] by simp
  then have "ct_typed c1 \<and> ct_held c = ct_held c1 + mset (map req_id d1)" using serve_reads_held [OF c1] by simp
  moreover have "ct_typed c1 \<Longrightarrow> ct_typed c2 \<and> ct_held c2 = ct_held c1" by (rule tick_ref_held [OF c2])
  moreover have "ct_typed (ct_switch_mode c2) = ct_typed c2" "ct_held (ct_switch_mode c2) = ct_held c2"
    by (rule ct_frame; simp add: ct_switch_mode_def Let_def)+
  ultimately show ?thesis using schedule_held [OF c'] "done" by simp
qed

section \<open>The memory\<close>

definition me_held :: "Memory \<Rightarrow> u64 multiset" where
  "me_held m = sum_list (map ct_held (me_ctrls m))"

definition me_typed :: "Memory \<Rightarrow> bool" where
  "me_typed m \<longleftrightarrow> list_all ct_typed (me_ctrls m)"

lemma sum_list_held_update:
  "k < length cs \<Longrightarrow> ct_held c = ct_held (cs ! k) + x \<Longrightarrow>
     sum_list (map ct_held (cs[k := c])) = sum_list (map ct_held cs) + x"
  by (induction cs arbitrary: k) (auto split: nat.splits)

lemma Memory_send_held:
  assumes "Memory_send m r = Inr (m', ok)" "me_typed m" "rq_type r = READ \<or> rq_type r = WRITE"
  shows "me_typed m' \<and> me_held m' = me_held m + (if ok then {#req_id r#} else {#})"
proof -
  let ?r = "r\<lparr>addr_vec := map_address m (rq_addr r)\<rparr>"
  let ?k = "nat (addr_vec ?r ! 0)"
  obtain c where k: "?k < length (me_ctrls m)" and c: "ct_enqueue ?r (me_ctrls m ! ?k) = (ok, c)"
    and m': "me_ctrls m' = (me_ctrls m)[?k := c]"
    using assms(1) by (auto simp: Memory_send_def Let_def split: if_splits prod.splits)
  have "ct_typed (me_ctrls m ! ?k)" using k assms(2) by (simp add: me_typed_def list_all_length)
  note e = enqueue_held [OF c _ this]
  have "ct_held c = ct_held (me_ctrls m ! ?k) + (if ok then {#req_id r#} else {#})" using e(2) assms(3) by simp
  moreover have "ct_typed c" using e(1) assms(3) by simp
  then have "me_typed m'" using assms(2) k set_update_subset_insert [of "me_ctrls m" ?k c]
    unfolding me_typed_def m' list_all_iff by blast
  ultimately show ?thesis using sum_list_held_update [OF k] unfolding me_held_def m' by simp
qed

lemma ctrls_tick_held:
  "ctrls_tick s cs = Inr (a, cs', done) \<Longrightarrow> list_all ct_typed cs \<Longrightarrow>
     list_all ct_typed cs' \<and> sum_list (map ct_held cs) = sum_list (map ct_held cs') + mset (map req_id done)"
proof (induction cs arbitrary: a cs' "done")
  case (Cons c cs)
  from Cons.prems(1) have "\<exists>p q. ct_tick s c = Inr p \<and> ctrls_tick s cs = Inr q \<and>
      cs' = fst p # fst (snd q) \<and> done = snd p @ snd (snd q)" by (auto simp: case_prod_beta)
  then obtain c1 d1 a2 cs2 d2 where 1: "ct_tick s c = Inr (c1, d1)" and 2: "ctrls_tick s cs = Inr (a2, cs2, d2)"
    and eq: "cs' = c1 # cs2" "done = d1 @ d2" by (metis prod.collapse)
  have "ct_typed c1 \<and> ct_held c = ct_held c1 + mset (map req_id d1)" using ct_tick_held [OF 1] Cons.prems(2) by simp
  moreover have "list_all ct_typed cs2 \<and> sum_list (map ct_held cs) = sum_list (map ct_held cs2) + mset (map req_id d2)"
    using Cons.IH [OF 2] Cons.prems(2) by simp
  ultimately show ?case by (simp add: eq)
qed simp

lemma Memory_tick_held:
  assumes "Memory_tick m = Inr (m', done)" "me_typed m"
  shows "me_typed m' \<and> me_held m = me_held m' + mset (map req_id done)"
proof -
  obtain a where "ctrls_tick (me_spec m) (me_ctrls m) = Inr (a, me_ctrls m', done)"
    using assms(1) by (auto simp: Memory_tick_def Let_def)
  from ctrls_tick_held [OF this] assms(2) show ?thesis by (simp add: me_held_def me_typed_def)
qed

lemma drain_held:
  "me_typed (set_high_writeq_watermark w m) = me_typed m" "me_held (set_high_writeq_watermark w m) = me_held m"
proof -
  have "ct_typed (c\<lparr>ct_wr_high_watermark := w\<rparr>) = ct_typed c" "ct_held (c\<lparr>ct_wr_high_watermark := w\<rparr>) = ct_held c" for c
    by (rule ct_frame; simp)+
  then show "me_typed (set_high_writeq_watermark w m) = me_typed m" "me_held (set_high_writeq_watermark w m) = me_held m"
    by (simp_all add: me_typed_def me_held_def set_high_writeq_watermark_def list_all_iff comp_def)
qed

lemma pending_held:
  assumes "Memory_pending_requests m = 0"
  shows "me_held m = {#}"
proof -
  have "ct_pending_requests c = 0" if "c \<in> set (me_ctrls m)" for c
    using assms that sum_list_nonneg_eq_0_iff [of "map (int \<circ> ct_pending_requests) (me_ctrls m)"]
    by (force simp: Memory_pending_requests_def)
  then have "ct_held c = {#}" if "c \<in> set (me_ctrls m)" for c
    using that by (simp add: ct_pending_requests_def held_queues)
  then show ?thesis unfolding me_held_def by (simp cong: map_cong)
qed

section \<open>The contract\<close>

interpretation ram: conserving_memory ramulator_ops me_typed me_held
proof unfold_locales
  fix m m' :: Memory and r ok
  assume "me_typed m" "access_request r" "mem_send ramulator_ops m r = Inr (m', ok)"
  then show "me_typed m' \<and> me_held m' = me_held m + (if ok then {#req_id r#} else {#})"
    using Memory_send_held by (simp add: ramulator_ops_def access_request_def)
next
  fix m m' :: Memory and "done"
  assume "me_typed m" "mem_tick ramulator_ops m = Inr (m', done)"
  then show "me_typed m' \<and> me_held m = me_held m' + mset (map req_id done)"
    using Memory_tick_held by (simp add: ramulator_ops_def)
qed (simp_all add: ramulator_ops_def drain_held pending_held)

lemma Memory_new_sel: "Memory_new s k cs = Inr m \<Longrightarrow> me_ctrls m = cs \<and> me_spec m = s"
  by (auto simp: Memory_new_def Let_def split: if_splits)

lemma make_memory_empty:
  assumes "make_memory org speed C R = Inr m"
  shows "me_typed m" "me_held m = {#}"
proof -
  have "ct_typed (Controller_new k d)" "ct_held (Controller_new k d) = {#}" for k d
    by (simp_all add: ct_typed_def held_queues Controller_new_def Queue_new_def ct_queue.simps)
  then have "list_all ct_typed (map (\<lambda>c. Controller_new 1 (f c)) cs)" "sum_list (map ct_held (map (\<lambda>c. Controller_new 1 (f c)) cs)) = {#}"
    for f :: "nat \<Rightarrow> DRAM" and cs by (simp_all add: list_all_iff comp_def)
  moreover obtain s where "me_ctrls m = map (\<lambda>c. Controller_new 1 (DRAM_new s Channel (int c))) [0 ..< nat C]"
    using assms by (auto simp: make_memory_def Let_def dest!: Memory_new_sel)
  ultimately show "me_typed m" "me_held m = {#}" unfolding me_typed_def me_held_def by metis+
qed

section \<open>Properties\<close>

text \<open>C27.  The memory serves every request once: offer any reads and writes to a memory the
  simulator built, with any number of cycles in between.  As long as no assertion of the DRAM model
  fails, the ids it accepted are the ids whose callback was called and those of the requests
  it still holds, with the same multiplicities; and when it reports no pending request, every accepted
  request has been completed.\<close>

theorem memory_serves_once:
  assumes "make_memory org speed C R = Inr m" "list_all (pred_option access_request) evs"
    and "mem_drive ramulator_ops evs m = Inr (m', acc, fin)"
  shows "mset (map req_id acc) = mset (map req_id fin) + me_held m' \<and>
    (Memory_pending_requests m' = 0 \<longrightarrow> mset (map req_id acc) = mset (map req_id fin))"
proof -
  have h: "me_typed m' \<and> me_held m + mset (map req_id acc) = me_held m' + mset (map req_id fin)"
    by (rule ram.drive_held [OF assms(3) make_memory_empty(1) [OF assms(1)] assms(2)])
  then have "mset (map req_id acc) = mset (map req_id fin) + me_held m'"
    using make_memory_empty(2) [OF assms(1)] by (simp add: ac_simps)
  moreover have "me_held m' = {#}" if "Memory_pending_requests m' = 0"
    using ram.idle_empty [of m'] h that by (simp add: ramulator_ops_def)
  ultimately show ?thesis by auto
qed

text \<open>A write and a read of the same address: the read is served from the write queue in the next
  cycle, the write is still inside.\<close>

definition sample_mem_events :: "Request option list" where
  "sample_mem_events = [Some (Request_new 0x12345680 WRITE 7), Some (Request_new 0x12345680 READ 8), None]"

lemma sample_mem_run:
  "(case bind_r (make_memory DDR4_8Gb_x16 DDR4_3200 1 1) (mem_drive ramulator_ops sample_mem_events) of
      Inl e \<Rightarrow> False | Inr (m', acc, fin) \<Rightarrow> map req_id acc = [7, 8] \<and> map req_id fin = [8])"
  by code_simp

theorem memory_serves_once_witness:
  "\<exists>m m' acc fin. make_memory DDR4_8Gb_x16 DDR4_3200 1 1 = Inr m \<and>
     mem_drive ramulator_ops sample_mem_events m = Inr (m', acc, fin) \<and> me_held m' = {#7#}"
proof -
  obtain m m' acc fin where m: "make_memory DDR4_8Gb_x16 DDR4_3200 1 1 = Inr m"
    "mem_drive ramulator_ops sample_mem_events m = Inr (m', acc, fin)" "map req_id acc = [7, 8]" "map req_id fin = [8]"
    using sample_mem_run by (cases "make_memory DDR4_8Gb_x16 DDR4_3200 1 1") (auto split: sum.splits)
  have "list_all (pred_option access_request) sample_mem_events"
    by (simp add: sample_mem_events_def access_request_def Request_new_def)
  from memory_serves_once [OF m(1) this m(2)] m(3,4) have "me_held m' = {#7#}"
    by (simp flip: mset_map)
  then show ?thesis using m by blast
qed

end
