(* ===== verification/Ram_Timing.thy ===== *)
theory Ram_Timing
  imports Ram_DRAM
begin

text \<open>
  The DRAM tree keeps the timing constraints of the standard: a command passes the check of
  \<^verbatim>\<open>DRAM::check\<close> only when every constraint of \<^verbatim>\<open>DDR4::init_timing\<close> between it and the commands
  issued before is met.
\<close>

section \<open>What the timing depends on\<close>

text \<open>\<open>strip\<close> keeps the fields of a node that \<^verbatim>\<open>check\<close> and the timing constraints look at.\<close>

definition strip :: "dram_node \<Rightarrow> dram_node" where
  "strip n =
     \<lparr>dn_level = dn_level n, dn_id = dn_id n, dn_state = State_MAX, dn_row_state = [], dn_cur_serving_requests = 0,
      dn_begin_of_serving = 0, dn_end_of_serving = 0, dn_begin_of_cur_reqcnt = 0, dn_begin_of_refreshing = 0,
      dn_end_of_refreshing = 0, dn_refresh_intervals = [], dn_cur_clk = 0, dn_next = dn_next n, dn_prev = dn_prev n,
      dn_active_cycles = 0, dn_refresh_cycles = 0, dn_active_refresh_overlap_cycles = 0, dn_serving_requests = 0\<rparr>"

fun skel :: "DRAM \<Rightarrow> DRAM" where
  "skel (DRAM_Node n cs) = DRAM_Node (strip n) (map skel cs)"

lemma strip_sel [simp]:
  "dn_level (strip n) = dn_level n" "dn_id (strip n) = dn_id n" "dn_next (strip n) = dn_next n"
  "dn_prev (strip n) = dn_prev n" "child_id (strip n) q = child_id n q"
  by (simp_all add: strip_def child_id_def)

lemma strip_same:
  "dn_level n' = dn_level n \<Longrightarrow> dn_id n' = dn_id n \<Longrightarrow> dn_next n' = dn_next n \<Longrightarrow> dn_prev n' = dn_prev n \<Longrightarrow> strip n' = strip n"
  by (simp add: strip_def)

lemma strip_eqD:
  "strip n' = strip n \<Longrightarrow> dn_level n' = dn_level n \<and> dn_id n' = dn_id n \<and> dn_next n' = dn_next n \<and> dn_prev n' = dn_prev n"
  by (metis strip_sel(1-4))

lemma skel_sel [simp]: "dram_node (skel d) = strip (dram_node d)" "dram_children (skel d) = map skel (dram_children d)"
  by (cases d; simp)+

lemma check_skel: "check_cmd cmd q t (skel d) = check_cmd cmd q t d"
  by (induction cmd q t d rule: check_cmd.induct) auto

lemma skel_children_update:
  "i < length cs \<Longrightarrow> skel c = skel (cs ! i) \<Longrightarrow> map skel (cs[i := c]) = map skel cs"
  by (simp add: map_update list_update_same_conv)

lemma skel_close_banks: "map skel (close_banks cs) = map skel cs"
proof -
  have "map skel (map (\<lambda>b. DRAM_Node (close_node (dram_node b)) (dram_children b)) bs) = map skel bs" for bs
  proof (induction bs)
    case (Cons b bs)
    have "strip (close_node n) = strip n" for n by (simp add: close_node_def strip_def)
    then show ?case using Cons by (cases b) simp
  qed simp
  then have "skel (DRAM_Node (dram_node bg) (map (\<lambda>b. DRAM_Node (close_node (dram_node b)) (dram_children b)) (dram_children bg))) = skel bg" for bg
    by (cases bg) (simp del: map_map)
  then show ?thesis by (simp add: close_banks_def del: skel.simps)
qed

lemma skel_lambda: "skel (lambda_fn cmd i d) = skel d"
  by (cases d) (auto simp: lambda_fn_def Let_def close_node_def skel_close_banks intro!: strip_same split: Level.splits Command.splits)

lemma skel_update_state: "update_state cmd addr d = Inr d' \<Longrightarrow> skel d' = skel d"
proof (induction cmd addr d arbitrary: d' rule: update_state.induct)
  case (1 cmd addr d)
  obtain n cs where l: "lambda_fn cmd (child_id (dram_node d) addr) d = DRAM_Node n cs" by (cases "lambda_fn cmd (child_id (dram_node d) addr) d")
  then have sk: "skel d = skel (DRAM_Node n cs)" using skel_lambda by metis
  show ?case
  proof (cases "dn_level n = scope cmd \<or> cs = []")
    case True
    then show ?thesis using 1(2) sk l by (auto simp: update_state.simps [of cmd addr d])
  next
    case False
    let ?k = "nat (child_id n addr)"
    obtain c where c: "?k < length cs" "0 \<le> child_id n addr" "update_state cmd addr (cs ! ?k) = Inr c" "d' = DRAM_Node n (cs[?k := c])"
      using 1(2) l False by (auto simp: update_state.simps [of cmd addr d] Let_def split: if_splits)
    have "skel c = skel (cs ! ?k)" using 1(1) [OF l False refl] c by simp
    then show ?thesis using c sk skel_children_update [of ?k cs c] by simp
  qed
qed

lemma strip_serve: "serve_node delta clk n = Inr n' \<Longrightarrow> strip n' = strip n"
  by (auto simp: serve_node_def Let_def strip_def split: if_splits)

lemma skel_serving: "update_serving_requests addr delta clk d = Inr d' \<Longrightarrow> skel d' = skel d"
proof (induction addr delta clk d arbitrary: d' rule: update_serving_requests.induct)
  case (1 addr delta clk n cs)
  then obtain n' where n': "serve_node delta clk n = Inr n'" by (auto split: if_splits)
  let ?k = "nat (child_id n addr)"
  show ?case
  proof (cases "child_id n addr < 0 \<or> cs = [] \<or> level_ix (dn_level n) > level_ix Bank")
    case True
    then show ?thesis using 1(2) n' strip_serve [OF n'] by (auto split: if_splits)
  next
    case False
    obtain c where c: "?k < length cs" "update_serving_requests addr delta clk (cs ! ?k) = Inr c" "d' = DRAM_Node n' (cs[?k := c])"
      using 1(2) n' False by (auto split: if_splits)
    have "skel c = skel (cs ! ?k)" using 1 c n' False by (auto split: if_splits)
    then show ?thesis using c strip_serve [OF n'] skel_children_update [of ?k cs c] by simp
  qed
qed

section \<open>The nodes an address selects\<close>

fun path_nodes :: "int list \<Rightarrow> DRAM \<Rightarrow> dram_node list" where
  "path_nodes q (DRAM_Node n cs) =
     n # (if 0 \<le> child_id n q \<and> nat (child_id n q) < length cs then path_nodes q (cs ! nat (child_id n q)) else [])"

text \<open>Levels and ids follow the position in the tree, and the two lists have the entries the
  constraints need.\<close>

definition node_lists_ok :: "DDR4 \<Rightarrow> dram_node \<Rightarrow> bool" where
  "node_lists_ok s n \<longleftrightarrow> length (dn_next n) = 12 \<and> map length (dn_prev n) = map (history_length s (dn_level n)) all_commands"

fun wf_dram :: "DDR4 \<Rightarrow> DRAM \<Rightarrow> bool" where
  "wf_dram s (DRAM_Node n cs) \<longleftrightarrow> node_lists_ok s n \<and>
     (cs \<noteq> [] \<longrightarrow> child_level (dn_level n) \<noteq> None) \<and>
     (\<forall>i < length cs. child_level (dn_level n) = Some (dn_level (dram_node (cs ! i))) \<and>
        dn_id (dram_node (cs ! i)) = int i \<and> wf_dram s (cs ! i))"

lemma path_skel: "path_nodes q (skel d) = map strip (path_nodes q d)"
  by (induction q d rule: path_nodes.induct) auto

lemma wf_skel: "wf_dram s (skel d) = wf_dram s d"
  by (induction s d rule: wf_dram.induct) (auto simp: node_lists_ok_def)

lemma child_level_ix: "child_level l = Some cl \<Longrightarrow> level_ix cl = Suc (level_ix l)"
  by (cases l) auto

lemma check_path:
  "check_cmd c q t d = Inr True \<Longrightarrow> -1 \<le> t \<Longrightarrow> wf_dram s d \<Longrightarrow> j < length (path_nodes q d) \<Longrightarrow>
     level_ix (dn_level (dram_node d)) + j \<le> level_ix (scope c) \<Longrightarrow> dn_next (path_nodes q d ! j) ! cmd_ix c \<le> t"
proof (induction c q t d arbitrary: j rule: check_cmd.induct)
  case (1 c q t n cs)
  have n: "dn_next n ! cmd_ix c \<le> t" using 1(2,3) by (auto split: if_splits)
  show ?case
  proof (cases j)
    case (Suc i)
    let ?k = "nat (child_id n q)"
    have k: "0 \<le> child_id n q" "?k < length cs" using 1(5) Suc by (auto split: if_splits)
    have lev: "dn_level n \<noteq> scope c" using 1(6) Suc by auto
    have "wf_dram s (cs ! ?k)" "level_ix (dn_level (dram_node (cs ! ?k))) = Suc (level_ix (dn_level n))"
      using 1(4) k child_level_ix by auto
    moreover have "check_cmd c q t (cs ! ?k) = Inr True" using 1(2) k lev n by (auto split: if_splits)
    moreover have "i < length (path_nodes q (cs ! ?k))" using 1(5) Suc k by simp
    moreover have "cs \<noteq> []" using k by auto
    ultimately show ?thesis using 1(1) [of i] 1(3,6) Suc k lev n by (auto split: if_splits)
  qed (use n in simp)
qed

section \<open>A command on the nodes of a path\<close>

lemma update_timings_all:
  "update_timings s cmd addr clk cs = Inr cs' \<longleftrightarrow>
     length cs' = length cs \<and> (\<forall>i < length cs. update_timing s cmd addr clk (cs ! i) = Inr (cs' ! i))"
proof (induction cs arbitrary: cs')
  case (Cons c cs)
  show ?case
  proof (cases cs')
    case (Cons c' ds)
    then show ?thesis using Cons.IH [of ds] by (auto simp: nth_Cons split: nat.splits)
  qed auto
qed auto

text \<open>On the path of \<open>q\<close>, the nodes shared with the path of the command are its targets, the first one
  that is not shared is a sibling, and the others do not change.\<close>

definition node_step :: "DDR4 \<Rightarrow> Command \<Rightarrow> int list \<Rightarrow> int \<Rightarrow> int list \<Rightarrow> nat \<Rightarrow> dram_node \<Rightarrow> dram_node \<Rightarrow> bool" where
  "node_step s cmd addr clk q j n n' \<longleftrightarrow>
     (if take (Suc j) q = take (Suc j) addr
      then timing_target cmd (timing s (dn_level n) cmd) clk (push_history cmd clk n) = Inr n'
      else if take j q = take j addr
      then timing_sibling (timing s (dn_level n) cmd) clk n = Inr n'
      else n' = n)"

lemma raise_next_sel [simp]:
  "dn_level (raise_next t f n) = dn_level n" "dn_id (raise_next t f n) = dn_id n" "dn_prev (raise_next t f n) = dn_prev n"
  "length (dn_next (raise_next t f n)) = length (dn_next n)"
  "dn_next (raise_next t f n) = (dn_next n)[cmd_ix (te_cmd t) := max (dn_next n ! cmd_ix (te_cmd t)) f]"
  by (simp_all add: raise_next_def)

lemma begin_refresh_sel [simp]:
  "dn_level (begin_refresh t clk n) = dn_level n" "dn_id (begin_refresh t clk n) = dn_id n"
  "dn_prev (begin_refresh t clk n) = dn_prev n" "dn_next (begin_refresh t clk n) = dn_next n"
  by (simp_all add: begin_refresh_def Let_def)

text \<open>One entry of the table at a time.\<close>

lemma timing_target_Cons:
  assumes "timing_target cmd (t # ts) clk n = Inr n'"
  obtains m where "timing_target cmd ts clk m = Inr n'" "dn_level m = dn_level n" "dn_id m = dn_id n" "dn_prev m = dn_prev n"
    "dn_next m = (if te_sibling t \<or> dn_prev n ! cmd_ix cmd ! (te_dist t - 1) < 0 then dn_next n
       else (dn_next n)[cmd_ix (te_cmd t) := max (dn_next n ! cmd_ix (te_cmd t)) (dn_prev n ! cmd_ix cmd ! (te_dist t - 1) + te_val t)])"
proof -
  let ?past = "dn_prev n ! cmd_ix cmd ! (te_dist t - 1)"
  let ?m = "raise_next t (?past + te_val t) n"
  consider "te_sibling t \<or> ?past < 0" | "\<not> (te_sibling t \<or> ?past < 0)" "is_refreshing cmd \<and> is_opening (te_cmd t)"
    | "\<not> (te_sibling t \<or> ?past < 0)" "\<not> (is_refreshing cmd \<and> is_opening (te_cmd t))" by blast
  then show thesis
  proof cases
    case 1
    then show thesis using assms by (intro that [of n]) (auto simp: Let_def)
  next
    case 2
    then show thesis using assms by (intro that [of "begin_refresh t clk ?m"]) (auto simp: Let_def split: if_splits)
  next
    case 3
    then show thesis using assms by (intro that [of ?m]) (auto simp: Let_def split: if_splits)
  qed
qed

lemma timing_target_frame:
  "timing_target cmd ts clk n = Inr n' \<Longrightarrow> dn_level n' = dn_level n \<and> dn_id n' = dn_id n \<and> dn_prev n' = dn_prev n \<and>
     length (dn_next n') = length (dn_next n)"
proof (induction ts arbitrary: n)
  case (Cons t ts)
  from Cons.prems show ?case by (rule timing_target_Cons) (use Cons.IH in fastforce)
qed simp

lemma timing_sibling_frame:
  "timing_sibling ts clk n = Inr n' \<Longrightarrow> dn_level n' = dn_level n \<and> dn_id n' = dn_id n \<and> dn_prev n' = dn_prev n \<and>
     length (dn_next n') = length (dn_next n)"
proof (induction ts arbitrary: n)
  case (Cons t ts)
  then show ?case using Cons.IH [of n] Cons.IH [of "raise_next t (clk + te_val t) n"]
    by (auto split: if_splits)
qed simp

lemma push_history_sel [simp]:
  "dn_level (push_history cmd clk n) = dn_level n" "dn_id (push_history cmd clk n) = dn_id n"
  "dn_next (push_history cmd clk n) = dn_next n"
  by (simp_all add: push_history_def Let_def)

lemma update_timing_root:
  assumes "update_timing s cmd addr clk d = Inr d'"
  shows "dn_level (dram_node d') = dn_level (dram_node d)" "dn_id (dram_node d') = dn_id (dram_node d)"
    "length (dram_children d') = length (dram_children d)"
  using assms
  by (cases d; auto simp: Let_def update_timings_all split: if_splits dest!: timing_target_frame timing_sibling_frame)+

lemma update_timing_sibling:
  assumes "update_timing s cmd addr clk d = Inr d'" "dn_id (dram_node d) \<noteq> addr ! level_ix (dn_level (dram_node d))"
  shows "timing_sibling (timing s (dn_level (dram_node d)) cmd) clk (dram_node d) = Inr (dram_node d')"
    "dram_children d' = dram_children d"
  using assms by (cases d; auto simp: Let_def split: if_splits)+

lemma take_Suc_eq: "j < length xs \<Longrightarrow> j < length ys \<Longrightarrow>
    take (Suc j) xs = take (Suc j) ys \<longleftrightarrow> take j xs = take j ys \<and> xs ! j = ys ! j"
  by (simp add: take_Suc_conv_app_nth)

text \<open>The lemma for the subtree at level \<open>l\<close>, whose root lies on both paths.\<close>

lemma update_timing_path:
  assumes "update_timing s cmd addr clk d = Inr d'" "wf_dram s d" "level_ix (dn_level (dram_node d)) = l"
    "take (Suc l) q = take (Suc l) addr" "dn_id (dram_node d) = addr ! l" "length q = 6" "length addr = 6"
  shows "length (path_nodes q d') = length (path_nodes q d) \<and>
    (\<forall>j < length (path_nodes q d). node_step s cmd addr clk q (l + j) (path_nodes q d ! j) (path_nodes q d' ! j))"
  using assms
proof (induction q d arbitrary: l d' rule: path_nodes.induct)
  case (1 q n cs)
  let ?k = "child_id n q"
  obtain n' cs' where d': "d' = DRAM_Node n' cs'"
    and n': "timing_target cmd (timing s (dn_level n) cmd) clk (push_history cmd clk n) = Inr n'"
    and cs': "length cs' = length cs" "\<And>i. i < length cs \<Longrightarrow> update_timing s cmd addr clk (cs ! i) = Inr (cs' ! i)"
    using 1(2,4,6) by (auto simp: Let_def update_timings_all split: if_splits)
  have root: "node_step s cmd addr clk q l n n'" using n' 1(5) by (simp add: node_step_def)
  have k': "child_id n' q = ?k" using timing_target_frame [OF n'] by (simp add: child_id_def)
  show ?case
  proof (cases "0 \<le> ?k \<and> nat ?k < length cs")
    case False
    then have "path_nodes q (DRAM_Node n cs) = [n]" "path_nodes q d' = [n']" using d' cs'(1) k' by auto
    then show ?thesis using root by simp
  next
    case True
    let ?c = "cs ! nat ?k"
    have c: "wf_dram s ?c" "level_ix (dn_level (dram_node ?c)) = Suc l" "dn_id (dram_node ?c) = ?k"
      using 1(3,4) True child_level_ix by auto
    note c' = cs'(2) [of "nat ?k"]
    have l: "Suc l < 6" using c(2) by (cases "dn_level (dram_node ?c)") auto
    have kq: "?k = q ! Suc l" using 1(4) by (simp add: child_id_def)
    have eq: "take (Suc (Suc l)) q = take (Suc (Suc l)) addr \<longleftrightarrow> q ! Suc l = addr ! Suc l"
      using take_Suc_eq [of "Suc l" q addr] 1(5,7,8) l by simp
    have "length (path_nodes q (cs' ! nat ?k)) = length (path_nodes q ?c) \<and>
      (\<forall>j < length (path_nodes q ?c). node_step s cmd addr clk q (Suc l + j) (path_nodes q ?c ! j) (path_nodes q (cs' ! nat ?k) ! j))"
    proof (cases "q ! Suc l = addr ! Suc l")
      case same: True
      show ?thesis
        by (rule 1(1) [OF True c'(1) c(1,2)]) (use True same eq c(3) kq 1(7,8) in auto)
    next
      case other: False
      have id: "dn_id (dram_node ?c) \<noteq> addr ! level_ix (dn_level (dram_node ?c))" using c other kq by simp
      note sib = update_timing_sibling [OF c' id]
      have fr: "dn_level (dram_node (cs' ! nat ?k)) = dn_level (dram_node ?c)" using True c' update_timing_root by blast
      obtain m ds m' where c_eq: "?c = DRAM_Node m ds" and c'_eq: "cs' ! nat ?k = DRAM_Node m' ds"
        using sib(2) True by (metis DRAM.collapse)
      have ch: "child_id m' q = child_id m q" using fr c_eq c'_eq by (simp add: child_id_def)
      have step0: "node_step s cmd addr clk q (Suc l) m m'"
        using sib(1) True c_eq c'_eq eq other 1(5) by (simp add: node_step_def)
      have stepj: "node_step s cmd addr clk q (Suc l + Suc j) x x" for j x
      proof -
        have "take (Suc (Suc l + j)) q \<noteq> take (Suc (Suc l + j)) addr" for j
          using other nth_take [of "Suc l" "Suc (Suc l + j)"] by (metis less_Suc_eq_le le_add1)
        from this [of j] this [of "Suc j"] show ?thesis by (simp add: node_step_def)
      qed
      show ?thesis
        using step0 stepj c_eq c'_eq ch by (auto simp: nth_Cons split: nat.splits)
    qed
    then show ?thesis using root d' cs' k' True by (auto simp: nth_Cons split: nat.splits)
  qed
qed

section \<open>The constraints\<close>

lemma cmd_ix_less [simp]: "cmd_ix c < 12"
  by (cases c) simp_all

lemma cmd_ix_inj: "cmd_ix c = cmd_ix c' \<longleftrightarrow> c = c'"
  by (cases c; cases c') simp_all

lemma all_commands_nth [simp]: "all_commands ! cmd_ix c = c" "length all_commands = 12"
  by (cases c; simp add: all_commands_def)+

lemma node_lists_prev: "node_lists_ok s n \<Longrightarrow> length (dn_prev n) = 12 \<and> length (dn_prev n ! cmd_ix c) = history_length s (dn_level n) c"
proof -
  assume "node_lists_ok s n"
  then have eq: "map length (dn_prev n) = map (history_length s (dn_level n)) all_commands" by (simp add: node_lists_ok_def)
  from arg_cong [OF this, of length] have len: "length (dn_prev n) = 12" by (simp only: length_map all_commands_nth)
  moreover have "map length (dn_prev n) ! cmd_ix c = map (history_length s (dn_level n)) all_commands ! cmd_ix c" using eq by simp
  ultimately show ?thesis by simp
qed

lemma timing_target_next:
  "timing_target cmd ts clk n = Inr n' \<Longrightarrow> length (dn_next n) = 12 \<Longrightarrow>
     dn_next n ! cmd_ix c \<le> dn_next n' ! cmd_ix c \<and>
     (\<forall>t \<in> set ts. \<not> te_sibling t \<and> dn_prev n ! cmd_ix cmd ! (te_dist t - 1) \<ge> 0 \<longrightarrow>
        dn_prev n ! cmd_ix cmd ! (te_dist t - 1) + te_val t \<le> dn_next n' ! cmd_ix (te_cmd t))"
proof (induction ts arbitrary: n c)
  case (Cons t ts)
  let ?past = "dn_prev n ! cmd_ix cmd ! (te_dist t - 1)"
  from Cons.prems(1) obtain m where m: "timing_target cmd ts clk m = Inr n'" "dn_prev m = dn_prev n"
    "dn_next m = (if te_sibling t \<or> ?past < 0 then dn_next n
       else (dn_next n)[cmd_ix (te_cmd t) := max (dn_next n ! cmd_ix (te_cmd t)) (?past + te_val t)])"
    by (rule timing_target_Cons)
  have len: "length (dn_next m) = 12" using m(3) Cons.prems(2) by simp
  have up: "dn_next n ! cmd_ix c \<le> dn_next m ! cmd_ix c" for c
    using m(3) Cons.prems(2) by (simp add: nth_list_update cmd_ix_inj)
  have "?past + te_val t \<le> dn_next m ! cmd_ix (te_cmd t)" if "\<not> te_sibling t" "?past \<ge> 0"
    using m(3) that Cons.prems(2) by simp
  moreover have "dn_next m ! cmd_ix c \<le> dn_next n' ! cmd_ix c" for c using Cons.IH [OF m(1) len] by blast
  ultimately have "\<not> te_sibling t \<and> ?past \<ge> 0 \<longrightarrow> ?past + te_val t \<le> dn_next n' ! cmd_ix (te_cmd t)"
    "dn_next n ! cmd_ix c \<le> dn_next n' ! cmd_ix c" using up order_trans by blast+
  then show ?case using Cons.IH [OF m(1) len] m(2) by simp
qed simp

lemma timing_sibling_next:
  "timing_sibling ts clk n = Inr n' \<Longrightarrow> length (dn_next n) = 12 \<Longrightarrow>
     dn_next n ! cmd_ix c \<le> dn_next n' ! cmd_ix c \<and>
     (\<forall>t \<in> set ts. te_sibling t \<longrightarrow> clk + te_val t \<le> dn_next n' ! cmd_ix (te_cmd t))"
proof (induction ts arbitrary: n c)
  case (Cons t ts)
  show ?case
  proof (cases "te_sibling t")
    case False
    then show ?thesis using Cons by auto
  next
    case True
    let ?m = "raise_next t (clk + te_val t) n"
    have m: "timing_sibling ts clk ?m = Inr n'" "length (dn_next ?m) = 12"
      using Cons.prems True by (simp_all del: raise_next_sel(5) split: if_splits)
    have up: "dn_next n ! cmd_ix c \<le> dn_next ?m ! cmd_ix c" for c
      using Cons.prems(2) by (simp add: nth_list_update cmd_ix_inj)
    have "clk + te_val t \<le> dn_next ?m ! cmd_ix (te_cmd t)" using Cons.prems(2) by simp
    moreover have "dn_next ?m ! cmd_ix c \<le> dn_next n' ! cmd_ix c" for c using Cons.IH [OF m] by blast
    ultimately have "clk + te_val t \<le> dn_next n' ! cmd_ix (te_cmd t)" "dn_next n ! cmd_ix c \<le> dn_next n' ! cmd_ix c"
      using up order_trans by blast+
    then show ?thesis using Cons.IH [OF m] by simp
  qed
qed simp

text \<open>The times of the commands \<open>c\<close> that went through the node of \<open>q\<close> at level \<open>l\<close>, the last one first.\<close>

type_synonym dram_event = "Command \<times> int list \<times> int"

definition times_at :: "dram_event list \<Rightarrow> Command \<Rightarrow> int list \<Rightarrow> nat \<Rightarrow> int list" where
  "times_at evs c q l = map (\<lambda>(_, _, t). t) (filter (\<lambda>(c', a, _). c' = c \<and> take (Suc l) a = take (Suc l) q) (rev evs))"

lemma times_at_snoc:
  "times_at (evs @ [(c', a, t)]) c q l = (if c' = c \<and> take (Suc l) q = take (Suc l) a then t # times_at evs c q l else times_at evs c q l)"
  by (auto simp: times_at_def)

text \<open>The last \<open>h\<close> times, with \<open>-1\<close> where there were fewer.\<close>

definition padded :: "nat \<Rightarrow> int list \<Rightarrow> int list" where
  "padded h xs = take h (xs @ replicate h (-1))"

lemma padded_push: "0 < h \<Longrightarrow> t # butlast (padded h xs) = padded h (t # xs)"
  by (cases h) (simp_all add: padded_def butlast_conv_take min_def take_Cons' del: take_append)

lemma padded_nth: "0 < d \<Longrightarrow> d \<le> h \<Longrightarrow> d \<le> length xs \<Longrightarrow> padded h xs ! (d - 1) = xs ! (d - 1)"
  by (cases d) (simp_all add: padded_def nth_append del: take_append)

text \<open>The history of a node and the times its constraints lead to, at distance \<open>l\<close> from the channel.\<close>

definition node_history :: "DDR4 \<Rightarrow> dram_event list \<Rightarrow> int list \<Rightarrow> nat \<Rightarrow> dram_node \<Rightarrow> bool" where
  "node_history s evs q l n \<longleftrightarrow>
     (\<forall>c. dn_prev n ! cmd_ix c = padded (history_length s (dn_level n) c) (times_at evs c q l))"

definition node_waits :: "DDR4 \<Rightarrow> dram_event list \<Rightarrow> int list \<Rightarrow> nat \<Rightarrow> dram_node \<Rightarrow> bool" where
  "node_waits s evs q l n \<longleftrightarrow>
     (\<forall>c. \<forall>t \<in> set (timing s (dn_level n) c). \<not> te_sibling t \<longrightarrow> te_dist t \<le> length (times_at evs c q l) \<longrightarrow>
        times_at evs c q l ! (te_dist t - 1) + te_val t \<le> dn_next n ! cmd_ix (te_cmd t)) \<and>
     (\<forall>c a t0. (c, a, t0) \<in> set evs \<longrightarrow> take l a = take l q \<and> take (Suc l) a \<noteq> take (Suc l) q \<longrightarrow>
        (\<forall>t \<in> set (timing s (dn_level n) c). te_sibling t \<longrightarrow> t0 + te_val t \<le> dn_next n ! cmd_ix (te_cmd t)))"

lemma prev_push:
  assumes "node_lists_ok s n"
  shows "dn_prev (push_history c t n) ! cmd_ix c' =
    (if c' = c \<and> 0 < history_length s (dn_level n) c then t # butlast (dn_prev n ! cmd_ix c) else dn_prev n ! cmd_ix c')"
    "node_lists_ok s (push_history c t n)"
proof -
  note len = node_lists_prev [OF assms]
  show "dn_prev (push_history c t n) ! cmd_ix c' =
    (if c' = c \<and> 0 < history_length s (dn_level n) c then t # butlast (dn_prev n ! cmd_ix c) else dn_prev n ! cmd_ix c')"
    using len [of c] by (auto simp: push_history_def Let_def nth_list_update cmd_ix_inj)
  show "node_lists_ok s (push_history c t n)"
    using assms len [of c] length_greater_0_conv [of "dn_prev n ! cmd_ix c"]
    by (auto simp: push_history_def Let_def node_lists_ok_def map_update list_update_same_conv Suc_pred' simp del: length_greater_0_conv)
qed

lemma history_push:
  assumes "node_lists_ok s n" "node_history s evs q l n" "take (Suc l) q = take (Suc l) a"
  shows "node_history s (evs @ [(c, a, t)]) q l (push_history c t n)"
proof -
  have "padded 0 xs = []" for xs by (simp add: padded_def)
  then show ?thesis
    using assms(2,3) unfolding node_history_def prev_push(1) [OF assms(1)]
    by (auto simp: times_at_snoc padded_push)
qed

lemma history_nth:
  assumes "node_history s evs q l n" "0 < d" "d \<le> history_length s (dn_level n) c" "d \<le> length (times_at evs c q l)"
  shows "dn_prev n ! cmd_ix c ! (d - 1) = times_at evs c q l ! (d - 1)"
  using assms padded_nth unfolding node_history_def by simp

lemma waits_mono:
  assumes "node_waits s evs q l n" "dn_level n' = dn_level n" "\<And>c. dn_next n ! cmd_ix c \<le> dn_next n' ! cmd_ix c"
  shows "node_waits s evs q l n'"
  using assms(1,2) order_trans [OF _ assms(3)] unfolding node_waits_def by (fastforce simp: assms(2))

lemma waits_snoc:
  assumes w: "node_waits s evs q l n"
    and target: "\<And>x. take (Suc l) a = take (Suc l) q \<Longrightarrow> x \<in> set (timing s (dn_level n) c) \<Longrightarrow> \<not> te_sibling x \<Longrightarrow>
      te_dist x \<le> Suc (length (times_at evs c q l)) \<Longrightarrow>
      (t # times_at evs c q l) ! (te_dist x - 1) + te_val x \<le> dn_next n ! cmd_ix (te_cmd x)"
    and sibling: "\<And>x. take l a = take l q \<Longrightarrow> take (Suc l) a \<noteq> take (Suc l) q \<Longrightarrow> x \<in> set (timing s (dn_level n) c) \<Longrightarrow>
      te_sibling x \<Longrightarrow> t + te_val x \<le> dn_next n ! cmd_ix (te_cmd x)"
  shows "node_waits s (evs @ [(c, a, t)]) q l n"
proof -
  have tg: "times_at (evs @ [(c, a, t)]) c' q l ! (te_dist x - 1) + te_val x \<le> dn_next n ! cmd_ix (te_cmd x)"
    if "x \<in> set (timing s (dn_level n) c')" "\<not> te_sibling x" "te_dist x \<le> length (times_at (evs @ [(c, a, t)]) c' q l)" for c' x
  proof (cases "c = c' \<and> take (Suc l) q = take (Suc l) a")
    case True
    then show ?thesis using that target [of x] by (simp add: times_at_snoc)
  next
    case False
    then show ?thesis using that w unfolding node_waits_def times_at_snoc by auto
  qed
  moreover have "t0 + te_val x \<le> dn_next n ! cmd_ix (te_cmd x)"
    if "(c', b, t0) \<in> set (evs @ [(c, a, t)])" "take l b = take l q" "take (Suc l) b \<noteq> take (Suc l) q"
      "x \<in> set (timing s (dn_level n) c')" "te_sibling x" for c' b t0 x
    using that sibling [of x] w unfolding node_waits_def by auto
  ultimately show ?thesis unfolding node_waits_def by blast
qed


text \<open>A command keeps the history and the waiting times of every node.\<close>

definition node_ok :: "DDR4 \<Rightarrow> dram_event list \<Rightarrow> int list \<Rightarrow> nat \<Rightarrow> dram_node \<Rightarrow> bool" where
  "node_ok s evs q l n \<longleftrightarrow> node_lists_ok s n \<and> node_history s evs q l n \<and> node_waits s evs q l n"

lemma node_step_ok:
  assumes ok: "node_ok s evs q l n" and st: "node_step s c a t q l n n'" and t: "0 \<le> t" "\<forall>(_, _, t) \<in> set evs. 0 \<le> t"
  shows "node_ok s (evs @ [(c, a, t)]) q l n'"
proof -
  have lists: "node_lists_ok s n" and hist: "node_history s evs q l n" and waits: "node_waits s evs q l n"
    using ok by (simp_all add: node_ok_def)
  have len: "length (dn_next n) = 12" using lists by (simp add: node_lists_ok_def)
  consider (target) "take (Suc l) q = take (Suc l) a" | (sibling) "take (Suc l) q \<noteq> take (Suc l) a" "take l q = take l a"
    | (other) "take (Suc l) q \<noteq> take (Suc l) a" "take l q \<noteq> take l a" by blast
  then show ?thesis
  proof cases
    case target
    let ?m = "push_history c t n"
    have tt: "timing_target c (timing s (dn_level n) c) t ?m = Inr n'" using st target by (simp add: node_step_def)
    note fr = timing_target_frame [OF tt]
    have h: "node_history s (evs @ [(c, a, t)]) q l ?m" by (rule history_push [OF lists hist target])
    have ts: "times_at (evs @ [(c, a, t)]) c q l = t # times_at evs c q l" using target by (simp add: times_at_snoc)
    note nx = timing_target_next [OF tt, unfolded push_history_sel, OF len]
    have "node_waits s evs q l n'" by (rule waits_mono [OF waits]) (use fr nx in auto)
    then have "node_waits s (evs @ [(c, a, t)]) q l n'"
    proof (rule waits_snoc)
      fix x assume x: "x \<in> set (timing s (dn_level n') c)" "\<not> te_sibling x" "te_dist x \<le> Suc (length (times_at evs c q l))"
      have x': "x \<in> set (timing s (dn_level n) c)" using x(1) fr by simp
      have past: "dn_prev ?m ! cmd_ix c ! (te_dist x - 1) = (t # times_at evs c q l) ! (te_dist x - 1)"
        using history_nth [OF h, of "te_dist x" c] te_dist_pos [OF x'] te_dist_history [OF x'] x(3) ts by simp
      have "(t # times_at evs c q l) ! (te_dist x - 1) \<in> set (t # times_at evs c q l)"
        using x(3) te_dist_pos [OF x'] by (intro nth_mem) simp
      then have "0 \<le> (t # times_at evs c q l) ! (te_dist x - 1)" using t by (auto simp: times_at_def)
      then show "(t # times_at evs c q l) ! (te_dist x - 1) + te_val x \<le> dn_next n' ! cmd_ix (te_cmd x)"
        using nx x' x(2) unfolding past [symmetric] by blast
    qed (use target in simp)
    moreover have "node_history s (evs @ [(c, a, t)]) q l n'" "node_lists_ok s n'"
      using h fr prev_push(2) [OF lists] by (simp_all add: node_history_def node_lists_ok_def)
    ultimately show ?thesis by (simp add: node_ok_def)
  next
    case sibling
    then have ts: "timing_sibling (timing s (dn_level n) c) t n = Inr n'" using st by (simp add: node_step_def)
    note fr = timing_sibling_frame [OF ts] and nx = timing_sibling_next [OF ts len]
    have "node_waits s evs q l n'" by (rule waits_mono [OF waits]) (use fr nx in auto)
    then have "node_waits s (evs @ [(c, a, t)]) q l n'"
      by (rule waits_snoc) (use sibling fr nx in auto)
    then show ?thesis
      using hist lists fr sibling by (simp add: node_ok_def node_history_def node_lists_ok_def times_at_snoc)
  next
    case other
    then have "n' = n" using st by (simp add: node_step_def)
    moreover have "node_waits s (evs @ [(c, a, t)]) q l n" by (rule waits_snoc [OF waits]) (use other in auto)
    ultimately show ?thesis
      using hist lists other by (simp add: node_ok_def node_history_def times_at_snoc)
  qed
qed

lemma node_ok_strip: "strip n' = strip n \<Longrightarrow> node_ok s evs q l n' = node_ok s evs q l n"
  by (auto dest!: strip_eqD simp: node_ok_def node_lists_ok_def node_history_def node_waits_def)

section \<open>The tree\<close>

lemma wf_update_timing: "update_timing s cmd addr clk d = Inr d' \<Longrightarrow> wf_dram s d \<Longrightarrow> wf_dram s d'"
proof (induction s d arbitrary: d' rule: wf_dram.induct)
  case (1 s n cs)
  show ?case
  proof (cases "dn_id n = addr ! level_ix (dn_level n)")
    case False
    then obtain n' where "timing_sibling (timing s (dn_level n) cmd) clk n = Inr n'" "d' = DRAM_Node n' cs"
      using 1(2) by (auto simp: Let_def)
    then show ?thesis using 1(3) timing_sibling_frame by (auto simp: node_lists_ok_def)
  next
    case True
    then obtain n' cs' where n': "timing_target cmd (timing s (dn_level n) cmd) clk (push_history cmd clk n) = Inr n'"
      and d': "d' = DRAM_Node n' cs'" and cs': "length cs' = length cs"
        "\<And>i. i < length cs \<Longrightarrow> update_timing s cmd addr clk (cs ! i) = Inr (cs' ! i)"
      using 1(2) by (auto simp: Let_def update_timings_all)
    have "node_lists_ok s n'" "dn_level n' = dn_level n"
      using prev_push(2) [of s n cmd clk] 1(3) timing_target_frame [OF n'] by (auto simp: node_lists_ok_def)
    moreover have "wf_dram s (cs' ! i)" if "i < length cs" for i using 1(1) [OF that cs'(2)] that 1(3) by simp
    ultimately show ?thesis using 1(3) d' cs' update_timing_root by fastforce
  qed
qed

definition dram_ok :: "DDR4 \<Rightarrow> int \<Rightarrow> dram_event list \<Rightarrow> DRAM \<Rightarrow> bool" where
  "dram_ok s ch evs d \<longleftrightarrow> wf_dram s d \<and> dn_level (dram_node d) = Channel \<and> dn_id (dram_node d) = ch \<and>
     (\<forall>q. length q = 6 \<longrightarrow> q ! 0 = ch \<longrightarrow> length (path_nodes q d) = length (path_nodes q (DRAM_new s Channel ch)) \<and>
        (\<forall>j < length (path_nodes q d). node_ok s evs q j (path_nodes q d ! j)))"

lemma dram_ok_skel:
  assumes "skel d' = skel d"
  shows "dram_ok s ch evs d' = dram_ok s ch evs d"
proof -
  have path: "map strip (path_nodes q d') = map strip (path_nodes q d)" for q using assms path_skel by metis
  then have len: "length (path_nodes q d') = length (path_nodes q d)" for q by (metis length_map)
  have "strip (path_nodes q d' ! j) = strip (path_nodes q d ! j)" if "j < length (path_nodes q d)" for q j
    using arg_cong [OF path [of q], of "\<lambda>xs. xs ! j"] that len [of q] by simp
  then have "node_ok s evs q j (path_nodes q d' ! j) = node_ok s evs q j (path_nodes q d ! j)" if "j < length (path_nodes q d)" for q j
    using that node_ok_strip by blast
  moreover have "wf_dram s d' = wf_dram s d" using assms wf_skel by metis
  moreover have "strip (dram_node d') = strip (dram_node d)" using assms by (metis skel_sel(1))
  ultimately show ?thesis unfolding dram_ok_def len by (auto dest: strip_eqD)
qed

definition event_ok :: "int \<Rightarrow> dram_event \<Rightarrow> bool" where
  "event_ok ch e \<longleftrightarrow> (case e of (c, a, t) \<Rightarrow> length a = 6 \<and> a ! 0 = ch \<and> 0 \<le> t)"

lemma dram_ok_update:
  assumes upd: "DRAM_update s c a t d = Inr d'" and ok: "dram_ok s ch evs d"
    and ev: "event_ok ch (c, a, t)" "\<forall>e \<in> set evs. event_ok ch e"
  shows "dram_ok s ch (evs @ [(c, a, t)]) d'"
proof -
  obtain d1 where d1: "update_state c a (set_cur_clk t d) = Inr d1" and d': "update_timing s c a t d1 = Inr d'"
    using upd by (auto simp: DRAM_update_def)
  have "skel (set_cur_clk t d) = skel d" by (cases d) (simp add: set_cur_clk_def strip_def)
  then have ok1: "dram_ok s ch evs d1" using skel_update_state [OF d1] dram_ok_skel ok by metis
  then have root: "level_ix (dn_level (dram_node d1)) = 0" "dn_id (dram_node d1) = a ! 0" and wf: "wf_dram s d1"
    using ev(1) by (simp_all add: dram_ok_def event_ok_def)
  have times: "\<forall>(_, _, t) \<in> set evs. 0 \<le> t" "0 \<le> t" "length a = 6" using ev by (auto simp: event_ok_def)
  have "length (path_nodes q d') = length (path_nodes q d1) \<and>
      (\<forall>j < length (path_nodes q d'). node_ok s (evs @ [(c, a, t)]) q j (path_nodes q d' ! j))"
    if q: "length q = 6" "q ! 0 = ch" for q
  proof -
    have "take (Suc 0) q = take (Suc 0) a"
      using q ev(1) times(3) by (cases q; cases a) (simp_all add: event_ok_def)
    note step = update_timing_path [OF d' wf root(1) this root(2) q(1) times(3)]
    have "node_ok s (evs @ [(c, a, t)]) q j (path_nodes q d' ! j)" if "j < length (path_nodes q d1)" for j
    proof (rule node_step_ok)
      show "node_ok s evs q j (path_nodes q d1 ! j)" using ok1 q that by (simp add: dram_ok_def)
    qed (use step that times in auto)
    then show ?thesis using step by simp
  qed
  then show ?thesis
    using wf_update_timing [OF d' wf] update_timing_root [OF d'] ok1 by (simp add: dram_ok_def)
qed

lemma DRAM_new_sel [simp]: "dram_node (DRAM_new s l i) = dram_node_new s l i"
  by (subst DRAM_new.simps) simp

lemma node_new_ok: "node_ok s [] q j (dram_node_new s l i)"
proof -
  have "map (\<lambda>c. replicate (history_length s l c) (-1 :: int)) all_commands ! cmd_ix c = replicate (history_length s l c) (-1)" for c
    by simp
  then show ?thesis
    by (auto simp: node_ok_def node_lists_ok_def node_history_def node_waits_def dram_node_new_def times_at_def padded_def comp_def
        dest: te_dist_pos)
qed

lemma DRAM_new_children:
  "dram_children (DRAM_new s l i) = (case child_level l of None \<Rightarrow> []
     | Some cl \<Rightarrow> map (\<lambda>k. DRAM_new s cl (int k)) [0 ..< nat (org_count (org_entry s) ! level_ix cl)])"
  by (subst DRAM_new.simps) simp

lemma path_nodes_cases:
  assumes "n \<in> set (path_nodes q d)" "n \<noteq> dram_node d"
  obtains k where "k < length (dram_children d)" "n \<in> set (path_nodes q (dram_children d ! k))"
  using assms by (cases d) (auto split: if_splits)

lemma DRAM_new_path: "n \<in> set (path_nodes q (DRAM_new s l i)) \<Longrightarrow> \<exists>l' i'. n = dram_node_new s l' i'"
proof (induction s l i rule: DRAM_new.induct)
  case (1 s l i)
  show ?case
  proof (cases "n = dram_node_new s l i")
    case False
    then have "n \<noteq> dram_node (DRAM_new s l i)" by simp
    with 1(2) obtain k where k: "k < length (dram_children (DRAM_new s l i))" "n \<in> set (path_nodes q (dram_children (DRAM_new s l i) ! k))"
      by (rule path_nodes_cases)
    then show ?thesis using 1(1) unfolding DRAM_new_children by (cases "child_level l") auto
  qed blast
qed

lemma DRAM_new_wf: "wf_dram s (DRAM_new s l i)"
proof (induction s l i rule: DRAM_new.induct)
  case (1 s l i)
  have "node_lists_ok s (dram_node_new s l i)" using node_new_ok node_ok_def by blast
  then show ?case using 1 by (subst DRAM_new.simps) (auto simp: dram_node_new_def split: option.splits)
qed

lemma DRAM_new_ok: "dram_ok s ch [] (DRAM_new s Channel ch)"
proof -
  have "node_ok s [] q j (path_nodes q (DRAM_new s Channel ch) ! j)" if "j < length (path_nodes q (DRAM_new s Channel ch))" for q j
    using DRAM_new_path [OF nth_mem [OF that]] node_new_ok by metis
  then show ?thesis using DRAM_new_wf by (simp add: dram_ok_def dram_node_new_def)
qed

section \<open>Issued commands\<close>

text \<open>\<^verbatim>\<open>Controller::issue_cmd\<close> on the channel: the command has to be ready.\<close>

definition dram_issue :: "DDR4 \<Rightarrow> dram_event \<Rightarrow> DRAM \<Rightarrow> DRAM result" where
  "dram_issue s e d = (case e of (c, a, t) \<Rightarrow>
     bind_r (check_cmd c a t d) (\<lambda>ok. if ok then DRAM_update s c a t d else Inl (RAM_ASSERT ''is_ready(cmd, addr_vec)'')))"

lemma issue_run_ok:
  "fold_r (dram_issue s) evs (DRAM_new s Channel ch) = Inr d \<Longrightarrow> \<forall>e \<in> set evs. event_ok ch e \<Longrightarrow> dram_ok s ch evs d"
proof (induction evs arbitrary: d rule: rev_induct)
  case (snoc e evs)
  obtain c a t where e: "e = (c, a, t)" by (cases e)
  from snoc.prems(1) obtain d1 where d1: "fold_r (dram_issue s) evs (DRAM_new s Channel ch) = Inr d1"
    and d: "DRAM_update s c a t d1 = Inr d"
    by (auto simp: fold_r_append dram_issue_def [of s "(c, a, t)" for c a t] e split: if_splits)
  have "dram_ok s ch evs d1" by (rule snoc.IH [OF d1]) (use snoc.prems(2) in auto)
  then show ?case unfolding e by (rule dram_ok_update [OF d]) (use snoc.prems(2) e in auto)
qed (simp add: DRAM_new_ok)

lemma path_levels:
  "wf_dram s d \<Longrightarrow> j < length (path_nodes q d) \<Longrightarrow> level_ix (dn_level (path_nodes q d ! j)) = level_ix (dn_level (dram_node d)) + j"
proof (induction q d arbitrary: j rule: path_nodes.induct)
  case (1 q n cs)
  show ?case
  proof (cases j)
    case (Suc i)
    let ?k = "nat (child_id n q)"
    have k: "0 \<le> child_id n q \<and> ?k < length cs" "i < length (path_nodes q (cs ! ?k))"
      using 1(3) Suc by (auto split: if_splits)
    have c: "wf_dram s (cs ! ?k)" "level_ix (dn_level (dram_node (cs ! ?k))) = Suc (level_ix (dn_level n))"
      using 1(2) k child_level_ix by auto
    from 1(1) [OF k(1) c(1) k(2)] c(2) k Suc show ?thesis by simp
  qed simp
qed

lemma level_ix_inj: "level_ix l = level_ix l' \<longleftrightarrow> l = l'"
  by (cases l; cases l') simp_all

text \<open>A command that is ready has waited for the constraints at every level it passes.\<close>

lemma ready_waits:
  assumes ok: "dram_ok s ch evs d" and ready: "check_cmd c' q t' d = Inr True" and q: "event_ok ch (c', q, t')"
    and l: "level_ix l < length (path_nodes q (DRAM_new s Channel ch))" "level_ix l \<le> level_ix (scope c')"
  obtains n where "node_waits s evs q (level_ix l) n" "dn_level n = l" "dn_next n ! cmd_ix c' \<le> t'"
proof -
  let ?n = "path_nodes q d ! level_ix l"
  have root: "dn_level (dram_node d) = Channel" and wf: "wf_dram s d" and q': "length q = 6" "q ! 0 = ch" "-1 \<le> t'"
    using ok q by (simp_all add: dram_ok_def event_ok_def)
  have j: "level_ix l < length (path_nodes q d)" using ok q' l(1) by (simp add: dram_ok_def)
  have "node_waits s evs q (level_ix l) ?n" using ok q' j by (simp add: dram_ok_def node_ok_def)
  moreover have "dn_level ?n = l" using path_levels [OF wf j] root by (simp add: level_ix_inj)
  moreover have "dn_next ?n ! cmd_ix c' \<le> t'" using check_path [OF ready q'(3) wf j] root l(2) by simp
  ultimately show thesis by (rule that)
qed

section \<open>Properties\<close>

text \<open>C26.  The commands issued on a channel keep the timing constraints of the standard: take any
  sequence of commands, each issued when \<^verbatim>\<open>DRAM::check\<close> allows it, a constraint of \<^verbatim>\<open>init_timing\<close> from
  \<open>c\<close> to the last command \<open>c'\<close> at a level \<open>l\<close> that \<open>c'\<close> passes, with the value \<open>v\<close>.  If it is a constraint
  within a node, \<open>c'\<close> comes at least \<open>v\<close> cycles after the \<open>dist\<close>-th last \<open>c\<close> in the same node
  (\<^verbatim>\<open>dist\<close> is 4 for the window of four activates); if it is one between siblings, at least \<open>v\<close> cycles
  after any \<open>c\<close> in another node with the same parent.\<close>

theorem timing_constraints_kept:
  assumes "fold_r (dram_issue s) (evs @ [(c', q, t')]) (DRAM_new s Channel ch) = Inr d"
    and "\<forall>e \<in> set (evs @ [(c', q, t')]). event_ok ch e"
    and "level_ix l < length (path_nodes q (DRAM_new s Channel ch))" "level_ix l \<le> level_ix (scope c')"
    and "TE c' dist v sibling \<in> set (timing s l c)"
  shows "if sibling
    then \<forall>a t. (c, a, t) \<in> set evs \<longrightarrow> take (level_ix l) a = take (level_ix l) q \<longrightarrow>
           take (Suc (level_ix l)) a \<noteq> take (Suc (level_ix l)) q \<longrightarrow> t + v \<le> t'
    else dist \<le> length (times_at evs c q (level_ix l)) \<longrightarrow> times_at evs c q (level_ix l) ! (dist - 1) + v \<le> t'"
proof -
  obtain d1 where d1: "fold_r (dram_issue s) evs (DRAM_new s Channel ch) = Inr d1" "check_cmd c' q t' d1 = Inr True"
    using assms(1) by (auto simp: fold_r_append dram_issue_def [of s "(c, a, t)" for c a t] split: if_splits)
  have "dram_ok s ch evs d1" by (rule issue_run_ok [OF d1(1)]) (use assms(2) in auto)
  then obtain n where n: "node_waits s evs q (level_ix l) n" "dn_level n = l" "dn_next n ! cmd_ix c' \<le> t'"
    using d1(2) assms(2) ready_waits [OF _ _ _ assms(3,4)] by (metis in_set_conv_decomp)
  then show ?thesis using assms(5) unfolding node_waits_def by (fastforce dest: order_trans [OF _ n(3)])
qed

text \<open>A small channel: one rank with one bank group of two banks.\<close>

definition sample_ddr4 :: DDR4 where
  "sample_ddr4 =
     \<lparr>org_entry = \<lparr>org_size = 8192, org_dq = 4, org_count = [1, 1, 1, 2, 2 ^ 17, 2 ^ 10]\<rparr>,
      speed_entry = (speed_table DDR4_3200)\<lparr>nRRDS := 4, nRRDL := 8, nFAW := 16, nRFC := 560, nREFI := 12480, nXS := 576\<rparr>,
      refresh_mode = Refresh_1X, prefetch_size = 8, channel_width = 64, read_latency = 26\<rparr>"

lemma sample_timing_run:
  "returns (fold_r (dram_issue sample_ddr4) [(ACT, [0, 0, 0, 1, 5, 0], 1), (RD, [0, 0, 0, 1, 5, 3], 23)] (DRAM_new sample_ddr4 Channel 0))"
  "level_ix Bank < length (path_nodes [0, 0, 0, 1, 5, 3] (DRAM_new sample_ddr4 Channel 0))"
  "TE RD 1 22 False \<in> set (timing sample_ddr4 Bank ACT)"
  "times_at [(ACT, [0, 0, 0, 1, 5, 0], 1)] ACT [0, 0, 0, 1, 5, 3] 3 = [1]"
  by code_simp+

theorem timing_constraints_kept_witness:
  "times_at [(ACT, [0, 0, 0, 1, 5, 0], 1)] ACT [0, 0, 0, 1, 5, 3] 3 ! 0 + 22 \<le> (23 :: int)"
proof -
  from sample_timing_run(1) obtain d where
    "fold_r (dram_issue sample_ddr4) ([(ACT, [0, 0, 0, 1, 5, 0], 1)] @ [(RD, [0, 0, 0, 1, 5, 3], 23)]) (DRAM_new sample_ddr4 Channel 0) = Inr d"
    unfolding returns_def append.simps by blast
  from timing_constraints_kept [OF this _ sample_timing_run(2) _ sample_timing_run(3)] sample_timing_run(4)
  show ?thesis by (simp add: event_ok_def)
qed

end
