(* ===== verification/Ram_Issue.thy ===== *)
theory Ram_Issue
  imports Ram_Timing Ram_Flow
begin

text \<open>
  The commands of the memory controller.  The controller issues at most one command per cycle, and
  only when \<^verbatim>\<open>is_ready\<close> allows it, so that the channel always agrees with the log of its commands
  (\<open>dram_ok\<close>) and every command keeps the timing constraints.
\<close>

section \<open>Keeping the constraints\<close>

text \<open>The command \<open>e\<close> after the commands \<open>evs\<close> of channel \<open>ch\<close>: each constraint on it at a level its address
  reaches.\<close>

definition in_time :: "DDR4 \<Rightarrow> int \<Rightarrow> dram_event list \<Rightarrow> dram_event \<Rightarrow> bool" where
  "in_time s ch evs = (\<lambda>(c', q, t'). \<forall>l c dist v sibling.
     level_ix l < length (path_nodes q (DRAM_new s Channel ch)) \<and> level_ix l \<le> level_ix (scope c') \<and>
     TE c' dist v sibling \<in> set (timing s l c) \<longrightarrow>
     (if sibling
      then \<forall>a t. (c, a, t) \<in> set evs \<and> take (level_ix l) a = take (level_ix l) q \<and>
             take (Suc (level_ix l)) a \<noteq> take (Suc (level_ix l)) q \<longrightarrow> t + v \<le> t'
      else dist \<le> length (times_at evs c q (level_ix l)) \<longrightarrow> times_at evs c q (level_ix l) ! (dist - 1) + v \<le> t'))"

lemma ready_in_time:
  assumes "dram_ok s ch evs d" "check_cmd c' q t' d = Inr True" "event_ok ch (c', q, t')"
  shows "in_time s ch evs (c', q, t')"
  unfolding in_time_def prod.case
proof (intro allI impI, elim conjE)
  fix l c dist v sibling
  assume l: "level_ix l < length (path_nodes q (DRAM_new s Channel ch))" "level_ix l \<le> level_ix (scope c')"
    and te: "TE c' dist v sibling \<in> set (timing s l c)"
  obtain n where n: "node_waits s evs q (level_ix l) n" "dn_level n = l" "dn_next n ! cmd_ix c' \<le> t'"
    by (rule ready_waits [OF assms l])
  then show "if sibling
      then \<forall>a t. (c, a, t) \<in> set evs \<and> take (level_ix l) a = take (level_ix l) q \<and>
             take (Suc (level_ix l)) a \<noteq> take (Suc (level_ix l)) q \<longrightarrow> t + v \<le> t'
      else dist \<le> length (times_at evs c q (level_ix l)) \<longrightarrow> times_at evs c q (level_ix l) ! (dist - 1) + v \<le> t'"
    using te unfolding node_waits_def by (fastforce dest: order_trans [OF _ n(3)])
qed

section \<open>The log of the commands\<close>

text \<open>The command \<^verbatim>\<open>Controller::tick\<close> issues, with its address and time.\<close>

definition ct_issued :: "DDR4 \<Rightarrow> Controller \<Rightarrow> dram_event option result" where
  "ct_issued s c =
     bind_r (ct_serve_reads (ct_begin_tick c)) (\<lambda>(c, _).
     bind_r (tick_ref s c) (\<lambda>c.
     bind_r (ct_choose (ct_switch_mode c)) (\<lambda>x.
       Inr (case x of None \<Rightarrow> None | Some (k, i, cmd) \<Rightarrow> Some (cmd, addr_vec (ct_queue k (ct_switch_mode c) ! i), ct_clk c)))))"

text \<open>Driving a controller: \<open>Some r\<close> offers a request, \<open>None\<close> is a cycle.\<close>

fun ctrl_drive :: "DDR4 \<Rightarrow> Request option list \<Rightarrow> Controller \<Rightarrow> (Controller \<times> dram_event list) result" where
  "ctrl_drive s [] c = Inr (c, [])"
| "ctrl_drive s (Some r # es) c = ctrl_drive s es (snd (ct_enqueue r c))"
| "ctrl_drive s (None # es) c =
     bind_r (ct_issued s c) (\<lambda>e.
     bind_r (ct_tick s c) (\<lambda>(c, _).
     bind_r (ctrl_drive s es c) (\<lambda>(c, log). Inr (c, (case e of None \<Rightarrow> log | Some e \<Rightarrow> e # log)))))"

section \<open>The controller agrees with its log\<close>

definition addr_ok :: "int \<Rightarrow> Request \<Rightarrow> bool" where
  "addr_ok ch r \<longleftrightarrow> length (addr_vec r) = 6 \<and> addr_vec r ! 0 = ch"

definition ct_ok :: "DDR4 \<Rightarrow> int \<Rightarrow> dram_event list \<Rightarrow> Controller \<Rightarrow> bool" where
  "ct_ok s ch log c \<longleftrightarrow> dram_ok s ch log (ct_channel c) \<and> (\<forall>k. list_all (addr_ok ch) (ct_queue k c)) \<and>
     0 \<le> ct_clk c \<and> (\<forall>e \<in> set log. event_ok ch e \<and> snd (snd e) \<le> ct_clk c)"

lemma ct_ok_cong:
  assumes "skel (ct_channel c') = skel (ct_channel c)" "\<And>k. map addr_vec (ct_queue k c') = map addr_vec (ct_queue k c)" "ct_clk c' = ct_clk c"
  shows "ct_ok s ch log c' = ct_ok s ch log c"
proof -
  have "list_all (addr_ok ch) q = list_all (\<lambda>a. length a = 6 \<and> a ! 0 = ch) (map addr_vec q)" for q
    by (simp add: list_all_iff addr_ok_def)
  then show ?thesis using assms by (simp add: ct_ok_def dram_ok_skel [OF assms(1)])
qed

lemma enqueue_ok: "ct_enqueue r c = (ok, c') \<Longrightarrow> addr_ok ch r \<Longrightarrow> ct_ok s ch log c \<Longrightarrow> ct_ok s ch log c'"
  by (auto simp: ct_enqueue_def ct_ok_def Let_def addr_ok_def split: if_splits)

lemma begin_tick_ok: "ct_ok s ch log c \<Longrightarrow> ct_ok s ch log (ct_begin_tick c) \<and> (\<forall>e \<in> set log. snd (snd e) < ct_clk (ct_begin_tick c))"
  by (auto simp: ct_begin_tick_def ct_ok_def Let_def)

lemma serve_reads_ok:
  assumes "ct_serve_reads c = Inr (c', rs)" "ct_ok s ch log c"
  shows "ct_ok s ch log c' \<and> ct_clk c' = ct_clk c"
proof -
  have "skel (ct_channel c') = skel (ct_channel c)" "\<And>k. ct_queue k c' = ct_queue k c" "ct_clk c' = ct_clk c"
    using assms(1) by (auto simp: ct_serve_reads_def split: list.splits if_splits dest: skel_serving)
  then show ?thesis using ct_ok_cong assms(2) by metis
qed

lemma refresh_request_addr: "addr_ok ch (refresh_request ch r)"
  by (simp add: addr_ok_def refresh_request_def)

lemma tick_ref_ok:
  assumes "tick_ref s c = Inr c'" "ct_ok s ch log c"
  shows "ct_ok s ch log c' \<and> ct_clk c' = ct_clk c"
proof -
  let ?c = "c\<lparr>ct_ref_clk := ct_ref_clk c + 1\<rparr>"
  have c: "ct_ok s ch log ?c \<and> ct_clk ?c = ct_clk c" using assms(2) ct_ok_cong [of ?c c] by simp
  show ?thesis
  proof (cases "ct_ref_clk ?c - ct_refreshed ?c \<ge> nREFI (speed_entry s)")
    case True
    then obtain c1 where f: "fold_r refresh_target (map (dn_id \<circ> dram_node) (dram_children (ct_channel ?c))) ?c = Inr c1"
      and c': "c' = c1\<lparr>ct_refreshed := ct_ref_clk c1\<rparr>"
      using assms(1) by (auto simp: tick_ref_def inject_refresh_def Let_def)
    from f c have "ct_ok s ch log c1 \<and> ct_clk c1 = ct_clk c"
    proof (rule fold_r_inv)
      fix r c1 c2 assume c1: "ct_ok s ch log c1 \<and> ct_clk c1 = ct_clk c" and "refresh_target r c1 = Inr c2"
      then have e: "ct_enqueue (refresh_request (dn_id (dram_node (ct_channel c1))) r) c1 = (True, c2)"
        by (auto simp: refresh_target_def split: prod.splits if_splits)
      have "dn_id (dram_node (ct_channel c1)) = ch" using c1 by (simp add: ct_ok_def dram_ok_def)
      then have "ct_ok s ch log c2" using enqueue_ok [OF e] refresh_request_addr c1 by simp
      moreover have "ct_clk c2 = ct_clk c1" using e by (auto simp: ct_enqueue_def Let_def split: if_splits)
      ultimately show "ct_ok s ch log c2 \<and> ct_clk c2 = ct_clk c" using c1 by simp
    qed
    then show ?thesis using c' ct_ok_cong [of c' c1] by simp
  next
    case False
    then show ?thesis using assms(1) c by (simp add: tick_ref_def Let_def)
  qed
qed

lemma switch_mode_ok: "ct_ok s ch log c \<Longrightarrow> ct_ok s ch log (ct_switch_mode c) \<and> ct_clk (ct_switch_mode c) = ct_clk c"
  by (simp add: ct_switch_mode_def Let_def ct_ok_def)

lemma first_command_ok:
  assumes "ct_first_command s k i c = Inr c'" "ct_ok s ch log c" "i < length (ct_queue k c)"
  shows "ct_ok s ch log c' \<and> ct_clk c' = ct_clk c \<and> (\<forall>k. map addr_vec (ct_queue k c') = map addr_vec (ct_queue k c))"
proof -
  let ?r = "(ct_queue k c ! i)\<lparr>is_first_command := False\<rparr>"
  have q: "map addr_vec ((ct_queue k c)[i := ?r]) = map addr_vec (ct_queue k c)"
    using assms(3) by (simp add: map_update list_update_same_conv)
  have "skel (ct_channel c') = skel (ct_channel c) \<and> (\<forall>k. map addr_vec (ct_queue k c') = map addr_vec (ct_queue k c)) \<and> ct_clk c' = ct_clk c"
    using assms(1) q by (auto simp: ct_first_command_def Let_def split: if_splits dest: skel_serving)
  then show ?thesis using ct_ok_cong assms(2) by metis
qed

lemma issue_cmd_ok:
  assumes "issue_cmd s cmd av c = Inr c'" "ct_ok s ch log c" "length av = 6" "av ! 0 = ch"
  shows "ct_ok s ch (log @ [(cmd, av, ct_clk c)]) c' \<and> check_cmd cmd av (ct_clk c) (ct_channel c) = Inr True \<and>
    ct_clk c' = ct_clk c \<and> (\<forall>k. ct_queue k c' = ct_queue k c)"
proof -
  from assms(1) obtain d where r: "check_cmd cmd av (ct_clk c) (ct_channel c) = Inr True"
    and d: "DRAM_update s cmd av (ct_clk c) (ct_channel c) = Inr d" and c': "ct_channel c' = d" "ct_clk c' = ct_clk c" "\<And>k. ct_queue k c' = ct_queue k c"
    by (auto simp: issue_cmd_def is_ready_cmd_def Let_def split: if_splits)
  have e: "event_ok ch (cmd, av, ct_clk c)" using assms by (simp add: event_ok_def ct_ok_def)
  have "dram_ok s ch (log @ [(cmd, av, ct_clk c)]) d"
    by (rule dram_ok_update [OF d _ e]) (use assms(2) in \<open>auto simp: ct_ok_def\<close>)
  then show ?thesis using r c' e assms(2) by (auto simp: ct_ok_def)
qed

lemma set_queue_ok:
  "ct_ok s ch log c \<Longrightarrow> list_all (addr_ok ch) q \<Longrightarrow> ct_ok s ch log (ct_set_queue k q c)"
  by (simp add: ct_ok_def)

lemma remove_nth_all: "list_all P q \<Longrightarrow> list_all P (remove_nth i q)"
  by (auto simp: remove_nth_def list_all_iff dest: in_set_takeD in_set_dropD)

lemma pending_ok: "ct_ok s ch log (c\<lparr>ct_pending := p\<rparr>) = ct_ok s ch log c"
  by (rule ct_ok_cong) simp_all

lemma after_command_ok:
  assumes "ct_after_command s k i cmd c = Inr (c', rs)" "ct_ok s ch log c" "i < length (ct_queue k c)"
  shows "ct_ok s ch log c'"
proof -
  let ?r = "ct_queue k c ! i"
  have r: "addr_ok ch ?r" "list_all (addr_ok ch) (ct_queue k' c)" for k' using assms(2,3) by (auto simp: ct_ok_def list_all_length)
  have ch: "ct_ok s ch log (c\<lparr>ct_channel := d\<rparr>)" if "update_serving_requests av x t (ct_channel c) = Inr d" for d av x t
    using assms(2) ct_ok_cong [of "c\<lparr>ct_channel := d\<rparr>" c] skel_serving [OF that] by simp
  show ?thesis using assms(1,2) r
    by (auto simp: ct_after_command_def Let_def pending_ok split: if_splits intro!: set_queue_ok remove_nth_all dest: ch)
qed

lemma schedule_ok:
  assumes "ct_choose c = Inr x" "ct_schedule s c = Inr (c', rs)" "ct_ok s ch log c"
  shows "case x of None \<Rightarrow> ct_ok s ch log c'
    | Some (k, i, cmd) \<Rightarrow> ct_ok s ch (log @ [(cmd, addr_vec (ct_queue k c ! i), ct_clk c)]) c' \<and>
        in_time s ch log (cmd, addr_vec (ct_queue k c ! i), ct_clk c)"
proof (cases x)
  case None
  then show ?thesis using assms by (simp add: ct_schedule_def)
next
  case (Some y)
  obtain k i cmd where y: "x = Some (k, i, cmd)" using Some by (cases y) auto
  let ?a = "addr_vec (ct_queue k c ! i)"
  have i: "i < length (ct_queue k c)" using ct_choose_less assms(1) y by blast
  from assms(1,2) y obtain c1 c2 where c1: "ct_first_command s k i c = Inr c1"
    and c2: "issue_cmd s cmd (addr_vec (ct_queue k c1 ! i)) c1 = Inr c2" and c': "ct_after_command s k i cmd c2 = Inr (c', rs)"
    by (auto simp: ct_schedule_def)
  have f: "ct_ok s ch log c1" "ct_clk c1 = ct_clk c" "map addr_vec (ct_queue k c1) = map addr_vec (ct_queue k c)"
    using first_command_ok [OF c1 assms(3) i] by simp_all
  have l: "length (ct_queue k c1) = length (ct_queue k c)" using f(3) by (rule map_eq_imp_length_eq)
  have a: "addr_vec (ct_queue k c1 ! i) = ?a" using arg_cong [OF f(3), of "\<lambda>xs. xs ! i"] i l by simp
  have ok: "length ?a = 6" "?a ! 0 = ch" using assms(3) i by (auto simp: ct_ok_def addr_ok_def list_all_length)
  note u = issue_cmd_ok [OF c2 [unfolded a] f(1) ok, unfolded f(2)]
  then have "ct_ok s ch (log @ [(cmd, ?a, ct_clk c)]) c'" using after_command_ok [OF c'] i l by simp
  moreover have "in_time s ch log (cmd, ?a, ct_clk c)"
    by (rule ready_in_time [of _ _ _ "ct_channel c1"]) (use u f ok in \<open>auto simp: ct_ok_def event_ok_def\<close>)
  ultimately show ?thesis using y by simp
qed

definition logged :: "dram_event list \<Rightarrow> dram_event option \<Rightarrow> dram_event list" where
  "logged log x = (case x of None \<Rightarrow> log | Some e \<Rightarrow> log @ [e])"

definition keeps_timing :: "DDR4 \<Rightarrow> int \<Rightarrow> dram_event list \<Rightarrow> bool" where
  "keeps_timing s ch log \<longleftrightarrow> sorted_wrt (<) (map (snd \<circ> snd) log) \<and> (\<forall>i < length log. in_time s ch (take i log) (log ! i))"

lemma keeps_timing_snoc:
  "keeps_timing s ch (log @ [e]) \<longleftrightarrow> keeps_timing s ch log \<and> (\<forall>x \<in> set log. snd (snd x) < snd (snd e)) \<and> in_time s ch log e"
  by (auto simp: keeps_timing_def sorted_wrt_append nth_append less_Suc_eq)

lemma tick_ok:
  assumes "ct_issued s c = Inr x" "ct_tick s c = Inr (c', rs)" "ct_ok s ch log c" "keeps_timing s ch log"
  shows "ct_ok s ch (logged log x) c' \<and> keeps_timing s ch (logged log x)"
proof -
  from assms(2) obtain c1 r1 c2 r2 where c1: "ct_serve_reads (ct_begin_tick c) = Inr (c1, r1)" and c2: "tick_ref s c1 = Inr c2"
    and sch: "ct_schedule s (ct_switch_mode c2) = Inr (c', r2)"
    by (auto simp: ct_tick_def)
  have b: "ct_ok s ch log (ct_begin_tick c)" "\<forall>e \<in> set log. snd (snd e) < ct_clk (ct_begin_tick c)"
    using begin_tick_ok [OF assms(3)] by simp_all
  have o1: "ct_ok s ch log c1 \<and> ct_clk c1 = ct_clk (ct_begin_tick c)" by (rule serve_reads_ok [OF c1 b(1)])
  have o2: "ct_ok s ch log c2 \<and> ct_clk c2 = ct_clk c1" by (rule tick_ref_ok [OF c2]) (use o1 in simp)
  let ?c = "ct_switch_mode c2"
  have o3: "ct_ok s ch log ?c" "ct_clk ?c = ct_clk (ct_begin_tick c)" using switch_mode_ok [of s ch log c2] o1 o2 by simp_all
  from assms(1) obtain y where y: "ct_choose ?c = Inr y"
    and x: "x = (case y of None \<Rightarrow> None | Some (k, i, cmd) \<Rightarrow> Some (cmd, addr_vec (ct_queue k ?c ! i), ct_clk c2))"
    by (auto simp: ct_issued_def c1 c2)
  note r = schedule_ok [OF y sch o3(1)]
  show ?thesis
  proof (cases y)
    case None
    then show ?thesis using r x assms(4) by (simp add: logged_def)
  next
    case (Some z)
    then show ?thesis using r x assms(4) b(2) o1 o2 o3(2)
      by (cases z) (simp add: logged_def keeps_timing_snoc)
  qed
qed

lemma drive_ok:
  "ctrl_drive s evs c = Inr (c', new) \<Longrightarrow> ct_ok s ch log c \<Longrightarrow> keeps_timing s ch log \<Longrightarrow>
     list_all (pred_option (addr_ok ch)) evs \<Longrightarrow> ct_ok s ch (log @ new) c' \<and> keeps_timing s ch (log @ new)"
proof (induction evs arbitrary: c new log)
  case (Cons ev evs)
  show ?case
  proof (cases ev)
    case None
    with Cons.prems(1) obtain x c1 rs n1 where x: "ct_issued s c = Inr x" "ct_tick s c = Inr (c1, rs)"
      and d: "ctrl_drive s evs c1 = Inr (c', n1)" and new: "new = (case x of None \<Rightarrow> n1 | Some e \<Rightarrow> e # n1)" by auto
    have "ct_ok s ch (logged log x) c1 \<and> keeps_timing s ch (logged log x)" by (rule tick_ok [OF x Cons.prems(2,3)])
    moreover have "logged log x @ n1 = log @ new" by (cases x) (simp_all add: logged_def new)
    ultimately show ?thesis using Cons.IH [OF d, of "logged log x"] Cons.prems(4) by simp
  next
    case (Some r)
    have "ct_ok s ch log (snd (ct_enqueue r c))"
      by (rule enqueue_ok [of r c "fst (ct_enqueue r c)"]) (use Cons.prems Some in simp_all)
    then show ?thesis using Cons.IH [of "snd (ct_enqueue r c)" new log] Cons.prems Some by simp
  qed
qed simp

lemma Controller_new_ok: "ct_ok s ch [] (Controller_new cores (DRAM_new s Channel ch)) \<and> keeps_timing s ch []"
proof -
  have "ct_queue k (Controller_new cores d) = []" for k d by (cases k) (simp_all add: Controller_new_def Queue_new_def ct_queue.simps)
  then show ?thesis by (simp add: ct_ok_def DRAM_new_ok keeps_timing_def Controller_new_def)
qed

section \<open>Properties\<close>

text \<open>C2.  The memory controller keeps the timing of the standard: offer any requests of its channel to a new
  controller, with any cycles in between.  As long as no assertion fails, it issues at most one command per cycle,
  and each of its commands, refreshes included, keeps every constraint of \<^verbatim>\<open>init_timing\<close> to the commands before it.\<close>

theorem controller_keeps_timing:
  assumes "ctrl_drive s evs (Controller_new cores (DRAM_new s Channel ch)) = Inr (c, log)"
    and "list_all (pred_option (\<lambda>r. length (addr_vec r) = 6 \<and> addr_vec r ! 0 = ch)) evs"
  shows "sorted_wrt (<) (map (snd \<circ> snd) log) \<and> (\<forall>i < length log. in_time s ch (take i log) (log ! i))"
proof -
  have "list_all (pred_option (addr_ok ch)) evs" using assms(2) by (simp add: addr_ok_def [abs_def])
  with drive_ok [OF assms(1), of ch "[]"] Controller_new_ok have "keeps_timing s ch log" by simp
  then show ?thesis by (simp add: keeps_timing_def)
qed

text \<open>Two reads in different banks of a group: the second bank is activated 8 cycles after the first.\<close>

definition sample_reads :: "Request option list" where
  "sample_reads =
     [Some ((Request_new 0 READ 1)\<lparr>addr_vec := [0, 0, 0, 0, 5, 3]\<rparr>),
      Some ((Request_new 64 READ 2)\<lparr>addr_vec := [0, 0, 0, 1, 6, 3]\<rparr>)] @ replicate 9 None"

lemma sample_reads_run:
  "(case ctrl_drive sample_ddr4 sample_reads (Controller_new 1 (DRAM_new sample_ddr4 Channel 0)) of
      Inl e \<Rightarrow> [] | Inr (c, log) \<Rightarrow> log) = [(ACT, [0, 0, 0, 0, 5, 3], 1), (ACT, [0, 0, 0, 1, 6, 3], 9)]"
  by code_simp

theorem controller_keeps_timing_witness:
  "\<exists>c log. ctrl_drive sample_ddr4 sample_reads (Controller_new 1 (DRAM_new sample_ddr4 Channel 0)) = Inr (c, log) \<and>
     length log = 2 \<and> in_time sample_ddr4 0 (take 1 log) (log ! 1)"
proof -
  obtain c log where l: "ctrl_drive sample_ddr4 sample_reads (Controller_new 1 (DRAM_new sample_ddr4 Channel 0)) = Inr (c, log)"
    "length log = 2" using sample_reads_run by (auto split: sum.splits)
  have "list_all (pred_option (\<lambda>r. length (addr_vec r) = 6 \<and> addr_vec r ! 0 = 0)) sample_reads"
    by (simp add: sample_reads_def list_all_iff)
  from controller_keeps_timing [OF l(1) this] l show ?thesis by auto
qed

end
