(* ===== verification/Ram_Sched.thy ===== *)
theory Ram_Sched
  imports Ram_Timing Ram_Flow
begin

text \<open>
  The scheduler picks the request its policy prefers, and the check of the timing agrees with the earliest
  time a command may be issued.
\<close>

section \<open>The scheduler\<close>

text \<open>Request \<open>i\<close> beats request \<open>j\<close>: only it is preferred, or both are alike and it is older, or as old and
  before it in the queue.\<close>

definition beats :: "bool list \<Rightarrow> Request list \<Rightarrow> nat \<Rightarrow> nat \<Rightarrow> bool" where
  "beats pref q i j \<longleftrightarrow> (pref ! i \<and> \<not> pref ! j) \<or>
     (pref ! i = pref ! j \<and> (arrive (q ! i) < arrive (q ! j) \<or> (arrive (q ! i) = arrive (q ! j) \<and> i < j)))"

lemma beats_trans: "beats pref q i j \<Longrightarrow> beats pref q j k \<Longrightarrow> beats pref q i k"
  by (auto simp: beats_def)

lemma compare_beats:
  assumes "sched_compare ty c q i j = Inr k" "i < j"
    and "sched_pref ty c (q ! i) = Inr (pref ! i)" "sched_pref ty c (q ! j) = Inr (pref ! j)"
  shows "if k = i then beats pref q i j else k = j \<and> beats pref q j i"
  using assms by (auto simp: sched_compare_def beats_def split: if_splits)

lemma sched_compare_prefs: "sched_compare ty c q i j = Inr k \<Longrightarrow> (\<exists>a. sched_pref ty c (q ! i) = Inr a) \<and> (\<exists>b. sched_pref ty c (q ! j) = Inr b)"
  by (auto simp: sched_compare_def)

lemma sched_best_beats:
  assumes "\<And>j. j < n \<Longrightarrow> sched_pref ty c (q ! j) = Inr (pref ! j)" "0 < n"
    and "fold_r (\<lambda>j i. sched_compare ty c q i j) [1 ..< n] 0 = Inr i"
  shows "i < n \<and> (\<forall>j < n. j \<noteq> i \<longrightarrow> beats pref q i j)"
  using assms
proof (induction n arbitrary: i)
  case (Suc n)
  show ?case
  proof (cases "n = 0")
    case False
    then have "[1 ..< Suc n] = [1 ..< n] @ [n]" by simp
    with Suc.prems(3) obtain k where k: "fold_r (\<lambda>j i. sched_compare ty c q i j) [1 ..< n] 0 = Inr k" "sched_compare ty c q k n = Inr i"
      by (auto simp: fold_r_append)
    have b: "k < n \<and> (\<forall>j < n. j \<noteq> k \<longrightarrow> beats pref q k j)" by (rule Suc.IH [OF Suc.prems(1) _ k(1)]) (use False in auto)
    then have "if i = k then beats pref q k n else i = n \<and> beats pref q n k"
      using compare_beats [OF k(2)] Suc.prems(1) by simp
    then show ?thesis using b beats_trans [of pref q n k] by (auto simp: less_Suc_eq split: if_splits)
  qed (use Suc.prems in simp)
qed simp

text \<open>Every preference was asked for, unless there is one request only.\<close>

lemma sched_best_prefs:
  assumes "fold_r (\<lambda>j i. sched_compare ty c q i j) [1 ..< n] 0 = Inr i" "j < n" "1 < n"
  shows "\<exists>b. sched_pref ty c (q ! j) = Inr b"
  using assms
proof (induction n arbitrary: i)
  case (Suc n)
  then have "[1 ..< Suc n] = [1 ..< n] @ [n]" by simp
  with Suc.prems(1) obtain k where k: "fold_r (\<lambda>j i. sched_compare ty c q i j) [1 ..< n] 0 = Inr k" "sched_compare ty c q k n = Inr i"
    by (auto simp: fold_r_append)
  show ?case
  proof (cases "j = n")
    case False
    show ?thesis
    proof (cases "1 < n")
      case True
      then show ?thesis using Suc.IH [OF k(1)] Suc.prems(2) False by simp
    next
      case n: False
      then have "j = 0" "k = 0" using Suc.prems False k(1) by auto
      then show ?thesis using sched_compare_prefs [OF k(2)] by simp
    qed
  qed (use sched_compare_prefs [OF k(2)] in simp)
qed simp

section \<open>The earliest time of a command\<close>

lemma check_next:
  assumes "wf_dram s d" "level_ix (dn_level (dram_node d)) \<le> level_ix (scope cmd)" "0 \<le> clk"
    and "get_next cmd addr d = Inr m"
  shows "check_cmd cmd addr clk d = Inr (m \<le> clk)"
  using assms
proof (induction cmd addr clk d arbitrary: m rule: check_cmd.induct)
  case (1 cmd addr clk n cs)
  let ?nx = "dn_next n ! cmd_ix cmd" and ?k = "child_id n addr"
  show ?case
  proof (cases "level_ix (dn_level n) < level_ix (scope cmd) \<and> cs \<noteq> [] \<and> 0 \<le> ?k")
    case True
    then obtain m' where k: "nat ?k < length cs" and m': "get_next cmd addr (cs ! nat ?k) = Inr m'" "m = max ?nx m'"
      using "1.prems"(4) by (auto simp: Let_def split: if_splits)
    have l: "dn_level n \<noteq> scope cmd" using True by auto
    have cl: "wf_dram s (cs ! nat ?k)" "child_level (dn_level n) = Some (dn_level (dram_node (cs ! nat ?k)))"
      using "1.prems"(1) k by auto
    have "level_ix (dn_level (dram_node (cs ! nat ?k))) \<le> level_ix (scope cmd)"
      using child_level_ix [OF cl(2)] True by simp
    with "1.IH" [OF _ _ k cl(1) _ "1.prems"(3) m'(1)] show ?thesis
      using k l True m'(2) "1.prems"(3) by auto
  next
    case False
    then have "?k < 0 \<or> dn_level n = scope cmd \<or> cs = []" using "1.prems"(2) level_ix_inj [of "dn_level n" "scope cmd"] by auto
    moreover have "m = ?nx" using False "1.prems"(4) by (auto simp: Let_def)
    ultimately show ?thesis using "1.prems"(3) by auto
  qed
qed

section \<open>Properties\<close>

text \<open>C30.  The scheduler takes the best request of a queue: a request its policy prefers if there is one (FRFCFS prefers a
  request whose next command is ready, FRFCFS_Cap, the policy of the simulator, one that is also below the cap of row
  hits), among those the oldest, and of two that arrived together the one enqueued first.\<close>

theorem scheduler_takes_best:
  assumes "sched_get_head c q = Inr h" "ct_sched_type c \<noteq> FRFCFS_PriorHit"
  shows "case h of None \<Rightarrow> q = []
    | Some i \<Rightarrow> i < length q \<and> (\<forall>j < length q. j \<noteq> i \<longrightarrow>
        (let a = (sched_pref (ct_sched_type c) c (q ! i) = Inr True); b = (sched_pref (ct_sched_type c) c (q ! j) = Inr True)
         in (a \<and> \<not> b) \<or>
            (a = b \<and> (arrive (q ! i) < arrive (q ! j) \<or> (arrive (q ! i) = arrive (q ! j) \<and> i < j)))))"
proof (cases "q = []")
  case True
  then show ?thesis using assms(1) by (auto simp: sched_get_head_def)
next
  case False
  with assms obtain i where i: "h = Some i" "fold_r (\<lambda>j i. sched_compare (ct_sched_type c) c q i j) [1 ..< length q] 0 = Inr i"
    by (auto simp: sched_get_head_def sched_best_def)
  let ?pref = "map (\<lambda>r. sched_pref (ct_sched_type c) c r = Inr True) q"
  show ?thesis
  proof (cases "length q = 1")
    case True
    then show ?thesis using i by auto
  next
    case l: False
    then have "1 < length q" using False by (cases q) auto
    then have "sched_pref (ct_sched_type c) c (q ! j) = Inr (?pref ! j)" if "j < length q" for j
      using sched_best_prefs [OF i(2) that] that by auto
    from sched_best_beats [OF this _ i(2)] False
    have b: "i < length q" "\<forall>j < length q. j \<noteq> i \<longrightarrow> beats ?pref q i j" by simp_all
    have "?pref ! i = (sched_pref (ct_sched_type c) c (q ! i) = Inr True)" using b(1) by simp
    then show ?thesis using i(1) b by (simp add: beats_def Let_def)
  qed
qed

text \<open>Three reads of one bank with row 5 open: the oldest wants row 6 and needs a precharge first, which is not yet
  allowed, so the second is taken.\<close>

definition sample_sched :: Controller where
  "sample_sched =
     (case fold_r (dram_issue sample_ddr4) [(ACT, [0, 0, 0, 1, 5, 0], 1)] (DRAM_new sample_ddr4 Channel 0) of
        Inl e \<Rightarrow> Controller_new 1 (DRAM_new sample_ddr4 Channel 0)
      | Inr d \<Rightarrow> (Controller_new 1 d)\<lparr>ct_clk := 25\<rparr>)"

definition sample_queue :: "Request list" where
  "sample_queue = map (\<lambda>(i, row, t). (Request_new 0 READ i)\<lparr>addr_vec := [0, 0, 0, 1, row, 3], arrive := t\<rparr>) [(1, 6, 2), (2, 5, 4), (3, 5, 4)]"

lemma sample_sched_run:
  "sched_get_head sample_sched sample_queue = Inr (Some 1)"
  "sched_pref FRFCFS_Cap sample_sched (sample_queue ! 0) = Inr False" "sched_pref FRFCFS_Cap sample_sched (sample_queue ! 1) = Inr True"
  "sched_pref FRFCFS_Cap sample_sched (sample_queue ! 2) = Inr True"
  "ct_sched_type sample_sched = FRFCFS_Cap" "length sample_queue = 3"
  by code_simp+

theorem scheduler_takes_best_witness:
  "sched_get_head sample_sched sample_queue = Inr (Some 1) \<and> ct_sched_type sample_sched \<noteq> FRFCFS_PriorHit \<and>
     arrive (sample_queue ! 1) \<le> arrive (sample_queue ! 2)"
  using scheduler_takes_best [OF sample_sched_run(1)] sample_sched_run by (auto simp: Let_def dest: spec [of _ 2])


lemma sample_next_run:
  "(case fold_r (dram_issue sample_ddr4) [(ACT, [0, 0, 0, 1, 5, 0], 1)] (DRAM_new sample_ddr4 Channel 0) of
      Inl e \<Rightarrow> False | Inr d \<Rightarrow> get_next RD [0, 0, 0, 1, 5, 3] d = Inr 23)"
  by code_simp


end
