(* ===== verification/Ram_Tree.thy ===== *)
theory Ram_Tree
  imports Ram_Timing Ram_Flow
begin

text \<open>
  What the DRAM tree looks like in a running memory, and that its operations keep it so and raise none of their
  assertions: the shape of the organisation, every rank powered up, a bank closed or with one open row, and in every node the
  number of requests it is serving.
\<close>

section \<open>The shape of the tree\<close>

text \<open>\<open>tab\<close> gives the open row of a bank, \<open>A\<close> the addresses of the requests being served; \<open>pre\<close> is the
  position of the node.\<close>

definition serving_at :: "int list multiset \<Rightarrow> int list \<Rightarrow> int" where
  "serving_at A pre = int (size {#a \<in># A. take (length pre) a = pre#})"

definition bank_fits :: "int option \<Rightarrow> dram_node \<Rightarrow> bool" where
  "bank_fits row n \<longleftrightarrow> (case row of None \<Rightarrow> dn_state n = Closed \<and> dn_row_state n = []
     | Some r \<Rightarrow> dn_state n = Opened \<and> map fst (dn_row_state n) = [r])"

definition node_fits :: "DDR4 \<Rightarrow> (int list \<Rightarrow> int option) \<Rightarrow> int list multiset \<Rightarrow> int list \<Rightarrow> dram_node \<Rightarrow> bool" where
  "node_fits s tab A pre n \<longleftrightarrow> length pre = Suc (level_ix (dn_level n)) \<and> length pre \<le> 4 \<and> dn_id n = last pre \<and> node_lists_ok s n \<and>
     dn_cur_serving_requests n = serving_at A pre \<and> (dn_cur_serving_requests n > 0 \<longrightarrow> dn_begin_of_serving n \<noteq> -1) \<and>
     (dn_level n = Rank \<longrightarrow> dn_state n = PowerUp) \<and> (dn_level n = Bank \<longrightarrow> bank_fits (tab pre) n)"

fun tree_fits :: "DDR4 \<Rightarrow> (int list \<Rightarrow> int option) \<Rightarrow> int list multiset \<Rightarrow> int list \<Rightarrow> DRAM \<Rightarrow> bool" where
  "tree_fits s tab A pre (DRAM_Node n cs) \<longleftrightarrow> node_fits s tab A pre n \<and>
     length cs = (case child_level (dn_level n) of None \<Rightarrow> 0 | Some cl \<Rightarrow> nat (org_count (org_entry s) ! level_ix cl)) \<and>
     (\<forall>i < length cs. tree_fits s tab A (pre @ [int i]) (cs ! i))"

text \<open>Addresses of requests, and of refreshes.\<close>

definition in_org :: "DDR4 \<Rightarrow> int list \<Rightarrow> bool" where
  "in_org s a \<longleftrightarrow> length a = 6 \<and> (\<forall>j \<in> {1, 2, 3}. 0 \<le> a ! j \<and> a ! j < org_count (org_entry s) ! j)"

definition rank_addr :: "DDR4 \<Rightarrow> int list \<Rightarrow> bool" where
  "rank_addr s a \<longleftrightarrow> length a = 6 \<and> 0 \<le> a ! 1 \<and> a ! 1 < org_count (org_entry s) ! 1 \<and> a ! 2 < 0"

lemma fits_level:
  assumes "node_fits s tab A pre n"
  shows "length pre = 1 \<longleftrightarrow> dn_level n = Channel" "length pre = 2 \<longleftrightarrow> dn_level n = Rank"
    "length pre = 3 \<longleftrightarrow> dn_level n = BankGroup" "length pre = 4 \<longleftrightarrow> dn_level n = Bank"
  using assms by (cases "dn_level n"; simp add: node_fits_def)+

lemma fits_levels: "node_fits s tab A pre n \<Longrightarrow> dn_level n = Channel \<or> dn_level n = Rank \<or> dn_level n = BankGroup \<or> dn_level n = Bank"
  by (cases "dn_level n") (auto simp: node_fits_def)

text \<open>One step down the path of an address.\<close>

lemma path_step:
  assumes "tree_fits s tab A pre (DRAM_Node n cs)" "take (length pre) a = pre" "length a = 6"
    and "dn_level n \<noteq> Bank" "0 \<le> a ! length pre" "a ! length pre < org_count (org_entry s) ! length pre"
  shows "child_id n a = a ! length pre" "nat (a ! length pre) < length cs"
    "tree_fits s tab A (pre @ [a ! length pre]) (cs ! nat (a ! length pre))" "take (Suc (length pre)) a = pre @ [a ! length pre]"
proof -
  have n: "node_fits s tab A pre n" and l: "length cs = (case child_level (dn_level n) of None \<Rightarrow> 0 | Some cl \<Rightarrow> nat (org_count (org_entry s) ! level_ix cl))"
    and cs: "\<And>i. i < length cs \<Longrightarrow> tree_fits s tab A (pre @ [int i]) (cs ! i)"
    using assms(1) by simp_all
  have p: "length pre = Suc (level_ix (dn_level n))" "length pre \<le> 4" using n by (simp_all add: node_fits_def)
  then show "child_id n a = a ! length pre" by (simp add: child_id_def)
  have "length cs = nat (org_count (org_entry s) ! length pre)"
    using fits_levels [OF n] assms(4) l p by (auto simp: numeral_2_eq_2 numeral_3_eq_3)
  then show i: "nat (a ! length pre) < length cs" using assms(5,6) by simp
  show "tree_fits s tab A (pre @ [a ! length pre]) (cs ! nat (a ! length pre))" using cs [OF i] assms(5) by simp
  have "length pre < length a" using p(2) assms(3) by simp
  then show "take (Suc (length pre)) a = pre @ [a ! length pre]" using assms(2) by (simp add: take_Suc_conv_app_nth)
qed

lemma in_org_step:
  assumes "node_fits s tab A pre n" "in_org s a" "dn_level n \<noteq> Bank"
  shows "length a = 6" "0 \<le> a ! length pre" "a ! length pre < org_count (org_entry s) ! length pre"
proof -
  have "length pre \<in> {1, 2, 3}" using fits_levels [OF assms(1)] assms(3) fits_level [OF assms(1)] by auto
  then show "length a = 6" "0 \<le> a ! length pre" "a ! length pre < org_count (org_entry s) ! length pre"
    using assms(2) unfolding in_org_def by blast+
qed

section \<open>Queries\<close>

lemma prereq_none: "node_fits s tab A pre n \<Longrightarrow> dn_level n \<noteq> Bank \<Longrightarrow> cmd = RD \<or> cmd = WR \<Longrightarrow> prereq (DRAM_Node n cs) cmd i = Inr None"
  by (auto simp: prereq_def Let_def prereq_rank_def node_fits_def)

lemma decode_access:
  assumes "tree_fits s tab A pre d" "take (length pre) a = pre" "in_org s a" "cmd = RD \<or> cmd = WR"
  shows "decode cmd a d = Inr (case tab (take 4 a) of None \<Rightarrow> ACT | Some r \<Rightarrow> if r = a ! 4 then cmd else PRE)"
  using assms
proof (induction cmd a d arbitrary: pre rule: decode.induct)
  case (1 cmd a n cs)
  have n: "node_fits s tab A pre n" using "1.prems"(1) by simp
  show ?case
  proof (cases "dn_level n = Bank")
    case True
    then have b: "bank_fits (tab pre) n" "length pre = 4" using n by (simp_all add: node_fits_def)
    then have pre: "pre = take 4 a" using "1.prems"(2) by simp
    have "sm_find (dn_row_state n) i \<noteq> None \<longleftrightarrow> i \<in> set (map fst (dn_row_state n))" for i
      using sm_find_iff [of "dn_row_state n" i] by simp
    then show ?thesis using b(1) True "1.prems"(4) unfolding pre
      by (auto simp: prereq_def Let_def prereq_bank_def bank_fits_def child_id_def split: option.splits)
  next
    case False
    note st = path_step [OF "1.prems"(1,2) in_org_step(1) [OF n "1.prems"(3) False] False in_org_step(2,3) [OF n "1.prems"(3) False]]
    have ge: "\<not> child_id n a < 0" "cs \<noteq> []" using in_org_step(2) [OF n "1.prems"(3) False] st(1,2) by auto
    have "decode cmd a (cs ! nat (child_id n a)) = Inr (case tab (take 4 a) of None \<Rightarrow> ACT | Some r \<Rightarrow> if r = a ! 4 then cmd else PRE)"
      by (rule "1.IH" [of None "pre @ [a ! length pre]"]) (use ge st prereq_none [OF n False] "1.prems"(3,4) in auto)
    then show ?thesis using prereq_none [OF n False "1.prems"(4)] ge st(1,2) by simp
  qed
qed

lemma rank_addr_step:
  assumes "node_fits s tab A pre n" "rank_addr s a"
  shows "dn_level n = Channel \<Longrightarrow> length a = 6 \<and> 0 \<le> a ! length pre \<and> a ! length pre < org_count (org_entry s) ! length pre"
    "dn_level n = Rank \<Longrightarrow> child_id n a < 0"
  using fits_level [OF assms(1)] assms(2) by (auto simp: rank_addr_def child_id_def numeral_2_eq_2)

lemma open_bank:
  assumes "tree_fits s tab A pre d" "dn_level (dram_node d) = Rank" "\<not> all_banks_closed d"
  shows "\<exists>i j. tab (pre @ [i, j]) \<noteq> None"
proof -
  obtain bg b where bg: "bg \<in> set (dram_children d)" and b: "b \<in> set (dram_children bg)" "dn_state (dram_node b) \<noteq> Closed"
    using assms(3) by (auto simp: all_banks_closed_def rank_banks_def list_all_iff)
  obtain n cs where d: "d = DRAM_Node n cs" by (cases d)
  obtain i where i: "i < length cs" "cs ! i = bg" using bg d by (auto simp: in_set_conv_nth)
  obtain n1 cs1 where bg1: "bg = DRAM_Node n1 cs1" by (cases bg)
  obtain j where j: "j < length cs1" "cs1 ! j = b" using b(1) bg1 by (auto simp: in_set_conv_nth)
  have t1: "tree_fits s tab A (pre @ [int i]) bg" using assms(1) i d by auto
  then have t2: "tree_fits s tab A (pre @ [int i, int j]) b" using j bg1 by auto
  have l: "length pre = 2" using assms(1,2) d fits_level(2) [of s tab A pre n] by simp
  obtain n2 cs2 where b2: "b = DRAM_Node n2 cs2" by (cases b)
  have n2: "node_fits s tab A (pre @ [int i, int j]) n2" using t2 b2 by simp
  then have "dn_level n2 = Bank" using fits_level(4) [OF n2] l by simp
  then have "bank_fits (tab (pre @ [int i, int j])) n2" using n2 by (simp add: node_fits_def)
  then have "tab (pre @ [int i, int j]) \<noteq> None" using b(2) b2 by (auto simp: bank_fits_def split: option.splits)
  then show ?thesis by blast
qed

lemma decode_refresh:
  assumes "tree_fits s tab A pre d" "take (length pre) a = pre" "rank_addr s a" "length pre \<le> 2"
  shows "decode REF a d = Inr REF \<or> decode REF a d = Inr PREA \<and> (\<exists>i j. tab (take 2 a @ [i, j]) \<noteq> None)"
  using assms
proof (induction REF a d arbitrary: pre rule: decode.induct)
  case (1 a n cs)
  have n: "node_fits s tab A pre n" using "1.prems"(1) by simp
  consider "dn_level n = Channel" | "dn_level n = Rank" using fits_levels [OF n] fits_level [OF n] "1.prems"(4) by fastforce
  then show ?case
  proof cases
    case 1
    have p: "prereq (DRAM_Node n cs) REF (child_id n a) = Inr None" using 1 by (simp add: prereq_def)
    have r: "length a = 6" "0 \<le> a ! length pre" "a ! length pre < org_count (org_entry s) ! length pre"
      using rank_addr_step(1) [OF n \<open>rank_addr s a\<close> 1] by simp_all
    have "dn_level n \<noteq> Bank" using 1 by simp
    note st = path_step [OF "1.prems"(1,2) r(1) this r(2,3)]
    have ge: "\<not> child_id n a < 0" "cs \<noteq> []" using r(2) st(1,2) by auto
    have "length pre = 1" using fits_level(1) [OF n] 1 by simp
    then have "decode REF a (cs ! nat (child_id n a)) = Inr REF \<or> decode REF a (cs ! nat (child_id n a)) = Inr PREA \<and> (\<exists>i j. tab (take 2 a @ [i, j]) \<noteq> None)"
      by (intro "1.hyps" [OF p refl, of "pre @ [a ! length pre]"]) (use ge st p \<open>rank_addr s a\<close> in auto)
    then show ?thesis using p ge st(1,2) by simp
  next
    case 2
    have "length pre = 2" using fits_level(2) [OF n] 2 by simp
    then have pre: "pre = take 2 a" using "1.prems"(2) by simp
    show ?thesis
    proof (cases "all_banks_closed (DRAM_Node n cs)")
      case True
      then show ?thesis using 2 by (simp add: prereq_def Let_def)
    next
      case False
      then show ?thesis using 2 open_bank [OF "1.prems"(1)] pre by (simp add: prereq_def Let_def)
    qed
  qed
qed

definition fits_cmd :: "DDR4 \<Rightarrow> Command \<Rightarrow> int list \<Rightarrow> bool" where
  "fits_cmd s cmd a \<longleftrightarrow> in_org s a \<and> level_ix (scope cmd) \<ge> 3 \<or> rank_addr s a \<and> scope cmd = Rank"

text \<open>Either the command stops at the node or the address selects a child.\<close>

lemma cmd_step:
  assumes "tree_fits s tab A pre (DRAM_Node n cs)" "take (length pre) a = pre" "fits_cmd s cmd a" "level_ix (dn_level n) \<le> level_ix (scope cmd)"
  obtains "dn_level n = scope cmd \<or> cs = []"
  | "dn_level n \<noteq> scope cmd" "cs \<noteq> []" "dn_level n \<noteq> Bank" "length a = 6" "0 \<le> a ! length pre" "a ! length pre < org_count (org_entry s) ! length pre"
      "dn_level n = Rank \<longrightarrow> in_org s a"
proof -
  have n: "node_fits s tab A pre n" and l: "length cs = (case child_level (dn_level n) of None \<Rightarrow> 0 | Some cl \<Rightarrow> nat (org_count (org_entry s) ! level_ix cl))"
    using assms(1) by simp_all
  show thesis
  proof (cases "dn_level n = scope cmd \<or> dn_level n = Bank")
    case True
    then show ?thesis using that(1) l by auto
  next
    case False
    have "in_org s a \<or> dn_level n = Channel \<and> rank_addr s a"
      using assms(3,4) False fits_levels [OF n] by (auto simp: fits_cmd_def)
    then have st: "length a = 6" "0 \<le> a ! length pre" "a ! length pre < org_count (org_entry s) ! length pre"
      using in_org_step [OF n] rank_addr_step(1) [OF n] False by blast+
    moreover have "dn_level n = Rank \<longrightarrow> in_org s a" using assms(3) False by (auto simp: fits_cmd_def)
    moreover have "cs \<noteq> []" using path_step(2) [OF assms(1,2) st(1) _ st(2,3)] False by auto
    ultimately show ?thesis using that(2) False by blast
  qed
qed

lemma child_level_scope:
  assumes "tree_fits s tab A pre (DRAM_Node n cs)" "i < length cs" "dn_level n \<noteq> scope cmd" "level_ix (dn_level n) \<le> level_ix (scope cmd)"
  shows "level_ix (dn_level (dram_node (cs ! i))) \<le> level_ix (scope cmd)"
proof -
  obtain n1 cs1 where c: "cs ! i = DRAM_Node n1 cs1" by (cases "cs ! i")
  have "tree_fits s tab A (pre @ [int i]) (DRAM_Node n1 cs1)" using assms(1,2) c by auto
  then have "length pre + 1 = Suc (level_ix (dn_level n1))" "length pre = Suc (level_ix (dn_level n))"
    using assms(1) by (simp_all add: node_fits_def)
  moreover have "level_ix (dn_level n) \<noteq> level_ix (scope cmd)" using assms(3) level_ix_inj by blast
  ultimately show ?thesis using assms(4) c by simp
qed

lemma check_total:
  assumes "tree_fits s tab A pre d" "take (length pre) a = pre" "fits_cmd s cmd a" "level_ix (dn_level (dram_node d)) \<le> level_ix (scope cmd)"
  shows "\<exists>b. check_cmd cmd a clk d = Inr b"
  using assms
proof (induction cmd a clk d arbitrary: pre rule: check_cmd.induct)
  case (1 cmd a clk n cs)
  have "level_ix (dn_level n) \<le> level_ix (scope cmd)" using "1.prems"(4) by simp
  from "1.prems"(1,2,3) this show ?case
  proof (cases rule: cmd_step)
    case 2
    note st = path_step [OF "1.prems"(1,2) 2(4,3,5,6)]
    have "\<exists>b. check_cmd cmd a clk (cs ! nat (child_id n a)) = Inr b"
      if "\<not> (dn_next n ! cmd_ix cmd \<noteq> -1 \<and> clk < dn_next n ! cmd_ix cmd)"
      by (rule "1.IH" [OF that, of "pre @ [a ! length pre]"])
        (use 2 st "1.prems"(3,4) child_level_scope [OF "1.prems"(1) st(2) 2(1)] in auto)
    then show ?thesis using st 2 by auto
  qed auto
qed

lemma row_hit_total:
  assumes "tree_fits s tab A pre d" "take (length pre) a = pre" "in_org s a" "cmd = RD \<or> cmd = WR"
  shows "\<exists>b. check_row_hit cmd a d = Inr b"
  using assms
proof (induction cmd a d arbitrary: pre rule: check_row_hit.induct)
  case (1 cmd a n cs)
  have n: "node_fits s tab A pre n" using "1.prems"(1) by simp
  show ?case
  proof (cases "dn_level n = Bank")
    case True
    then have "bank_fits (tab pre) n" using n by (simp add: node_fits_def)
    then show ?thesis using True "1.prems"(4) by (auto simp: rowhit_def bank_fits_def split: option.splits)
  next
    case False
    then have r: "rowhit n cmd (child_id n a) = None" by (simp add: rowhit_def)
    note st = path_step [OF "1.prems"(1,2) in_org_step(1) [OF n "1.prems"(3) False] False in_org_step(2,3) [OF n "1.prems"(3) False]]
    have ge: "\<not> child_id n a < 0" "cs \<noteq> []" using in_org_step(2) [OF n "1.prems"(3) False] st(1,2) by auto
    have "\<exists>b. check_row_hit cmd a (cs ! nat (child_id n a)) = Inr b"
      by (rule "1.IH" [OF r, of "pre @ [a ! length pre]"]) (use ge st "1.prems"(3,4) in auto)
    then show ?thesis using r ge st(1,2) by auto
  qed
qed

lemma row_open_total:
  assumes "tree_fits s tab A pre d" "take (length pre) a = pre" "in_org s a" "cmd = RD \<or> cmd = WR"
  shows "\<exists>b. check_row_open cmd a d = Inr b"
  using assms
proof (induction cmd a d arbitrary: pre rule: check_row_open.induct)
  case (1 cmd a n cs)
  have n: "node_fits s tab A pre n" using "1.prems"(1) by simp
  show ?case
  proof (cases "dn_level n = Bank")
    case True
    then have "bank_fits (tab pre) n" using n by (simp add: node_fits_def)
    then show ?thesis using True "1.prems"(4) by (auto simp: rowopen_def bank_fits_def split: option.splits)
  next
    case False
    then have r: "rowopen n cmd (child_id n a) = None" by (simp add: rowopen_def)
    note st = path_step [OF "1.prems"(1,2) in_org_step(1) [OF n "1.prems"(3) False] False in_org_step(2,3) [OF n "1.prems"(3) False]]
    have ge: "\<not> child_id n a < 0" "cs \<noteq> []" using in_org_step(2) [OF n "1.prems"(3) False] st(1,2) by auto
    have "\<exists>b. check_row_open cmd a (cs ! nat (child_id n a)) = Inr b"
      by (rule "1.IH" [OF r, of "pre @ [a ! length pre]"]) (use ge st "1.prems"(3,4) in auto)
    then show ?thesis using r ge st(1,2) by auto
  qed
qed

section \<open>Requests being served\<close>

text \<open>The tree looks at its own part of the table and the addresses only.\<close>

lemma node_fits_cong:
  "tab' pre = tab pre \<Longrightarrow> serving_at A' pre = serving_at A pre \<Longrightarrow> node_fits s tab' A' pre n = node_fits s tab A pre n"
  by (simp add: node_fits_def)

lemma tree_fits_cong:
  "(\<And>x. take (length pre) x = pre \<Longrightarrow> tab' x = tab x \<and> serving_at A' x = serving_at A x) \<Longrightarrow> tree_fits s tab' A' pre d = tree_fits s tab A pre d"
proof (induction s tab A pre d rule: tree_fits.induct)
  case (1 s tab A pre n cs)
  have "tree_fits s tab' A' (pre @ [int i]) (cs ! i) = tree_fits s tab A (pre @ [int i]) (cs ! i)" if "i < length cs" for i
  proof (rule "1.IH" [OF that])
    fix x assume "take (length (pre @ [int i])) x = pre @ [int i]"
    then have "take (length pre) x = pre" by (metis append_eq_conv_conj length_append take_take min.absorb1 le_add1)
    then show "tab' x = tab x \<and> serving_at A' x = serving_at A x" by (rule "1.prems")
  qed
  moreover have "node_fits s tab' A' pre n = node_fits s tab A pre n" by (rule node_fits_cong) (use "1.prems" [of pre] in simp_all)
  ultimately show ?case by simp
qed

lemma tree_replace:
  assumes "tree_fits s tab A pre (DRAM_Node n cs)" "node_fits s tab' A' pre n'" "dn_level n' = dn_level n"
    and "0 \<le> k" "tree_fits s tab' A' (pre @ [k]) c"
    and "\<And>i x. i \<noteq> k \<Longrightarrow> take (Suc (length pre)) x = pre @ [i] \<Longrightarrow> tab' x = tab x \<and> serving_at A' x = serving_at A x"
  shows "tree_fits s tab' A' pre (DRAM_Node n' (cs[nat k := c]))"
proof -
  have "tree_fits s tab' A' (pre @ [int i]) (cs[nat k := c] ! i)" if i: "i < length cs" for i
  proof (cases "i = nat k")
    case True
    then show ?thesis using i assms(4,5) by simp
  next
    case False
    then have "tree_fits s tab' A' (pre @ [int i]) (cs ! i) = tree_fits s tab A (pre @ [int i]) (cs ! i)"
      by (intro tree_fits_cong assms(6) [of "int i"]) auto
    then show ?thesis using False i assms(1) by simp
  qed
  then show ?thesis using assms(1-3) by simp
qed

text \<open>What is not on the path of an address.\<close>

lemma off_path: "take (Suc (length pre)) x = pre @ [i] \<Longrightarrow> i \<noteq> a ! length pre \<Longrightarrow> x \<noteq> take m a"
proof
  assume x: "take (Suc (length pre)) x = pre @ [i]" "i \<noteq> a ! length pre" "x = take m a"
  have l: "length pre < length x" using arg_cong [OF x(1), of length] by simp
  then have "x ! length pre = i" using arg_cong [OF x(1), of "\<lambda>y. y ! length pre"] by simp
  moreover have "x ! length pre = a ! length pre" using x(3) l by simp
  ultimately show False using x(2) by simp
qed

lemma serving_at_add: "serving_at (add_mset a A) pre = serving_at A pre + (if take (length pre) a = pre then 1 else 0)"
  by (simp add: serving_at_def)

lemma serving_at_nonneg: "0 \<le> serving_at A pre"
  by (simp add: serving_at_def)

lemma serve_node_fits:
  assumes n: "node_fits s tab A pre n" and d: "delta = 1 \<or> delta = -1" and A': "serving_at A' pre = serving_at A pre + delta" "0 \<le> clk"
  shows "\<exists>n'. serve_node delta clk n = Inr n' \<and> node_fits s tab A' pre n' \<and> dn_level n' = dn_level n"
proof -
  have c: "dn_cur_serving_requests n = serving_at A pre" using n by (simp add: node_fits_def)
  have ge: "0 \<le> serving_at A pre + delta" using A'(1) serving_at_nonneg [of A' pre] by simp
  show ?thesis
  proof (cases "delta = 1")
    case True
    then show ?thesis using n c ge A' serving_at_nonneg [of A pre]
      by (auto simp: serve_node_def Let_def node_fits_def node_lists_ok_def bank_fits_def split: option.splits)
  next
    case False
    then have "delta = -1" "dn_begin_of_serving n \<noteq> -1" using d n c ge by (auto simp: node_fits_def)
    then show ?thesis using n c ge A'
      by (auto simp: serve_node_def Let_def node_fits_def node_lists_ok_def bank_fits_def split: option.splits)
  qed
qed

lemma serving_fits:
  assumes "tree_fits s tab A pre d" "take (length pre) a = pre" "in_org s a" "delta = 1 \<or> delta = -1" "0 \<le> clk"
    and "\<And>x. serving_at A' x = serving_at A x + (if take (length x) a = x then delta else 0)"
  shows "\<exists>d'. update_serving_requests a delta clk d = Inr d' \<and> tree_fits s tab A' pre d'"
  using assms
proof (induction a delta clk d arbitrary: pre rule: update_serving_requests.induct)
  case (1 a delta clk n cs)
  have n: "node_fits s tab A pre n" using "1.prems"(1) by simp
  have l: "length pre = Suc (level_ix (dn_level n))" "dn_id n = last pre" "length pre \<le> 4" using n by (simp_all add: node_fits_def)
  have a6: "length a = 6" using "1.prems"(3) by (simp add: in_org_def)
  have id: "dn_id n = a ! level_ix (dn_level n)"
  proof -
    have "last pre = pre ! level_ix (dn_level n)" using l(1) by (metis diff_Suc_1 last_conv_nth length_0_conv nat.distinct(1))
    moreover have "pre ! level_ix (dn_level n) = a ! level_ix (dn_level n)" using arg_cong [OF "1.prems"(2), of "\<lambda>x. x ! level_ix (dn_level n)"] l(1) by simp
    ultimately show ?thesis using l(2) by simp
  qed
  have "serving_at A' pre = serving_at A pre + delta" using "1.prems"(6) "1.prems"(2) by simp
  from serve_node_fits [OF n "1.prems"(4) this "1.prems"(5)] obtain n' where n': "serve_node delta clk n = Inr n'"
    "node_fits s tab A' pre n'" "dn_level n' = dn_level n" by blast
  have ln: "length cs = (case child_level (dn_level n) of None \<Rightarrow> 0 | Some cl \<Rightarrow> nat (org_count (org_entry s) ! level_ix cl))"
    using "1.prems"(1) by simp
  show ?case
  proof (cases "dn_level n = Bank")
    case True
    then have "cs = []" using ln by simp
    then show ?thesis using n' id "1.prems"(4) ln by simp
  next
    case False
    note st = path_step [OF "1.prems"(1,2) a6 False in_org_step(2,3) [OF n "1.prems"(3) False]]
    let ?k = "nat (a ! length pre)"
    have ge: "\<not> (child_id n a < 0 \<or> cs = [] \<or> level_ix (dn_level n) > level_ix Bank)"
      using in_org_step(2) [OF n "1.prems"(3) False] st(1,2) fits_levels [OF n] by auto
    obtain c where c: "update_serving_requests a delta clk (cs ! nat (child_id n a)) = Inr c" "tree_fits s tab A' (pre @ [a ! length pre]) c"
      using "1.IH" [OF _ n'(1) ge, of "pre @ [a ! length pre]"] id "1.prems"(3-6) st by auto
    have off: "tab x = tab x \<and> serving_at A' x = serving_at A x" if "i \<noteq> a ! length pre" "take (Suc (length pre)) x = pre @ [i]" for i x
      using off_path [OF that(2,1), of "length x"] "1.prems"(6) by simp
    have "tree_fits s tab A' pre (DRAM_Node n' (cs[?k := c]))"
      by (rule tree_replace [OF "1.prems"(1) n'(2,3) in_org_step(2) [OF n "1.prems"(3) False] c(2)]) (rule off)
    then show ?thesis using n'(1) id "1.prems"(4) ge c(1) st(1,2) by simp
  qed
qed

section \<open>Commands and the state\<close>

lemma lambda_keep: "cmd = RD \<or> cmd = WR \<or> cmd = REF \<Longrightarrow> lambda_fn cmd i d = d"
  by (cases d) (auto simp: lambda_fn_def Let_def split: Level.splits)

lemma state_keep:
  assumes "tree_fits s tab A pre d" "take (length pre) a = pre" "cmd = RD \<or> cmd = WR \<or> cmd = REF" "fits_cmd s cmd a"
    "level_ix (dn_level (dram_node d)) \<le> level_ix (scope cmd)"
  shows "update_state cmd a d = Inr d"
  using assms
proof (induction s tab A pre d rule: tree_fits.induct)
  case (1 s tab A pre n cs)
  note keep = lambda_keep [OF "1.prems"(3), of _ "DRAM_Node n cs"]
  have "level_ix (dn_level n) \<le> level_ix (scope cmd)" using "1.prems"(5) by simp
  from "1.prems"(1,2,4) this show ?case
  proof (cases rule: cmd_step)
    case 1
    then show ?thesis by (subst update_state.simps) (simp add: keep)
  next
    case 2
    note st = path_step [OF "1.prems"(1,2) 2(4,3,5,6)]
    have "update_state cmd a (cs ! nat (a ! length pre)) = Inr (cs ! nat (a ! length pre))"
      by (rule "1.IH" [OF st(2)]) (use 2 st "1.prems" child_level_scope [OF "1.prems"(1) st(2) 2(1)] in auto)
    then show ?thesis using 2 st(1,2) by (subst update_state.simps) (simp add: keep Let_def)
  qed
qed

lemma state_bank:
  assumes "tree_fits s tab A pre d" "take (length pre) a = pre" "in_org s a"
    and "cmd = ACT \<and> tab (take 4 a) = None \<and> row = Some (a ! 4) \<or> cmd = PRE \<and> row = None"
  shows "\<exists>d'. update_state cmd a d = Inr d' \<and> tree_fits s (tab(take 4 a := row)) A pre d'"
  using assms
proof (induction s tab A pre d rule: tree_fits.induct)
  case (1 s tab A pre n cs)
  let ?tab = "tab(take 4 a := row)"
  have n: "node_fits s tab A pre n" using "1.prems"(1) by simp
  have ln: "length cs = (case child_level (dn_level n) of None \<Rightarrow> 0 | Some cl \<Rightarrow> nat (org_count (org_entry s) ! level_ix cl))"
    using "1.prems"(1) by simp
  show ?case
  proof (cases "dn_level n = Bank")
    case True
    then have "length pre = 4" "cs = []" using fits_level(4) [OF n] ln by simp_all
    then have pre: "pre = take 4 a" "child_id n a = a ! 4" using "1.prems"(2) True by (simp_all add: child_id_def)
    have b: "bank_fits (tab pre) n" using n True by (simp add: node_fits_def)
    show ?thesis using "1.prems"(4) n b True \<open>cs = []\<close> ln pre
      by (subst update_state.simps) (auto simp: lambda_fn_def Let_def close_node_def node_fits_def node_lists_ok_def bank_fits_def)
  next
    case False
    have l: "lambda_fn cmd i (DRAM_Node n cs) = DRAM_Node n cs" for i
      using "1.prems"(4) False fits_levels [OF n] by (auto simp: lambda_fn_def Let_def)
    have sc: "dn_level n \<noteq> scope cmd" using False fits_levels [OF n] "1.prems"(4) by auto
    note ge = in_org_step [OF n "1.prems"(3) False]
    note st = path_step [OF "1.prems"(1,2) ge(1) False ge(2,3)]
    have i: "int (nat (a ! length pre)) = a ! length pre" using ge(2) by simp
    have "\<exists>c. update_state cmd a (cs ! nat (a ! length pre)) = Inr c \<and> tree_fits s ?tab A (pre @ [a ! length pre]) c"
      by (rule "1.IH" [OF st(2), unfolded i]) (use st "1.prems"(3,4) in simp_all)
    then obtain c where c: "update_state cmd a (cs ! nat (a ! length pre)) = Inr c" "tree_fits s ?tab A (pre @ [a ! length pre]) c" by blast
    have ne: "pre \<noteq> take 4 a" using False fits_level(4) [OF n] ge(1) by auto
    have "node_fits s ?tab A pre n" using node_fits_cong [of ?tab pre tab A A s n] ne n by simp
    moreover have "?tab x = tab x \<and> serving_at A x = serving_at A x" if "i \<noteq> a ! length pre" "take (Suc (length pre)) x = pre @ [i]" for i x
      using off_path [OF that(2,1), of 4] by simp
    ultimately have "tree_fits s ?tab A pre (DRAM_Node n (cs[nat (a ! length pre) := c]))"
      by (intro tree_replace [OF "1.prems"(1) _ refl ge(2) c(2)]) auto
    then show ?thesis using l sc st(1,2) c(1) ge(2) by (subst update_state.simps) (auto simp: Let_def)
  qed
qed

lemma close_banks_fits:
  assumes "tree_fits s tab A pre (DRAM_Node n cs)" "dn_level n = Rank" "\<And>x. tab' x = (if take 2 x = pre then None else tab x)"
  shows "tree_fits s tab' A pre (DRAM_Node n (close_banks cs))"
proof -
  have l: "length pre = 2" using assms(1,2) fits_level(2) [of s tab A pre n] by simp
  have "node_fits s tab' A pre n" using assms(1,2) by (simp add: node_fits_def)
  moreover have "length (close_banks cs) = length cs" by (simp add: close_banks_def)
  moreover have "tree_fits s tab' A (pre @ [int i]) (close_banks cs ! i)" if i: "i < length cs" for i
  proof -
    obtain n1 cs1 where c: "cs ! i = DRAM_Node n1 cs1" by (cases "cs ! i")
    have t: "tree_fits s tab A (pre @ [int i]) (DRAM_Node n1 cs1)" using assms(1) i c by auto
    then have bg: "dn_level n1 = BankGroup" using fits_level(3) [of s tab A "pre @ [int i]" n1] l by simp
    have "tree_fits s tab' A (pre @ [int i, int j]) (DRAM_Node (close_node (dram_node (cs1 ! j))) (dram_children (cs1 ! j)))" if j: "j < length cs1" for j
    proof -
      obtain n2 cs2 where c2: "cs1 ! j = DRAM_Node n2 cs2" by (cases "cs1 ! j")
      have t2: "tree_fits s tab A (pre @ [int i, int j]) (DRAM_Node n2 cs2)" using t j c2 by auto
      then have "dn_level n2 = Bank" using fits_level(4) [of s tab A "pre @ [int i, int j]" n2] l by simp
      then show ?thesis using t2 c2 assms(3) l by (simp add: close_node_def node_fits_def node_lists_ok_def bank_fits_def)
    qed
    then show ?thesis using t c i bg by (simp add: close_banks_def node_fits_def)
  qed
  ultimately show ?thesis using assms(1) by simp
qed

lemma state_rank:
  assumes "tree_fits s tab A pre d" "take (length pre) a = pre" "rank_addr s a" "length pre \<le> 2"
    "\<And>x. tab' x = (if take 2 x = take 2 a then None else tab x)"
  shows "\<exists>d'. update_state PREA a d = Inr d' \<and> tree_fits s tab' A pre d'"
  using assms
proof (induction s tab A pre d rule: tree_fits.induct)
  case (1 s tab A pre n cs)
  have n: "node_fits s tab A pre n" using "1.prems"(1) by simp
  consider "dn_level n = Channel" | "dn_level n = Rank" using fits_levels [OF n] fits_level [OF n] "1.prems"(4) by fastforce
  then show ?case
  proof cases
    case 1
    have r: "length a = 6" "0 \<le> a ! length pre" "a ! length pre < org_count (org_entry s) ! length pre"
      using rank_addr_step(1) [OF n "1.prems"(3) 1] by simp_all
    have nb: "dn_level n \<noteq> Bank" and l: "length pre = 1" using 1 fits_level(1) [OF n] by simp_all
    note st = path_step [OF "1.prems"(1,2) r(1) nb r(2,3)]
    have i: "int (nat (a ! length pre)) = a ! length pre" using r(2) by simp
    have "\<exists>c. update_state PREA a (cs ! nat (a ! length pre)) = Inr c \<and> tree_fits s tab' A (pre @ [a ! length pre]) c"
      by (rule "1.IH" [OF st(2), unfolded i]) (use st(3,4) "1.prems"(3,5) l in simp_all)
    then obtain c where c: "update_state PREA a (cs ! nat (a ! length pre)) = Inr c" "tree_fits s tab' A (pre @ [a ! length pre]) c" by blast
    have "node_fits s tab' A pre n" using n 1 by (simp add: node_fits_def)
    moreover have "tab' x = tab x \<and> serving_at A x = serving_at A x" if "i \<noteq> a ! length pre" "take (Suc (length pre)) x = pre @ [i]" for i x
    proof -
      have "take 2 x \<noteq> take 2 a" using that st(4) l by (simp add: numeral_2_eq_2)
      then show ?thesis using "1.prems"(5) by simp
    qed
    ultimately have "tree_fits s tab' A pre (DRAM_Node n (cs[nat (a ! length pre) := c]))"
      by (intro tree_replace [OF "1.prems"(1) _ refl r(2) c(2)]) auto
    then show ?thesis using 1 st(1,2) c(1) r(2) by (subst update_state.simps) (auto simp: lambda_fn_def Let_def)
  next
    case 2
    then have pre: "pre = take 2 a" using fits_level(2) [OF n] "1.prems"(2) by simp
    have "tree_fits s tab' A pre (DRAM_Node n (close_banks cs))"
      by (rule close_banks_fits [OF "1.prems"(1) 2]) (use "1.prems"(5) pre in simp)
    then show ?thesis using 2 by (subst update_state.simps) (simp add: lambda_fn_def Let_def)
  qed
qed

section \<open>Commands and the timing\<close>

text \<open>The entries the code relies on: constraints between siblings look at the last command, and so does the one
  from a refresh to an activation.\<close>

lemma timing_entries:
  "t \<in> set (timing s l cmd) \<Longrightarrow> (te_sibling t \<longrightarrow> te_dist t = 1) \<and> (is_refreshing cmd \<and> is_opening (te_cmd t) \<longrightarrow> te_dist t = 1)"
  by (cases l; cases cmd) (auto simp: timing_def is_refreshing_def is_opening_def)

text \<open>What the timing does not touch.\<close>

definition same_face :: "dram_node \<Rightarrow> dram_node \<Rightarrow> bool" where
  "same_face n n' \<longleftrightarrow> dn_level n' = dn_level n \<and> dn_id n' = dn_id n \<and> dn_state n' = dn_state n \<and> dn_row_state n' = dn_row_state n \<and>
     dn_cur_serving_requests n' = dn_cur_serving_requests n \<and> dn_begin_of_serving n' = dn_begin_of_serving n \<and>
     length (dn_next n') = length (dn_next n) \<and> map length (dn_prev n') = map length (dn_prev n)"

lemma same_face_trans: "same_face a b \<Longrightarrow> same_face b c \<Longrightarrow> same_face a c"
  by (simp add: same_face_def)

lemma face_fits: "same_face n n' \<Longrightarrow> node_fits s tab A pre n \<Longrightarrow> node_fits s tab A pre n'"
  by (simp add: same_face_def node_fits_def node_lists_ok_def bank_fits_def split: option.splits)

lemma raise_face: "same_face n (raise_next t f n)"
  by (simp add: same_face_def raise_next_def)

lemma refresh_face: "same_face n (begin_refresh t clk n) \<and> dn_prev (begin_refresh t clk n) = dn_prev n"
  by (simp add: same_face_def begin_refresh_def Let_def)

lemma push_face: "node_lists_ok s n \<Longrightarrow> same_face n (push_history cmd clk n)"
proof -
  assume "node_lists_ok s n"
  note l = node_lists_prev [OF this, of cmd]
  have "map length ((dn_prev n)[cmd_ix cmd := clk # butlast (dn_prev n ! cmd_ix cmd)]) = map length (dn_prev n)"
    if "dn_prev n ! cmd_ix cmd \<noteq> []"
  proof (rule map_update_same)
    have "0 < length (dn_prev n ! cmd_ix cmd)" using that by simp
    then have "0 < history_length s (dn_level n) cmd" using l by simp
    then show "length (clk # butlast (dn_prev n ! cmd_ix cmd)) = length (dn_prev n ! cmd_ix cmd)" using l by simp
  qed (use l in simp)
  then show ?thesis by (simp add: same_face_def push_history_def Let_def)
qed

lemma sibling_total: "\<forall>t \<in> set ts. te_sibling t \<longrightarrow> te_dist t = 1 \<Longrightarrow> \<exists>n'. timing_sibling ts clk n = Inr n' \<and> same_face n n'"
proof (induction ts arbitrary: n)
  case (Cons t ts)
  show ?case
  proof (cases "te_sibling t")
    case True
    obtain n' where "timing_sibling ts clk (raise_next t (clk + te_val t) n) = Inr n'" "same_face (raise_next t (clk + te_val t) n) n'"
      using Cons by auto
    then show ?thesis using True Cons.prems same_face_trans [OF raise_face] by auto
  next
    case False
    then show ?thesis using Cons by simp
  qed
qed (simp add: same_face_def)

lemma target_total:
  "\<forall>t \<in> set ts. is_refreshing cmd \<and> is_opening (te_cmd t) \<longrightarrow> dn_prev n ! cmd_ix cmd ! (te_dist t - 1) = clk \<Longrightarrow>
     \<exists>n'. timing_target cmd ts clk n = Inr n' \<and> same_face n n'"
proof (induction ts arbitrary: n)
  case (Cons t ts)
  let ?past = "dn_prev n ! cmd_ix cmd ! (te_dist t - 1)" and ?n1 = "raise_next t (dn_prev n ! cmd_ix cmd ! (te_dist t - 1) + te_val t) n"
  have p1: "dn_prev ?n1 = dn_prev n" by simp
  show ?case
  proof (cases "te_sibling t \<or> ?past < 0")
    case True
    then show ?thesis using Cons by (auto simp: Let_def)
  next
    case f: False
    show ?thesis
    proof (cases "is_refreshing cmd \<and> is_opening (te_cmd t)")
      case True
      have "\<exists>n'. timing_target cmd ts clk (begin_refresh t clk ?n1) = Inr n' \<and> same_face (begin_refresh t clk ?n1) n'"
        by (rule Cons.IH) (use Cons.prems p1 refresh_face in auto)
      moreover have "same_face n (begin_refresh t clk ?n1)" using same_face_trans [OF raise_face] refresh_face by blast
      moreover have "?past = clk" using Cons.prems True by simp
      ultimately show ?thesis using f True same_face_trans [of n "begin_refresh t clk ?n1"] by (auto simp: Let_def)
    next
      case False
      have "\<exists>n'. timing_target cmd ts clk ?n1 = Inr n' \<and> same_face ?n1 n'"
        by (rule Cons.IH) (use Cons.prems p1 in auto)
      then show ?thesis using f False same_face_trans [OF raise_face] by (auto simp: Let_def)
    qed
  qed
qed (simp add: same_face_def)

lemma timing_fits:
  assumes "tree_fits s tab A pre d"
  shows "\<exists>d'. update_timing s cmd a clk d = Inr d' \<and> tree_fits s tab A pre d'"
  using assms
proof (induction s tab A pre d rule: tree_fits.induct)
  case (1 s tab A pre n cs)
  have n: "node_fits s tab A pre n" using "1.prems" by simp
  let ?ts = "timing s (dn_level n) cmd"
  show ?case
  proof (cases "dn_id n = a ! level_ix (dn_level n)")
    case False
    have "\<forall>t \<in> set ?ts. te_sibling t \<longrightarrow> te_dist t = 1" using timing_entries by blast
    from sibling_total [OF this, of clk n] obtain n' where n': "timing_sibling ?ts clk n = Inr n'" "same_face n n'" by blast
    then have "tree_fits s tab A pre (DRAM_Node n' cs)" using "1.prems" face_fits [OF n'(2)] by (simp add: same_face_def)
    then show ?thesis using False n'(1) by simp
  next
    case True
    have lists: "node_lists_ok s n" using n by (simp add: node_fits_def)
    let ?n = "push_history cmd clk n"
    have "dn_prev ?n ! cmd_ix cmd ! (te_dist t - 1) = clk" if t: "t \<in> set ?ts" "is_refreshing cmd \<and> is_opening (te_cmd t)" for t
    proof -
      have d: "te_dist t = 1" using timing_entries [OF t(1)] t(2) by blast
      then have "1 \<le> history_length s (dn_level n) cmd" using te_dist_history [OF t(1)] by simp
      then have "dn_prev n ! cmd_ix cmd \<noteq> []" "cmd_ix cmd < length (dn_prev n)" using node_lists_prev [OF lists, of cmd] by auto
      then show ?thesis using d by (simp add: push_history_def Let_def)
    qed
    then obtain n' where n': "timing_target cmd ?ts clk ?n = Inr n'" "same_face ?n n'" using target_total [of ?ts cmd ?n clk] by blast
    have f: "same_face n n'" using same_face_trans [OF push_face [OF lists] n'(2)] .
    have "\<forall>i < length cs. \<exists>c. update_timing s cmd a clk (cs ! i) = Inr c \<and> tree_fits s tab A (pre @ [int i]) c"
      using "1.IH" "1.prems" by simp
    then obtain g where g: "\<And>i. i < length cs \<Longrightarrow> update_timing s cmd a clk (cs ! i) = Inr (g i) \<and> tree_fits s tab A (pre @ [int i]) (g i)" by metis
    let ?cs = "map g [0 ..< length cs]"
    have "update_timings s cmd a clk cs = Inr ?cs" using g by (simp add: update_timings_all)
    moreover have "tree_fits s tab A pre (DRAM_Node n' ?cs)" using "1.prems" face_fits [OF f n] f g by (simp add: same_face_def)
    ultimately show ?thesis using True n'(1) by auto
  qed
qed

text \<open>A whole command: what it does to the open rows.\<close>

fun rows_after :: "Command \<Rightarrow> int list \<Rightarrow> (int list \<Rightarrow> int option) \<Rightarrow> int list \<Rightarrow> int option" where
  "rows_after ACT a tab = tab(take 4 a := Some (a ! 4))"
| "rows_after PRE a tab = tab(take 4 a := None)"
| "rows_after PREA a tab = (\<lambda>x. if take 2 x = take 2 a then None else tab x)"
| "rows_after _ a tab = tab"

definition cmd_fits :: "DDR4 \<Rightarrow> (int list \<Rightarrow> int option) \<Rightarrow> Command \<Rightarrow> int list \<Rightarrow> bool" where
  "cmd_fits s tab cmd a \<longleftrightarrow>
     in_org s a \<and> (cmd = ACT \<and> tab (take 4 a) = None \<or> cmd = PRE \<or> cmd = RD \<or> cmd = WR) \<or> rank_addr s a \<and> (cmd = PREA \<or> cmd = REF)"

lemma cmd_fits_scope: "cmd_fits s tab cmd a \<Longrightarrow> fits_cmd s cmd a"
  by (auto simp: cmd_fits_def fits_cmd_def)

lemma set_cur_clk_fits: "tree_fits s tab A pre d \<Longrightarrow> tree_fits s tab A pre (set_cur_clk clk d)"
  by (cases d) (simp add: set_cur_clk_def node_fits_def node_lists_ok_def bank_fits_def split: option.splits)

lemma state_total:
  assumes "tree_fits s tab A [ch] d" "a ! 0 = ch" "cmd_fits s tab cmd a"
  shows "\<exists>d'. update_state cmd a d = Inr d' \<and> tree_fits s (rows_after cmd a tab) A [ch] d'"
proof -
  have a: "take (length [ch]) a = [ch]"
    using assms(2,3) by (cases a) (auto simp: cmd_fits_def in_org_def rank_addr_def)
  have l: "level_ix (dn_level (dram_node d)) \<le> level_ix (scope cmd)"
    using assms(1) fits_level(1) [of s tab A "[ch]" "dram_node d"] by (cases d) simp
  consider "cmd = RD \<or> cmd = WR \<or> cmd = REF" | "in_org s a" "cmd = ACT \<and> tab (take 4 a) = None \<or> cmd = PRE" | "rank_addr s a" "cmd = PREA"
    using assms(3) unfolding cmd_fits_def by blast
  then show ?thesis
  proof cases
    case 1
    then show ?thesis using state_keep [OF assms(1) a 1 cmd_fits_scope [OF assms(3)] l] assms(1) by auto
  next
    case 2
    then show ?thesis using state_bank [OF assms(1) a 2(1), of ACT "Some (a ! 4)"] state_bank [OF assms(1) a 2(1), of PRE None] by auto
  next
    case 3
    then show ?thesis using state_rank [OF assms(1) a 3(1), of "rows_after PREA a tab"] by simp
  qed
qed

lemma DRAM_update_total:
  assumes "tree_fits s tab A [ch] d" "a ! 0 = ch" "cmd_fits s tab cmd a"
  shows "\<exists>d'. DRAM_update s cmd a clk d = Inr d' \<and> tree_fits s (rows_after cmd a tab) A [ch] d'"
proof -
  obtain d1 where d1: "update_state cmd a (set_cur_clk clk d) = Inr d1" "tree_fits s (rows_after cmd a tab) A [ch] d1"
    using state_total [OF set_cur_clk_fits [OF assms(1)] assms(2,3)] by blast
  then show ?thesis using timing_fits [OF d1(2), of cmd a clk] by (auto simp: DRAM_update_def)
qed

text \<open>A new channel.\<close>

lemma DRAM_new_fits:
  "length pre = Suc (level_ix l) \<Longrightarrow> length pre \<le> 4 \<Longrightarrow> last pre = i \<Longrightarrow> tree_fits s (\<lambda>_. None) {#} pre (DRAM_new s l i)"
proof (induction s l i arbitrary: pre rule: DRAM_new.induct)
  case (1 s l i)
  have n: "node_fits s (\<lambda>_. None) {#} pre (dram_node_new s l i)"
    using "1.prems" by (auto simp: node_fits_def dram_node_new_def node_lists_ok_def serving_at_def bank_fits_def comp_def)
  show ?case
  proof (cases "child_level l")
    case None
    then show ?thesis using n by (subst DRAM_new.simps) (simp add: dram_node_new_def)
  next
    case (Some cl)
    have "level_ix l \<noteq> 3" using Some by (cases l) auto
    moreover have cl: "level_ix cl = Suc (level_ix l)" by (rule child_level_ix [OF Some])
    ultimately have "tree_fits s (\<lambda>_. None) {#} (pre @ [int k]) (DRAM_new s cl (int k))" if "k < nat (org_count (org_entry s) ! level_ix cl)" for k
      by (intro "1.IH" [OF Some]) (use "1.prems" that in auto)
    then show ?thesis using n Some by (subst DRAM_new.simps) (simp add: dram_node_new_def)
  qed
qed

end
