(* ===== verification/Ram_Map.thy ===== *)
theory Ram_Map
  imports Ram_Memory
begin

text \<open>
  The mapping of addresses of \<^verbatim>\<open>Memory::send\<close>: every address selects an existing channel, rank, bank
  group, bank, row and column, and two addresses select the same place exactly if they belong to the
  same transaction of the same image of the memory.
\<close>

section \<open>Powers of two\<close>

lemma ilog2_pow: "ilog2 (2 ^ n) = n"
proof (induction n)
  case 0
  then show ?case by (subst ilog2.simps) simp
next
  case (Suc n)
  have "\<not> (2 :: int) ^ Suc n \<le> 1" by (simp add: not_le one_less_power del: power_Suc)
  then show ?case using Suc by (subst ilog2.simps) simp
qed

lemma calc_log2_pow [simp]: "calc_log2 (2 ^ n) = n"
  by (simp add: calc_log2_def ilog2_pow)

lemma calc_log2_numerals [simp]: "calc_log2 2 = 1" "calc_log2 4 = 2" "calc_log2 8 = 3" "calc_log2 64 = 6" "calc_log2 1024 = 10"
  using calc_log2_pow [of 1] calc_log2_pow [of 2] calc_log2_pow [of 3] calc_log2_pow [of 6] calc_log2_pow [of 10] by simp_all

lemma org_rows: "\<exists>bg row. org_count (org_table org) = [0, 0, 2 ^ bg, 4, 2 ^ row, 1024]"
proof -
  have "\<exists>bg \<in> {1, 2}. \<exists>row \<in> {14, 15, 16, 17}. org_count (org_table org) = [0, 0, 2 ^ bg, 4, 2 ^ row, 1024]"
    by (cases org) simp_all
  then show ?thesis by blast
qed

section \<open>The memory of the simulator\<close>

text \<open>What the constructor leaves in the memory, whose address mapping depends on nothing else.\<close>

lemma init_speed_org:
  "init_speed d = Inr s \<Longrightarrow> org_entry s = org_entry d \<and> prefetch_size s = prefetch_size d \<and> channel_width s = channel_width d"
  unfolding init_speed_def Let_def by (auto split: option.split_asm simp del: if_split)

lemma DDR4_new_org: "DDR4_new org speed = Inr s \<Longrightarrow> org_entry s = org_table org \<and> prefetch_size s = 8 \<and> channel_width s = 64"
  unfolding DDR4_new_def by (drule init_speed_org) simp

lemma make_memory_shape:
  assumes "make_memory org speed C R = Inr m" "0 < C" "0 < R"
  obtains c r bg row where "C = 2 ^ c" "R = 2 ^ r" "org_count (org_entry (me_spec m)) = [2 ^ c, 2 ^ r, 2 ^ bg, 4, 2 ^ row, 1024]"
    "me_addr_bits m = [c, r, bg, 2, row, 7]" "me_tx_bits m = 6" "me_type m = RoBaRaCoCh"
    "me_max_address m = 64 * (2 ^ c * (128 * (2 ^ r * (2 ^ bg * (4 * 2 ^ row)))))" "length (me_ctrls m) = 2 ^ c"
    "prefetch_size (me_spec m) = 8"
proof -
  obtain s where s: "DDR4_new org speed = Inr s"
    and m: "Memory_new (set_rank_number R (set_channel_number C s)) 1
      (map (\<lambda>c. Controller_new 1 (DRAM_new (set_rank_number R (set_channel_number C s)) Channel (int c))) [0 ..< nat C]) = Inr m"
    using assms(1) by (auto simp: make_memory_def Let_def)
  obtain bg row where org: "org_count (org_entry s) = [0, 0, 2 ^ bg, 4, 2 ^ row, 1024]"
    using org_rows DDR4_new_org [OF s] by metis
  let ?s = "set_rank_number R (set_channel_number C s)"
  have cnt: "org_count (org_entry ?s) = [C, R, 2 ^ bg, 4, 2 ^ row, 1024]" "prefetch_size ?s = 8" "channel_width ?s = 64"
    using org DDR4_new_org [OF s] by (simp_all add: set_rank_number_def set_channel_number_def)
  have tx: "trunc_div (8 * 64) 8 = 64" "trunc_div 64 8 = 8" by (simp_all add: trunc_div_def)
  have pow: "2 ^ calc_log2 C = C" "2 ^ calc_log2 R = R"
    using m assms(2,3) by (auto simp: Memory_new_def Let_def cnt is_pow2_or_0_def split: if_splits)
  show thesis
  proof (rule that [of "calc_log2 C" "calc_log2 R" bg row])
    show "me_max_address m = 64 * (2 ^ calc_log2 C * (128 * (2 ^ calc_log2 R * (2 ^ bg * (4 * 2 ^ row)))))"
      using m by (auto simp: Memory_new_def Let_def cnt tx pow split: if_splits)
    have "length (me_ctrls m) = nat C" using m by (auto simp: Memory_new_def Let_def split: if_splits)
    then show "length (me_ctrls m) = 2 ^ calc_log2 C" using arg_cong [OF pow(1), of nat] by (simp add: nat_power_eq)
  qed (use m cnt tx pow in \<open>auto simp: Memory_new_def Let_def split: if_splits\<close>)
qed

lemma map_address_eq:
  assumes "me_addr_bits m = [c, r, bg, 2, row, 7]" "me_tx_bits m = 6" "me_type m = RoBaRaCoCh"
  shows "map_address m a =
    (let x0 = sint a div 64; x1 = x0 div 2 ^ c; x2 = x1 div 128; x3 = x2 div 2 ^ r; x4 = x3 div 2 ^ bg; x5 = x4 div 4
     in [x0 mod 2 ^ c, x2 mod 2 ^ r, x3 mod 2 ^ bg, x4 mod 4, x5 mod 2 ^ row, x1 mod 128])"
proof -
  have "replicate 6 (0 :: int) = [0, 0, 0, 0, 0, 0]" by (simp add: eval_nat_numeral)
  then show ?thesis by (simp add: map_address_def assms slice_lower_bits_def Let_def)
qed

text \<open>A number modulo a product is its remainder and the remainder of the rest.\<close>

lemma mod_mult_eq_iff:
  assumes "0 < k" "0 < (n :: int)"
  shows "x mod (k * n) = y mod (k * n) \<longleftrightarrow> x mod k = y mod k \<and> x div k mod n = y div k mod n"
proof
  assume eq: "x mod (k * n) = y mod (k * n)"
  have "x mod k = x mod (k * n) mod k" "y mod k = y mod (k * n) mod k" by (simp_all add: mod_mod_cancel)
  moreover have "x div k mod n = x mod (k * n) div k" "y div k mod n = y mod (k * n) div k"
    using assms by (simp_all add: zmod_zmult2_eq)
  ultimately show "x mod k = y mod k \<and> x div k mod n = y div k mod n" using eq by simp
qed (use assms in \<open>simp add: zmod_zmult2_eq\<close>)

lemma mixed_radix:
  assumes "0 < k1" "0 < k2" "0 < k3" "0 < k4" "0 < k5" "0 < (k6 :: int)"
  shows "x mod (k1 * (k2 * (k3 * (k4 * (k5 * k6))))) = y mod (k1 * (k2 * (k3 * (k4 * (k5 * k6))))) \<longleftrightarrow>
    x mod k1 = y mod k1 \<and> x div k1 mod k2 = y div k1 mod k2 \<and> x div k1 div k2 mod k3 = y div k1 div k2 mod k3 \<and>
    x div k1 div k2 div k3 mod k4 = y div k1 div k2 div k3 mod k4 \<and>
    x div k1 div k2 div k3 div k4 mod k5 = y div k1 div k2 div k3 div k4 mod k5 \<and>
    x div k1 div k2 div k3 div k4 div k5 mod k6 = y div k1 div k2 div k3 div k4 div k5 mod k6"
  using assms by (simp add: mod_mult_eq_iff)

section \<open>Properties\<close>

text \<open>C28.  In every memory the simulator can build, an address is mapped to an existing channel, rank,
  bank group, bank, row and column (a column is a transaction of 8 bursts), so that \<^verbatim>\<open>Memory::send\<close>
  never indexes past its controllers, and two addresses are mapped to the same place
  exactly if their 64-byte transactions agree modulo the capacity of the memory.\<close>

theorem address_mapping:
  assumes "make_memory org speed C R = Inr m" "0 < C" "0 < R"
  shows "length (map_address m a) = 6 \<and>
    (\<forall>l. 0 \<le> map_address m a ! level_ix l \<and> map_address m a ! level_ix l <
       (if l = Column then org_count (org_entry (me_spec m)) ! level_ix l div prefetch_size (me_spec m)
        else org_count (org_entry (me_spec m)) ! level_ix l)) \<and>
    nat (map_address m a ! 0) < length (me_ctrls m) \<and>
    (map_address m a = map_address m b \<longleftrightarrow>
       sint a div 64 mod (me_max_address m div 64) = sint b div 64 mod (me_max_address m div 64))"
proof -
  obtain c r bg row where sh: "org_count (org_entry (me_spec m)) = [2 ^ c, 2 ^ r, 2 ^ bg, 4, 2 ^ row, 1024]"
    "me_addr_bits m = [c, r, bg, 2, row, 7]" "me_tx_bits m = 6" "me_type m = RoBaRaCoCh"
    "me_max_address m = 64 * (2 ^ c * (128 * (2 ^ r * (2 ^ bg * (4 * 2 ^ row)))))" "length (me_ctrls m) = 2 ^ c"
    "prefetch_size (me_spec m) = 8"
    using make_memory_shape [OF assms] by metis
  note v = map_address_eq [OF sh(2-4)]
  have "map_address m a = map_address m b \<longleftrightarrow>
      sint a div 64 mod (me_max_address m div 64) = sint b div 64 mod (me_max_address m div 64)"
  proof -
    have "me_max_address m div 64 = 2 ^ c * (128 * (2 ^ r * (2 ^ bg * (4 * 2 ^ row))))"
      unfolding sh(5) by (rule nonzero_mult_div_cancel_left) simp
    note capacity = this
    have pos: "(0 :: int) < 2 ^ c" "(0 :: int) < 128" "(0 :: int) < 2 ^ r" "(0 :: int) < 2 ^ bg" "(0 :: int) < 4" "(0 :: int) < 2 ^ row"
      by simp_all
    show ?thesis unfolding v capacity mixed_radix [OF pos] Let_def list.inject by blast
  qed
  moreover have "0 \<le> map_address m a ! level_ix l \<and> map_address m a ! level_ix l <
       (if l = Column then org_count (org_entry (me_spec m)) ! level_ix l div prefetch_size (me_spec m)
        else org_count (org_entry (me_spec m)) ! level_ix l)" for l
    unfolding v by (cases l) (simp_all add: sh Let_def)
  moreover have "nat (map_address m a ! 0) < length (me_ctrls m)"
    unfolding v by (simp add: sh(6) Let_def nat_less_iff)
  moreover have "length (map_address m a) = 6" unfolding v by (simp add: Let_def)
  ultimately show ?thesis by blast
qed

theorem address_mapping_witness:
  "\<exists>m. make_memory DDR4_8Gb_x4 DDR4_3200 4 16 = Inr m \<and> nat (map_address m 0x12345680 ! 0) < length (me_ctrls m)"
proof -
  have "returns (make_memory DDR4_8Gb_x4 DDR4_3200 4 16)"
    by (simp add: make_memory_def DDR4_new_def init_speed_def Memory_new_def set_rank_number_def set_channel_number_def
        is_pow2_or_0_def trunc_div_def speed_row_def Let_def calc_log2_pow [of 4, simplified])
  then obtain m where "make_memory DDR4_8Gb_x4 DDR4_3200 4 16 = Inr m" by (auto simp: returns_def)
  then show ?thesis using address_mapping [of DDR4_8Gb_x4 DDR4_3200 4 16 m] by auto
qed

end
