(* ===== verification/Ram_Safe.thy ===== *)
theory Ram_Safe
  imports Ram_Tree Ram_Map
begin

text \<open>
  The memory never aborts, except when the queue of refreshes is full.  The invariant of a controller: the tree has
  its shape, the row table agrees with the states of the banks, every node counts the requests that are being served
  below it, and the queues hold requests of their kind with addresses of the organisation.
\<close>

declare ct_queue.simps [simp del] ct_set_queue.simps [simp del] ct_max.simps [simp del]

section \<open>The row table\<close>

definition rows :: "(int list, rt_Entry) smap \<Rightarrow> int list \<Rightarrow> int option" where
  "rows t k = map_option re_row (sm_find t k)"

definition table_ok :: "(int list, rt_Entry) smap \<Rightarrow> bool" where
  "table_ok t \<longleftrightarrow> sm_ok t \<and> (\<forall>e \<in> set t. length (fst e) = 4)"

text \<open>The commands the controller issues: what must hold of the bank or rank.\<close>

definition cmd_due :: "DDR4 \<Rightarrow> (int list \<Rightarrow> int option) \<Rightarrow> Command \<Rightarrow> int list \<Rightarrow> bool" where
  "cmd_due s tab cmd a \<longleftrightarrow>
     in_org s a \<and> (cmd = ACT \<and> tab (take 4 a) = None \<or> cmd = PRE \<and> tab (take 4 a) \<noteq> None \<or> (cmd = RD \<or> cmd = WR) \<and> tab (take 4 a) = Some (a ! 4)) \<or>
     rank_addr s a \<and> (cmd = REF \<or> cmd = PREA \<and> (\<exists>i j. tab (take 2 a @ [i, j]) \<noteq> None))"

lemma due_fits: "cmd_due s tab cmd a \<Longrightarrow> cmd_fits s tab cmd a"
  by (auto simp: cmd_due_def cmd_fits_def)

lemma sm_find_filter: "sm_find (filter (\<lambda>(k, _). P k) t) k = (if P k then sm_find t k else None)"
  by (induction t) (auto simp: sm_find_def)

lemma table_filter: "table_ok t \<Longrightarrow> table_ok (filter P t)"
  by (auto simp: table_ok_def sm_ok_def sorted_wrt_map intro: sorted_wrt_filter)

lemma filter_shrinks: "sm_find t k = Some e \<Longrightarrow> \<not> P k \<Longrightarrow> length (filter (\<lambda>(k, _). P k) t) \<noteq> length t"
  using length_filter_less [of "(k, e)" t "\<lambda>(k, _). P k"] by (auto simp: sm_find_def dest!: map_of_SomeD)

lemma table_put: "table_ok t \<Longrightarrow> length k = 4 \<Longrightarrow> table_ok (sm_put k v t)"
  using set_sm_put [of k v t] by (auto simp: table_ok_def)

lemma rowtable_total:
  assumes "table_ok t" "cmd_due s (rows t) cmd a"
  shows "\<exists>t'. rowtable_update cmd a clk t = Inr t' \<and> table_ok t' \<and> rows t' = rows_after cmd a (rows t)"
proof -
  have a6: "length a = 6" using assms(2) by (auto simp: cmd_due_def in_org_def rank_addr_def)
  have rg: "rt_rowgroup a = take 4 a" "rt_row a = a ! 4" by (simp_all add: rt_rowgroup_def rt_row_def)
  have keys: "length k = 4" if "sm_find t k = Some e" for k e
    using that assms(1) by (auto simp: table_ok_def sm_find_def dest!: map_of_SomeD)
  consider "cmd = ACT" "rows t (take 4 a) = None" | e where "cmd = PRE" "sm_find t (take 4 a) = Some e"
    | e where "cmd = RD \<or> cmd = WR" "sm_find t (take 4 a) = Some e" "re_row e = a ! 4" | "cmd = REF"
    | i j e where "cmd = PREA" "sm_find t (take 2 a @ [i, j]) = Some e"
    using assms(2) by (auto simp: cmd_due_def rows_def)
  then show ?thesis
  proof cases
    case 1
    then have f: "sm_find t (take 4 a) = None" by (simp add: rows_def)
    show ?thesis using 1 f table_put [OF assms(1), of "take 4 a"] a6
      by (auto simp: rowtable_update_def is_opening_def is_accessing_def is_closing_def rg sm_insert_def rows_def fun_eq_iff)
  next
    case (2 e)
    let ?t = "filter (\<lambda>(k, _). take 4 k \<noteq> take 4 a) t"
    have "length ?t \<noteq> length t" by (rule filter_shrinks [OF 2(2)]) simp
    moreover have "rows ?t = (rows t)(take 4 a := None)"
    proof
      fix x
      have "x = take 4 a" if "take 4 x = take 4 a" "sm_find t x = Some y" for y using keys [OF that(2)] that(1) by simp
      then show "rows ?t x = ((rows t)(take 4 a := None)) x" by (cases "sm_find t x") (auto simp: rows_def sm_find_filter)
    qed
    ultimately show ?thesis using 2(1) table_filter [OF assms(1)]
      by (auto simp: rowtable_update_def rt_close_def is_opening_def is_accessing_def is_closing_def Let_def)
  next
    case (3 e)
    then show ?thesis using table_put [OF assms(1), of "take 4 a"] a6
      by (auto simp: rowtable_update_def rt_access_def is_opening_def is_accessing_def is_closing_def rg rows_def fun_eq_iff)
  next
    case 4
    then show ?thesis using assms(1) by (simp add: rowtable_update_def is_opening_def is_accessing_def is_closing_def)
  next
    case (5 i j e)
    let ?t = "filter (\<lambda>(k, _). take 2 k \<noteq> take 2 a) t"
    have "length ?t \<noteq> length t" by (rule filter_shrinks [OF 5(2)]) (use a6 in simp)
    moreover have "rows ?t = rows_after PREA a (rows t)"
      by (auto simp: fun_eq_iff rows_def sm_find_filter)
    ultimately show ?thesis using 5(1) table_filter [OF assms(1)]
      by (auto simp: rowtable_update_def rt_close_def is_opening_def is_accessing_def is_closing_def Let_def numeral_2_eq_2)
  qed
qed

section \<open>The invariant of a controller\<close>

text \<open>The requests being served: those whose first command was issued and the reads on their way.\<close>

definition served :: "Request list \<Rightarrow> int list multiset" where
  "served q = mset (map addr_vec (filter (\<lambda>r. \<not> is_first_command r) q))"

definition flying :: "Request list \<Rightarrow> int list multiset" where
  "flying q = mset (map addr_vec (filter (\<lambda>r. depart r - arrive r > 1) q))"

definition act_addrs :: "Controller \<Rightarrow> int list multiset" where
  "act_addrs c = served (ct_queue Readq c) + served (ct_queue Writeq c) + served (ct_queue Actq c) + flying (ct_pending c)"

lemma served_append: "served (p @ q) = served p + served q"
  by (simp add: served_def)

lemma served_one: "served [r] = (if is_first_command r then {#} else {#addr_vec r#})"
  by (simp add: served_def)

lemma served_remove: "i < length q \<Longrightarrow> served q = served [q ! i] + served (remove_nth i q)"
  using arg_cong [OF mset_remove_nth, of i q "\<lambda>m. image_mset addr_vec (filter_mset (\<lambda>r. \<not> is_first_command r) m)"]
  by (simp add: served_def)

lemma served_update: "i < length q \<Longrightarrow> served (q[i := r]) = served [r] + served (remove_nth i q)"
  by (simp add: upd_conv_take_nth_drop served_def remove_nth_def)

lemma flying_simps: "flying [] = {#}" "flying (r # q) = (if depart r - arrive r > 1 then {#addr_vec r#} else {#}) + flying q"
  "flying (p @ q) = flying p + flying q"
  by (simp_all add: flying_def)

lemma act_addrs_frame:
  "(\<And>k. k \<noteq> Otherq \<Longrightarrow> ct_queue k c' = ct_queue k c) \<Longrightarrow> ct_pending c' = ct_pending c \<Longrightarrow> act_addrs c' = act_addrs c"
  by (simp add: act_addrs_def)

lemma act_addrs_sel [simp]:
  "act_addrs (c\<lparr>ct_channel := x\<rparr>) = act_addrs c" "act_addrs (c\<lparr>ct_stats := y\<rparr>) = act_addrs c" "act_addrs (c\<lparr>ct_table := z\<rparr>) = act_addrs c"
  by (simp_all add: act_addrs_def)

lemma act_addrs_set:
  "k \<noteq> Otherq \<Longrightarrow> act_addrs (ct_set_queue k q c) + served (ct_queue k c) = act_addrs c + served q"
  by (cases k) (simp_all add: act_addrs_def)

fun queue_type :: "queue_id \<Rightarrow> Request_Type \<Rightarrow> bool" where
  "queue_type Readq t \<longleftrightarrow> t = READ"
| "queue_type Writeq t \<longleftrightarrow> t = WRITE"
| "queue_type Actq t \<longleftrightarrow> t = READ \<or> t = WRITE"
| "queue_type Otherq t \<longleftrightarrow> t = REFRESH"

definition entry_ok :: "DDR4 \<Rightarrow> int \<Rightarrow> int \<Rightarrow> queue_id \<Rightarrow> Request \<Rightarrow> bool" where
  "entry_ok s ch clk k r \<longleftrightarrow> addr_vec r ! 0 = ch \<and> queue_type k (rq_type r) \<and> arrive r \<le> clk \<and>
     (if k = Otherq then rank_addr s (addr_vec r) else in_org s (addr_vec r))"

definition queues_ok :: "DDR4 \<Rightarrow> int \<Rightarrow> Controller \<Rightarrow> bool" where
  "queues_ok s ch c \<longleftrightarrow> (\<forall>k. list_all (entry_ok s ch (ct_clk c) k) (ct_queue k c)) \<and>
     list_all (\<lambda>r. rq_type r = READ \<and> addr_vec r ! 0 = ch \<and> in_org s (addr_vec r)) (ct_pending c)"

definition ct_safe :: "DDR4 \<Rightarrow> int \<Rightarrow> Controller \<Rightarrow> bool" where
  "ct_safe s ch c \<longleftrightarrow> tree_fits s (rows (ct_table c)) (act_addrs c) [ch] (ct_channel c) \<and> table_ok (ct_table c) \<and>
     queues_ok s ch c \<and> 0 \<le> ct_clk c \<and> ct_sched_type c = FRFCFS_Cap"

text \<open>Either the operation returns a state with the property, or the assertion of a full refresh queue failed.\<close>

definition safe_r :: "'a result \<Rightarrow> ('a \<Rightarrow> bool) \<Rightarrow> bool" where
  "safe_r m P \<longleftrightarrow> (case m of Inl e \<Rightarrow> e = RAM_ASSERT ''res'' | Inr x \<Rightarrow> P x)"

lemma safe_simps [simp]: "safe_r (Inr x) P \<longleftrightarrow> P x" "safe_r (Inl e) P \<longleftrightarrow> e = RAM_ASSERT ''res''"
  by (simp_all add: safe_r_def)

lemma safe_bind: "safe_r m Q \<Longrightarrow> (\<And>x. m = Inr x \<Longrightarrow> Q x \<Longrightarrow> safe_r (f x) P) \<Longrightarrow> safe_r (bind_r m f) P"
  by (cases m) auto

lemma safe_mono: "safe_r m Q \<Longrightarrow> (\<And>x. m = Inr x \<Longrightarrow> Q x \<Longrightarrow> P x) \<Longrightarrow> safe_r m P"
  by (cases m) auto

lemma safe_fold: "(\<And>x s. x \<in> set xs \<Longrightarrow> I s \<Longrightarrow> safe_r (f x s) I) \<Longrightarrow> I s \<Longrightarrow> safe_r (fold_r f xs s) I"
  by (induction xs arbitrary: s) (auto intro: safe_bind)

lemma ct_safe_frame:
  assumes "\<And>k. ct_queue k c' = ct_queue k c" "ct_pending c' = ct_pending c" "ct_channel c' = ct_channel c" "ct_table c' = ct_table c"
    and "ct_clk c \<le> ct_clk c'" "ct_sched_type c' = ct_sched_type c" "ct_safe s ch c"
  shows "ct_safe s ch c'"
proof -
  have "act_addrs c' = act_addrs c" by (rule act_addrs_frame) (rule assms(1,2))+
  moreover have "list_all (entry_ok s ch (ct_clk c') k) q" if "list_all (entry_ok s ch (ct_clk c) k) q" for k q
    using that assms(5) by (auto simp: list_all_iff entry_ok_def)
  ultimately show ?thesis using assms by (simp add: ct_safe_def queues_ok_def)
qed

lemma sched_type_frame [simp]: "ct_sched_type (ct_set_queue k q c) = ct_sched_type c"
  by (cases k) (simp_all add: ct_set_queue.simps)

section \<open>Reads, refreshes\<close>

lemma serving_less: "serving_at A x = serving_at (add_mset a A) x + (if take (length x) a = x then -1 else 0)"
  by (simp add: serving_at_add)

lemma serve_reads_safe:
  assumes "ct_safe s ch c"
  shows "safe_r (ct_serve_reads c) (\<lambda>(c', _). ct_safe s ch c')"
proof (cases "ct_pending c")
  case (Cons r rs)
  have q: "queues_ok s ch (c\<lparr>ct_pending := rs\<rparr>)" "queues_ok s ch c" using assms Cons by (auto simp: ct_safe_def queues_ok_def)
  show ?thesis
  proof (cases "depart r \<le> ct_clk c \<and> depart r - arrive r > 1")
    case True
    let ?A = "act_addrs (c\<lparr>ct_pending := rs\<rparr>)"
    have A: "act_addrs c = add_mset (addr_vec r) ?A" using True Cons by (simp add: act_addrs_def flying_simps)
    have r: "in_org s (addr_vec r)" "addr_vec r ! 0 = ch" using q(2) Cons by (simp_all add: queues_ok_def)
    have t: "tree_fits s (rows (ct_table c)) (add_mset (addr_vec r) ?A) [ch] (ct_channel c)" using assms A by (simp add: ct_safe_def)
    have "take (length [ch]) (addr_vec r) = [ch]" using r by (cases "addr_vec r") (auto simp: in_org_def)
    from serving_fits [OF t this r(1), of "-1" "ct_clk c" ?A] obtain d where
      d: "update_serving_requests (addr_vec r) (-1) (ct_clk c) (ct_channel c) = Inr d" "tree_fits s (rows (ct_table c)) ?A [ch] d"
      using serving_less assms by (auto simp: ct_safe_def)
    let ?c = "c\<lparr>ct_channel := d, ct_stats := st, ct_pending := rs\<rparr>"
    have "ct_safe s ch (c\<lparr>ct_channel := d, ct_stats := st, ct_pending := rs\<rparr>)" for st
      using d(2) q(1) assms by (simp add: ct_safe_def act_addrs_def queues_ok_def)
    then show ?thesis using True Cons d(1) by (simp add: ct_serve_reads_def)
  next
    case False
    have "ct_safe s ch (c\<lparr>ct_pending := rs\<rparr>)" if "\<not> depart r - arrive r > 1"
      using that q(1) assms Cons by (simp add: ct_safe_def act_addrs_def flying_simps)
    then show ?thesis using False Cons assms by (auto simp: ct_serve_reads_def)
  qed
qed (use assms in \<open>simp add: ct_serve_reads_def\<close>)

lemma rank_ids:
  assumes "tree_fits s tab A [ch] d" "r \<in> set (map (dn_id \<circ> dram_node) (dram_children d))"
  shows "0 \<le> r \<and> r < org_count (org_entry s) ! 1"
proof -
  obtain n cs where d: "d = DRAM_Node n cs" by (cases d)
  have n: "dn_level n = Channel" using assms(1) d fits_level(1) [of s tab A "[ch]" n] by simp
  obtain i where i: "i < length cs" "r = dn_id (dram_node (cs ! i))" using assms(2) d by (auto simp: in_set_conv_nth)
  have "tree_fits s tab A [ch, int i] (cs ! i)" using assms(1) d i(1) by auto
  then have "r = int i" using i(2) by (cases "cs ! i") (simp add: node_fits_def)
  moreover have "length cs = nat (org_count (org_entry s) ! 1)" using assms(1) d n by simp
  ultimately show ?thesis using i(1) by simp
qed

lemma refresh_target_safe:
  assumes "ct_safe s ch c" "0 \<le> r" "r < org_count (org_entry s) ! 1"
  shows "safe_r (refresh_target r c) (ct_safe s ch)"
proof -
  have id: "dn_id (dram_node (ct_channel c)) = ch" using assms(1) by (cases "ct_channel c") (simp add: ct_safe_def node_fits_def)
  have a: "rank_addr s (addr_vec (refresh_request ch r))" "addr_vec (refresh_request ch r) ! 0 = ch" "rq_type (refresh_request ch r) = REFRESH"
    using assms(2,3) by (simp_all add: rank_addr_def refresh_request_def)
  obtain ok c' where e: "ct_enqueue (refresh_request ch r) c = (ok, c')" by fastforce
  have "ct_safe s ch c'" if "ok"
  proof -
    have c': "c' = ct_set_queue Otherq (ct_queue Otherq c @ [(refresh_request ch r)\<lparr>arrive := ct_clk c\<rparr>]) c"
      using e that a(3) by (auto simp: ct_enqueue_def Let_def split: if_splits)
    have "act_addrs c' = act_addrs c" by (simp add: c' act_addrs_def)
    then show ?thesis using assms(1) a by (auto simp: c' ct_safe_def queues_ok_def entry_ok_def)
  qed
  then show ?thesis using e id by (simp add: refresh_target_def)
qed

lemma tick_ref_safe:
  assumes "ct_safe s ch c"
  shows "safe_r (tick_ref s c) (ct_safe s ch)"
proof -
  let ?c = "c\<lparr>ct_ref_clk := ct_ref_clk c + 1\<rparr>"
  have c: "ct_safe s ch ?c" by (rule ct_safe_frame [OF _ _ _ _ _ _ assms]) simp_all
  then have t: "tree_fits s (rows (ct_table ?c)) (act_addrs ?c) [ch] (ct_channel ?c)" by (simp add: ct_safe_def)
  have "safe_r (fold_r refresh_target (map (dn_id \<circ> dram_node) (dram_children (ct_channel ?c))) ?c) (ct_safe s ch)"
    by (rule safe_fold [where I = "ct_safe s ch"]) (use c refresh_target_safe rank_ids [OF t] in blast)+
  then have "safe_r (inject_refresh ?c) (ct_safe s ch)"
    unfolding inject_refresh_def by (rule safe_bind) (auto intro: ct_safe_frame)
  then show ?thesis using c by (simp add: tick_ref_def Let_def)
qed

section \<open>The choice of a command\<close>

definition queued :: "DDR4 \<Rightarrow> int \<Rightarrow> Request \<Rightarrow> bool" where
  "queued s ch r \<longleftrightarrow> addr_vec r ! 0 = ch \<and>
     (in_org s (addr_vec r) \<and> (rq_type r = READ \<or> rq_type r = WRITE) \<or> rank_addr s (addr_vec r) \<and> rq_type r = REFRESH)"

lemma queued_path: "queued s ch r \<Longrightarrow> take (length [ch]) (addr_vec r) = [ch]"
  by (cases "addr_vec r") (auto simp: queued_def in_org_def rank_addr_def)

lemma queue_entry:
  assumes "queues_ok s ch c" "i < length (ct_queue k c)"
  shows "entry_ok s ch (ct_clk c) k (ct_queue k c ! i)"
proof -
  have "list_all (entry_ok s ch (ct_clk c) k) (ct_queue k c)" using assms(1) unfolding queues_ok_def by blast
  then show ?thesis using assms(2) by (simp add: list_all_length)
qed

lemma safe_entry: "ct_safe s ch c \<Longrightarrow> i < length (ct_queue k c) \<Longrightarrow> entry_ok s ch (ct_clk c) k (ct_queue k c ! i)"
  by (rule queue_entry) (simp_all add: ct_safe_def)

lemma entry_queued: "entry_ok s ch clk k r \<Longrightarrow> queued s ch r \<and> (k = Otherq \<longleftrightarrow> rq_type r = REFRESH)"
  by (cases k) (auto simp: entry_ok_def queued_def)

lemma safe_queued:
  assumes "ct_safe s ch c" "r \<in> set (ct_queue k c)"
  shows "queued s ch r"
proof -
  obtain i where "i < length (ct_queue k c)" "r = ct_queue k c ! i" using assms(2) by (auto simp: in_set_conv_nth)
  then show ?thesis using entry_queued [OF safe_entry [OF assms(1)]] by simp
qed

lemma safe_queued_nth: "ct_safe s ch c \<Longrightarrow> i < length (ct_queue k c) \<Longrightarrow> queued s ch (ct_queue k c ! i)"
  by (rule safe_queued) (auto intro: nth_mem)

lemma first_cmd_due:
  assumes "ct_safe s ch c" "queued s ch r"
  shows "\<exists>cmd. get_first_cmd c r = Inr cmd \<and> cmd_due s (rows (ct_table c)) cmd (addr_vec r) \<and>
    (cmd = translate (rq_type r) \<or> cmd = ACT \<or> cmd = PRE \<or> cmd = PREA)"
proof -
  let ?a = "addr_vec r"
  have t: "tree_fits s (rows (ct_table c)) (act_addrs c) [ch] (ct_channel c)" using assms(1) by (simp add: ct_safe_def)
  have a: "take (length [ch]) ?a = [ch]" by (rule queued_path [OF assms(2)])
  show ?thesis
  proof (cases "rq_type r = REFRESH")
    case True
    then have r: "rank_addr s ?a" using assms(2) by (auto simp: queued_def)
    from decode_refresh [OF t a r] show ?thesis using True r by (auto simp: get_first_cmd_def cmd_due_def)
  next
    case False
    then have r: "in_org s ?a" "rq_type r = READ \<or> rq_type r = WRITE" using assms(2) by (auto simp: queued_def)
    then have tr: "translate (rq_type r) = RD \<or> translate (rq_type r) = WR" by auto
    from decode_access [OF t a r(1) tr] show ?thesis using r tr by (auto simp: get_first_cmd_def cmd_due_def split: option.splits)
  qed
qed

lemma ready_total:
  assumes "ct_safe s ch c" "queued s ch r"
  shows "\<exists>b. is_ready c r = Inr b"
proof -
  obtain cmd where cmd: "get_first_cmd c r = Inr cmd" "cmd_due s (rows (ct_table c)) cmd (addr_vec r)"
    using first_cmd_due [OF assms] by blast
  have t: "tree_fits s (rows (ct_table c)) (act_addrs c) [ch] (ct_channel c)" using assms(1) by (simp add: ct_safe_def)
  have a: "take (length [ch]) (addr_vec r) = [ch]" by (rule queued_path [OF assms(2)])
  have "dn_level (dram_node (ct_channel c)) = Channel" using t fits_level(1) [of s _ _ "[ch]"] by (cases "ct_channel c") fastforce
  then show ?thesis using check_total [OF t a cmd_fits_scope [OF due_fits [OF cmd(2)]], of "ct_clk c"] cmd(1)
    by (auto simp: is_ready_def is_ready_cmd_def)
qed

lemma get_head_total:
  assumes "ct_safe s ch c" "\<And>r. r \<in> set q \<Longrightarrow> queued s ch r"
  shows "\<exists>h. sched_get_head c q = Inr h"
proof (cases "q = []")
  case False
  have ty: "ct_sched_type c = FRFCFS_Cap" using assms(1) by (simp add: ct_safe_def)
  have p: "\<exists>b. sched_pref FRFCFS_Cap c (q ! i) = Inr b" if "i < length q" for i
    using ready_total [OF assms(1)] assms(2) that by (fastforce simp: sched_pref_def)
  have total: "\<exists>k. fold_r (\<lambda>j i. sched_compare FRFCFS_Cap c q i j) js i = Inr k" if "set js \<subseteq> {..< length q}" "i < length q" for js i
    using that
  proof (induction js arbitrary: i)
    case (Cons j js)
    obtain k where k: "sched_compare FRFCFS_Cap c q i j = Inr k" using p [of i] p [of j] Cons.prems by (auto simp: sched_compare_def)
    then have "k < length q" using sched_compare_in [OF k] Cons.prems by auto
    then show ?case using Cons k by simp
  qed simp
  have "\<exists>k. fold_r (\<lambda>j i. sched_compare FRFCFS_Cap c q i j) [1 ..< length q] 0 = Inr k" by (rule total) (use False in auto)
  then show ?thesis using False ty by (force simp: sched_get_head_def sched_best_def)
qed (simp add: sched_get_head_def)

lemma try_total: "ct_safe s ch c \<Longrightarrow> \<exists>x. ct_try c k = Inr x"
proof -
  assume c: "ct_safe s ch c"
  obtain h where h: "sched_get_head c (ct_queue k c) = Inr h" using get_head_total [OF c] safe_queued [OF c] by blast
  show ?thesis
  proof (cases h)
    case (Some i)
    then have r: "queued s ch (ct_queue k c ! i)" using sched_get_head_less [of c "ct_queue k c" i] h safe_queued_nth [OF c] by simp
    obtain cmd where "get_first_cmd c (ct_queue k c ! i) = Inr cmd" using first_cmd_due [OF c r] by blast
    moreover obtain b where "is_ready c (ct_queue k c ! i) = Inr b" using ready_total [OF c r] by blast
    ultimately show ?thesis using h Some by (simp add: ct_try_def is_ready_def)
  qed (use h in \<open>simp add: ct_try_def\<close>)
qed

lemma choose_total: "ct_safe s ch c \<Longrightarrow> \<exists>x. ct_choose c = Inr x"
proof -
  assume c: "ct_safe s ch c"
  obtain x where "ct_try c Actq = Inr x" using try_total [OF c] by blast
  then show ?thesis using try_total [OF c] by (cases x) (auto simp: ct_choose_def)
qed

section \<open>Issuing it\<close>

lemma first_command_addrs:
  assumes "i < length (ct_queue k c)" "k \<noteq> Otherq" "is_first_command (ct_queue k c ! i)"
  shows "act_addrs (ct_set_queue k ((ct_queue k c)[i := (ct_queue k c ! i)\<lparr>is_first_command := False\<rparr>]) c) =
    add_mset (addr_vec (ct_queue k c ! i)) (act_addrs c)"
proof -
  have "served (ct_queue k c) = served (remove_nth i (ct_queue k c))" using served_remove [OF assms(1)] assms(3) by (simp add: served_one)
  then show ?thesis using act_addrs_set [OF assms(2), of "(ct_queue k c)[i := (ct_queue k c ! i)\<lparr>is_first_command := False\<rparr>]" c]
    by (simp add: served_update [OF assms(1)] served_one)
qed

lemma queues_ok_update:
  assumes "queues_ok s ch c" "i < length (ct_queue k c)" "rq_type r = rq_type (ct_queue k c ! i)" "addr_vec r = addr_vec (ct_queue k c ! i)"
    "arrive r = arrive (ct_queue k c ! i)"
  shows "queues_ok s ch (ct_set_queue k ((ct_queue k c)[i := r]) c)"
proof -
  have "entry_ok s ch (ct_clk c) k r" using queue_entry [OF assms(1,2)] assms(3-5) unfolding entry_ok_def by metis
  then have "entry_ok s ch (ct_clk c) k ((ct_queue k c)[i := r] ! j)" if "j < length (ct_queue k c)" for j
    using queue_entry [OF assms(1) that] that by (cases "j = i") simp_all
  then have "list_all (entry_ok s ch (ct_clk c) k) ((ct_queue k c)[i := r])" by (simp add: list_all_length)
  then show ?thesis using assms(1) by (simp add: queues_ok_def)
qed

lemma first_command_safe:
  assumes c: "ct_safe s ch c" and i: "i < length (ct_queue k c)"
  shows "\<exists>c'. ct_first_command s k i c = Inr c' \<and> ct_safe s ch c' \<and> skel (ct_channel c') = skel (ct_channel c) \<and> ct_table c' = ct_table c \<and>
    ct_clk c' = ct_clk c \<and> length (ct_queue k c') = length (ct_queue k c) \<and> addr_vec (ct_queue k c' ! i) = addr_vec (ct_queue k c ! i) \<and>
    rq_type (ct_queue k c' ! i) = rq_type (ct_queue k c ! i) \<and> \<not> is_first_command (ct_queue k c' ! i)"
proof (cases "is_first_command (ct_queue k c ! i)")
  case False
  then show ?thesis using c i by (simp add: ct_first_command_def)
next
  case True
  let ?r = "ct_queue k c ! i" and ?r' = "(ct_queue k c ! i)\<lparr>is_first_command := False\<rparr>"
  let ?c = "ct_set_queue k ((ct_queue k c)[i := ?r']) c"
  have q: "queued s ch ?r" by (rule safe_queued_nth [OF c i])
  have ok: "queues_ok s ch ?c" by (rule queues_ok_update) (use c i in \<open>simp_all add: ct_safe_def\<close>)
  have t: "tree_fits s (rows (ct_table c)) (act_addrs c) [ch] (ct_channel c)" using c by (simp add: ct_safe_def)
  show ?thesis
  proof (cases "rq_type ?r = READ \<or> rq_type ?r = WRITE")
    case acc: True
    have k: "k \<noteq> Otherq" using acc entry_queued [OF safe_entry [OF c i]] by auto
    have a: "in_org s (addr_vec ?r)" "take (length [ch]) (addr_vec ?r) = [ch]" using q acc queued_path [OF q] by (auto simp: queued_def)
    obtain d where d: "update_serving_requests (addr_vec ?r) 1 (ct_clk c) (ct_channel c) = Inr d"
      "tree_fits s (rows (ct_table c)) (add_mset (addr_vec ?r) (act_addrs c)) [ch] d"
      using serving_fits [OF t a(2,1), of 1 "ct_clk c" "add_mset (addr_vec ?r) (act_addrs c)"] c by (auto simp: serving_at_add ct_safe_def)
    let ?c1 = "?c\<lparr>ct_channel := d\<rparr>"
    have c1: "ct_safe s ch ?c1"
      using d(2) ok c first_command_addrs [OF i k True] by (simp add: ct_safe_def queues_ok_def)
    have cmd: "translate (rq_type ?r') = RD \<or> translate (rq_type ?r') = WR" using acc by auto
    obtain h where h: "is_row_hit ?c1 ?r' = Inr h" using row_hit_total [OF d(2) a(2,1) cmd] by (auto simp: is_row_hit_def)
    obtain o' where o': "is_row_open ?c1 ?r' = Inr o'" using row_open_total [OF d(2) a(2,1) cmd] by (auto simp: is_row_open_def)
    have "ct_safe s ch (?c1\<lparr>ct_stats := st\<rparr>)" for st by (rule ct_safe_frame [OF _ _ _ _ _ _ c1]) simp_all
    moreover have "skel d = skel (ct_channel c)" by (rule skel_serving [OF d(1)])
    ultimately show ?thesis using True acc d(1) h o' i by (auto simp: ct_first_command_def Let_def)
  next
    case acc: False
    then have "k = Otherq" using entry_queued [OF safe_entry [OF c i]] by (auto simp: queued_def)
    then have "act_addrs ?c = act_addrs c" by (simp add: act_addrs_def)
    then have "ct_safe s ch ?c" using c ok by (simp add: ct_safe_def)
    then show ?thesis using True acc i by (auto simp: ct_first_command_def Let_def)
  qed
qed

lemma issue_safe:
  assumes c: "ct_safe s ch c" and "cmd_due s (rows (ct_table c)) cmd a" "a ! 0 = ch" "check_cmd cmd a (ct_clk c) (ct_channel c) = Inr True"
  shows "\<exists>c'. issue_cmd s cmd a c = Inr c' \<and> ct_safe s ch c' \<and> ct_clk c' = ct_clk c \<and> (\<forall>k. ct_queue k c' = ct_queue k c)"
proof -
  have t: "tree_fits s (rows (ct_table c)) (act_addrs c) [ch] (ct_channel c)" "table_ok (ct_table c)" using c by (simp_all add: ct_safe_def)
  obtain d where d: "DRAM_update s cmd a (ct_clk c) (ct_channel c) = Inr d" "tree_fits s (rows_after cmd a (rows (ct_table c))) (act_addrs c) [ch] d"
    using DRAM_update_total [OF t(1) assms(3) due_fits [OF assms(2)]] by blast
  obtain t' where t': "rowtable_update cmd a (ct_clk c) (ct_table c) = Inr t'" "table_ok t'" "rows t' = rows_after cmd a (rows (ct_table c))"
    using rowtable_total [OF t(2) assms(2)] by blast
  have "ct_safe s ch (c\<lparr>ct_channel := d, ct_stats := st, ct_table := t'\<rparr>)" for st
    using c d(2) t'(2,3) by (simp add: ct_safe_def queues_ok_def)
  from this this [of "ct_stats c"] show ?thesis using d(1) t'(1) assms(4)
    by (cases "cmd = PRE \<and> get_hits (ct_table c) a True = 0") (auto simp: issue_cmd_def is_ready_cmd_def Let_def)
qed


section \<open>After the command\<close>

lemma list_all_remove_nth: "list_all P q \<Longrightarrow> list_all P (remove_nth i q)"
  by (auto simp: list_all_iff dest: set_remove_nth)

lemma list_all_if: "list_all P (if b then p else q) \<longleftrightarrow> (if b then list_all P p else list_all P q)"
  by simp

lemma take_out_safe:
  assumes "queues_ok s ch c" "i < length (ct_queue k c)"
  shows "queues_ok s ch (ct_set_queue k (remove_nth i (ct_queue k c)) c)"
    "k \<noteq> Otherq \<Longrightarrow> \<not> is_first_command (ct_queue k c ! i) \<Longrightarrow>
      act_addrs c = add_mset (addr_vec (ct_queue k c ! i)) (act_addrs (ct_set_queue k (remove_nth i (ct_queue k c)) c))"
proof -
  show "queues_ok s ch (ct_set_queue k (remove_nth i (ct_queue k c)) c)"
    using assms(1) unfolding queues_ok_def by (auto intro: list_all_remove_nth)
  assume k: "k \<noteq> Otherq" "\<not> is_first_command (ct_queue k c ! i)"
  then show "act_addrs c = add_mset (addr_vec (ct_queue k c ! i)) (act_addrs (ct_set_queue k (remove_nth i (ct_queue k c)) c))"
    using act_addrs_set [OF k(1), of "remove_nth i (ct_queue k c)" c] served_remove [OF assms(2)] by (simp add: served_one)
qed

lemma queues_ok_pending:
  assumes "queues_ok s ch c" "\<And>k. ct_queue k c' = ct_queue k c" "ct_clk c' = ct_clk c" "ct_pending c' = ct_pending c @ p"
    "list_all (\<lambda>r. rq_type r = READ \<and> addr_vec r ! 0 = ch \<and> in_org s (addr_vec r)) p"
  shows "queues_ok s ch c'"
  using assms by (simp add: queues_ok_def)

lemma ct_safe_move:
  assumes "ct_safe s ch c" "tree_fits s (rows (ct_table c)) (act_addrs c') [ch] (ct_channel c')" "queues_ok s ch c'"
    and "ct_table c' = ct_table c" "ct_clk c' = ct_clk c" "ct_sched_type c' = ct_sched_type c"
  shows "ct_safe s ch c'"
  using assms by (simp add: ct_safe_def)

lemma after_command_safe:
  assumes c: "ct_safe s ch c" and i: "i < length (ct_queue k c)" and first: "\<not> is_first_command (ct_queue k c ! i)"
    and lat: "2 \<le> read_latency s" and ref: "k = Otherq \<Longrightarrow> \<not> is_opening cmd"
  shows "\<exists>c' done. ct_after_command s k i cmd c = Inr (c', done) \<and> ct_safe s ch c'"
proof -
  let ?r = "ct_queue k c ! i" and ?c1 = "ct_set_queue k (remove_nth i (ct_queue k c)) c"
  have q: "queues_ok s ch c" and t: "tree_fits s (rows (ct_table c)) (act_addrs c) [ch] (ct_channel c)" using c by (simp_all add: ct_safe_def)
  note out = take_out_safe [OF q i]
  have e: "entry_ok s ch (ct_clk c) k ?r" by (rule safe_entry [OF c i])
  then have qd: "queued s ch ?r" "k = Otherq \<longleftrightarrow> rq_type ?r = REFRESH" using entry_queued by blast+
  have ty: "rq_type ?r = READ \<or> rq_type ?r = WRITE \<or> k = Otherq" using qd by (auto simp: queued_def)
  consider "cmd \<noteq> translate (rq_type ?r)" "is_opening cmd" | "cmd \<noteq> translate (rq_type ?r)" "\<not> is_opening cmd"
    | "cmd = translate (rq_type ?r)" "rq_type ?r = READ" | "cmd = translate (rq_type ?r)" "rq_type ?r = WRITE"
    | "cmd = translate (rq_type ?r)" "k = Otherq" using ty by blast
  then show ?thesis
  proof cases
    case 1
    let ?c0 = "ct_set_queue Actq (ct_queue Actq c @ [?r]) c"
    let ?c' = "ct_set_queue k (remove_nth i (ct_queue k ?c0)) ?c0"
    have k: "k \<noteq> Otherq" using 1 ref by blast
    have act: "entry_ok s ch (ct_clk c) Actq ?r" using e k qd by (auto simp: entry_ok_def queued_def)
    have qs: "ct_queue k' ?c' = (if k' = Actq then ct_queue Actq ?c1 @ [?r] else ct_queue k' ?c1)" for k'
      using remove_nth_append [OF i, of "[?r]"] by auto
    have "act_addrs ?c' = act_addrs ?c1 + served [?r]" using qs by (simp add: act_addrs_def served_append del: ct_queue_set)
    then have a: "act_addrs ?c' = act_addrs c" using out(2) k first by (simp add: served_one)
    have "list_all (entry_ok s ch (ct_clk c) k') (ct_queue k' ?c')" for k'
      unfolding qs using out(1) act by (simp add: queues_ok_def del: ct_queue_set)
    then have "queues_ok s ch ?c'" using q by (simp add: queues_ok_def del: ct_queue_set)
    then have "ct_safe s ch ?c'" using a by (intro ct_safe_move [OF c]) (use t in simp_all)
    then show ?thesis using 1 by (simp add: ct_after_command_def Let_def)
  next
    case 2
    then show ?thesis using c by (simp add: ct_after_command_def Let_def)
  next
    case 3
    let ?p = "?r\<lparr>depart := ct_clk c + read_latency s\<rparr>"
    let ?c' = "ct_set_queue k (remove_nth i (ct_queue k c)) (c\<lparr>ct_pending := ct_pending c @ [?p]\<rparr>)"
    have k: "k \<noteq> Otherq" using 3 qd by auto
    have fly: "flying (ct_pending ?c') = flying (ct_pending ?c1) + {#addr_vec ?r#}" using e lat by (simp add: flying_simps entry_ok_def)
    have qs: "ct_queue k' ?c' = ct_queue k' ?c1" for k' by simp
    have "act_addrs ?c' = add_mset (addr_vec ?r) (act_addrs ?c1)" unfolding act_addrs_def qs fly by simp
    then have a: "act_addrs ?c' = act_addrs c" using out(2) k first by simp
    have "in_org s (addr_vec ?r)" "addr_vec ?r ! 0 = ch" using qd k 3 by (auto simp: queued_def)
    then have "queues_ok s ch ?c'" by (intro queues_ok_pending [OF out(1) qs, of "[?p]"]) (use 3(2) in simp_all)
    then have "ct_safe s ch ?c'" using a by (intro ct_safe_move [OF c]) (use t in simp_all)
    then show ?thesis using 3 by (simp add: ct_after_command_def Let_def)
  next
    case 4
    then have k: "k \<noteq> Otherq" "in_org s (addr_vec ?r)" using qd by (auto simp: queued_def)
    obtain d where d: "update_serving_requests (addr_vec ?r) (-1) (ct_clk c) (ct_channel c) = Inr d"
      "tree_fits s (rows (ct_table c)) (act_addrs ?c1) [ch] d"
      using serving_fits [OF t queued_path [OF qd(1)] k(2), of "-1" "ct_clk c" "act_addrs ?c1"] out(2) [OF k(1) first] serving_less c
      by (auto simp: ct_safe_def)
    let ?c' = "ct_set_queue k (remove_nth i (ct_queue k c)) (c\<lparr>ct_channel := d\<rparr>)"
    have "act_addrs ?c' = act_addrs ?c1" by (rule act_addrs_frame) simp_all
    moreover have "queues_ok s ch ?c'" by (rule queues_ok_pending [OF out(1), of _ "[]"]) simp_all
    ultimately have "ct_safe s ch ?c'" by (intro ct_safe_move [OF c]) (use d(2) in simp_all)
    then show ?thesis using 4 d(1) by (simp add: ct_after_command_def Let_def)
  next
    case 5
    have "act_addrs ?c1 = act_addrs c" by (rule act_addrs_frame) (use 5 in simp_all)
    then have "ct_safe s ch ?c1" by (intro ct_safe_move [OF c]) (use t out in simp_all)
    then show ?thesis using 5 qd by (simp add: ct_after_command_def Let_def)
  qed
qed

section \<open>A cycle\<close>

lemma schedule_safe:
  assumes c: "ct_safe s ch c" and lat: "2 \<le> read_latency s"
  shows "\<exists>c' done. ct_schedule s c = Inr (c', done) \<and> ct_safe s ch c'"
proof -
  obtain x where x: "ct_choose c = Inr x" using choose_total [OF c] by blast
  show ?thesis
  proof (cases x)
    case None
    then show ?thesis using x c by (simp add: ct_schedule_def)
  next
    case (Some y)
    obtain k i cmd where y: "y = (k, i, cmd)" by (cases y)
    let ?r = "ct_queue k c ! i"
    have i: "i < length (ct_queue k c)" and cmd: "get_first_cmd c ?r = Inr cmd" and rd: "is_ready_cmd c cmd (addr_vec ?r) = Inr True"
      using ct_choose_less [of c k i cmd] x Some y by auto
    have qd: "queued s ch ?r" "k = Otherq \<longleftrightarrow> rq_type ?r = REFRESH" using entry_queued [OF safe_entry [OF c i]] by blast+
    have due: "cmd_due s (rows (ct_table c)) cmd (addr_vec ?r)" using first_cmd_due [OF c qd(1)] cmd by auto
    obtain c1 where c1: "ct_first_command s k i c = Inr c1" "ct_safe s ch c1" "skel (ct_channel c1) = skel (ct_channel c)"
      "ct_table c1 = ct_table c" "ct_clk c1 = ct_clk c" "length (ct_queue k c1) = length (ct_queue k c)"
      "addr_vec (ct_queue k c1 ! i) = addr_vec ?r" "rq_type (ct_queue k c1 ! i) = rq_type ?r" "\<not> is_first_command (ct_queue k c1 ! i)"
      using first_command_safe [OF c i] by blast
    have "check_cmd cmd (addr_vec ?r) (ct_clk c1) (ct_channel c1) = Inr True"
      using rd c1(3,5) check_skel by (metis is_ready_cmd_def)
    then obtain c2 where c2: "issue_cmd s cmd (addr_vec ?r) c1 = Inr c2" "ct_safe s ch c2" "\<forall>k. ct_queue k c2 = ct_queue k c1"
      using issue_safe [OF c1(2), of cmd "addr_vec ?r"] due c1(4) qd(1) by (auto simp: queued_def)
    have "\<not> is_opening cmd" if "k = Otherq" using that qd(2) cmd decode_REF by (auto simp: get_first_cmd_def is_opening_def)
    with after_command_safe [OF c2(2), of i k cmd] obtain c' "done" where "ct_after_command s k i cmd c2 = Inr (c', done)" "ct_safe s ch c'"
      using c2(3) c1(6,9) i lat by auto
    then show ?thesis using x Some y c1(1,7) c2(1) by (simp add: ct_schedule_def)
  qed
qed

lemma ct_tick_safe:
  assumes "ct_safe s ch c" "2 \<le> read_latency s"
  shows "safe_r (ct_tick s c) (\<lambda>(c', _). ct_safe s ch c')"
proof -
  have c0: "ct_safe s ch (ct_begin_tick c)"
    by (rule ct_safe_frame [OF _ _ _ _ _ _ assms(1)]) (simp_all add: ct_begin_tick_def Let_def)
  have sched: "safe_r (bind_r (ct_schedule s (ct_switch_mode c2)) (\<lambda>(c, done2). Inr (c, done1 @ done2))) (\<lambda>(c', _). ct_safe s ch c')"
    if "ct_safe s ch c2" for c2 done1
  proof -
    have "ct_safe s ch (ct_switch_mode c2)"
      by (rule ct_safe_frame [OF _ _ _ _ _ _ that]) (simp_all add: ct_switch_mode_def Let_def)
    then show ?thesis using schedule_safe [of s ch "ct_switch_mode c2"] assms(2) by fastforce
  qed
  have ref: "safe_r (bind_r (tick_ref s c1) (\<lambda>c. bind_r (ct_schedule s (ct_switch_mode c)) (\<lambda>(c, done2). Inr (c, done1 @ done2))))
      (\<lambda>(c', _). ct_safe s ch c')" if "ct_safe s ch c1" for c1 done1
    by (rule safe_bind [OF tick_ref_safe [OF that]]) (rule sched)
  show ?thesis unfolding ct_tick_def by (rule safe_bind [OF serve_reads_safe [OF c0]]) (auto intro: ref)
qed


section \<open>The memory\<close>

lemma enqueue_safe:
  assumes c: "ct_safe s ch c" and r: "access_request r" "is_first_command r" "in_org s (addr_vec r)" "addr_vec r ! 0 = ch"
    and e: "ct_enqueue r c = (ok, c')"
  shows "ct_safe s ch c'"
proof -
  let ?k = "get_queue (rq_type r)" and ?r = "r\<lparr>arrive := ct_clk c\<rparr>"
  have t: "tree_fits s (rows (ct_table c)) (act_addrs c) [ch] (ct_channel c)" and q: "queues_ok s ch c" using c by (simp_all add: ct_safe_def)
  have k: "?k \<noteq> Otherq" "entry_ok s ch (ct_clk c) ?k ?r" using r by (auto simp: access_request_def entry_ok_def)
  consider "c' = c" | "c' = c\<lparr>ct_pending := ct_pending c @ [?r\<lparr>depart := ct_clk c + 1\<rparr>]\<rparr>" "rq_type r = READ"
    | "c' = ct_set_queue ?k (ct_queue ?k c @ [?r]) c" using e by (auto simp: ct_enqueue_def Let_def split: if_splits)
  then show ?thesis
  proof cases
    case 2
    have "act_addrs c' = act_addrs c" by (simp add: 2 act_addrs_def flying_simps)
    moreover have "queues_ok s ch c'" using q r 2 unfolding queues_ok_def by simp
    ultimately show ?thesis by (intro ct_safe_move [OF c]) (use t in \<open>simp_all add: 2\<close>)
  next
    case 3
    have "act_addrs c' = act_addrs c" using act_addrs_set [OF k(1), of "ct_queue ?k c @ [?r]" c] r(2) by (simp add: 3 served_append served_one)
    moreover have "queues_ok s ch c'" using q k(2) unfolding queues_ok_def 3 by simp
    ultimately show ?thesis by (intro ct_safe_move [OF c]) (use t in \<open>simp_all add: 3\<close>)
  qed (use c in simp)
qed

definition me_safe :: "Memory \<Rightarrow> bool" where
  "me_safe m \<longleftrightarrow> (\<forall>i < length (me_ctrls m). ct_safe (me_spec m) (int i) (me_ctrls m ! i)) \<and> 2 \<le> read_latency (me_spec m) \<and>
     (\<forall>a. in_org (me_spec m) (map_address m a) \<and> 0 \<le> map_address m a ! 0 \<and> map_address m a ! 0 < int (length (me_ctrls m)))"

lemma map_address_cong:
  "me_addr_bits m' = me_addr_bits m \<Longrightarrow> me_tx_bits m' = me_tx_bits m \<Longrightarrow> me_type m' = me_type m \<Longrightarrow> map_address m' = map_address m"
  by (simp add: map_address_def fun_eq_iff)

lemma me_safe_ctrls:
  assumes "me_safe m" "me_spec m' = me_spec m" "map_address m' = map_address m" "length (me_ctrls m') = length (me_ctrls m)"
    "\<And>i. i < length (me_ctrls m) \<Longrightarrow> ct_safe (me_spec m) (int i) (me_ctrls m' ! i)"
  shows "me_safe m'"
  using assms by (simp add: me_safe_def)

lemma Memory_send_safe:
  assumes m: "me_safe m" and r: "access_request r" "is_first_command r"
  shows "\<exists>m' ok. Memory_send m r = Inr (m', ok) \<and> me_safe m'"
proof -
  let ?r = "r\<lparr>addr_vec := map_address m (rq_addr r)\<rparr>"
  let ?k = "nat (addr_vec ?r ! 0)"
  have k: "?k < length (me_ctrls m)" "addr_vec ?r ! 0 = int ?k" "in_org (me_spec m) (addr_vec ?r)"
    using m spec [of "\<lambda>a. in_org (me_spec m) (map_address m a) \<and> 0 \<le> map_address m a ! 0 \<and> map_address m a ! 0 < int (length (me_ctrls m))" "rq_addr r"]
    by (simp_all add: me_safe_def nat_less_iff)
  obtain ok c where e: "ct_enqueue ?r (me_ctrls m ! ?k) = (ok, c)" by fastforce
  have "ct_safe (me_spec m) (int ?k) (me_ctrls m ! ?k)" using m k(1) unfolding me_safe_def by blast
  then have c: "ct_safe (me_spec m) (int ?k) c" by (rule enqueue_safe [OF _ _ _ k(3,2) e]) (use r in \<open>simp_all add: access_request_def\<close>)
  have "me_safe (m\<lparr>me_ctrls := (me_ctrls m)[?k := c], me_stats := st\<rparr>)" "me_safe (m\<lparr>me_ctrls := (me_ctrls m)[?k := c]\<rparr>)" for st
    by (rule me_safe_ctrls [OF m]; use m c k(1) in \<open>auto simp: me_safe_def map_address_def nth_list_update fun_eq_iff\<close>)+
  then show ?thesis using k(1) e by (auto simp: Memory_send_def Let_def)
qed

lemma ctrls_tick_safe:
  assumes "2 \<le> read_latency s"
  shows "(\<And>i. i < length cs \<Longrightarrow> ct_safe s (ch + int i) (cs ! i)) \<Longrightarrow>
    safe_r (ctrls_tick s cs) (\<lambda>(_, cs', _). length cs' = length cs \<and> (\<forall>i < length cs. ct_safe s (ch + int i) (cs' ! i)))"
proof (induction cs arbitrary: ch)
  case (Cons c cs)
  have c: "safe_r (ct_tick s c) (\<lambda>(c', _). ct_safe s ch c')" using ct_tick_safe [OF _ assms, of ch c] Cons.prems [of 0] by simp
  have cs: "safe_r (ctrls_tick s cs) (\<lambda>(_, cs', _). length cs' = length cs \<and> (\<forall>i < length cs. ct_safe s (ch + 1 + int i) (cs' ! i)))"
    by (rule Cons.IH) (use Cons.prems [of "Suc _"] in \<open>simp add: add.assoc\<close>)
  show ?case unfolding ctrls_tick.simps
    by (rule safe_bind [OF c], clarsimp, rule safe_bind [OF cs]) (auto simp: nth_Cons add.assoc split: nat.splits)
qed simp

lemma Memory_tick_safe:
  assumes m: "me_safe m"
  shows "safe_r (Memory_tick m) (\<lambda>(m', _). me_safe m')"
proof -
  have "safe_r (ctrls_tick (me_spec m) (me_ctrls m))
      (\<lambda>(_, cs', _). length cs' = length (me_ctrls m) \<and> (\<forall>i < length (me_ctrls m). ct_safe (me_spec m) (0 + int i) (cs' ! i)))"
    by (rule ctrls_tick_safe) (use m in \<open>simp_all add: me_safe_def\<close>)
  moreover have "me_safe (m\<lparr>me_ctrls := cs, me_stats := st\<rparr>)"
    if "length cs = length (me_ctrls m)" "\<forall>i < length (me_ctrls m). ct_safe (me_spec m) (0 + int i) (cs ! i)" for cs st
    by (rule me_safe_ctrls [OF m]) (use that in \<open>simp_all add: map_address_def fun_eq_iff\<close>)
  ultimately show ?thesis unfolding Memory_tick_def Let_def by (elim safe_bind) auto
qed

lemma drive_safe:
  "me_safe m \<Longrightarrow> list_all (pred_option (\<lambda>r. access_request r \<and> is_first_command r)) evs \<Longrightarrow>
     safe_r (mem_drive ramulator_ops evs m) (\<lambda>(m', _). me_safe m')"
proof (induction evs arbitrary: m)
  case (Cons ev evs)
  show ?case
  proof (cases ev)
    case None
    have t: "safe_r (Memory_tick m) (\<lambda>(m', _). me_safe m')" by (rule Memory_tick_safe [OF Cons.prems(1)])
    have rest: "safe_r (bind_r (mem_drive ramulator_ops evs m1) (\<lambda>(m, acc, fin). Inr (m, acc, done @ fin))) (\<lambda>(m', _). me_safe m')"
      if "me_safe m1" for m1 "done"
      by (rule safe_bind [OF Cons.IH [OF that]]) (use Cons.prems(2) in auto)
    have "safe_r (mem_tick ramulator_ops m) (\<lambda>(m', _). me_safe m')" using t by (simp add: ramulator_ops_def)
    then show ?thesis unfolding None mem_drive.simps by (rule safe_bind) (auto intro: rest)
  next
    case (Some r)
    obtain m1 ok where m1: "Memory_send m r = Inr (m1, ok)" "me_safe m1" using Memory_send_safe [OF Cons.prems(1), of r] Cons.prems(2) Some by auto
    have "safe_r (mem_drive ramulator_ops evs m1) (\<lambda>(m', _). me_safe m')" using Cons.IH [OF m1(2)] Cons.prems(2) by simp
    then have "safe_r (bind_r (mem_drive ramulator_ops evs m1) (\<lambda>(m, acc, fin). Inr (m, (if ok then r # acc else acc), fin))) (\<lambda>(m', _). me_safe m')"
      by (rule safe_bind) auto
    then show ?thesis using m1(1) by (simp add: Some ramulator_ops_def)
  qed
qed simp


section \<open>The memory of the simulator\<close>

lemma Controller_new_safe:
  "ct_safe s ch (Controller_new cores (DRAM_new s Channel ch))"
proof -
  have q: "ct_queue k (Controller_new cores d) = []" for k d by (cases k) (simp_all add: Controller_new_def Queue_new_def ct_queue.simps)
  have t: "tree_fits s (\<lambda>_. None) {#} [ch] (DRAM_new s Channel ch)" by (rule DRAM_new_fits) simp_all
  have e: "rows [] = (\<lambda>_. None)" "table_ok []" "served [] = {#}" by (simp_all add: rows_def table_ok_def sm_ok_def sm_find_def served_def fun_eq_iff)
  have p: "ct_pending (Controller_new cores d) = []" for d by (simp add: Controller_new_def)
  have "act_addrs (Controller_new cores (DRAM_new s Channel ch)) = {#}" by (simp add: act_addrs_def q p e(3) flying_simps)
  moreover have "queues_ok s ch (Controller_new cores (DRAM_new s Channel ch))" by (simp add: queues_ok_def q p)
  ultimately show ?thesis using t e unfolding ct_safe_def by (simp add: Controller_new_def)
qed

lemma init_speed_latency: "init_speed d = Inr s \<Longrightarrow> read_latency s = read_latency d"
  unfolding init_speed_def Let_def by (auto split: option.split_asm simp del: if_split)

lemma DDR4_latency: "DDR4_new org speed = Inr s \<Longrightarrow> 2 \<le> read_latency s"
  unfolding DDR4_new_def by (drule init_speed_latency) (cases speed; simp add: speed_row_def)

lemma make_memory_safe:
  assumes "make_memory org speed C R = Inr m" "0 < C" "0 < R"
  shows "me_safe m"
proof -
  obtain c r bg row where sh: "C = 2 ^ c" "R = 2 ^ r" "org_count (org_entry (me_spec m)) = [2 ^ c, 2 ^ r, 2 ^ bg, 4, 2 ^ row, 1024]"
    "me_addr_bits m = [c, r, bg, 2, row, 7]" "me_tx_bits m = 6" "me_type m = RoBaRaCoCh" "length (me_ctrls m) = 2 ^ c"
    using make_memory_shape [OF assms] by metis
  obtain s where s: "DDR4_new org speed = Inr s" "me_spec m = set_rank_number R (set_channel_number C s)"
    "me_ctrls m = map (\<lambda>c. Controller_new 1 (DRAM_new (me_spec m) Channel (int c))) [0 ..< nat C]"
    using assms(1) by (auto simp: make_memory_def Let_def dest!: Memory_new_sel)
  have "ct_safe (me_spec m) (int i) (me_ctrls m ! i)" if "i < length (me_ctrls m)" for i
  proof -
    have "i < nat C" using that s(3) by (metis length_map diff_zero length_upt)
    then have "me_ctrls m ! i = Controller_new 1 (DRAM_new (me_spec m) Channel (int i))" by (subst s(3)) (simp del: DRAM_new.simps)
    then show ?thesis by (simp only: Controller_new_safe)
  qed
  moreover have "2 \<le> read_latency (me_spec m)" using DDR4_latency [OF s(1)] by (simp add: s(2) set_rank_number_def set_channel_number_def)
  moreover have "in_org (me_spec m) (map_address m a) \<and> 0 \<le> map_address m a ! 0 \<and> map_address m a ! 0 < int (length (me_ctrls m))" for a
  proof -
    obtain x y z w u v where "map_address m a = [x mod 2 ^ c, y mod 2 ^ r, z mod 2 ^ bg, w mod 4, u, v]"
      using map_address_eq [OF sh(4-6), of a] unfolding Let_def by metis
    then show ?thesis by (simp add: in_org_def sh(3,7) numeral_2_eq_2 numeral_3_eq_3)
  qed
  ultimately show ?thesis by (simp add: me_safe_def)
qed

text \<open>C3.  The memory does not abort.  Offer a memory that the simulator built, with any number of channels and ranks, any
  new reads and writes with any number of cycles in between: none of the assertions of the DRAM model fails, no null pointer
  is followed, no command is missing for the state of a node, no index is out of range; only the assertion that a
  refresh finds room in its queue can, and it is the one an operation fails with if it does.  In every state it
  reaches, the tree of every channel agrees with the row table and with the requests being served.\<close>

theorem memory_never_aborts:
  assumes "make_memory org speed C R = Inr m" "0 < C" "0 < R"
    and "list_all (pred_option (\<lambda>r. access_request r \<and> is_first_command r)) evs"
  shows "(case mem_drive ramulator_ops evs m of
      Inl e \<Rightarrow> e = RAM_ASSERT ''res''
    | Inr (m', acc, fin) \<Rightarrow> list_all (\<lambda>c. ct_safe (me_spec m') (dn_id (dram_node (ct_channel c))) c) (me_ctrls m'))"
proof -
  have d: "safe_r (mem_drive ramulator_ops evs m) (\<lambda>(m', _). me_safe m')" by (rule drive_safe [OF make_memory_safe [OF assms(1-3)] assms(4)])
  have "list_all (\<lambda>c. ct_safe (me_spec m') (dn_id (dram_node (ct_channel c))) c) (me_ctrls m')" if "me_safe m'" for m'
  proof -
    have "dn_id (dram_node (ct_channel c)) = ch" if "ct_safe s ch c" for s ch c
      using that by (cases "ct_channel c") (simp add: ct_safe_def node_fits_def)
    then show ?thesis using that unfolding list_all_length me_safe_def by metis
  qed
  then show ?thesis using d by (auto simp: safe_r_def split: sum.splits)
qed

text \<open>A write and a read of the same address, and a cycle.\<close>

theorem memory_never_aborts_witness:
  "\<exists>m m' acc fin. make_memory DDR4_8Gb_x16 DDR4_3200 1 1 = Inr m \<and> mem_drive ramulator_ops sample_mem_events m = Inr (m', acc, fin) \<and>
     map req_id fin = [8] \<and> list_all (\<lambda>c. ct_safe (me_spec m') (dn_id (dram_node (ct_channel c))) c) (me_ctrls m')"
proof -
  obtain m m' acc fin where m: "make_memory DDR4_8Gb_x16 DDR4_3200 1 1 = Inr m"
    "mem_drive ramulator_ops sample_mem_events m = Inr (m', acc, fin)" "map req_id fin = [8]"
    using sample_mem_run by (cases "make_memory DDR4_8Gb_x16 DDR4_3200 1 1") (auto split: sum.splits)
  have "list_all (pred_option (\<lambda>r. access_request r \<and> is_first_command r)) sample_mem_events"
    by (simp add: sample_mem_events_def access_request_def Request_new_def)
  from memory_never_aborts [OF m(1) _ _ this] m show ?thesis by auto
qed

end
