(* ===== verification/Ram_Live.thy ===== *)
theory Ram_Live
  imports Ram_Timing Ram_Flow
begin

text \<open>
  Reads return.  \<^verbatim>\<open>pending\<close> is a queue of the reads whose data is under way; its head leaves in the first
  cycle that is not before its \<^verbatim>\<open>depart\<close> time, one read per cycle.
\<close>

fun ctrl_ticks :: "DDR4 \<Rightarrow> nat \<Rightarrow> Controller \<Rightarrow> (Controller \<times> Request list) result" where
  "ctrl_ticks s 0 c = Inr (c, [])"
| "ctrl_ticks s (Suc n) c =
     bind_r (ct_tick s c) (\<lambda>(c, d1). bind_r (ctrl_ticks s n c) (\<lambda>(c, d2). Inr (c, d1 @ d2)))"

lemma schedule_pending: "ct_schedule s c = Inr (c', d) \<Longrightarrow> \<exists>new. ct_pending c' = ct_pending c @ new"
proof -
  have f: "ct_pending c' = ct_pending c" if "ct_first_command s k i c = Inr c'" for k i c c'
    using that by (auto simp: ct_first_command_def Let_def split: if_splits)
  have a: "\<exists>new. ct_pending c' = ct_pending c @ new" if "ct_after_command s k i cmd c = Inr (c', d)" for k i cmd c c' d
    using that by (auto simp: ct_after_command_def Let_def split: if_splits)
  assume "ct_schedule s c = Inr (c', d)"
  then show ?thesis
    by (auto simp: ct_schedule_def split: option.splits dest!: a f issue_cmd_frame(2))
qed

lemma tick_ref_frame: "tick_ref s c = Inr c' \<Longrightarrow> ct_pending c' = ct_pending c \<and> ct_clk c' = ct_clk c"
proof -
  have t: "ct_pending c' = ct_pending c \<and> ct_clk c' = ct_clk c" if "refresh_target r c = Inr c'" for r c c'
    using that by (auto simp: refresh_target_def ct_enqueue_def Let_def refresh_request_def split: prod.splits if_splits)
  have "ct_pending c1 = ct_pending c0 \<and> ct_clk c1 = ct_clk c0" if "fold_r refresh_target rs c0 = Inr c1" for rs c0 c1
    by (rule fold_r_inv [OF that, where P = "\<lambda>c. ct_pending c = ct_pending c0 \<and> ct_clk c = ct_clk c0"]) (use t in auto)
  then show "tick_ref s c = Inr c' \<Longrightarrow> ct_pending c' = ct_pending c \<and> ct_clk c' = ct_clk c"
    by (fastforce simp: tick_ref_def inject_refresh_def Let_def split: if_splits)
qed

lemma schedule_clk: "ct_schedule s c = Inr (c', d) \<Longrightarrow> ct_clk c' = ct_clk c"
proof -
  have f: "ct_clk c' = ct_clk c" if "ct_first_command s k i c = Inr c'" for k i c c'
    using that by (auto simp: ct_first_command_def Let_def split: if_splits)
  have i: "ct_clk c' = ct_clk c" if "issue_cmd s cmd av c = Inr c'" for cmd av c c'
    using that by (auto simp: issue_cmd_def Let_def split: if_splits)
  have a: "ct_clk c' = ct_clk c" if "ct_after_command s k i cmd c = Inr (c', d)" for k i cmd c c' d
    using that by (auto simp: ct_after_command_def Let_def split: if_splits)
  assume "ct_schedule s c = Inr (c', d)"
  then show ?thesis by (auto simp: ct_schedule_def split: option.splits dest!: f i a)
qed

lemma tick_pending:
  assumes "ct_tick s c = Inr (c', d)" "ct_pending c = r # rs"
  shows "\<exists>new. ct_clk c' = ct_clk c + 1 \<and>
    (if depart r \<le> ct_clk c + 1 then r \<in> set d \<and> ct_pending c' = rs @ new else ct_pending c' = (r # rs) @ new)"
proof -
  define c0 where "c0 = ct_begin_tick c"
  have c0: "ct_pending c0 = r # rs" "ct_clk c0 = ct_clk c + 1" using assms(2) by (simp_all add: c0_def ct_begin_tick_def Let_def)
  obtain d1 c1 c2 d2 where c1: "ct_serve_reads c0 = Inr (c1, d1)" and c2: "tick_ref s c1 = Inr c2"
    and c': "ct_schedule s (ct_switch_mode c2) = Inr (c', d2)" and d: "d = d1 @ d2"
    using assms(1) by (auto simp: ct_tick_def c0_def)
  have p1: "ct_clk c1 = ct_clk c0" "if depart r \<le> ct_clk c0 then d1 = [r] \<and> ct_pending c1 = rs else ct_pending c1 = r # rs"
    using c1 c0(1) by (auto simp: ct_serve_reads_def split: if_splits)
  have m: "ct_pending (ct_switch_mode c2) = ct_pending c2" "ct_clk (ct_switch_mode c2) = ct_clk c2"
    by (simp_all add: ct_switch_mode_def Let_def)
  obtain new where "ct_pending c' = ct_pending c1 @ new" "ct_clk c' = ct_clk c0"
    using schedule_pending [OF c'] schedule_clk [OF c'] tick_ref_frame [OF c2] m p1(1) by auto
  then show ?thesis using p1(2) c0(2) d by (auto split: if_splits)
qed

section \<open>Properties\<close>


text \<open>Two reads served from the write queue in the same cycle return in the next two.\<close>

definition sample_pending :: Controller where
  "sample_pending =
     (let w = (Request_new 64 WRITE 1)\<lparr>addr_vec := [0, 0, 0, 1, 5, 3]\<rparr>; r = (\<lambda>i. (Request_new 64 READ i)\<lparr>addr_vec := [0, 0, 0, 1, 5, 3]\<rparr>)
      in fold (\<lambda>r c. snd (ct_enqueue r c)) [w, r 2, r 3] (Controller_new 1 (DRAM_new sample_ddr4 Channel 0)))"

lemma sample_pending_run:
  "returns (ctrl_ticks sample_ddr4 2 sample_pending)" "map depart (ct_pending sample_pending) = [1, 1]"
  "map req_id (ct_pending sample_pending) = [2, 3]" "ct_clk sample_pending = 0"
  by code_simp+


end
