(* ===== verification/Ram_Progress.thy ===== *)
theory Ram_Progress
  imports Ram_Safe Ram_Issue Ram_Live
begin

text \<open>
  The controller is never stuck.  No constraint reaches further into the future than the largest of the timing
  table, so that after as many quiet cycles every command is ready; and the scheduler always has a queue to take one from
  as long as a request waits.
\<close>

declare ct_queue.simps [simp del] ct_set_queue.simps [simp del] ct_max.simps [simp del]

section \<open>How far a constraint reaches\<close>

definition max_wait :: "DDR4 \<Rightarrow> int" where
  "max_wait s = fold max (map (te_val \<circ> snd) (concat (map (init_timing (speed_entry s)) [Channel, Rank, BankGroup, Bank]))) 0"

lemma fold_max_int: "x \<in> set xs \<or> x \<le> y \<Longrightarrow> (x :: int) \<le> fold max xs y"
proof (induction xs arbitrary: y)
  case (Cons a xs)
  from Cons.prems have "x \<in> set xs \<or> x \<le> max a y" by auto
  then show ?case using Cons.IH by simp
qed simp

lemma max_wait_nonneg: "0 \<le> max_wait s"
  unfolding max_wait_def by (rule fold_max_int) simp

lemma wait_le: "t \<in> set (timing s l cmd) \<Longrightarrow> te_val t \<le> max_wait s"
proof -
  assume t: "t \<in> set (timing s l cmd)"
  then have l: "l \<in> {Channel, Rank, BankGroup, Bank}" by (cases l) (auto simp: timing_def)
  have "(cmd, t) \<in> set (init_timing (speed_entry s) l)" using t by (auto simp: timing_def)
  then have "te_val t \<in> set (map (te_val \<circ> snd) (concat (map (init_timing (speed_entry s)) [Channel, Rank, BankGroup, Bank])))"
    using l by (auto simp del: init_timing.simps intro!: image_eqI [of _ _ "(cmd, t)"])
  then show ?thesis unfolding max_wait_def using fold_max_int by blast
qed

text \<open>The times of past commands are at most \<open>t\<close>, those of the next ones at most \<open>B\<close>.\<close>

definition node_le :: "DDR4 \<Rightarrow> int \<Rightarrow> int \<Rightarrow> dram_node \<Rightarrow> bool" where
  "node_le s t B n \<longleftrightarrow> node_lists_ok s n \<and> list_all (\<lambda>x. x \<le> B) (dn_next n) \<and> list_all (list_all (\<lambda>x. x \<le> t)) (dn_prev n)"

fun waits_le :: "DDR4 \<Rightarrow> int \<Rightarrow> int \<Rightarrow> DRAM \<Rightarrow> bool" where
  "waits_le s t B (DRAM_Node n cs) \<longleftrightarrow> node_le s t B n \<and> (\<forall>c \<in> set cs. waits_le s t B c)"

lemma waits_skel: "waits_le s t B (skel d) = waits_le s t B d"
  by (induction s t B d rule: waits_le.induct) (auto simp: node_le_def node_lists_ok_def)

lemma waits_skel_eq: "skel d' = skel d \<Longrightarrow> waits_le s t B d' = waits_le s t B d"
  by (metis waits_skel)

lemma node_le_mono: "node_le s t B n \<Longrightarrow> t \<le> t' \<Longrightarrow> B \<le> B' \<Longrightarrow> node_le s t' B' n"
  by (fastforce simp: node_le_def list_all_iff)

lemma waits_le_mono: "waits_le s t B d \<Longrightarrow> t \<le> t' \<Longrightarrow> B \<le> B' \<Longrightarrow> waits_le s t' B' d"
  by (induction s t B d rule: waits_le.induct) (auto intro: node_le_mono)

lemma raise_le: "node_le s t B n \<Longrightarrow> f \<le> B \<Longrightarrow> node_le s t B (raise_next e f n)"
proof -
  assume n: "node_le s t B n" and f: "f \<le> B"
  have "dn_next n ! cmd_ix (te_cmd e) \<le> B" using n cmd_ix_less [of "te_cmd e"] by (auto simp: node_le_def node_lists_ok_def list_all_length)
  then show "node_le s t B (raise_next e f n)" using n f set_update_subset_insert [of "dn_next n"]
    by (fastforce simp: node_le_def raise_next_def node_lists_ok_def list_all_iff)
qed

lemma push_le:
  assumes "node_le s t B n" "t \<le> clk"
  shows "node_le s clk B (push_history cmd clk n)"
proof -
  have l: "node_lists_ok s (push_history cmd clk n)"
    using push_face [of s n cmd clk] assms(1) by (simp add: same_face_def node_le_def node_lists_ok_def)
  have n: "node_le s clk B n" by (rule node_le_mono [OF assms(1)]) (use assms(2) in simp_all)
  have "cmd_ix cmd < length (dn_prev n)" using assms(1) node_lists_prev [of s n cmd] cmd_ix_less by (simp add: node_le_def)
  then have "dn_prev n ! cmd_ix cmd \<in> set (dn_prev n)" by simp
  then have "list_all (\<lambda>x. x \<le> clk) (butlast (dn_prev n ! cmd_ix cmd))"
    using n by (auto simp: node_le_def list_all_iff dest: in_set_butlastD)
  then show ?thesis using n l set_update_subset_insert [of "dn_prev n"]
    by (fastforce simp: node_le_def push_history_def Let_def list_all_iff)
qed

lemma sibling_le:
  "timing_sibling ts clk n = Inr n' \<Longrightarrow> \<forall>e \<in> set ts. te_val e \<le> M \<Longrightarrow> node_le s clk (clk + M) n \<Longrightarrow> node_le s clk (clk + M) n'"
  by (induction ts clk n rule: timing_sibling.induct) (auto simp: raise_le split: if_splits)

lemma refresh_le: "node_le s t B (begin_refresh e clk n) = node_le s t B n"
  using refresh_face [of n e clk] by (simp add: node_le_def begin_refresh_def Let_def node_lists_ok_def)

lemma target_le:
  "timing_target cmd ts clk n = Inr n' \<Longrightarrow> \<forall>e \<in> set ts. te_val e \<le> M \<and> te_dist e \<le> length (dn_prev n ! cmd_ix cmd) \<and> 0 < te_dist e \<Longrightarrow>
     node_le s clk (clk + M) n \<Longrightarrow> node_le s clk (clk + M) n'"
proof (induction ts arbitrary: n)
  case (Cons e ts)
  let ?h = "dn_prev n ! cmd_ix cmd"
  let ?n1 = "raise_next e (?h ! (te_dist e - 1) + te_val e) n"
  have "?h \<in> set (dn_prev n)" using Cons.prems(3) node_lists_prev [of s n cmd] cmd_ix_less by (simp add: node_le_def)
  moreover have "?h ! (te_dist e - 1) \<in> set ?h" using Cons.prems(2) by (intro nth_mem) auto
  ultimately have "?h ! (te_dist e - 1) \<le> clk" using Cons.prems(3) by (auto simp: node_le_def list_all_iff)
  then have n1: "node_le s clk (clk + M) ?n1" by (intro raise_le [OF Cons.prems(3)]) (use Cons.prems(2) in \<open>auto intro: add_mono\<close>)
  have p: "dn_prev ?n1 = dn_prev n" "dn_prev (begin_refresh e clk ?n1) = dn_prev n" using refresh_face by (simp_all add: raise_next_def)
  consider "timing_target cmd ts clk n = Inr n'" | "timing_target cmd ts clk ?n1 = Inr n'" | "timing_target cmd ts clk (begin_refresh e clk ?n1) = Inr n'"
    using Cons.prems(1) by (auto simp: Let_def split: if_splits)
  then show ?case
  proof cases
    case 1
    then show ?thesis using Cons.IH Cons.prems by simp
  next
    case 2
    then show ?thesis using Cons.IH [OF 2] Cons.prems n1 p by simp
  next
    case 3
    then show ?thesis using Cons.IH [OF 3] Cons.prems n1 p refresh_le by simp
  qed
qed simp

lemma timing_le:
  "update_timing s cmd a clk d = Inr d' \<Longrightarrow> waits_le s t B d \<Longrightarrow> t \<le> clk \<Longrightarrow> B \<le> clk + max_wait s \<Longrightarrow> waits_le s clk (clk + max_wait s) d'"
  "update_timings s cmd a clk cs = Inr cs' \<Longrightarrow> \<forall>c \<in> set cs. waits_le s t B c \<Longrightarrow> t \<le> clk \<Longrightarrow> B \<le> clk + max_wait s \<Longrightarrow>
     \<forall>c \<in> set cs'. waits_le s clk (clk + max_wait s) c"
proof (induction s cmd a clk d and s cmd a clk cs arbitrary: d' and cs' rule: update_timing_update_timings.induct)
  case (1 s cmd a clk n cs)
  let ?ts = "timing s (dn_level n) cmd"
  have n: "node_le s t B n" and cs: "\<forall>c \<in> set cs. waits_le s t B c" using "1.prems"(2) by simp_all
  have M: "\<forall>e \<in> set ?ts. te_val e \<le> max_wait s" using wait_le by blast
  show ?case
  proof (cases "dn_id n = a ! level_ix (dn_level n)")
    case False
    then obtain n' where n': "timing_sibling ?ts clk n = Inr n'" "d' = DRAM_Node n' cs" using "1.prems"(1) by auto
    have "node_le s clk (clk + max_wait s) n'" using sibling_le [OF n'(1) M] node_le_mono [OF n] "1.prems"(3,4) by blast
    moreover have "\<forall>c \<in> set cs. waits_le s clk (clk + max_wait s) c" using cs waits_le_mono "1.prems"(3,4) by blast
    ultimately show ?thesis using n'(2) by simp
  next
    case True
    then obtain n' cs' where n': "timing_target cmd ?ts clk (push_history cmd clk n) = Inr n'" "update_timings s cmd a clk cs = Inr cs'"
      "d' = DRAM_Node n' cs'" using "1.prems"(1) by auto
    let ?n = "push_history cmd clk n"
    have p: "node_le s clk (clk + max_wait s) ?n" using push_le [OF n "1.prems"(3)] node_le_mono [of s clk B ?n] "1.prems"(4) by simp
    have "dn_level ?n = dn_level n" by (simp add: push_history_def Let_def)
    then have "length (dn_prev ?n ! cmd_ix cmd) = history_length s (dn_level n) cmd" using p node_lists_prev [of s ?n cmd] by (simp add: node_le_def)
    then have "\<forall>e \<in> set ?ts. te_val e \<le> max_wait s \<and> te_dist e \<le> length (dn_prev ?n ! cmd_ix cmd) \<and> 0 < te_dist e"
      using M te_dist_history te_dist_pos by auto
    from target_le [OF n'(1) this p] have "node_le s clk (clk + max_wait s) n'" .
    then show ?thesis using "1.IH" [OF refl _ n'(1) n'(2)] True cs "1.prems"(3,4) n'(3) by simp
  qed
next
  case (3 s cmd a clk c cs)
  then show ?case by auto
qed simp

lemma update_le:
  assumes "DRAM_update s cmd a clk d = Inr d'" "waits_le s t B d" "t \<le> clk" "B \<le> clk + max_wait s"
  shows "waits_le s clk (clk + max_wait s) d'"
proof -
  obtain d1 where d1: "update_state cmd a (set_cur_clk clk d) = Inr d1" "update_timing s cmd a clk d1 = Inr d'"
    using assms(1) by (auto simp: DRAM_update_def)
  have "skel (set_cur_clk clk d) = skel d" by (cases d) (simp add: set_cur_clk_def strip_def)
  then have "waits_le s t B d1" using skel_update_state [OF d1(1)] waits_skel_eq assms(2) by metis
  then show ?thesis using timing_le(1) [OF d1(2)] assms(3,4) by blast
qed

lemma DRAM_new_le: "waits_le s 0 0 (DRAM_new s l i)"
proof (induction s l i rule: DRAM_new.induct)
  case (1 s l i)
  have n: "node_le s 0 0 (dram_node_new s l i)"
    by (auto simp: node_le_def dram_node_new_def node_lists_ok_def comp_def list_all_iff)
  show ?case using n "1.IH" by (subst DRAM_new.simps) (auto split: option.splits)
qed

lemma check_ready: "check_cmd cmd a clk d = Inr b \<Longrightarrow> waits_le s t B d \<Longrightarrow> B \<le> clk \<Longrightarrow> b"
proof (induction cmd a clk d rule: check_cmd.induct)
  case (1 cmd a clk n cs)
  have "dn_next n ! cmd_ix cmd \<in> set (dn_next n)" using "1.prems"(2) by (simp add: node_le_def node_lists_ok_def)
  then have "dn_next n ! cmd_ix cmd \<le> clk" using "1.prems"(2,3) by (auto simp: node_le_def list_all_iff)
  then show ?case using 1 by (auto split: if_splits)
qed

section \<open>A queue to take a command from\<close>

definition marks :: "Controller \<Rightarrow> frac \<times> frac \<times> nat" where
  "marks c = (ct_wr_low_watermark c, ct_wr_high_watermark c, ct_max Writeq c)"

definition marks_ok :: "Controller \<Rightarrow> bool" where
  "marks_ok c \<longleftrightarrow> 0 < watermark (ct_wr_low_watermark c) (ct_max Writeq c) \<and> 0 \<le> watermark (ct_wr_high_watermark c) (ct_max Writeq c)"

lemma marks_cong: "marks c' = marks c \<Longrightarrow> marks_ok c' = marks_ok c"
  by (simp add: marks_def marks_ok_def)

definition busy :: "Controller \<Rightarrow> bool" where
  "busy c \<longleftrightarrow> ct_queue Actq c \<noteq> [] \<or> ct_queue Otherq c \<noteq> [] \<or> ct_queue Readq c \<noteq> [] \<or> ct_queue Writeq c \<noteq> []"

lemma switch_queue:
  assumes "marks_ok c" "ct_queue Readq c \<noteq> [] \<or> ct_queue Writeq c \<noteq> []"
  shows "ct_queue (if ct_write_mode (ct_switch_mode c) then Writeq else Readq) c \<noteq> []"
  using assms unfolding ct_switch_mode_def Let_def marks_ok_def by (cases "ct_queue Writeq c"; cases "ct_queue Readq c") auto

lemma try_some:
  assumes c: "ct_safe s ch c" and "waits_le s t B (ct_channel c)" "B \<le> ct_clk c" "ct_queue k c \<noteq> []"
  shows "\<exists>x. ct_try c k = Inr (Some x)"
proof -
  have ty: "ct_sched_type c = FRFCFS_Cap" using c by (simp add: ct_safe_def)
  obtain h where h: "sched_get_head c (ct_queue k c) = Inr h" using get_head_total [OF c] safe_queued [OF c] by blast
  then obtain i where i: "h = Some i" using assms(4) ty by (auto simp: sched_get_head_def)
  then have q: "queued s ch (ct_queue k c ! i)" using sched_get_head_less [of c "ct_queue k c" i] h safe_queued_nth [OF c] by simp
  obtain cmd where cmd: "get_first_cmd c (ct_queue k c ! i) = Inr cmd" using first_cmd_due [OF c q] by blast
  obtain b where b: "is_ready_cmd c cmd (addr_vec (ct_queue k c ! i)) = Inr b" using ready_total [OF c q] cmd by (auto simp: is_ready_def)
  then have "b" using check_ready [of cmd _ "ct_clk c" "ct_channel c" b] assms(2,3) by (auto simp: is_ready_cmd_def)
  then show ?thesis using h i cmd b by (simp add: ct_try_def)
qed

lemma choose_some:
  assumes c: "ct_safe s ch c" and w: "waits_le s t B (ct_channel c)" "B \<le> ct_clk c" and "marks_ok c" "busy c"
  shows "\<exists>x. ct_choose (ct_switch_mode c) = Inr (Some x)"
proof -
  let ?c = "ct_switch_mode c"
  have f: "ct_queue k ?c = ct_queue k c" "ct_clk ?c = ct_clk c" "ct_channel ?c = ct_channel c" for k by (simp_all add: ct_switch_mode_def Let_def)
  have sc: "ct_safe s ch ?c" by (rule ct_safe_frame [OF _ _ _ _ _ _ c]) (simp_all add: ct_switch_mode_def Let_def)
  have some: "\<exists>x. ct_try ?c k = Inr (Some x)" if "ct_queue k c \<noteq> []" for k
    by (rule try_some [OF sc, of t B]) (use that w f in simp_all)
  obtain x where x: "ct_try ?c Actq = Inr x" using try_total [OF sc] by blast
  show ?thesis
  proof (cases x)
    case None
    then have "ct_queue Actq c = []" using some [of Actq] x by auto
    then have "ct_queue (if ct_queue Otherq c \<noteq> [] then Otherq else if ct_write_mode ?c then Writeq else Readq) c \<noteq> []"
      using assms(5) switch_queue [OF assms(4)] by (auto simp: busy_def)
    then show ?thesis using some x None f by (auto simp: ct_choose_def)
  next
    case (Some y)
    then show ?thesis using x by (cases y) (simp add: ct_choose_def)
  qed
qed

section \<open>A cycle\<close>

text \<open>What happens before the scheduler runs: reads return and refreshes are queued.\<close>

definition same_work :: "Controller \<Rightarrow> Controller \<Rightarrow> bool" where
  "same_work c c' \<longleftrightarrow> skel (ct_channel c') = skel (ct_channel c) \<and> (\<forall>k. k \<noteq> Otherq \<longrightarrow> ct_queue k c' = ct_queue k c) \<and>
     (ct_queue Otherq c \<noteq> [] \<longrightarrow> ct_queue Otherq c' \<noteq> []) \<and> marks c' = marks c"

lemma same_work_refl: "same_work c c"
  by (simp add: same_work_def)

lemma same_work_trans: "same_work a b \<Longrightarrow> same_work b c \<Longrightarrow> same_work a c"
  by (simp add: same_work_def)

lemma same_work_busy: "same_work c c' \<Longrightarrow> busy c \<Longrightarrow> busy c'"
  by (auto simp: same_work_def busy_def)

lemma max_sel [simp]:
  "ct_max k (c\<lparr>ct_channel := x1\<rparr>) = ct_max k c" "ct_max k (c\<lparr>ct_stats := x2\<rparr>) = ct_max k c" "ct_max k (c\<lparr>ct_pending := x3\<rparr>) = ct_max k c"
  "ct_max k (c\<lparr>ct_clk := x4\<rparr>) = ct_max k c" "ct_max k (c\<lparr>ct_ref_clk := x5\<rparr>) = ct_max k c" "ct_max k (c\<lparr>ct_refreshed := x6\<rparr>) = ct_max k c"
  "ct_max k (c\<lparr>ct_write_mode := x7\<rparr>) = ct_max k c" "ct_max k (c\<lparr>ct_table := x8\<rparr>) = ct_max k c"
  by (cases k; simp add: ct_max.simps)+

lemma mark_sel [simp]:
  "ct_wr_low_watermark (ct_set_queue k q c) = ct_wr_low_watermark c" "ct_wr_high_watermark (ct_set_queue k q c) = ct_wr_high_watermark c"
  by (cases k; simp add: ct_set_queue.simps)+

lemma begin_same: "same_work c (ct_begin_tick c)"
  by (simp add: same_work_def marks_def ct_begin_tick_def Let_def)

lemma serve_same: "ct_serve_reads c = Inr (c', d) \<Longrightarrow> same_work c c'"
  by (auto simp: same_work_def marks_def ct_serve_reads_def split: list.splits if_splits dest: skel_serving)

lemma target_same: "refresh_target r c = Inr c' \<Longrightarrow> same_work c c'"
  by (auto simp: same_work_def marks_def refresh_target_def ct_enqueue_def Let_def refresh_request_def split: prod.splits if_splits)

lemma ref_same: "tick_ref s c = Inr c' \<Longrightarrow> same_work c c'"
proof -
  have f: "same_work c0 c1" if "fold_r refresh_target rs c0 = Inr c1" for rs c0 c1
    by (rule fold_r_inv [OF that, where P = "same_work c0"]) (use same_work_refl same_work_trans target_same in blast)+
  have a: "same_work c (c\<lparr>ct_ref_clk := x\<rparr>)" "same_work c (c\<lparr>ct_refreshed := y\<rparr>)" for c x y by (simp_all add: same_work_def marks_def)
  assume "tick_ref s c = Inr c'"
  then consider "c' = c\<lparr>ct_ref_clk := ct_ref_clk c + 1\<rparr>"
    | rs c1 where "fold_r refresh_target rs (c\<lparr>ct_ref_clk := ct_ref_clk c + 1\<rparr>) = Inr c1" "c' = c1\<lparr>ct_refreshed := ct_ref_clk c1\<rparr>"
    by (auto simp: tick_ref_def inject_refresh_def Let_def split: if_splits)
  then show ?thesis by cases (use a f same_work_trans in metis)+
qed

lemma tick_parts:
  assumes c: "ct_safe s ch c" and lat: "2 \<le> read_latency s"
  shows "ct_issued s c = Inl (RAM_ASSERT ''res'') \<and> ct_tick s c = Inl (RAM_ASSERT ''res'') \<or>
    (\<exists>c2 x c' d e. same_work c c2 \<and> ct_clk c2 = ct_clk c + 1 \<and> ct_safe s ch c2 \<and> ct_choose (ct_switch_mode c2) = Inr x \<and>
       ct_issued s c = Inr e \<and> (e = None \<longleftrightarrow> x = None) \<and> ct_schedule s (ct_switch_mode c2) = Inr (c', d) \<and>
       (\<exists>d'. ct_tick s c = Inr (c', d')) \<and> ct_safe s ch c')"
proof -
  let ?c0 = "ct_begin_tick c"
  have c0: "ct_safe s ch ?c0" by (rule ct_safe_frame [OF _ _ _ _ _ _ c]) (simp_all add: ct_begin_tick_def Let_def)
  have k0: "ct_clk ?c0 = ct_clk c + 1" by (simp add: ct_begin_tick_def Let_def)
  show ?thesis
  proof (cases "ct_serve_reads ?c0")
    case (Inl e)
    then have "e = RAM_ASSERT ''res''" using serve_reads_safe [OF c0] by simp
    then show ?thesis using Inl by (simp add: ct_issued_def ct_tick_def)
  next
    case (Inr p)
    then obtain c1 d1 where c1: "ct_serve_reads ?c0 = Inr (c1, d1)" by (cases p) auto
    have s1: "ct_safe s ch c1" using serve_reads_safe [OF c0] c1 by simp
    have k1: "ct_clk c1 = ct_clk ?c0" using c1 by (auto simp: ct_serve_reads_def split: list.splits if_splits)
    show ?thesis
    proof (cases "tick_ref s c1")
      case (Inl e)
      then have "e = RAM_ASSERT ''res''" using tick_ref_safe [OF s1] by (metis safe_simps(2))
      then show ?thesis using Inl c1 by (simp add: ct_issued_def ct_tick_def)
    next
      case (Inr c2)
      have s2: "ct_safe s ch c2" using tick_ref_safe [OF s1] Inr by (metis safe_simps(1))
      let ?c = "ct_switch_mode c2"
      have sc: "ct_safe s ch ?c" by (rule ct_safe_frame [OF _ _ _ _ _ _ s2]) (simp_all add: ct_switch_mode_def Let_def)
      obtain x where x: "ct_choose ?c = Inr x" using choose_total [OF sc] by blast
      obtain c' d where d: "ct_schedule s ?c = Inr (c', d)" "ct_safe s ch c'" using schedule_safe [OF sc lat] by blast
      have w: "same_work c c2" using begin_same serve_same [OF c1] ref_same [OF Inr] same_work_trans by blast
      have "ct_clk c2 = ct_clk c + 1" using tick_ref_frame [OF Inr] k0 k1 by simp
      moreover have "\<exists>e. ct_issued s c = Inr e \<and> (e = None \<longleftrightarrow> x = None)" using c1 Inr x by (auto simp: ct_issued_def split: option.splits)
      moreover have "\<exists>d'. ct_tick s c = Inr (c', d')" using c1 Inr d by (simp add: ct_tick_def)
      ultimately show ?thesis using w s2 x d by blast
    qed
  qed
qed

lemma schedule_waits:
  assumes "ct_schedule s c = Inr (c', d)" "waits_le s t B (ct_channel c)" "t \<le> ct_clk c" "B \<le> ct_clk c + max_wait s"
  shows "waits_le s (ct_clk c) (ct_clk c + max_wait s) (ct_channel c')"
proof (cases "ct_choose c = Inr None")
  case True
  then show ?thesis using assms waits_le_mono by (auto simp: ct_schedule_def)
next
  case False
  then obtain k i cmd c1 c2 where c1: "ct_first_command s k i c = Inr c1" and c2: "issue_cmd s cmd (addr_vec (ct_queue k c1 ! i)) c1 = Inr c2"
    and c': "ct_after_command s k i cmd c2 = Inr (c', d)"
    using assms(1) by (auto simp: ct_schedule_def split: option.splits)
  have sk: "skel (ct_channel c1) = skel (ct_channel c)" "ct_clk c1 = ct_clk c" using c1 by (auto simp: ct_first_command_def Let_def split: if_splits dest: skel_serving)
  have u: "DRAM_update s cmd (addr_vec (ct_queue k c1 ! i)) (ct_clk c1) (ct_channel c1) = Inr (ct_channel c2)"
    using c2 by (auto simp: issue_cmd_def Let_def split: if_splits)
  have "skel (ct_channel c') = skel (ct_channel c2)" using c' by (auto simp: ct_after_command_def Let_def split: if_splits dest: skel_serving)
  moreover have "waits_le s (ct_clk c) (ct_clk c + max_wait s) (ct_channel c2)"
    using update_le [OF u] assms(2-4) sk waits_skel_eq [OF sk(1)] by simp
  ultimately show ?thesis using waits_skel_eq by blast
qed

lemma schedule_marks: "ct_schedule s c = Inr (c', d) \<Longrightarrow> marks c' = marks c"
proof -
  have f: "marks c' = marks c" if "ct_first_command s k i c = Inr c'" for k i c c'
    using that by (auto simp: marks_def ct_first_command_def Let_def split: if_splits)
  have i: "marks c' = marks c" if "issue_cmd s cmd av c = Inr c'" for cmd av c c'
    using that by (auto simp: marks_def issue_cmd_def Let_def split: if_splits)
  have a: "marks c' = marks c" if "ct_after_command s k i cmd c = Inr (c', d)" for k i cmd c c' d
    using that by (auto simp: marks_def ct_after_command_def Let_def split: if_splits)
  assume "ct_schedule s c = Inr (c', d)"
  then show ?thesis by (auto simp: ct_schedule_def split: option.splits dest!: f i a)
qed

section \<open>Any run\<close>

definition ct_live :: "DDR4 \<Rightarrow> int \<Rightarrow> Controller \<Rightarrow> bool" where
  "ct_live s ch c \<longleftrightarrow> ct_safe s ch c \<and> waits_le s (ct_clk c) (ct_clk c + max_wait s) (ct_channel c) \<and> marks_ok c"

lemma tick_live:
  assumes "ct_live s ch c" "2 \<le> read_latency s" "ct_tick s c = Inr (c', d)"
  shows "ct_live s ch c'"
proof -
  have c: "ct_safe s ch c" "waits_le s (ct_clk c) (ct_clk c + max_wait s) (ct_channel c)" "marks_ok c" using assms(1) by (simp_all add: ct_live_def)
  obtain c2 d2 where w: "same_work c c2" and k: "ct_clk c2 = ct_clk c + 1" and sch: "ct_schedule s (ct_switch_mode c2) = Inr (c', d2)"
    and "ct_safe s ch c'" using tick_parts [OF c(1) assms(2)] assms(3) by auto
  have f: "ct_clk (ct_switch_mode c2) = ct_clk c2" "ct_channel (ct_switch_mode c2) = ct_channel c2" "marks (ct_switch_mode c2) = marks c2"
    by (simp_all add: ct_switch_mode_def Let_def marks_def)
  have "waits_le s (ct_clk c) (ct_clk c + max_wait s) (ct_channel c2)" using c(2) w waits_skel_eq by (metis same_work_def)
  then have "waits_le s (ct_clk c2) (ct_clk c2 + max_wait s) (ct_channel c')" using schedule_waits [OF sch] f k by simp
  moreover have "ct_clk c' = ct_clk c2" using schedule_clk [OF sch] f by simp
  moreover have "marks c' = marks c" using schedule_marks [OF sch] f w by (simp add: same_work_def)
  ultimately show ?thesis using \<open>ct_safe s ch c'\<close> c(3) marks_cong [of c' c] by (simp add: ct_live_def)
qed

definition new_request :: "DDR4 \<Rightarrow> int \<Rightarrow> Request \<Rightarrow> bool" where
  "new_request s ch r \<longleftrightarrow> access_request r \<and> is_first_command r \<and> in_org s (addr_vec r) \<and> addr_vec r ! 0 = ch"

lemma enqueue_live:
  assumes "ct_live s ch c" "new_request s ch r"
  shows "ct_live s ch (snd (ct_enqueue r c))"
proof -
  have "ct_safe s ch (snd (ct_enqueue r c))"
    by (rule enqueue_safe [of s ch c r "fst (ct_enqueue r c)"]) (use assms in \<open>simp_all add: ct_live_def new_request_def\<close>)
  moreover have "ct_channel (snd (ct_enqueue r c)) = ct_channel c" "ct_clk (snd (ct_enqueue r c)) = ct_clk c" "marks (snd (ct_enqueue r c)) = marks c"
    by (simp_all add: ct_enqueue_def Let_def marks_def)
  ultimately show ?thesis using assms(1) marks_cong [of "snd (ct_enqueue r c)" c] by (simp add: ct_live_def)
qed

lemma drive_live:
  "ctrl_drive s evs c = Inr (c', log) \<Longrightarrow> ct_live s ch c \<Longrightarrow> 2 \<le> read_latency s \<Longrightarrow> list_all (pred_option (new_request s ch)) evs \<Longrightarrow> ct_live s ch c'"
proof (induction evs arbitrary: c log)
  case (Cons ev evs)
  show ?case
  proof (cases ev)
    case None
    with Cons.prems(1) obtain c1 d1 log1 where "ct_tick s c = Inr (c1, d1)" "ctrl_drive s evs c1 = Inr (c', log1)" by auto
    then show ?thesis using Cons.IH [OF _ tick_live [OF Cons.prems(2,3)] Cons.prems(3)] Cons.prems(4) by simp
  next
    case (Some r)
    then have "ctrl_drive s evs (snd (ct_enqueue r c)) = Inr (c', log)" "new_request s ch r" "list_all (pred_option (new_request s ch)) evs"
      using Cons.prems by simp_all
    then show ?thesis using Cons.IH [OF _ enqueue_live [OF Cons.prems(2)] Cons.prems(3)] by blast
  qed
qed simp

lemma Controller_new_live: "ct_live s ch (Controller_new cores (DRAM_new s Channel ch))"
proof -
  have "0 < watermark (float32 (2, 10)) 32" "0 \<le> watermark (float32 (8, 10)) 32" by code_simp+
  then have "marks_ok (Controller_new cores (DRAM_new s Channel ch))"
    by (simp only: marks_ok_def Controller_new_def Queue_new_def ct_max.simps Controller.select_convs Queue.select_convs)
  moreover have "waits_le s 0 (0 + max_wait s) (DRAM_new s Channel ch)" by (rule waits_le_mono [OF DRAM_new_le]) (simp_all add: max_wait_nonneg)
  moreover have "ct_clk (Controller_new cores d) = 0" "ct_channel (Controller_new cores d) = d" for d by (simp_all only: Controller_new_def Controller.select_convs)
  ultimately show ?thesis using Controller_new_safe by (simp only: ct_live_def)
qed

text \<open>Cycles without a command leave the constraints as they are and bring their end nearer.\<close>

lemma drive_total:
  "ct_safe s ch c \<Longrightarrow> 2 \<le> read_latency s \<Longrightarrow> safe_r (ctrl_drive s (replicate n None) c) (\<lambda>_. True)"
proof (induction n arbitrary: c)
  case (Suc n)
  from tick_parts [OF Suc.prems] show ?case
  proof
    assume "\<exists>c2 x c' d e. same_work c c2 \<and> ct_clk c2 = ct_clk c + 1 \<and> ct_safe s ch c2 \<and> ct_choose (ct_switch_mode c2) = Inr x \<and>
       ct_issued s c = Inr e \<and> (e = None \<longleftrightarrow> x = None) \<and> ct_schedule s (ct_switch_mode c2) = Inr (c', d) \<and>
       (\<exists>d'. ct_tick s c = Inr (c', d')) \<and> ct_safe s ch c'"
    then obtain c' e d' where t: "ct_issued s c = Inr e" "ct_tick s c = Inr (c', d')" "ct_safe s ch c'" by blast
    from Suc.IH [OF t(3) Suc.prems(2)] have "safe_r (bind_r (ctrl_drive s (replicate n None) c')
        (\<lambda>(c, log). Inr (c, case e of None \<Rightarrow> log | Some e \<Rightarrow> e # log))) (\<lambda>_. True)" by (rule safe_bind) auto
    then show ?thesis using t by simp
  qed simp
qed simp

lemma drive_issues:
  "ct_safe s ch c \<Longrightarrow> 2 \<le> read_latency s \<Longrightarrow> marks_ok c \<Longrightarrow> busy c \<Longrightarrow> waits_le s t B (ct_channel c) \<Longrightarrow> B \<le> ct_clk c + int n \<Longrightarrow> 0 < n \<Longrightarrow>
     safe_r (ctrl_drive s (replicate n None) c) (\<lambda>(_, log). log \<noteq> [])"
proof (induction n arbitrary: c)
  case (Suc n)
  from tick_parts [OF Suc.prems(1,2)] show ?case
  proof
    assume "\<exists>c2 x c' d e. same_work c c2 \<and> ct_clk c2 = ct_clk c + 1 \<and> ct_safe s ch c2 \<and> ct_choose (ct_switch_mode c2) = Inr x \<and>
       ct_issued s c = Inr e \<and> (e = None \<longleftrightarrow> x = None) \<and> ct_schedule s (ct_switch_mode c2) = Inr (c', d) \<and>
       (\<exists>d'. ct_tick s c = Inr (c', d')) \<and> ct_safe s ch c'"
    then obtain c2 x c' d e d' where w: "same_work c c2" "ct_clk c2 = ct_clk c + 1" "ct_safe s ch c2" and x: "ct_choose (ct_switch_mode c2) = Inr x"
      and e: "ct_issued s c = Inr e" "e = None \<longleftrightarrow> x = None" and sch: "ct_schedule s (ct_switch_mode c2) = Inr (c', d)"
      and t: "ct_tick s c = Inr (c', d')" "ct_safe s ch c'" by blast
    have w2: "waits_le s t B (ct_channel c2)" "busy c2" "marks_ok c2"
      using Suc.prems(3-5) w(1) waits_skel_eq [of "ct_channel c2" "ct_channel c"] same_work_busy [OF w(1)] marks_cong [of c2 c] by (simp_all add: same_work_def)
    have rest: "safe_r (ctrl_drive s (replicate n None) c') (\<lambda>(_, log). e \<noteq> None \<or> log \<noteq> [])"
    proof (cases e)
      case None
      then have "c' = ct_switch_mode c2" using e(2) x sch by (simp add: ct_schedule_def)
      then have f: "ct_channel c' = ct_channel c2" "busy c' = busy c2" "marks_ok c' = marks_ok c2" "ct_clk c' = ct_clk c2"
        by (simp_all add: ct_switch_mode_def Let_def busy_def marks_ok_def)
      have "ct_clk c2 < B" using choose_some [OF w(3) w2(1) _ w2(3,2)] x e(2) None by fastforce
      then have "0 < n" using Suc.prems(6) w(2) by (cases n) auto
      then show ?thesis using Suc.IH [OF t(2) Suc.prems(2)] f w2 w(2) Suc.prems(6) None by simp
    next
      case (Some y)
      then show ?thesis using drive_total [OF t(2) Suc.prems(2), of n] by (auto intro: safe_mono)
    qed
    have "safe_r (bind_r (ctrl_drive s (replicate n None) c') (\<lambda>(c, log). Inr (c, case e of None \<Rightarrow> log | Some e \<Rightarrow> e # log))) (\<lambda>(_, log). log \<noteq> [])"
      by (rule safe_bind [OF rest]) (auto split: option.splits)
    then show ?thesis using e(1) t(1) by simp
  qed simp
qed simp

section \<open>Properties\<close>

text \<open>C4.  The memory controller is never stuck: offer any new reads and writes of its channel to a new controller, with any cycles
  in between.  If a request or a refresh is then in one of its queues, it issues a command within as many cycles as the
  longest constraint of the timing table asks for, at least one; the only other outcome is the assertion that a refresh finds room.\<close>

theorem controller_not_stuck:
  assumes "ctrl_drive s evs (Controller_new cores (DRAM_new s Channel ch)) = Inr (c, log)"
    and "list_all (pred_option (new_request s ch)) evs" "2 \<le> read_latency s"
    and "ct_queue k c \<noteq> []" "0 < n" "max_wait s \<le> int n"
  shows "(case ctrl_drive s (replicate n None) c of Inl e \<Rightarrow> e = RAM_ASSERT ''res'' | Inr (c', log') \<Rightarrow> log' \<noteq> [])"
proof -
  have l: "ct_live s ch c" by (rule drive_live [OF assms(1) Controller_new_live assms(3,2)])
  have "busy c" using assms(4) by (cases k) (auto simp: busy_def)
  then have "safe_r (ctrl_drive s (replicate n None) c) (\<lambda>(_, log). log \<noteq> [])"
    by (rule drive_issues [of s ch c "ct_clk c" "ct_clk c + max_wait s", OF _ assms(3), rotated 2]) (use l assms(5,6) in \<open>simp_all add: ct_live_def\<close>)
  then show ?thesis by (auto simp: safe_r_def split: sum.splits)
qed

text \<open>A read in a new controller of the sample organisation.\<close>

definition sample_read :: Request where
  "sample_read = (Request_new 0 READ 1)\<lparr>addr_vec := [0, 0, 0, 0, 5, 3]\<rparr>"

lemma sample_read_queued:
  "max_wait sample_ddr4 = 576" "ctrl_drive sample_ddr4 [Some sample_read] c = Inr (snd (ct_enqueue sample_read c), [])"
  "length (ct_queue Readq (snd (ct_enqueue sample_read (Controller_new 1 (DRAM_new sample_ddr4 Channel 0))))) = 1"
  "2 \<le> read_latency sample_ddr4"
  by (code_simp, simp, code_simp, code_simp)

theorem controller_not_stuck_witness:
  "\<exists>c. ctrl_drive sample_ddr4 [Some sample_read] (Controller_new 1 (DRAM_new sample_ddr4 Channel 0)) = Inr (c, []) \<and>
     (case ctrl_drive sample_ddr4 (replicate 576 None) c of Inl e \<Rightarrow> e = RAM_ASSERT ''res'' | Inr (c', log') \<Rightarrow> log' \<noteq> [])"
proof -
  let ?c = "snd (ct_enqueue sample_read (Controller_new 1 (DRAM_new sample_ddr4 Channel 0)))"
  have "new_request sample_ddr4 0 sample_read" by code_simp
  then have r: "list_all (pred_option (new_request sample_ddr4 0)) [Some sample_read]" by simp
  have q: "ct_queue Readq ?c \<noteq> []" using sample_read_queued(3) by (metis length_0_conv zero_neq_one)
  have "(case ctrl_drive sample_ddr4 (replicate 576 None) ?c of Inl e \<Rightarrow> e = RAM_ASSERT ''res'' | Inr (c', log') \<Rightarrow> log' \<noteq> [])"
    by (rule controller_not_stuck [OF sample_read_queued(2) r sample_read_queued(4) q]) (simp_all add: sample_read_queued(1))
  then show ?thesis using sample_read_queued(2) by blast
qed

end
