(* ===== verification/Ram_Pages.thy ===== *)
theory Ram_Pages
  imports Ram_Memory "HOL-Library.Product_Lexorder"
begin

text \<open>
  Address translation of the memory (\<^verbatim>\<open>page_allocator\<close> of \<^verbatim>\<open>ramulator/src/Memory.h\<close>): with random
  translation a virtual page gets the next free physical page after a random one, until none is left.

  The members of \<^verbatim>\<open>Memory\<close> only \<^verbatim>\<open>page_allocator\<close> uses are a record of their own.  The value of \<^verbatim>\<open>lrand\<close>, which the
  function calls once at most, is an argument.  \<open>None\<close> means that the search for a page does not end.
\<close>

unbundle bit_operations_syntax

declare split_paired_All [simp del] split_paired_Ex [simp del]

section \<open>State\<close>

datatype Translation = Translation_None | Translation_Random

record Pages =
  pg_translation :: Translation
  pg_free :: "int list"  \<comment> \<open>\<^verbatim>\<open>free_physical_pages\<close>: -1, or the core the page was given to\<close>
  pg_remaining :: int
  pg_map :: "(int \<times> int, int) smap"
  pg_replacements :: int

text \<open>\<^verbatim>\<open>name_to_translation[...]\<close>: an unknown name gives the first value.\<close>

definition name_to_translation :: "string \<Rightarrow> Translation" where
  "name_to_translation n = (if n = ''Random'' then Translation_Random else Translation_None)"

text \<open>The option \<^verbatim>\<open>translation\<close> is absent or a name.  Without translation the counter is not
  initialised, \<open>junk\<close> is its value.\<close>

definition Pages_new :: "string option \<Rightarrow> int \<Rightarrow> int \<Rightarrow> Pages" where
  "Pages_new opt max_address junk =
     (let tr = (case opt of None \<Rightarrow> Translation_None | Some n \<Rightarrow> name_to_translation n); n = drop_bit 12 max_address
      in if tr \<noteq> Translation_None
         then \<lparr>pg_translation = tr, pg_free = replicate (nat n) (-1), pg_remaining = n, pg_map = [], pg_replacements = 0\<rparr>
         else \<lparr>pg_translation = tr, pg_free = [], pg_remaining = junk, pg_map = [], pg_replacements = 0\<rparr>)"

section \<open>Operations\<close>

text \<open>The \<^verbatim>\<open>do while\<close> loop.\<close>

partial_function (option) next_free :: "int list \<Rightarrow> nat \<Rightarrow> nat \<Rightarrow> nat option" where
  "next_free pages starting p =
     (let p = (p + 1) mod length pages
      in if p \<noteq> starting \<and> pages ! p \<noteq> -1 then next_free pages starting p else Some p)"

declare next_free.simps [code]

text \<open>A modulo by zero, when the memory has less than a page, is an error of the model.\<close>

definition page_allocator :: "int \<Rightarrow> int \<Rightarrow> nat \<Rightarrow> Pages \<Rightarrow> (int \<times> Pages) result option" where
  "page_allocator addr core lrand pg =
     (case pg_translation pg of
        Translation_None \<Rightarrow> Some (Inr (addr, pg))
      | Translation_Random \<Rightarrow>
          let target = (core, drop_bit 12 addr); n = length (pg_free pg); first = lrand mod n;
              ret = (\<lambda>pg. Inr (push_bit 12 (sm_get 0 (pg_map pg) target) OR (addr AND (2 ^ 12 - 1)), pg))
          in if sm_find (pg_map pg) target \<noteq> None then Some (ret pg)
             else if n = 0 then Some (Inl (RAM_ASSERT ''modulo by zero''))
             else if pg_remaining pg = 0
             then Some (if pg_free pg ! first = -1 then Inl (RAM_ASSERT ''free_physical_pages[phys_page_to_read] != -1'')
                        else ret (pg\<lparr>pg_replacements := pg_replacements pg + 1, pg_map := sm_put target (int first) (pg_map pg)\<rparr>))
             else Option.bind (if pg_free pg ! first \<noteq> -1 then next_free (pg_free pg) first first else Some first) (\<lambda>p.
                  Some (if pg_free pg ! p \<noteq> -1 then Inl (RAM_ASSERT ''free_physical_pages[phys_page_to_read] == -1'')
                        else ret (pg\<lparr>pg_map := sm_put target (int p) (pg_map pg), pg_free := (pg_free pg)[p := core],
                                     pg_remaining := pg_remaining pg - 1\<rparr>))))"

section \<open>The search\<close>

lemma next_free_from:
  assumes "starting < length pages" "i < length pages"
  shows "\<exists>d. i < d \<and> d \<le> length pages \<and> next_free pages starting ((starting + i) mod length pages) = Some ((starting + d) mod length pages) \<and>
    (\<forall>k. i < k \<and> k < d \<longrightarrow> pages ! ((starting + k) mod length pages) \<noteq> -1) \<and>
    (d < length pages \<longrightarrow> pages ! ((starting + d) mod length pages) = -1)"
  using assms(2)
proof (induction "length pages - i" arbitrary: i)
  case (Suc j)
  let ?n = "length pages" and ?p = "(starting + Suc i) mod length pages"
  have st: "((starting + i) mod ?n + 1) mod ?n = ?p" by (simp add: mod_Suc_eq)
  have hit: "?p = starting \<longleftrightarrow> Suc i = ?n"
  proof
    assume "?p = starting"
    moreover have "\<not> starting + Suc i < ?n" using calculation by auto
    moreover have "(starting + Suc i) mod ?n = starting + Suc i - ?n" if "\<not> starting + Suc i < ?n"
      using that assms(1) Suc.prems by (simp add: le_mod_geq)
    ultimately show "Suc i = ?n" by linarith
  qed (use assms(1) in simp)
  show ?case
  proof (cases "?p \<noteq> starting \<and> pages ! ?p \<noteq> -1")
    case True
    then have si: "Suc i < ?n" using hit Suc.prems by auto
    have j: "j = ?n - Suc i" using Suc.hyps(2) by simp
    obtain d where d: "Suc i < d" "d \<le> ?n" "next_free pages starting ?p = Some ((starting + d) mod ?n)"
      "\<forall>k. Suc i < k \<and> k < d \<longrightarrow> pages ! ((starting + k) mod ?n) \<noteq> -1" "d < ?n \<longrightarrow> pages ! ((starting + d) mod ?n) = -1"
      using Suc.hyps(1) [OF j si] by blast
    have "next_free pages starting ((starting + i) mod ?n) = Some ((starting + d) mod ?n)"
      using d(3) True by (subst next_free.simps) (simp add: st [simplified] Let_def)
    moreover have "pages ! ((starting + k) mod ?n) \<noteq> -1" if "i < k" "k < d" for k
      using that True d(4) by (cases "k = Suc i") auto
    ultimately show ?thesis using d(1,2,5) by (intro exI [of _ d]) auto
  next
    case False
    have "next_free pages starting ((starting + i) mod ?n) = Some ?p" using False by (subst next_free.simps) (auto simp: st [simplified] Let_def)
    moreover have "Suc i < ?n \<longrightarrow> pages ! ?p = -1" using False hit by auto
    ultimately show ?thesis using Suc.prems by (intro exI [of _ "Suc i"]) auto
  qed
qed simp

text \<open>The search as the allocator uses it: some page is free.\<close>

lemma search_finds:
  assumes "first < length pages" "- 1 \<in> set pages"
  shows "\<exists>p. (if pages ! first \<noteq> -1 then next_free pages first first else Some first) = Some p \<and> p < length pages \<and> pages ! p = -1"
proof (cases "pages ! first = -1")
  case False
  let ?n = "length pages"
  obtain d where d: "0 < d" "d \<le> ?n" "next_free pages first first = Some ((first + d) mod ?n)"
    "\<forall>k. 0 < k \<and> k < d \<longrightarrow> pages ! ((first + k) mod ?n) \<noteq> -1" "d < ?n \<longrightarrow> pages ! ((first + d) mod ?n) = -1"
    using next_free_from [OF assms(1), of 0] assms(1) by (metis add_0_right gr_zeroI less_nat_zero_code mod_less)
  obtain q where q: "q < ?n" "pages ! q = -1" using assms(2) by (auto simp: in_set_conv_nth)
  define k where "k = (if first < q then q - first else q + ?n - first)"
  have k: "0 < k" "k < ?n" "(first + k) mod ?n = q" using q False assms(1) unfolding k_def by (auto simp: not_less_iff_gr_or_eq)
  have "d < ?n" using d(4) k q(2) by (cases "k < d") auto
  moreover have "(first + d) mod ?n < ?n" using assms(1) by (intro mod_less_divisor) auto
  ultimately show ?thesis using False d(3,5) by auto
qed (use assms in auto)

section \<open>The invariant\<close>

text \<open>The counter is the number of free pages, and the pages given away are those of the translation.\<close>

definition pages_ok :: "Pages \<Rightarrow> bool" where
  "pages_ok pg \<longleftrightarrow> pg_translation pg = Translation_Random \<and> pg_free pg \<noteq> [] \<and> pg_remaining pg = int (count_list (pg_free pg) (-1)) \<and>
     (\<forall>t p. sm_find (pg_map pg) t = Some p \<longrightarrow> 0 \<le> p \<and> p < int (length (pg_free pg)) \<and> pg_free pg ! nat p \<noteq> -1) \<and>
     (\<forall>p < length (pg_free pg). pg_free pg ! p \<noteq> -1 \<longrightarrow> (\<exists>t. sm_find (pg_map pg) t = Some (int p)))"

lemma Pages_new_ok: "4096 \<le> max_address \<Longrightarrow> pages_ok (Pages_new (Some ''Random'') max_address junk)"
proof -
  assume "4096 \<le> max_address"
  then have "0 < drop_bit 12 max_address" by (simp add: drop_bit_eq_div pos_imp_zdiv_pos_iff)
  moreover have "count_list (replicate k x) x = k" for k and x :: int by (induction k) auto
  ultimately show ?thesis
    using \<open>4096 \<le> max_address\<close> by (simp add: pages_ok_def Pages_new_def name_to_translation_def Let_def sm_find_def)
qed

lemma count_taken: "p < length xs \<Longrightarrow> xs ! p = -1 \<Longrightarrow> c \<noteq> -1 \<Longrightarrow> count_list (xs[p := c]) (-1) = count_list xs (-1) - (1 :: nat)"
  for xs :: "int list"
proof (induction xs arbitrary: p)
  case (Cons x xs)
  show ?case
  proof (cases p)
    case (Suc q)
    then have "count_list xs (-1) \<noteq> 0" using Cons.prems by (auto simp: count_list_0_iff in_set_conv_nth)
    then show ?thesis using Cons Suc by auto
  qed (use Cons.prems in auto)
qed simp

text \<open>The result: the page in front, the offset behind.\<close>

lemma page_and_offset:
  fixes a p :: int
  shows "push_bit 12 p OR (a AND (2 ^ 12 - 1)) = 4096 * p + a mod 4096"
proof -
  have "a AND mask 12 = a mod 4096" by (simp flip: take_bit_eq_mask add: take_bit_eq_mod)
  moreover have "push_bit 12 p OR take_bit 12 a = push_bit 12 p + take_bit 12 a"
    by (rule disjunctive_add_eq_or [symmetric]) (auto simp: bit_eq_iff bit_simps)
  ultimately show ?thesis by (simp add: push_bit_eq_mult take_bit_eq_mod mask_eq_exp_minus_1)
qed

section \<open>A translation\<close>

definition page_of :: "Pages \<Rightarrow> int \<Rightarrow> int \<Rightarrow> int option" where
  "page_of pg core addr = sm_find (pg_map pg) (core, addr div 4096)"

lemma get_found: "sm_find m k = Some v \<Longrightarrow> sm_get d m k = v"
  by (simp add: sm_get_def)

text \<open>The three ways to a page: it has one, one is free, one is taken over.\<close>

lemma alloc_cases:
  assumes ok: "pages_ok pg" and core: "0 \<le> core"
  obtains (known) p where "page_of pg core addr = Some p" "page_allocator addr core r pg = Some (Inr (4096 * p + addr mod 4096, pg))"
  | (fresh) p pg' where "page_of pg core addr = None" "0 < pg_remaining pg" "p < length (pg_free pg)" "pg_free pg ! p = -1"
      "page_allocator addr core r pg = Some (Inr (4096 * int p + addr mod 4096, pg'))"
      "pg' = pg\<lparr>pg_map := sm_put (core, addr div 4096) (int p) (pg_map pg), pg_free := (pg_free pg)[p := core], pg_remaining := pg_remaining pg - 1\<rparr>"
  | (taken) p pg' where "page_of pg core addr = None" "pg_remaining pg = 0" "p < length (pg_free pg)" "pg_free pg ! p \<noteq> -1"
      "page_allocator addr core r pg = Some (Inr (4096 * int p + addr mod 4096, pg'))"
      "pg' = pg\<lparr>pg_replacements := pg_replacements pg + 1, pg_map := sm_put (core, addr div 4096) (int p) (pg_map pg)\<rparr>"
proof -
  have d: "drop_bit 12 addr = addr div 4096" by (simp add: drop_bit_eq_div)
  have n: "pg_free pg \<noteq> []" "pg_translation pg = Translation_Random" "pg_remaining pg = int (count_list (pg_free pg) (-1))" using ok by (simp_all add: pages_ok_def)
  let ?first = "r mod length (pg_free pg)"
  have first: "?first < length (pg_free pg)" using n(1) by simp
  note defs = page_allocator_def Let_def d page_and_offset [simplified] n page_of_def
  show thesis
  proof (cases "page_of pg core addr")
    case (Some p)
    then show thesis by (intro known [of p]) (simp_all add: defs get_found)
  next
    case None
    show thesis
    proof (cases "pg_remaining pg = 0")
      case True
      then have "- 1 \<notin> set (pg_free pg)" using n(3) by (simp add: count_list_0_iff)
      then have "pg_free pg ! ?first \<noteq> -1" using first by (metis nth_mem)
      then show thesis using None True first by (intro taken [OF _ _ _ _ _ refl, of ?first]) (simp_all add: defs sm_get_def)
    next
      case False
      then have "- 1 \<in> set (pg_free pg)" using n(3) count_list_0_iff [of "pg_free pg" "-1"] by auto
      from search_finds [OF first this] obtain p where p: "(if pg_free pg ! ?first \<noteq> -1 then next_free (pg_free pg) ?first ?first else Some ?first) = Some p"
        "p < length (pg_free pg)" "pg_free pg ! p = -1" by blast
      have "0 < pg_remaining pg" using False n(3) by simp
      then show thesis using None p by (intro fresh [OF _ _ _ _ _ refl, of p]) (simp_all add: defs sm_get_def)
    qed
  qed
qed

lemma page_nonneg_div: "(4096 * p + a mod 4096) div 4096 = p" "(4096 * p + a mod 4096) mod 4096 = a mod 4096" for p a :: int
  by simp_all

lemma find_put_other: "sm_find m k = None \<Longrightarrow> sm_find m t = Some q \<Longrightarrow> sm_find (sm_put k v m) t = Some q"
  by auto

lemma alloc_ok:
  assumes ok: "pages_ok pg" and core: "0 \<le> core"
  shows "\<exists>pa pg'. page_allocator addr core r pg = Some (Inr (pa, pg')) \<and> pages_ok pg' \<and> page_of pg' core addr = Some (pa div 4096) \<and>
    pa mod 4096 = addr mod 4096 \<and> length (pg_free pg') = length (pg_free pg) \<and> pg_replacements pg \<le> pg_replacements pg' \<and>
    (\<forall>t q. sm_find (pg_map pg) t = Some q \<longrightarrow> sm_find (pg_map pg') t = Some q) \<and>
    (pg_replacements pg' = pg_replacements pg \<longrightarrow> (\<forall>t. t \<noteq> (core, addr div 4096) \<longrightarrow> sm_find (pg_map pg') t = sm_find (pg_map pg) t) \<and>
       (page_of pg core addr = None \<longrightarrow> (\<forall>t. sm_find (pg_map pg) t \<noteq> Some (pa div 4096))))"
  using ok core
proof (cases rule: alloc_cases [where addr = addr and r = r])
  case (known p)
  then show ?thesis using ok by auto
next
  case (fresh p pg')
  have "pages_ok pg'"
    using ok fresh(1-4) core count_taken [of p "pg_free pg" core] unfolding fresh(6) page_of_def pages_ok_def
    by (auto simp: nth_list_update count_list_0_iff) (metis option.distinct(1))
  moreover have "sm_find (pg_map pg) t \<noteq> Some (int p)" for t using ok fresh(4) unfolding pages_ok_def by (metis nat_int)
  ultimately show ?thesis using fresh(1,5) unfolding fresh(6) by (auto simp: page_of_def)
next
  case (taken p pg')
  have "pages_ok pg'" using ok taken(1-4) unfolding taken(6) page_of_def pages_ok_def by auto (metis option.distinct(1))
  then show ?thesis using taken(1,5) unfolding taken(6) by (auto simp: page_of_def)
qed

text \<open>A sequence of accesses: address, core, random number.\<close>

fun translate_all :: "(int \<times> int \<times> nat) list \<Rightarrow> Pages \<Rightarrow> (int list \<times> Pages) result option" where
  "translate_all [] pg = Some (Inr ([], pg))"
| "translate_all ((a, c, r) # xs) pg =
     Option.bind (page_allocator a c r pg) (\<lambda>res. case res of
       Inl e \<Rightarrow> Some (Inl e)
     | Inr (pa, pg) \<Rightarrow> Option.bind (translate_all xs pg) (\<lambda>res. case res of
         Inl e \<Rightarrow> Some (Inl e)
       | Inr (pas, pg) \<Rightarrow> Some (Inr (pa # pas, pg))))"

definition pages_inj :: "Pages \<Rightarrow> bool" where
  "pages_inj pg \<longleftrightarrow> (\<forall>t u p. sm_find (pg_map pg) t = Some p \<and> sm_find (pg_map pg) u = Some p \<longrightarrow> t = u)"

lemma translate_all_ok:
  "pages_ok pg \<Longrightarrow> list_all (\<lambda>(a, c, r). 0 \<le> c) xs \<Longrightarrow>
     \<exists>pas pg'. translate_all xs pg = Some (Inr (pas, pg')) \<and> pages_ok pg' \<and> length (pg_free pg') = length (pg_free pg) \<and>
       pg_replacements pg \<le> pg_replacements pg' \<and> (\<forall>t q. sm_find (pg_map pg) t = Some q \<longrightarrow> sm_find (pg_map pg') t = Some q) \<and>
       list_all2 (\<lambda>(a, c, r) pa. page_of pg' c a = Some (pa div 4096) \<and> pa mod 4096 = a mod 4096) xs pas \<and>
       (pages_inj pg \<and> pg_replacements pg' = pg_replacements pg \<longrightarrow> pages_inj pg')"
proof (induction xs arbitrary: pg)
  case (Cons x xs)
  obtain a c r where x: "x = (a, c, r)" by (cases x)
  then have c: "0 \<le> c" using Cons.prems(2) by simp
  obtain pa pg1 where 1: "page_allocator a c r pg = Some (Inr (pa, pg1))" "pages_ok pg1" "page_of pg1 c a = Some (pa div 4096)"
    "pa mod 4096 = a mod 4096" "length (pg_free pg1) = length (pg_free pg)" "pg_replacements pg \<le> pg_replacements pg1"
    "\<forall>t q. sm_find (pg_map pg) t = Some q \<longrightarrow> sm_find (pg_map pg1) t = Some q"
    and inj: "pg_replacements pg1 = pg_replacements pg \<longrightarrow> (\<forall>t. t \<noteq> (c, a div 4096) \<longrightarrow> sm_find (pg_map pg1) t = sm_find (pg_map pg) t) \<and>
       (page_of pg c a = None \<longrightarrow> (\<forall>t. sm_find (pg_map pg) t \<noteq> Some (pa div 4096)))"
    using alloc_ok [OF Cons.prems(1) c, of a r] by (elim exE conjE) (rule that; assumption)
  obtain pas pg' where 2: "translate_all xs pg1 = Some (Inr (pas, pg'))" "pages_ok pg'" "length (pg_free pg') = length (pg_free pg1)"
    "pg_replacements pg1 \<le> pg_replacements pg'" "\<forall>t q. sm_find (pg_map pg1) t = Some q \<longrightarrow> sm_find (pg_map pg') t = Some q"
    "list_all2 (\<lambda>(a, c, r) pa. page_of pg' c a = Some (pa div 4096) \<and> pa mod 4096 = a mod 4096) xs pas"
    "pages_inj pg1 \<and> pg_replacements pg' = pg_replacements pg1 \<longrightarrow> pages_inj pg'"
    using Cons.IH [OF 1(2)] Cons.prems(2) by auto
  have "pages_inj pg1" if "pages_inj pg" "pg_replacements pg1 = pg_replacements pg"
  proof (cases "page_of pg c a")
    case None
    have k: "sm_find (pg_map pg1) (c, a div 4096) = Some (pa div 4096)" using 1(3) by (simp add: page_of_def)
    have o: "sm_find (pg_map pg1) t = sm_find (pg_map pg) t" "sm_find (pg_map pg) t \<noteq> Some (pa div 4096)" if "t \<noteq> (c, a div 4096)" for t
      using inj that \<open>pg_replacements pg1 = pg_replacements pg\<close> None by auto
    show ?thesis unfolding pages_inj_def
    proof (intro allI impI)
      fix t u p assume tu: "sm_find (pg_map pg1) t = Some p \<and> sm_find (pg_map pg1) u = Some p"
      then show "t = u" using k o [of t] o [of u] that(1) unfolding pages_inj_def by metis
    qed
  next
    case (Some p)
    then have "sm_find (pg_map pg1) t = sm_find (pg_map pg) t" for t
      using inj that(2) 1(3,7) by (cases "t = (c, a div 4096)") (auto simp: page_of_def)
    then show ?thesis using that(1) by (simp add: pages_inj_def)
  qed
  moreover have "page_of pg' c a = Some (pa div 4096)" using 1(3) 2(5) by (simp add: page_of_def)
  ultimately show ?case using 1 2 by (auto simp: x)
qed simp

section \<open>Properties\<close>

text \<open>C34.  The search for a free page ends: from any page of the memory the loop returns after at most one round, with the first free page
  behind the one it starts from, or with that page again if all others are taken.\<close>

theorem page_search_ends:
  assumes "starting < length pages"
  shows "\<exists>d. 0 < d \<and> d \<le> length pages \<and> next_free pages starting starting = Some ((starting + d) mod length pages) \<and>
    (\<forall>k. 0 < k \<and> k < d \<longrightarrow> pages ! ((starting + k) mod length pages) \<noteq> -1) \<and>
    (d < length pages \<longrightarrow> pages ! ((starting + d) mod length pages) = -1)"
proof -
  have "0 < length pages" by (rule le_less_trans [OF le0 assms])
  then show ?thesis using next_free_from [OF assms, of 0] assms by (metis add_0_right mod_less)
qed

theorem page_search_ends_witness: "next_free [7, -1, 7] 2 2 = Some 1 \<and> (\<exists>d. 0 < d \<and> d \<le> 3 \<and> next_free [7, -1, 7] 2 2 = Some ((2 + d) mod 3))"
proof -
  have "next_free [7, -1, 7] 2 2 = Some 1" by code_simp
  moreover have "(2 :: nat) < length [7 :: int, -1, 7]" "length [7 :: int, -1, 7] = 3" by simp_all
  ultimately show ?thesis using page_search_ends [of 2 "[7, -1, 7]"] by metis
qed

text \<open>C35.  Translation works: whatever the random numbers are, a memory of at least one page translates any sequence of accesses of
  cores with an id that is not negative, without an assertion failing.  Every address stays in the memory and keeps its offset in the page; and as
  long as no page was taken over, two accesses get the same physical page exactly if their core and virtual page are the same.\<close>

theorem pages_isolated:
  assumes "4096 \<le> max_address" "list_all (\<lambda>(a, c, r). 0 \<le> c) xs"
  shows "\<exists>pas pg'. translate_all xs (Pages_new (Some ''Random'') max_address junk) = Some (Inr (pas, pg')) \<and> length pas = length xs \<and>
    (\<forall>i < length xs. 0 \<le> pas ! i \<and> pas ! i < max_address \<and> pas ! i mod 4096 = fst (xs ! i) mod 4096) \<and>
    (pg_replacements pg' = 0 \<longrightarrow> (\<forall>i < length xs. \<forall>j < length xs. pas ! i div 4096 = pas ! j div 4096 \<longleftrightarrow>
       fst (snd (xs ! i)) = fst (snd (xs ! j)) \<and> fst (xs ! i) div 4096 = fst (xs ! j) div 4096))"
proof -
  let ?pg = "Pages_new (Some ''Random'') max_address junk"
  have new: "length (pg_free ?pg) = nat (max_address div 4096)" "pg_replacements ?pg = 0" "pages_inj ?pg"
    by (simp_all add: Pages_new_def name_to_translation_def Let_def drop_bit_eq_div pages_inj_def sm_find_def)
  obtain pas pg' where t: "translate_all xs ?pg = Some (Inr (pas, pg'))" "pages_ok pg'" "length (pg_free pg') = length (pg_free ?pg)"
    "list_all2 (\<lambda>(a, c, r) pa. page_of pg' c a = Some (pa div 4096) \<and> pa mod 4096 = a mod 4096) xs pas"
    "pages_inj ?pg \<and> pg_replacements pg' = pg_replacements ?pg \<longrightarrow> pages_inj pg'"
    using translate_all_ok [OF Pages_new_ok [OF assms(1)] assms(2), of junk] by blast
  have l: "length pas = length xs" using t(4) by (simp add: list_all2_lengthD)
  have e: "sm_find (pg_map pg') (fst (snd (xs ! i)), fst (xs ! i) div 4096) = Some (pas ! i div 4096)" "pas ! i mod 4096 = fst (xs ! i) mod 4096"
    if "i < length xs" for i
    using list_all2_nthD [OF t(4) that] by (auto simp: page_of_def split: prod.splits)
  have "0 \<le> pas ! i \<and> pas ! i < max_address" if "i < length xs" for i
  proof -
    have "0 \<le> pas ! i div 4096 \<and> pas ! i div 4096 < int (length (pg_free pg'))"
      using t(2) e(1) [OF that] unfolding pages_ok_def by blast
    moreover have "int (length (pg_free pg')) = max_address div 4096" using t(3) new(1) assms(1) by simp
    ultimately show ?thesis by linarith
  qed
  moreover have "pas ! i div 4096 = pas ! j div 4096 \<longleftrightarrow>
       fst (snd (xs ! i)) = fst (snd (xs ! j)) \<and> fst (xs ! i) div 4096 = fst (xs ! j) div 4096"
    if "pg_replacements pg' = 0" "i < length xs" "j < length xs" for i j
  proof -
    have "pages_inj pg'" using t(5) new that(1) by simp
    then show ?thesis using e(1) [OF that(2)] e(1) [OF that(3)] unfolding pages_inj_def by (metis Pair_inject option.inject)
  qed
  ultimately show ?thesis using t(1) l e(2) by blast
qed

text \<open>Two cores and three accesses in a memory of two pages.\<close>

definition sample_accesses :: "(int \<times> int \<times> nat) list" where
  "sample_accesses = [(0x1234, 0, 5), (0x1238, 1, 5), (0x1300, 0, 9)]"

lemma sample_accesses_run:
  "(case translate_all sample_accesses (Pages_new (Some ''Random'') 8192 0) of
      Some (Inr (pas, pg)) \<Rightarrow> pas = [0x1234, 0x238, 0x1300] \<and> pg_replacements pg = 0 | _ \<Rightarrow> False)"
  by code_simp

theorem pages_isolated_witness:
  "\<exists>pas pg'. translate_all sample_accesses (Pages_new (Some ''Random'') 8192 0) = Some (Inr (pas, pg')) \<and>
     pas ! 0 div 4096 = pas ! 2 div 4096 \<and> pas ! 0 div 4096 \<noteq> pas ! 1 div 4096"
proof -
  have a: "list_all (\<lambda>(a, c, r). 0 \<le> c) sample_accesses" "(4096 :: int) \<le> 8192" by (simp_all add: sample_accesses_def)
  obtain pas pg' where t: "translate_all sample_accesses (Pages_new (Some ''Random'') 8192 0) = Some (Inr (pas, pg'))" "pg_replacements pg' = 0"
    using sample_accesses_run by (auto split: option.splits sum.splits)
  from pages_isolated [OF a(2,1), of 0] t have "\<forall>i < length sample_accesses. \<forall>j < length sample_accesses.
      pas ! i div 4096 = pas ! j div 4096 \<longleftrightarrow> fst (snd (sample_accesses ! i)) = fst (snd (sample_accesses ! j)) \<and>
        fst (sample_accesses ! i) div 4096 = fst (sample_accesses ! j) div 4096" by auto
  then have "pas ! 0 div 4096 = pas ! 2 div 4096" "pas ! 0 div 4096 \<noteq> pas ! 1 div 4096" by (auto simp: sample_accesses_def)
  then show ?thesis using t(1) by blast
qed

text \<open>C40.  When no page is left, a new virtual page takes over a page that keeps its old owner: both are then translated to it.\<close>

theorem page_replacement_shares:
  assumes "pages_ok pg" "0 \<le> core" "pg_remaining pg = 0" "page_of pg core addr = None"
  shows "\<exists>pa pg' t. page_allocator addr core r pg = Some (Inr (pa, pg')) \<and> page_of pg' core addr = Some (pa div 4096) \<and>
    t \<noteq> (core, addr div 4096) \<and> sm_find (pg_map pg') t = Some (pa div 4096)"
  using assms(1,2)
proof (cases rule: alloc_cases [where addr = addr and r = r])
  case (taken p pg')
  obtain t where t: "sm_find (pg_map pg) t = Some (int p)" using assms(1) taken(3,4) by (auto simp: pages_ok_def)
  then have "t \<noteq> (core, addr div 4096)" using taken(1) by (auto simp: page_of_def)
  then show ?thesis using t taken(5,6) by (intro exI [of _ "4096 * int p + addr mod 4096"] exI [of _ pg'] exI [of _ t]) (auto simp: page_of_def)
qed (use assms(3,4) in auto)

text \<open>A second virtual page in a memory of one page.\<close>

theorem page_replacement_shares_witness:
  "\<exists>pg pa pg' t. page_allocator 0x1234 0 5 (Pages_new (Some ''Random'') 4096 0) = Some (Inr (0x234, pg)) \<and>
     page_allocator 0x9000 0 5 pg = Some (Inr (pa, pg')) \<and> t \<noteq> (0, 9) \<and> sm_find (pg_map pg') t = Some (pa div 4096)"
proof -
  have r: "(case page_allocator 0x1234 0 5 (Pages_new (Some ''Random'') 4096 0) of
      Some (Inr (pa, pg)) \<Rightarrow> pa = 0x234 \<and> pg_remaining pg = 0 \<and> page_of pg 0 0x9000 = None | _ \<Rightarrow> False)" by code_simp
  obtain pa pg where p: "page_allocator 0x1234 0 5 (Pages_new (Some ''Random'') 4096 0) = Some (Inr (pa, pg))" "pages_ok pg"
    using alloc_ok [OF Pages_new_ok [of 4096 0], of 0 "0x1234" 5] by auto
  then have s: "pa = 0x234" "pg_remaining pg = 0" "page_of pg 0 0x9000 = None" using r by simp_all
  have "(0x9000 :: int) div 4096 = 9" by simp
  then obtain pa' pg' t where "page_allocator 0x9000 0 5 pg = Some (Inr (pa', pg'))" "t \<noteq> (0, 9)" "sm_find (pg_map pg') t = Some (pa' div 4096)"
    using page_replacement_shares [OF p(2) _ s(2,3), of 5] by (metis order_refl)
  then show ?thesis using p(1) s(1) by blast
qed

end
