(* ===== verification/Ram_Config.thy ===== *)
theory Ram_Config
  imports CXL_Parse Ram_Safe "HOL-Library.List_Lexorder"
begin

text \<open>
  The configuration of the memory (\<^verbatim>\<open>ramulator/src/Config.h\<close> and \<^verbatim>\<open>Config.cpp\<close>), and the first half of
  \<^verbatim>\<open>RamDevice::ramulator_init\<close>, which reads the file, chooses the organisation and the speed grade by
  their names and builds the memory.  A file is the list of its lines, \<open>None\<close> if it cannot be opened.
\<close>

section \<open>State\<close>

text \<open>The options, and the numbers that are read from some of them.\<close>

record Config =
  cf_options :: "(string, string) smap"
  cf_channels :: int
  cf_ranks :: int
  cf_subarrays :: int
  cf_cpu_tick :: int
  cf_mem_tick :: int
  cf_core_num :: int
  cf_expected_limit_insts :: int
  cf_warmup_insts :: int

text \<open>Five of the numbers are not initialised, \<open>junk\<close> is what they hold.\<close>

definition Config_new :: "int \<Rightarrow> Config" where
  "Config_new junk =
     \<lparr>cf_options = [], cf_channels = junk, cf_ranks = junk, cf_subarrays = junk, cf_cpu_tick = junk, cf_mem_tick = junk,
      cf_core_num = 0, cf_expected_limit_insts = 0, cf_warmup_insts = 0\<rparr>"

section \<open>Reading a file\<close>

text \<open>\<^verbatim>\<open>atoi\<close> is \<^verbatim>\<open>strtol\<close> with base 10, cut to \<^verbatim>\<open>int\<close>; \<^verbatim>\<open>strtol\<close> stops at the bounds of \<^verbatim>\<open>long\<close>.\<close>

definition strtol10 :: "string \<Rightarrow> int" where
  "strtol10 s =
     (let (neg, cs) = strip_sign (dropWhile is_space s);
          n = digits_value 10 (takeWhile (is_digit 10) cs)
      in max (- (2 ^ 63)) (min (2 ^ 63 - 1) (if neg then - n else n)))"

definition atoi :: "string \<Rightarrow> int" where
  "atoi s = sint (word_of_int (strtol10 s) :: 32 word)"

definition is_delim :: "char \<Rightarrow> bool" where
  "is_delim c \<longleftrightarrow> c = CHR '' '' \<or> c = CHR 0x09 \<or> c = CHR ''=''"

lemma tokens_shrink:
  assumes "dropWhile is_delim line \<noteq> []"
  shows "length (dropWhile (Not \<circ> is_delim) (dropWhile is_delim line)) < length line"
proof -
  obtain c cs where d: "dropWhile is_delim line = c # cs" using assms by (cases "dropWhile is_delim line") auto
  then have "\<not> is_delim c" by (metis hd_dropWhile list.distinct(1) list.sel(1))
  then have "length (dropWhile (Not \<circ> is_delim) (c # cs)) \<le> length cs" by (simp add: length_dropWhile_le)
  moreover have "length (c # cs) \<le> length line" using d length_dropWhile_le [of is_delim line] by simp
  ultimately show ?thesis unfolding d by simp
qed

text \<open>The words of a line: \<^verbatim>\<open>find_first_not_of\<close> and \<^verbatim>\<open>find_first_of\<close> in turn.\<close>

function config_tokens :: "string \<Rightarrow> string list" where
  "config_tokens line =
     (let rest = dropWhile is_delim line
      in if rest = [] then []
         else let word = takeWhile (Not \<circ> is_delim) rest; line = dropWhile (Not \<circ> is_delim) rest
              in if line = [] then [word] else word # config_tokens line)"
  by pat_completeness auto
termination
  by (relation "measure length") (auto intro: tokens_shrink)

declare config_tokens.simps [simp del]

text \<open>\<^verbatim>\<open>options[key] = value\<close> and the number of the key.\<close>

definition config_set :: "string \<Rightarrow> string \<Rightarrow> Config \<Rightarrow> Config" where
  "config_set k v c =
     (let c = c\<lparr>cf_options := sm_put k v (cf_options c)\<rparr>
      in if k = ''channels'' then c\<lparr>cf_channels := atoi v\<rparr>
         else if k = ''ranks'' then c\<lparr>cf_ranks := atoi v\<rparr>
         else if k = ''subarrays'' then c\<lparr>cf_subarrays := atoi v\<rparr>
         else if k = ''cpu_tick'' then c\<lparr>cf_cpu_tick := atoi v\<rparr>
         else if k = ''mem_tick'' then c\<lparr>cf_mem_tick := atoi v\<rparr>
         else if k = ''expected_limit_insts'' then c\<lparr>cf_expected_limit_insts := atoi v\<rparr>
         else if k = ''warmup_insts'' then c\<lparr>cf_warmup_insts := atoi v\<rparr>
         else c)"

definition config_line :: "string \<Rightarrow> Config \<Rightarrow> Config result" where
  "config_line line c =
     (let tokens = config_tokens line
      in if tokens = [] then Inr c
         else if hd (hd tokens) = CHR ''#'' then Inr c
         else if length tokens \<noteq> 2 then Inl (RAM_ASSERT ''Only allow two tokens in one line'')
         else Inr (config_set (tokens ! 0) (tokens ! 1) c))"

definition Config_parse :: "string list option \<Rightarrow> Config \<Rightarrow> Config result" where
  "Config_parse file c =
     (case file of None \<Rightarrow> Inl (RAM_ASSERT ''Bad config file'') | Some ls \<Rightarrow> fold_r config_line ls c)"

section \<open>Options\<close>

definition config_get :: "Config \<Rightarrow> string \<Rightarrow> string" where
  "config_get c k = (case sm_find (cf_options c) k of Some v \<Rightarrow> v | None \<Rightarrow> [])"

definition config_contains :: "Config \<Rightarrow> string \<Rightarrow> bool" where
  "config_contains c k \<longleftrightarrow> sm_find (cf_options c) k \<noteq> None"

text \<open>\<^verbatim>\<open>add\<close> does not change an option that is set; it prints a message.\<close>

definition config_add :: "string \<Rightarrow> string \<Rightarrow> Config \<Rightarrow> Config" where
  "config_add k v c = (if \<not> config_contains c k then c\<lparr>cf_options := sm_insert k v (cf_options c)\<rparr> else c)"

definition set_core_num :: "int \<Rightarrow> Config \<Rightarrow> Config" where
  "set_core_num n c = c\<lparr>cf_core_num := n\<rparr>"

definition has_l3_cache :: "Config \<Rightarrow> bool" where
  "has_l3_cache c \<longleftrightarrow> (case sm_find (cf_options c) ''cache'' of Some v \<Rightarrow> v = ''all'' \<or> v = ''L3'' | None \<Rightarrow> False)"

definition has_core_caches :: "Config \<Rightarrow> bool" where
  "has_core_caches c \<longleftrightarrow> (case sm_find (cf_options c) ''cache'' of Some v \<Rightarrow> v = ''all'' \<or> v = ''L1L2'' | None \<Rightarrow> False)"

definition is_early_exit :: "Config \<Rightarrow> bool" where
  "is_early_exit c \<longleftrightarrow> (case sm_find (cf_options c) ''early_exit'' of Some v \<Rightarrow> v \<noteq> ''off'' | None \<Rightarrow> True)"

definition calc_weighted_speedup :: "Config \<Rightarrow> bool" where
  "calc_weighted_speedup c \<longleftrightarrow> cf_expected_limit_insts c \<noteq> 0"

definition record_cmd_trace :: "Config \<Rightarrow> bool" where
  "record_cmd_trace c \<longleftrightarrow> (case sm_find (cf_options c) ''record_cmd_trace'' of Some v \<Rightarrow> v = ''on'' | None \<Rightarrow> False)"

definition print_cmd_trace :: "Config \<Rightarrow> bool" where
  "print_cmd_trace c \<longleftrightarrow> (case sm_find (cf_options c) ''print_cmd_trace'' of Some v \<Rightarrow> v = ''on'' | None \<Rightarrow> False)"

section \<open>The memory of a configuration\<close>

text \<open>\<^verbatim>\<open>org_map[...]\<close> and \<^verbatim>\<open>speed_map[...]\<close>: an unknown name is entered with the first value of the enumeration.\<close>

definition org_map :: "string \<Rightarrow> Org" where
  "org_map n = (case map_of
     [(''DDR4_2Gb_x4'', DDR4_2Gb_x4), (''DDR4_2Gb_x8'', DDR4_2Gb_x8), (''DDR4_2Gb_x16'', DDR4_2Gb_x16),
      (''DDR4_4Gb_x4'', DDR4_4Gb_x4), (''DDR4_4Gb_x8'', DDR4_4Gb_x8), (''DDR4_4Gb_x16'', DDR4_4Gb_x16),
      (''DDR4_8Gb_x4'', DDR4_8Gb_x4), (''DDR4_8Gb_x8'', DDR4_8Gb_x8), (''DDR4_8Gb_x16'', DDR4_8Gb_x16)] n
     of Some e \<Rightarrow> e | None \<Rightarrow> DDR4_2Gb_x4)"

definition speed_map :: "string \<Rightarrow> Speed" where
  "speed_map n = (case map_of
     [(''DDR4_1600K'', DDR4_1600K), (''DDR4_1600L'', DDR4_1600L), (''DDR4_1866M'', DDR4_1866M), (''DDR4_1866N'', DDR4_1866N),
      (''DDR4_2133P'', DDR4_2133P), (''DDR4_2133R'', DDR4_2133R), (''DDR4_2400R'', DDR4_2400R), (''DDR4_2400U'', DDR4_2400U),
      (''DDR4_3200'', DDR4_3200)] n
     of Some e \<Rightarrow> e | None \<Rightarrow> DDR4_1600K)"

text \<open>The assertion on \<^verbatim>\<open>standard\<close> always holds, one of its operands is a string literal.\<close>

definition ramulator_config :: "string list option \<Rightarrow> int \<Rightarrow> Config result" where
  "ramulator_config file junk =
     bind_r (Config_parse file (Config_new junk)) (\<lambda>c.
       Inr (config_add ''trace_type'' ''DRAM'' (set_core_num 1 (config_add ''mapping'' ''defaultmapping'' c))))"

text \<open>\<^verbatim>\<open>Memory\<close> takes the standard from the first controller.\<close>

definition memory_of_config :: "string list option \<Rightarrow> int \<Rightarrow> Memory result" where
  "memory_of_config file junk =
     bind_r (ramulator_config file junk) (\<lambda>c.
       if cf_channels c \<le> 0 then Inl (NULL_DEREF ''ctrls[0]'')
       else bind_r (make_memory (org_map (config_get c ''org'')) (speed_map (config_get c ''speed'')) (cf_channels c) (cf_ranks c)) (\<lambda>m.
            if config_get c ''trace_type'' = ''DRAM'' then Inr m else Inl (RAM_ASSERT ''trace_type''))) "

section \<open>Words\<close>

definition is_word :: "string \<Rightarrow> bool" where
  "is_word w \<longleftrightarrow> w \<noteq> [] \<and> list_all (Not \<circ> is_delim) w"

lemma dropWhile_pre: "list_all P pre \<Longrightarrow> \<not> P c \<Longrightarrow> dropWhile P (pre @ c # cs) = c # cs"
  by (induction pre) auto

lemma word_then: "list_all (Not \<circ> is_delim) w \<Longrightarrow> is_delim d \<Longrightarrow>
    takeWhile (Not \<circ> is_delim) (w @ d # cs) = w \<and> dropWhile (Not \<circ> is_delim) (w @ d # cs) = d # cs"
  by (induction w) auto

lemma tokens_first:
  assumes "list_all is_delim pre" "is_word w" "is_delim d"
  shows "config_tokens (pre @ w @ d # cs) = w # config_tokens (d # cs)"
proof -
  obtain c w' where w: "w = c # w'" "\<not> is_delim c" using assms(2) by (cases w) (auto simp: is_word_def)
  have "dropWhile is_delim (pre @ w @ d # cs) = w @ d # cs" using dropWhile_pre [OF assms(1) w(2)] w(1) by simp
  then show ?thesis using word_then [of w d cs] assms(2,3) w(1)
    by (subst config_tokens.simps) (simp add: Let_def is_word_def)
qed

lemma tokens_last:
  assumes "list_all is_delim pre" "is_word w"
  shows "config_tokens (pre @ w) = [w]"
proof -
  obtain c w' where w: "w = c # w'" "\<not> is_delim c" using assms(2) by (cases w) (auto simp: is_word_def)
  have "dropWhile is_delim (pre @ w) = w" using dropWhile_pre [OF assms(1) w(2), of w'] w(1) by simp
  moreover have "takeWhile (Not \<circ> is_delim) w = w" "dropWhile (Not \<circ> is_delim) w = []"
    using assms(2) by (auto simp: is_word_def list_all_iff takeWhile_eq_all_conv dropWhile_eq_Nil_conv)
  ultimately show ?thesis using w(1) by (subst config_tokens.simps) (simp add: Let_def)
qed

lemma tokens_comment: "\<exists>ts. config_tokens (CHR ''#'' # cs) = (CHR ''#'' # takeWhile (Not \<circ> is_delim) cs) # ts"
proof -
  have "\<not> is_delim CHR ''#''" by (simp add: is_delim_def)
  then show ?thesis by (subst config_tokens.simps) (simp add: Let_def)
qed

section \<open>Files\<close>

datatype config_entry = Setting string string | Comment string

fun print_entry :: "config_entry \<Rightarrow> string" where
  "print_entry (Setting k v) = '' '' @ k @ '' = '' @ v"
| "print_entry (Comment s) = CHR ''#'' # s"

fun entry_plain :: "config_entry \<Rightarrow> bool" where
  "entry_plain (Setting k v) \<longleftrightarrow> is_word k \<and> is_word v \<and> hd k \<noteq> CHR ''#''"
| "entry_plain (Comment s) \<longleftrightarrow> True"

text \<open>The values of an option, the last one first.\<close>

fun options_of :: "config_entry list \<Rightarrow> (string \<times> string) list" where
  "options_of [] = []"
| "options_of (Setting k v # es) = options_of es @ [(k, v)]"
| "options_of (Comment s # es) = options_of es"

lemma entry_line:
  assumes "entry_plain e"
  shows "config_line (print_entry e) c = Inr (case e of Setting k v \<Rightarrow> config_set k v c | Comment s \<Rightarrow> c)"
proof (cases e)
  case (Setting k v)
  have d: "list_all is_delim '' ''" "is_delim CHR '' ''" "list_all is_delim '' = ''" by (simp_all add: is_delim_def)
  have "config_tokens (print_entry e) = [k, v]"
    using tokens_first [OF d(1) _ d(2), of k "''= '' @ v"] tokens_last [OF d(3), of v] assms Setting by simp
  then show ?thesis using assms Setting by (simp add: config_line_def Let_def)
next
  case (Comment s)
  then show ?thesis using tokens_comment [of s] by (auto simp: config_line_def Let_def)
qed

lemma config_set_options: "cf_options (config_set k v c) = sm_put k v (cf_options c)"
  by (simp add: config_set_def Let_def)

lemma parse_entries:
  "list_all entry_plain es \<Longrightarrow> \<exists>c'. fold_r config_line (map print_entry es) c = Inr c' \<and>
     sm_find (cf_options c') = sm_find (cf_options c) ++ map_of (options_of es)"
proof (induction es arbitrary: c)
  case (Cons e es)
  have l: "config_line (print_entry e) c = Inr (case e of Setting k v \<Rightarrow> config_set k v c | Comment s \<Rightarrow> c)"
    by (rule entry_line) (use Cons.prems in simp)
  have es: "list_all entry_plain es" using Cons.prems by simp
  show ?case
  proof (cases e)
    case (Setting k v)
    obtain c' where c': "fold_r config_line (map print_entry es) (config_set k v c) = Inr c'"
      "sm_find (cf_options c') = sm_find (cf_options (config_set k v c)) ++ map_of (options_of es)" using Cons.IH [OF es] by blast
    have "sm_find (cf_options c') = sm_find (cf_options c) ++ map_of (options_of (e # es))"
      unfolding c'(2) config_set_options Setting by (rule ext) (simp add: map_add_def split: option.split)
    then show ?thesis using c'(1) l Setting by simp
  next
    case (Comment s)
    then show ?thesis using Cons.IH [OF es, of c] l by simp
  qed
qed simp

section \<open>Numbers\<close>

lemma atoi_numeral: "n < 2 ^ 31 \<Longrightarrow> atoi (numeral_of 10 n) = int n"
proof -
  assume n: "n < 2 ^ 31"
  let ?cs = "numeral_of 10 n"
  have all: "list_all (is_digit 10) ?cs" by (rule numeral_digits) simp_all
  obtain c cs where cs: "?cs = c # cs" using numeral_nonempty by (cases ?cs) auto
  have c: "\<not> is_space c" "c \<noteq> CHR ''-''" "c \<noteq> CHR ''+''" using all cs digit_not_special [of 10 c] by auto
  have "strtol10 ?cs = int n"
    using c n numeral_value [of 10 n] takeWhile_all [OF all] unfolding cs by (simp add: strtol10_def Let_def)
  then show ?thesis using n by (simp add: atoi_def signed_of_int signed_take_bit_int_eq_self del: of_int_of_nat_eq)
qed

text \<open>The numbers are those of the options.\<close>

definition numbers_ok :: "int \<Rightarrow> Config \<Rightarrow> bool" where
  "numbers_ok junk c \<longleftrightarrow>
     (let num = (\<lambda>d k. case sm_find (cf_options c) k of None \<Rightarrow> d | Some v \<Rightarrow> atoi v)
      in cf_channels c = num junk ''channels'' \<and> cf_ranks c = num junk ''ranks'' \<and> cf_subarrays c = num junk ''subarrays'' \<and>
         cf_cpu_tick c = num junk ''cpu_tick'' \<and> cf_mem_tick c = num junk ''mem_tick'' \<and>
         cf_expected_limit_insts c = num 0 ''expected_limit_insts'' \<and> cf_warmup_insts c = num 0 ''warmup_insts'')"

lemma set_numbers: "numbers_ok junk c \<Longrightarrow> numbers_ok junk (config_set k v c)"
proof (cases "k \<in> {''channels'', ''ranks'', ''subarrays'', ''cpu_tick'', ''mem_tick'', ''expected_limit_insts'', ''warmup_insts''}")
  case True
  assume "numbers_ok junk c"
  with True show ?thesis by (elim insertE emptyE) (simp_all add: numbers_ok_def Let_def config_set_def)
next
  case False
  assume "numbers_ok junk c"
  moreover have "''channels'' \<noteq> k" "''ranks'' \<noteq> k" "''subarrays'' \<noteq> k" "''cpu_tick'' \<noteq> k" "''mem_tick'' \<noteq> k"
    "''expected_limit_insts'' \<noteq> k" "''warmup_insts'' \<noteq> k" using False by auto
  ultimately show ?thesis using False by (simp add: numbers_ok_def Let_def config_set_def)
qed

lemma parse_numbers: "fold_r config_line ls c = Inr c' \<Longrightarrow> numbers_ok junk c \<Longrightarrow> numbers_ok junk c'"
  by (erule fold_r_inv, assumption) (auto simp: config_line_def Let_def set_numbers split: if_splits)

lemma new_numbers: "numbers_ok junk (Config_new junk)"
  by (simp add: numbers_ok_def Config_new_def sm_find_def)

section \<open>The memory\<close>

lemma DDR4_returns: "\<exists>s. DDR4_new org speed = Inr s"
proof -
  have "rate (speed_table speed) \<in> {1600, 1866, 2133, 2400, 3200}" by (cases speed) (simp_all add: speed_row_def)
  moreover have "org_size (org_table org) div 1024 \<in> {2, 4, 8}" by (cases org) simp_all
  ultimately show ?thesis unfolding DDR4_new_def init_speed_def Let_def
    by (auto simp del: if_split split: option.split if_split_asm)
qed

lemma make_memory_returns: "\<exists>m. make_memory org speed (2 ^ a) (2 ^ b) = Inr m"
proof -
  obtain s where s: "DDR4_new org speed = Inr s" using DDR4_returns by blast
  obtain bg row where org: "org_count (org_entry s) = [0, 0, 2 ^ bg, 4, 2 ^ row, 1024]"
    using org_rows DDR4_new_org [OF s] by metis
  have "trunc_div (8 * 64) 8 = 64" by (simp add: trunc_div_def)
  then show ?thesis using DDR4_new_org [OF s] org
    by (simp add: make_memory_def s Let_def Memory_new_def set_rank_number_def set_channel_number_def is_pow2_or_0_def)
qed

section \<open>Properties\<close>

text \<open>C39.  The numbers of a configuration are those of its file: after reading any file, each number is what \<^verbatim>\<open>atoi\<close> gives for the
  option of its name.  A number whose option is missing keeps what it held: for the channels, the ranks, the subarrays and the two
  tick ratios that is not initialised.\<close>

theorem config_numbers_agree:
  assumes "Config_parse file (Config_new junk) = Inr c"
  shows "let num = (\<lambda>d k. case sm_find (cf_options c) k of None \<Rightarrow> d | Some v \<Rightarrow> atoi v)
      in cf_channels c = num junk ''channels'' \<and> cf_ranks c = num junk ''ranks'' \<and> cf_subarrays c = num junk ''subarrays'' \<and>
         cf_cpu_tick c = num junk ''cpu_tick'' \<and> cf_mem_tick c = num junk ''mem_tick'' \<and>
         cf_expected_limit_insts c = num 0 ''expected_limit_insts'' \<and> cf_warmup_insts c = num 0 ''warmup_insts''"
proof -
  obtain ls where "fold_r config_line ls (Config_new junk) = Inr c" using assms by (auto simp: Config_parse_def split: option.splits)
  from parse_numbers [OF this new_numbers] show ?thesis by (simp add: numbers_ok_def)
qed

definition sample_config :: "config_entry list" where
  "sample_config =
     [Comment '' channels = 1'', Setting ''standard'' ''DDR4'', Setting ''channels'' ''4'', Setting ''ranks'' ''16'',
      Setting ''speed'' ''DDR4_3200'', Setting ''org'' ''DDR4_8Gb_x4'']"

theorem config_numbers_agree_witness:
  "\<exists>c. Config_parse (Some (map print_entry sample_config)) (Config_new 7) = Inr c \<and> cf_ranks c = 16 \<and> cf_mem_tick c = 7"
proof -
  have r: "(case Config_parse (Some (map print_entry sample_config)) (Config_new 7) of Inl e \<Rightarrow> False
      | Inr c \<Rightarrow> sm_find (cf_options c) ''ranks'' = Some ''16'' \<and> sm_find (cf_options c) ''mem_tick'' = None)" "atoi ''16'' = 16"
    by code_simp+
  then obtain c where c: "Config_parse (Some (map print_entry sample_config)) (Config_new 7) = Inr c"
    "sm_find (cf_options c) ''ranks'' = Some ''16''" "sm_find (cf_options c) ''mem_tick'' = None" by (auto split: sum.splits)
  then show ?thesis using config_numbers_agree [OF c(1)] r(2) by (simp add: Let_def)
qed

text \<open>C37.  Reading back a configuration: a file of comments and of lines \<^verbatim>\<open>key = value\<close>, whose words are not empty and hold no
  delimiter, is read without an error, and every option has the last of the values the file gives it.\<close>

theorem config_round_trip:
  assumes "list_all entry_plain es"
  shows "\<exists>c. Config_parse (Some (map print_entry es)) (Config_new junk) = Inr c \<and>
    (\<forall>k. config_get c k = (case map_of (options_of es) k of Some v \<Rightarrow> v | None \<Rightarrow> [])) \<and>
    (\<forall>k. config_contains c k \<longleftrightarrow> k \<in> fst ` set (options_of es))"
proof -
  obtain c where c: "fold_r config_line (map print_entry es) (Config_new junk) = Inr c"
    "sm_find (cf_options c) = sm_find (cf_options (Config_new junk)) ++ map_of (options_of es)"
    using parse_entries [OF assms] by blast
  then have f: "sm_find (cf_options c) = map_of (options_of es)" by (simp add: Config_new_def sm_find_def map_add_def fun_eq_iff split: option.splits)
  have "config_contains c k \<longleftrightarrow> k \<in> fst ` set (options_of es)" for k unfolding config_contains_def f map_of_eq_None_iff by simp
  then show ?thesis using c(1) f by (auto simp: Config_parse_def config_get_def)
qed

theorem config_round_trip_witness:
  "\<exists>c. Config_parse (Some (map print_entry sample_config)) (Config_new 7) = Inr c \<and> config_get c ''channels'' = ''4'' \<and> config_get c ''cache'' = []"
proof -
  have "list_all entry_plain sample_config" by (simp add: sample_config_def is_word_def is_delim_def)
  from config_round_trip [OF this, of 7] show ?thesis by (auto simp: sample_config_def)
qed


text \<open>C36.  From the file to the memory: a file whose last values for the channels and the ranks are powers of two, and that does not set the trace
  type, gives a memory with so many channels and ranks, of the organisation and the speed grade it names.\<close>

theorem config_builds_memory:
  assumes "list_all entry_plain es" "map_of (options_of es) ''channels'' = Some (numeral_of 10 (2 ^ a))" "a < 31"
    and "map_of (options_of es) ''ranks'' = Some (numeral_of 10 (2 ^ b))" "b < 31" "map_of (options_of es) ''trace_type'' = None"
    and "map_of (options_of es) ''org'' = Some org" "map_of (options_of es) ''speed'' = Some speed"
  shows "\<exists>m. memory_of_config (Some (map print_entry es)) junk = Inr m \<and> make_memory (org_map org) (speed_map speed) (2 ^ a) (2 ^ b) = Inr m \<and>
    length (me_ctrls m) = 2 ^ a \<and> org_count (org_entry (me_spec m)) ! level_ix Rank = 2 ^ b"
proof -
  obtain c where c: "fold_r config_line (map print_entry es) (Config_new junk) = Inr c"
    "sm_find (cf_options c) = sm_find (cf_options (Config_new junk)) ++ map_of (options_of es)"
    using parse_entries [OF assms(1)] by blast
  then have f: "sm_find (cf_options c) = map_of (options_of es)" by (simp add: Config_new_def sm_find_def map_add_def fun_eq_iff split: option.splits)
  let ?c = "config_add ''trace_type'' ''DRAM'' (set_core_num 1 (config_add ''mapping'' ''defaultmapping'' c))"
  have pow: "(2 :: nat) ^ a < 2 ^ 31" "(2 :: nat) ^ b < 2 ^ 31" using assms(3,5) by (simp_all only: power_strict_increasing_iff)
  have n: "cf_channels c = 2 ^ a" "cf_ranks c = 2 ^ b"
    using parse_numbers [OF c(1) new_numbers] f assms(2,4) atoi_numeral [OF pow(1)] atoi_numeral [OF pow(2)] by (simp_all add: numbers_ok_def Let_def)
  have g: "config_get ?c ''org'' = org" "config_get ?c ''speed'' = speed" "config_get ?c ''trace_type'' = ''DRAM''" "cf_channels ?c = 2 ^ a" "cf_ranks ?c = 2 ^ b"
    using f n assms(6-8) by (simp_all add: config_get_def config_add_def set_core_num_def config_contains_def sm_insert_def)
  obtain m where m: "make_memory (org_map org) (speed_map speed) (2 ^ a) (2 ^ b) = Inr m" using make_memory_returns by blast
  have "memory_of_config (Some (map print_entry es)) junk = Inr m"
    using c(1) g m by (simp add: memory_of_config_def ramulator_config_def Config_parse_def)
  moreover have "length (me_ctrls m) = 2 ^ a \<and> org_count (org_entry (me_spec m)) ! level_ix Rank = 2 ^ b"
    by (rule make_memory_shape [OF m]) (auto simp: power_inject_exp)
  ultimately show ?thesis using m by blast
qed

theorem config_builds_memory_witness:
  "\<exists>m. memory_of_config (Some (map print_entry sample_config)) 0 = Inr m \<and> make_memory DDR4_8Gb_x4 DDR4_3200 4 16 = Inr m \<and> length (me_ctrls m) = 4"
proof -
  have s: "list_all entry_plain sample_config" by (simp add: sample_config_def is_word_def is_delim_def)
  have n: "numeral_of 10 (2 ^ 2) = ''4''" "numeral_of 10 (2 ^ 4) = ''16''" "org_map ''DDR4_8Gb_x4'' = DDR4_8Gb_x4" "speed_map ''DDR4_3200'' = DDR4_3200"
    by code_simp+
  from config_builds_memory [OF s, of 2 4 "''DDR4_8Gb_x4''" "''DDR4_3200''" 0] show ?thesis unfolding n by (simp add: sample_config_def) blast
qed

end
