(* ===== verification/Spec2Isabelle.thy ===== *)
theory Spec2Isabelle
  imports CXL_Device_Flow CXL_Bus_Timing CXL_Host_Retire CXL_Fabric CXL_Completion CXL_Skip
    Ram_Flow Ram_Timing Ram_Issue Ram_Sched Ram_Progress Ram_Pages Ram_Config
begin

text \<open>
  Verification of \<^verbatim>\<open>cxlsim\<close>, the simulator of CXL-attached memory in \<^verbatim>\<open>src/cxlsim\<close>, with the DDR4 model of
  Ramulator it contains.  Paths below are relative to \<^verbatim>\<open>src/cxlsim\<close>.

  \<^bold>\<open>The program.\<close>  \<^verbatim>\<open>src/Main.cpp\<close> builds a system of one host, one switch and one memory device, and ticks it
  until every line of a memory trace has been served.  A host (\<^verbatim>\<open>src/CXLHost.cpp\<close>) reads the trace, sends a request
  to its direct-attached memory or packs it with others into flits; a link (\<^verbatim>\<open>src/CXLBus.cpp\<close>) carries the
  flits to the switch (\<^verbatim>\<open>src/CXLSwitch.cpp\<close>), which routes them to the devices by address and merges what comes
  back; a device (\<^verbatim>\<open>src/CXLDevice.cpp\<close>) unpacks them, has the requests served by its DRAM and packs the responses;
  the host unpacks those and retires the requests.  Credits bound the messages in flight.  The DRAM behind
  a device and behind a host is \<^verbatim>\<open>Memory<DDR4, Controller>\<close> of \<^verbatim>\<open>ramulator/src\<close>: address mapping, one controller per
  channel with queues, scheduler, row table and refresh, and a tree of nodes that enforces the timing of DDR4.

  \<^bold>\<open>How it is modelled.\<close>  Every class is a record of its members and every method a function from the state to
  a result and the new state.  Integers of the C++ code that stay small are \<open>int\<close>; ids, addresses and
  counters that wrap are 64-bit words (\<open>u64\<close>), size comparisons go through \<open>to_size_t\<close>.  A failed assertion, an
  empty container that is read and a null pointer are errors, the left side of \<open>result\<close>
  (\<open>CXL_Prelude\<close>); \<open>bind_r\<close> threads them.  Globals of the program are the record \<open>globals\<close>.  What a constructor
  leaves uninitialised is an argument (\<open>uninit\<close>, \<open>se_junk\<close>).  \<^verbatim>\<open>double\<close> and \<^verbatim>\<open>float\<close> are rationals
  rounded to 53 and 24 bits.  The build flag \<^verbatim>\<open>SKIP_CYCLE\<close> is the boolean argument \<open>skip\<close>; the
  model is of a build without \<^verbatim>\<open>EVENTLOG\<close>, \<^verbatim>\<open>DUMP\<close> and \<^verbatim>\<open>TRACK_LATENCY\<close>.  The memory behind a node is a record of
  operations (\<open>mem_ops\<close>), so that the CXL layer is verified for every memory that keeps the contract
  \<open>conserving_memory\<close>; \<open>ramulator_ops\<close> is the DRAM of the program.

  \<^bold>\<open>Theories.\<close>
  \<^item> Shared: \<open>CXL_Prelude\<close> (results, words, floats), \<open>Std_Map\<close> (\<^verbatim>\<open>std::map\<close>), \<open>CXL_Buf\<close> (\<^verbatim>\<open>include/CXLBuf.h\<close>),
    \<open>CXL_Flit\<close> (\<^verbatim>\<open>include/message.h\<close>, \<^verbatim>\<open>include/flit.h\<close>), \<open>CXL_Params\<close> (\<^verbatim>\<open>include/CXLParams.h\<close>), \<open>CXL_If\<close> (the request buffer
    in front of the DRAM, \<^verbatim>\<open>ramulator/src/CXLInterface.cpp\<close>).
  \<^item> Protocol: \<open>CXL_Wire\<close> (which flits are legal after which rollover, the slot-filling discipline), \<open>CXL_Recv\<close> (what
    unpacking must deliver), \<open>CXL_Node\<close> (what the end nodes share).
  \<^item> Link: \<open>CXL_Bus\<close>, \<open>CXL_Bus_Timing\<close>.
  \<^item> Device: \<open>CXL_Device\<close> (the whole tick), \<open>CXL_Device_Pack\<close>, \<open>CXL_Device_Unpack\<close>, \<open>CXL_Device_Flow\<close>.
  \<^item> Host: \<open>CXL_Host\<close>, \<open>CXL_Host_Pack\<close>, \<open>CXL_Host_Reg\<close>, \<open>CXL_Host_Unpack\<close>, \<open>CXL_Host_Retire\<close>; \<open>CXL_DAM\<close>
    (\<^verbatim>\<open>ramulator/src/DirectAttached.cpp\<close>), \<open>CXL_Parse\<close> and \<open>CXL_Trace\<close> (trace reader and tick), \<open>CXL_Skip\<close> (skipped time).
  \<^item> Switch: \<open>CXL_Switch\<close>, \<open>CXL_Switch_Flow\<close>, \<open>CXL_Fabric\<close> (the switch with the streams of the nodes).
  \<^item> System: \<open>CXL_Sys\<close> (\<^verbatim>\<open>src/CXLSys.cpp\<close>, \<^verbatim>\<open>src/Main.cpp\<close>), \<open>CXL_Books\<close>, \<open>CXL_Ledger\<close>, \<open>CXL_Completion\<close> (the requests of a
    whole run).
  \<^item> DRAM: \<open>Ram_DDR4\<close> (\<^verbatim>\<open>DDR4.cpp\<close>), \<open>Ram_DRAM\<close> (\<^verbatim>\<open>DRAM.h\<close>), \<open>Ram_Ctrl\<close> (\<^verbatim>\<open>Controller.h\<close>, \<^verbatim>\<open>Scheduler.h\<close>, \<^verbatim>\<open>Refresh.h\<close>),
    \<open>Ram_Memory\<close> (\<^verbatim>\<open>Memory.h\<close>), \<open>Ram_Pages\<close> (its page allocator), \<open>Ram_Config\<close> (\<^verbatim>\<open>Config.cpp\<close> and the start of \<^verbatim>\<open>RamDevice.cpp\<close>);
    \<open>Ram_Flow\<close>, \<open>Ram_Timing\<close>, \<open>Ram_Issue\<close>, \<open>Ram_Sched\<close>, \<open>Ram_Live\<close>, \<open>Ram_Map\<close>, \<open>Ram_Tree\<close> (the shape of the tree), \<open>Ram_Safe\<close> (no
    operation aborts) and \<open>Ram_Progress\<close> (the controller is not stuck) hold what is proved of them, \<open>CXL_Mem\<close> the contract with the CXL layer.

  \<^bold>\<open>Interfaces.\<close>  \<open>bounded_fifo\<close> is the contract of a bounded queue, interpreted on \<^verbatim>\<open>CXLBuf\<close>, the request buffer and the
  link; \<open>finite_map\<close> that of \<^verbatim>\<open>std::map\<close>; the slot-filling discipline of \<open>CXL_Wire\<close> is interpreted on both packers, the
  receiver of \<open>CXL_Recv\<close> on both unpackers; \<open>conserving_memory\<close> on the DRAM model (\<open>Ram_Flow\<close>).

  \<^bold>\<open>What is shown.\<close>
  \<^item> End to end: when the main loop ends, every line of the trace was completed exactly once and nothing is
    outstanding (\<open>main_completes_trace\<close>; with the DRAM of the program below).  The
    invariant is a ledger: requests made = requests completed + ids that wait or are outstanding.
  \<^item> Packers: they never abort, every flit they send is legal after the one before it, and they neither lose nor
    duplicate messages.  The host sends flits for one device at a time.
  \<^item> Unpackers: they accept exactly the legal flits and deliver every message of them, in order.
  \<^item> Device: a tick keeps the multiset of transactions; the skip checks of \<^verbatim>\<open>SKIP_CYCLE\<close> skip only work that would do
    nothing.
  \<^item> Link: a flit arrives exactly the latency after it was sent, in order, and transmitters keep it spaced.
  \<^item> Switch: each device gets the flits addressed to it, in order, as a legal stream; the merged stream to
    the host is legal.
  \<^item> Host: registration routes every interval, a response retires one request and returns its credit; trace lines
    parse to what they were printed from; the skipped memory cycles are exactly the multiples of 6.
  \<^item> DRAM: every accepted request is completed once; the controller never violates a timing constraint of the
    standard and issues at most one command per cycle; the scheduler takes the best request;
    reads return when due; addresses map to existing places, one to one up to the capacity.  No assertion of the
    model fails except the one on a full refresh queue: tree, row table and the requests being served always agree.  A
    controller with work issues a command within the longest constraint of the timing table.
  \<^item> Page allocator and configuration: the search for a page ends, translation keeps pages apart until they run out; a configuration
    file is read back to its options and gives the memory it names.

  \<^bold>\<open>Loops and fuel.\<close>  Loops over containers are structural recursion or folds.  Two loops may run forever: \<open>sim_loop\<close> (the main
  loop) and \<open>run_trace\<close> take the number of ticks they may use and return \<open>None\<close> if it does not suffice;
  statements about their results hold for every such number.  The search of the page allocator is a partial function, proved to return.  That the main loop ends is
  not claimed: it depends on the trace and on the DRAM serving every request.

  \<^bold>\<open>Not modelled.\<close>  Printing, CSV output and event logs, which do not feed back into the state.  The statistics of Ramulator that are only
  printed, its other DRAM standards and front ends (\<^verbatim>\<open>Processor\<close>, \<^verbatim>\<open>Cache\<close>), and the address
  mapping from a file, which \<^verbatim>\<open>cxlsim\<close> does not use; row policies other than \<^verbatim>\<open>Opened\<close>, the one the class fixes.  Outside \<^verbatim>\<open>src/cxlsim\<close>: the Hyrise
  database, Pin, Sniper and the scripts, which produce the traces.
\<close>

section \<open>The simulator with its DRAM\<close>

text \<open>The DRAM model keeps the contract, so a run of the program with it completes its trace.\<close>

corollary main_completes_trace_dram:
  assumes "make_memory org speed C R = Inr (se_memory e 7)" "length trace < 2 ^ 64"
    and "main_run e ramulator_ops skip trace n = Inr (Some (inactive, g, sy))"
  shows "num_reqs_completed g = of_nat (length trace) \<and> ho_messages_sent_to_device (sy_hosts sy ! 0) = [] \<and>
    ho_reqs_in_dam (sy_hosts sy ! 0) = [] \<and> me_held (rd_memory (da_ram (sy_DAMs sy ! 0))) = {#}"
  using conserving_memory.main_run_ok [OF ram.conserving_memory_axioms assms(3,2) make_memory_empty [OF assms(1)]]
  by blast

end
